(* ===== verification/Cobalt_Prelude.thy ===== *)
theory Cobalt_Prelude
  imports Main "HOL-Library.Word" "HOL-Library.AList" "HOL-Library.Multiset" "HOL-Library.Countable"
begin

text \<open>
  Shared vocabulary of the development: the machine integer types of the C++ sources, the
  status enumeration of \<^verbatim>\<open>src/src/logger/status.h\<close>, and generic facts on association
  lists and words that the component theories use.

  Conventions used throughout.

  \<^item> \<open>uint32_t\<close>, \<open>uint64_t\<close> and \<open>size_t\<close> are \<open>32 word\<close> and \<open>64 word\<close> where wrap-around can be
    reached; \<open>int64_t\<close> is a \<open>64 word\<close> read by \<open>sint\<close> and compared by the signed orders.
    Loop counters with a small constant bound are \<open>nat\<close>.
  \<^item> A protobuf \<open>map<K,V>\<close> (iteration order unspecified) and a \<open>std::map\<close> is an association list
    with distinct keys; the order of the list is the order in which the container is iterated, so a
    theorem for all lists holds for every iteration order.
  \<^item> Logging (\<open>LOG\<close>, \<open>VLOG\<close>, \<open>TRACE_DURATION\<close>) has no effect on the state and is left out.
\<close>

section \<open>Machine integers\<close>

type_synonym u8 = "8 word"
type_synonym u32 = "32 word"
type_synonym u64 = "64 word"
type_synonym i64 = "64 word"

text \<open>Signed addition that stays in range does not wrap.\<close>

lemma sint_plus_in_range:
  fixes a b :: i64
  assumes "- (2 ^ 63) \<le> sint a + sint b" and "sint a + sint b < 2 ^ 63"
  shows "sint (a + b) = sint a + sint b"
  using assms by (simp add: sint_word_ariths signed_take_bit_int_eq_self)

lemma sint_of_small:
  fixes b :: u64
  assumes "uint b < 2 ^ 63"
  shows "sint b = uint b"
proof -
  have "- (2 ^ 63) \<le> uint b" by (rule order_trans [OF _ uint_ge_0]) simp
  with assms show ?thesis by (simp add: sint_uint signed_take_bit_int_eq_self)
qed

lemma sint_plus_small:
  fixes a b :: i64
  assumes "uint b < 2 ^ 63" and "sint a + uint b < 2 ^ 63"
  shows "sint (a + b) = sint a + uint b"
proof -
  have "- (2 ^ 63) \<le> sint a" using sint_ge [of a] by simp
  then have "- (2 ^ 63) \<le> sint a + uint b" using uint_ge_0 [of b] by linarith
  then have "- (2 ^ 63) \<le> sint a + sint b" using assms(1) by (simp add: sint_of_small)
  with assms show ?thesis by (simp add: sint_plus_in_range sint_of_small)
qed

text \<open>Unsigned increments and differences that do not wrap.\<close>

lemma unat_plus1:
  fixes x y :: "'a :: len word"
  assumes "x < y"
  shows "unat (x + 1) = unat x + 1"
proof -
  have "unat x + 1 \<le> unat y" using assms by (simp add: word_less_nat_alt)
  also have "unat y < 2 ^ LENGTH('a)" by (rule unsigned_less)
  finally show ?thesis by (simp add: unat_word_ariths)
qed

lemma unat_minus:
  fixes x y :: "'a :: len word"
  shows "y \<le> x \<Longrightarrow> unat (x - y) = unat x - unat y"
  by (rule unat_sub)

named_theorems cobalt_simps \<open>unfolding rules shared by the component proofs\<close>

section \<open>Status\<close>

datatype Status = kOK | kInvalidArguments | kInvalidConfig | kTooBig | kFull | kOther

text \<open>A \<open>for\<close> loop whose body makes the function return when its status is not \<open>kOK\<close>.\<close>

fun for_each :: "('a \<Rightarrow> 's \<Rightarrow> Status \<times> 's) \<Rightarrow> 'a list \<Rightarrow> 's \<Rightarrow> Status \<times> 's" where
  "for_each body [] s = (kOK, s)"
| "for_each body (x # xs) s =
     (case body x s of (st, s) \<Rightarrow> if st \<noteq> kOK then (st, s) else for_each body xs s)"

lemma for_each_append:
  "for_each f (xs @ ys) s = (case for_each f xs s of (st, s) \<Rightarrow> if st \<noteq> kOK then (st, s) else for_each f ys s)"
  by (induction xs arbitrary: s) (auto split: prod.splits)

lemma for_each_cong [fundef_cong]:
  "xs = ys \<Longrightarrow> s = t \<Longrightarrow> (\<And>x u. x \<in> set ys \<Longrightarrow> f x u = g x u) \<Longrightarrow> for_each f xs s = for_each g ys t"
  by (induction xs arbitrary: ys s t) (auto split: prod.splits)

section \<open>Association lists as the maps of the sources\<close>

text \<open>\<open>m[k] = v\<close>.\<close>

abbreviation map_set :: "'k \<Rightarrow> 'v \<Rightarrow> ('k \<times> 'v) list \<Rightarrow> ('k \<times> 'v) list" where
  "map_set \<equiv> AList.update"

abbreviation distinct_keys :: "('k \<times> 'v) list \<Rightarrow> bool" where
  "distinct_keys m \<equiv> distinct (map fst m)"

text \<open>\<open>(*m)[k]\<close> of a protobuf map or a \<open>std::map\<close>: the entry, default-constructed when absent.\<close>

definition map_get :: "'v \<Rightarrow> ('k \<times> 'v) list \<Rightarrow> 'k \<Rightarrow> 'v" where
  "map_get d m k = (case map_of m k of None \<Rightarrow> d | Some v \<Rightarrow> v)"

lemma map_of_map_set [simp]: "map_of (map_set k v m) = (map_of m)(k \<mapsto> v)"
  by (rule update_conv')

lemma distinct_keys_map_set: "distinct_keys m \<Longrightarrow> distinct_keys (map_set k v m)"
  by (rule distinct_update)

lemma map_get_map_set [simp]:
  "map_get d (map_set k v m) k' = (if k' = k then v else map_get d m k')"
  by (simp add: map_get_def)

lemma map_get_Nil [simp]: "map_get d [] k = d"
  by (simp add: map_get_def)

lemma map_get_Some: "map_of m k = Some v \<Longrightarrow> map_get d m k = v"
  by (simp add: map_get_def)

lemma map_get_None: "map_of m k = None \<Longrightarrow> map_get d m k = d"
  by (simp add: map_get_def)

section \<open>Decimal numbers\<close>

text \<open>What an output stream prints for an unsigned and a signed integer.\<close>

definition digit :: "nat \<Rightarrow> char" where
  "digit n = char_of (48 + n)"

fun decimal :: "nat \<Rightarrow> string" where
  "decimal n = (if n < 10 then [digit n] else decimal (n div 10) @ [digit (n mod 10)])"

declare decimal.simps [simp del]

definition decimal_int :: "int \<Rightarrow> string" where
  "decimal_int i = (if i < 0 then CHR ''-'' # decimal (nat (- i)) else decimal (nat i))"

lemma digit_simps:
  "digit 0 = CHR ''0''" "digit (Suc 0) = CHR ''1''" "digit 2 = CHR ''2''" "digit 3 = CHR ''3''" "digit 4 = CHR ''4''"
  "digit 5 = CHR ''5''" "digit 6 = CHR ''6''" "digit 7 = CHR ''7''" "digit 8 = CHR ''8''" "digit 9 = CHR ''9''"
  by code_simp+

section \<open>An example codec\<close>

text \<open>Serialisation by protobuf is a parameter of the model. The following codec shows that the hypotheses on it can
  hold: the number of the message, in unary, and a terminator.\<close>

instance word :: (len) countable
  by (rule countable_classI [of unat]) (simp add: word_unat_eq_iff)

definition unary_ser :: "'a :: countable \<Rightarrow> u8 list" where
  "unary_ser r = replicate (to_nat r) 1 @ [0]"

definition unary_parse :: "u8 list \<Rightarrow> ('a :: countable \<times> u8 list) option" where
  "unary_parse bs =
     (case dropWhile (\<lambda>b. b = 1) bs of
        [] \<Rightarrow> None
      | b # rest \<Rightarrow> Some (from_nat (length (takeWhile (\<lambda>b. b = 1) bs)), rest))"

lemma unary_parse_ser [simp]: "unary_parse (unary_ser m @ bs) = Some (m, bs)"
  by (simp add: unary_ser_def unary_parse_def dropWhile_append takeWhile_append)

lemma inj_unary_ser: "inj unary_ser"
  by (rule injI) (metis unary_parse_ser append_Nil2 option.inject prod.inject)

section \<open>Evaluation\<close>

lemma replicate_numeral [simp]: "replicate (numeral v) x = x # replicate (pred_numeral v) x"
  by (simp add: numeral_eq_Suc)

end
