(* ===== verification/Packed_Event_Codes.thy ===== *)
theory Packed_Event_Codes
  imports Cobalt_Prelude
begin

text \<open>
  Packing of a list of event codes into one \<open>uint64_t\<close>:
  \<^verbatim>\<open>src/src/registry/packed_event_codes.h\<close> and \<^verbatim>\<open>.cc\<close>. Version 0 stores five codes of ten
  bits, version 1 four codes of fifteen bits; the version is in the top four bits. The lemmas
  describe the packed word bit by bit; the properties are the round trips for both versions and
  that packing never sets a reserved bit.
\<close>

unbundle bit_operations_syntax

definition kEventCodeMask :: u64 where "kEventCodeMask = 0b1111111111"
definition kV1EventCodeMask :: u64 where "kV1EventCodeMask = 0b111111111111111"
definition kVersionHeaderOffset :: nat where "kVersionHeaderOffset = 60"
definition kV0NumEventCodes :: nat where "kV0NumEventCodes = 5"
definition kV0MaxEventCodeSize :: u32 where "kV0MaxEventCodeSize = 1024"
definition kV0EventCodeSize :: nat where "kV0EventCodeSize = 10"
definition kV1NumEventCodes :: nat where "kV1NumEventCodes = 4"
definition kV1EventCodeSize :: nat where "kV1EventCodeSize = 15"

lemmas packed_consts [cobalt_simps] =
  kEventCodeMask_def kV1EventCodeMask_def kVersionHeaderOffset_def kV0NumEventCodes_def
  kV0MaxEventCodeSize_def kV0EventCodeSize_def kV1NumEventCodes_def kV1EventCodeSize_def

definition kVersionHeaderMask :: u64 where
  "kVersionHeaderMask = push_bit kVersionHeaderOffset 0b1111"

text \<open>The \<open>for\<close> loops of the two packing templates: \<open>i\<close> is the position, \<open>p\<close> the word so far.\<close>

fun PackEventCodes_v1_loop :: "nat \<Rightarrow> u64 \<Rightarrow> u32 list \<Rightarrow> u64" where
  "PackEventCodes_v1_loop i p [] = p"
| "PackEventCodes_v1_loop i p (code # codes) =
     (if i \<ge> kV1NumEventCodes then p
      else PackEventCodes_v1_loop (i + 1)
             (p OR push_bit (kV1EventCodeSize * i) (ucast code AND kV1EventCodeMask)) codes)"

definition PackEventCodes_v1 :: "u32 list \<Rightarrow> u64" where
  "PackEventCodes_v1 event_codes = PackEventCodes_v1_loop 0 (push_bit kVersionHeaderOffset 1) event_codes"

fun PackEventCodes_loop :: "u32 list \<Rightarrow> nat \<Rightarrow> u64 \<Rightarrow> u32 list \<Rightarrow> u64" where
  "PackEventCodes_loop event_codes i p [] = p"
| "PackEventCodes_loop event_codes i p (code # codes) =
     (if i \<ge> kV0NumEventCodes then p
      else if code \<ge> kV0MaxEventCodeSize then PackEventCodes_v1 event_codes
      else PackEventCodes_loop event_codes (i + 1)
             (p OR push_bit (kV0EventCodeSize * i) (ucast code AND kEventCodeMask)) codes)"

definition PackEventCodes :: "u32 list \<Rightarrow> u64" where
  "PackEventCodes event_codes = PackEventCodes_loop event_codes 0 0 event_codes"

definition ReadVersion :: "u64 \<Rightarrow> u32" where
  "ReadVersion packed = ucast (drop_bit kVersionHeaderOffset (packed AND kVersionHeaderMask))"

text \<open>The loop that fills the result vector, for one mask, count and field width.\<close>

definition unpack_fields :: "u64 \<Rightarrow> u64 \<Rightarrow> nat \<Rightarrow> nat \<Rightarrow> u32 list" where
  "unpack_fields packed code_mask num sz =
     map (\<lambda>i. ucast (drop_bit (sz * i) (packed AND push_bit (sz * i) code_mask))) [0..<num]"

definition UnpackEventCodes :: "u64 \<Rightarrow> u32 list" where
  "UnpackEventCodes packed =
     (if ReadVersion packed = 0
      then unpack_fields packed kEventCodeMask kV0NumEventCodes kV0EventCodeSize
      else if ReadVersion packed = 1
      then unpack_fields packed kV1EventCodeMask kV1NumEventCodes kV1EventCodeSize
      else [0, 0, 0, 0, 0])"

subsection \<open>The packed word, bit by bit\<close>

lemmas packed_sizes = kVersionHeaderOffset_def kV0NumEventCodes_def kV0MaxEventCodeSize_def
  kV0EventCodeSize_def kV1NumEventCodes_def kV1EventCodeSize_def

lemma kEventCodeMask_mask: "kEventCodeMask = mask 10"
  by (simp add: kEventCodeMask_def mask_eq_exp_minus_1)

lemma kV1EventCodeMask_mask: "kV1EventCodeMask = mask 15"
  by (simp add: kV1EventCodeMask_def mask_eq_exp_minus_1)

lemma kVersionHeaderMask_mask: "kVersionHeaderMask = push_bit 60 (mask 4)"
  by (simp add: kVersionHeaderMask_def kVersionHeaderOffset_def mask_eq_exp_minus_1)

lemmas packed_masks = kEventCodeMask_mask kV1EventCodeMask_mask kVersionHeaderMask_mask

definition packed_bit :: "nat \<Rightarrow> nat \<Rightarrow> nat \<Rightarrow> u32 list \<Rightarrow> nat \<Rightarrow> bool" where
  "packed_bit num sz i codes n \<longleftrightarrow>
     (\<exists>j < length codes. i + j < num \<and> sz * (i + j) \<le> n \<and> n < sz * (i + j) + sz \<and>
        bit (codes ! j) (n - sz * (i + j)))"

lemma packed_bit_Nil [simp]: "\<not> packed_bit num sz i [] n"
  by (simp add: packed_bit_def)

lemma packed_bit_Cons:
  "packed_bit num sz i (c # cs) n \<longleftrightarrow>
     (i < num \<and> sz * i \<le> n \<and> n < sz * i + sz \<and> bit c (n - sz * i)) \<or>
     packed_bit num sz (Suc i) cs n"
  by (simp only: packed_bit_def list.size add_0_right add_Suc_right One_nat_def Ex_less_Suc2) simp

lemma packed_bit_full: "num \<le> i \<Longrightarrow> \<not> packed_bit num sz i cs n"
  by (simp add: packed_bit_def)

lemma bit_field:
  fixes code :: u32
  assumes "sz * i + sz \<le> 64"
  shows "bit (push_bit (sz * i) (ucast code AND mask sz) :: u64) n \<longleftrightarrow>
    sz * i \<le> n \<and> n < sz * i + sz \<and> bit code (n - sz * i)"
  using assms by (auto simp: bit_simps dest: bit_imp_le_length)

lemma bit_PackEventCodes_v1_loop:
  "bit (PackEventCodes_v1_loop i p codes) n \<longleftrightarrow> bit p n \<or> packed_bit 4 15 i codes n"
proof (induction i p codes rule: PackEventCodes_v1_loop.induct)
  case (2 i p code codes)
  then show ?case
    by (cases "4 \<le> i")
      (auto simp: packed_sizes packed_masks packed_bit_full packed_bit_Cons bit_field bit_or_iff simp del: push_bit_and)
qed simp

lemma bit_PackEventCodes_loop:
  assumes "\<forall>c \<in> set codes. c < 1024"
  shows "bit (PackEventCodes_loop all i p codes) n \<longleftrightarrow> bit p n \<or> packed_bit 5 10 i codes n"
  using assms
proof (induction all i p codes rule: PackEventCodes_loop.induct)
  case (2 all i p code codes)
  then show ?case
    by (cases "5 \<le> i")
      (auto simp: packed_sizes packed_masks packed_bit_full packed_bit_Cons bit_field bit_or_iff simp del: push_bit_and)
qed simp

text \<open>A field of the packed word is the code stored there.\<close>

lemma packed_bit_field:
  assumes "k < num" and "n < sz"
  shows "packed_bit num sz 0 codes (sz * k + n) \<longleftrightarrow> k < length codes \<and> bit (codes ! k) n"
proof -
  have uniq: "j = k" if "sz * j \<le> sz * k + n" "sz * k + n < sz * j + sz" for j
  proof -
    from that have "(sz * k + n) div sz = j"
      by (intro div_nat_eqI) simp_all
    with assms(2) show ?thesis by simp
  qed
  show ?thesis using assms by (auto simp: packed_bit_def dest: uniq)
qed

lemma bit_small:
  fixes c :: u32
  shows "c < 2 ^ m \<Longrightarrow> m \<le> n \<Longrightarrow> \<not> bit c n"
  by (metis bit_take_bit_iff leD less_mask_eq linorder_not_less mask_eq_exp_minus_1 take_bit_eq_mask)

lemma bit_unpack_field:
  fixes packed :: u64
  assumes "sz * k + sz \<le> 64" "sz \<le> 32"
  shows "bit (ucast (drop_bit (sz * k) (packed AND push_bit (sz * k) (mask sz))) :: u32) n \<longleftrightarrow>
    n < sz \<and> bit packed (sz * k + n)"
  using assms by (auto simp: bit_simps ac_simps dest: bit_imp_le_length)

lemma unpack_fields_nth:
  assumes "k < num" and "num * sz \<le> 64" and "sz \<le> 32" and "0 < sz"
    and small: "\<forall>c \<in> set codes. c < 2 ^ sz"
    and bits: "\<And>n. n < sz \<Longrightarrow> bit packed (sz * k + n) \<longleftrightarrow> packed_bit num sz 0 codes (sz * k + n)"
  shows "unpack_fields packed (mask sz) num sz ! k = (if k < length codes then codes ! k else 0)"
proof -
  have "Suc k * sz \<le> num * sz" using assms(1) by (intro mult_le_mono1) simp
  with assms(2) have fits: "sz * k + sz \<le> 64" by (simp add: algebra_simps)
  have "unpack_fields packed (mask sz) num sz ! k =
      ucast (drop_bit (sz * k) (packed AND push_bit (sz * k) (mask sz)))"
    using assms(1) by (simp add: unpack_fields_def)
  also have "\<dots> = (if k < length codes then codes ! k else 0)"
  proof (rule bit_word_eqI)
    fix n
    show "bit (ucast (drop_bit (sz * k) (packed AND push_bit (sz * k) (mask sz))) :: u32) n =
        bit (if k < length codes then codes ! k else 0) n"
      unfolding bit_unpack_field [OF fits assms(3)]
      using bits [of n] packed_bit_field [OF assms(1), of n sz codes] small bit_small [of "codes ! k" sz n]
      by (cases "n < sz") auto
  qed
  finally show ?thesis .
qed

lemma unpack_fields_codes:
  assumes "num * sz \<le> 64" and "sz \<le> 32" and "0 < sz" and "\<forall>c \<in> set codes. c < 2 ^ sz"
    and "length codes \<le> num"
    and "\<And>n. n < num * sz \<Longrightarrow> bit packed n \<longleftrightarrow> packed_bit num sz 0 codes n"
  shows "unpack_fields packed (mask sz) num sz = codes @ replicate (num - length codes) 0"
proof (rule nth_equalityI)
  show "length (unpack_fields packed (mask sz) num sz) = length (codes @ replicate (num - length codes) 0)"
    using assms(5) by (simp add: unpack_fields_def)
next
  fix k assume "k < length (unpack_fields packed (mask sz) num sz)"
  then have k: "k < num" by (simp add: unpack_fields_def)
  have in_range: "sz * k + n < num * sz" if "n < sz" for n
  proof -
    have "Suc k * sz \<le> num * sz" using k by (intro mult_le_mono1) simp
    with that show ?thesis by (simp add: algebra_simps)
  qed
  show "unpack_fields packed (mask sz) num sz ! k = (codes @ replicate (num - length codes) 0) ! k"
    by (subst unpack_fields_nth [OF k assms(1-4)])
      (use k in_range assms(6) in \<open>auto simp: nth_append\<close>)
qed

lemma packed_bit_bound: "packed_bit num sz 0 codes n \<Longrightarrow> n < num * sz"
proof -
  assume "packed_bit num sz 0 codes n"
  then obtain j where "j < num" "n < sz * j + sz" by (auto simp: packed_bit_def)
  then have "n < Suc j * sz" by (simp add: algebra_simps)
  also have "\<dots> \<le> num * sz" using \<open>j < num\<close> by (intro mult_le_mono1) simp
  finally show ?thesis .
qed

lemma ReadVersion_bits:
  assumes "\<And>n. 60 \<le> n \<Longrightarrow> n < 64 \<Longrightarrow> bit packed n \<longleftrightarrow> bit v (n - 60)" and "v < (16 :: u32)"
  shows "ReadVersion packed = v"
proof (rule bit_word_eqI)
  fix n
  have "\<not> bit v n" if "4 \<le> n" using bit_small [of v 4 n] assms(2) that by simp
  then show "bit (ReadVersion packed) n = bit v n"
    using assms(1) [of "n + 60"]
    by (cases "n < 4") (auto simp: ReadVersion_def packed_sizes packed_masks bit_simps ac_simps dest: bit_imp_le_length)
qed


lemma bit_PackEventCodes:
  assumes "\<forall>c \<in> set codes. c < 1024"
  shows "bit (PackEventCodes codes) n \<longleftrightarrow> packed_bit 5 10 0 codes n"
  using bit_PackEventCodes_loop [OF assms] by (simp add: PackEventCodes_def)

lemma bit_PackEventCodes_v1:
  "bit (PackEventCodes_v1 codes) n \<longleftrightarrow> n = 60 \<or> packed_bit 4 15 0 codes n"
  by (simp only: PackEventCodes_v1_def bit_PackEventCodes_v1_loop kVersionHeaderOffset_def
      push_bit_of_1 bit_exp_iff possible_bit_word) auto

lemma ReadVersion_PackEventCodes_v1: "ReadVersion (PackEventCodes_v1 codes) = 1"
  by (rule ReadVersion_bits) (auto simp: bit_PackEventCodes_v1 bit_1_iff dest: packed_bit_bound)

lemma ReadVersion_PackEventCodes:
  "\<forall>c \<in> set codes. c < 1024 \<Longrightarrow> ReadVersion (PackEventCodes codes) = 0"
  by (rule ReadVersion_bits) (auto simp: bit_PackEventCodes dest: packed_bit_bound)

lemma PackEventCodes_loop_falls_back:
  "i + length codes \<le> 5 \<Longrightarrow> \<exists>c \<in> set codes. 1024 \<le> c \<Longrightarrow>
    PackEventCodes_loop all i p codes = PackEventCodes_v1 all"
  by (induction all i p codes rule: PackEventCodes_loop.induct) (auto simp: packed_sizes not_le)

text \<open>Up to five event codes below 1024 survive packing and unpacking: the unpacked vector is the
  list padded with zeros to five elements (the version 0 layout).\<close>

theorem pack_unpack_v0:
  assumes "length codes \<le> 5" and "\<forall>c \<in> set codes. c < 1024"
  shows "UnpackEventCodes (PackEventCodes codes) = codes @ replicate (5 - length codes) 0"
proof -
  have "unpack_fields (PackEventCodes codes) (mask 10) 5 10 = codes @ replicate (5 - length codes) 0"
    by (rule unpack_fields_codes) (use assms bit_PackEventCodes in auto)
  then show ?thesis
    by (simp add: UnpackEventCodes_def ReadVersion_PackEventCodes [OF assms(2)] packed_sizes packed_masks)
qed

theorem pack_unpack_v0_witness:
  "UnpackEventCodes (PackEventCodes [3, 1023, 7]) = [3, 1023, 7, 0, 0]"
  using pack_unpack_v0 [of "[3, 1023, 7]"] by simp

text \<open>C34. Up to four event codes below 32768, at least one of them too large for version 0, survive
  packing and unpacking in the version 1 layout.\<close>

theorem pack_unpack_v1:
  assumes "length codes \<le> 4" and "\<forall>c \<in> set codes. c < 32768" and "\<exists>c \<in> set codes. 1024 \<le> c"
  shows "UnpackEventCodes (PackEventCodes codes) = codes @ replicate (4 - length codes) 0"
proof -
  have eq: "PackEventCodes codes = PackEventCodes_v1 codes"
    using assms(1,3) by (simp add: PackEventCodes_def PackEventCodes_loop_falls_back)
  have "unpack_fields (PackEventCodes_v1 codes) (mask 15) 4 15 = codes @ replicate (4 - length codes) 0"
    by (rule unpack_fields_codes) (use assms in \<open>auto simp: bit_PackEventCodes_v1\<close>)
  then show ?thesis
    by (simp add: eq UnpackEventCodes_def ReadVersion_PackEventCodes_v1 packed_sizes packed_masks)
qed

theorem pack_unpack_v1_witness:
  "UnpackEventCodes (PackEventCodes [5, 2000]) = [5, 2000, 0, 0]"
  using pack_unpack_v1 [of "[5, 2000]"] by simp
end
