(* ===== verification/Crypto_Random.thy ===== *)
theory Crypto_Random
  imports Cobalt_Prelude Complex_Main
begin

text \<open>
  Randomness and the client secret: \<^verbatim>\<open>src/src/lib/crypto_util/random.cc\<close> and
  \<^verbatim>\<open>src/src/system_data/client_secret.cc\<close>. The bytes delivered by \<open>RAND_bytes\<close> are an arbitrary
  sequence; every function takes the part not yet used and returns what is left. A \<open>float\<close> is the
  rational number it denotes. The property describes every bit that \<open>RandomBits\<close> produces.
\<close>

unbundle bit_operations_syntax

section \<open>Random\<close>

type_synonym Random = "nat \<Rightarrow> u8"

definition RandomBytes :: "nat \<Rightarrow> Random \<Rightarrow> u8 list \<times> Random" where
  "RandomBytes num r = (map r [0..<num], \<lambda>i. r (i + num))"

definition RandomString :: "u8 list \<Rightarrow> Random \<Rightarrow> u8 list \<times> Random" where
  "RandomString buf r = RandomBytes (length buf) r"

text \<open>The object representation of an unsigned integer on the supported (little-endian) machines.\<close>

fun little_endian :: "u8 list \<Rightarrow> nat" where
  "little_endian [] = 0"
| "little_endian (b # bs) = unat b + 256 * little_endian bs"

definition RandomUint32 :: "Random \<Rightarrow> u32 \<times> Random" where
  "RandomUint32 r = (case RandomBytes 4 r of (bs, r) \<Rightarrow> (of_nat (little_endian bs), r))"

definition RandomUint64 :: "Random \<Rightarrow> u64 \<times> Random" where
  "RandomUint64 r = (case RandomBytes 8 r of (bs, r) \<Rightarrow> (of_nat (little_endian bs), r))"

definition kMaxRandomBits :: nat where "kMaxRandomBits = 256"

text \<open>The \<open>k\<close>-th element of the vector of 32-bit numbers that overlays the random bytes.\<close>

definition random_word :: "u8 list \<Rightarrow> nat \<Rightarrow> nat" where
  "random_word bs k = little_endian (take 4 (drop (4 * k) bs))"

text \<open>The inner loop: \<open>buffer[byte_index] |= random_bit << i\<close> for the eight bits.\<close>

definition random_byte :: "int \<Rightarrow> u8 list \<Rightarrow> nat \<Rightarrow> u8" where
  "random_byte threshold bs byte_index =
     fold (\<lambda>i b. b OR push_bit i (if int (random_word bs (byte_index + i)) < threshold then 1 else 0)) [0..<8] 0"

definition RandomBits :: "rat \<Rightarrow> nat \<Rightarrow> Random \<Rightarrow> u8 list option \<times> Random" where
  "RandomBits p sz r =
     (if sz > kMaxRandomBits then (None, r)
      else if p \<le> 0 \<or> p > 1 then (Some (replicate sz 0), r)
      else let threshold = round (p * 2 ^ 32);
               (random_bytes, r) = RandomBytes (8 * sz * 4) r
           in (Some (map (random_byte threshold random_bytes) [0..<sz]), r))"

section \<open>ClientSecret\<close>

definition kNumSecretBytes :: nat where "kNumSecretBytes = 16"

record ClientSecret =
  secret_bytes :: "u8 list"

definition secret_valid :: "ClientSecret \<Rightarrow> bool" where
  "secret_valid s \<longleftrightarrow> length (secret_bytes s) = kNumSecretBytes"

definition secret_equal :: "ClientSecret \<Rightarrow> ClientSecret \<Rightarrow> bool" where
  "secret_equal s t \<longleftrightarrow> secret_valid s \<and> secret_valid t \<and> secret_bytes s = secret_bytes t"

definition GenerateNewSecret :: "Random \<Rightarrow> ClientSecret \<times> Random" where
  "GenerateNewSecret r = (case RandomBytes kNumSecretBytes r of (bs, r) \<Rightarrow> (\<lparr>secret_bytes = bs\<rparr>, r))"

text \<open>\<open>Base64Unescape\<close> leaves the bytes empty when the token cannot be decoded.\<close>

definition FromToken :: "('e \<Rightarrow> u8 list option) \<Rightarrow> 'e \<Rightarrow> ClientSecret" where
  "FromToken Base64Unescape token =
     \<lparr>secret_bytes = (case Base64Unescape token of None \<Rightarrow> [] | Some bs \<Rightarrow> bs)\<rparr>"

definition GetToken :: "(u8 list \<Rightarrow> 'e) \<Rightarrow> ClientSecret \<Rightarrow> 'e" where
  "GetToken Base64Escape s = Base64Escape (secret_bytes s)"

section \<open>The bits of a random byte\<close>

lemma length_RandomBytes [simp]: "length (fst (RandomBytes n r)) = n"
  by (simp add: RandomBytes_def)

lemma bit_flag:
  "bit (push_bit i (if c then 1 else 0) :: u8) n \<longleftrightarrow> n < 8 \<and> n = i \<and> c"
  by (auto simp: bit_push_bit_iff bit_1_iff)

lemma bit_fold_or:
  fixes b :: u8
  shows "bit (fold (\<lambda>i b. b OR push_bit i (if P i then 1 else 0)) xs b) n \<longleftrightarrow>
    bit b n \<or> n < 8 \<and> n \<in> set xs \<and> P n"
proof (induction xs arbitrary: b)
  case (Cons i xs)
  show ?case unfolding fold_simps Cons.IH bit_or_iff bit_flag by auto
qed simp

lemma bit_random_byte:
  "n < 8 \<Longrightarrow> bit (random_byte threshold bs k) n \<longleftrightarrow> int (random_word bs (k + n)) < threshold"
  by (simp add: random_byte_def bit_fold_or)

lemma RandomBits_length:
  "RandomBits p sz r = (Some m, r') \<Longrightarrow> length m = sz"
  by (auto simp: RandomBits_def Let_def split: if_splits prod.splits)

lemma RandomBits_Some: "sz \<le> 256 \<Longrightarrow> \<exists>m r'. RandomBits p sz r = (Some m, r')"
  by (simp add: RandomBits_def kMaxRandomBits_def RandomBytes_def Let_def)

lemma RandomBits_zero: "p \<le> 0 \<Longrightarrow> sz \<le> 256 \<Longrightarrow> RandomBits p sz r = (Some (replicate sz 0), r)"
  by (simp add: RandomBits_def kMaxRandomBits_def)

lemma GenerateNewSecret_valid: "secret_valid (fst (GenerateNewSecret r))"
  by (simp add: GenerateNewSecret_def secret_valid_def RandomBytes_def)

lemma little_endian_less: "little_endian bs < 256 ^ length bs"
proof (induction bs)
  case (Cons b bs)
  have "unat b < 256" using unsigned_less [of b] by simp
  with Cons show ?case by simp
qed simp

text \<open>Probability one keeps every bit: the threshold is above every 32-bit number.\<close>

lemma RandomBits_one:
  assumes "RandomBits 1 sz r = (Some m, r')" and "k < sz" and "n < 8"
  shows "bit (m ! k) n"
proof -
  have "random_word bs j < 2 ^ 32" for bs j
  proof -
    have "little_endian (take 4 (drop (4 * j) bs)) < 256 ^ length (take 4 (drop (4 * j) bs))"
      by (rule little_endian_less)
    also have "\<dots> \<le> 256 ^ 4" by (rule power_increasing) auto
    finally show ?thesis by (simp add: random_word_def)
  qed
  then have "int (random_word bs j) < 4294967296" for bs j using of_nat_less_iff [of "random_word bs j" "2 ^ 32", where ?'a = int] by simp
  moreover have "round (4294967296 :: rat) = 4294967296"
    using round_of_int [of 4294967296, where ?'a = rat] by simp
  ultimately show ?thesis
    using assms by (auto simp: RandomBits_def Let_def bit_random_byte split: if_splits prod.splits)
qed

section \<open>Properties\<close>

text \<open>The bits of \<open>RandomBits\<close> overlap: for a probability in the open unit interval bit \<open>i\<close> of byte \<open>k\<close> is
  decided by the 32-bit number at position \<open>k + i\<close>, so it equals bit \<open>i - 1\<close> of byte \<open>k + 1\<close>; \<open>n\<close> bytes
  are decided by \<open>n + 7\<close> numbers and not by \<open>8 n\<close> independent ones.\<close>

theorem RandomBits_overlap:
  assumes "RandomBits p sz r = (Some m, r')" and "0 < p" and "p \<le> 1" and "k < sz" and "i < 8"
  shows "(bit (m ! k) i \<longleftrightarrow> int (random_word (fst (RandomBytes (32 * sz) r)) (k + i)) < round (p * 2 ^ 32)) \<and>
    (Suc k < sz \<longrightarrow> 0 < i \<longrightarrow> (bit (m ! k) i \<longleftrightarrow> bit (m ! Suc k) (i - 1)))"
proof -
  have m: "m ! j = random_byte (round (p * 2 ^ 32)) (fst (RandomBytes (32 * sz) r)) j" if "j < sz" for j
    using assms that
    by (auto simp: RandomBits_def Let_def mult.commute [of _ 4] split: if_splits prod.splits)
  show ?thesis using assms(4,5) by (auto simp: m bit_random_byte )
qed

theorem RandomBits_overlap_witness:
  "\<exists>m r'. RandomBits (1 / 4) 2 (\<lambda>i. of_nat i) = (Some m, r') \<and> (bit (m ! 0) 3 \<longleftrightarrow> bit (m ! 1) 2)"
proof -
  obtain m r' where m: "RandomBits (1 / 4) 2 (\<lambda>i. of_nat i) = (Some m, r')" using RandomBits_Some [of 2 "1 / 4" "\<lambda>i. of_nat i"] by auto
  from conjunct2 [OF RandomBits_overlap [OF m, of 0 3]] have "bit (m ! 0) 3 \<longleftrightarrow> bit (m ! 1) 2" by simp
  with m show ?thesis by blast
qed

end
