(* ===== verification/Buckets_Config.thy ===== *)
theory Buckets_Config
  imports Cobalt_Prelude
begin

text \<open>
  Histogram bucket configurations: \<^verbatim>\<open>src/src/registry/buckets_config.cc\<close> and \<^verbatim>\<open>.h\<close>. The floors of
  a configuration are \<open>int64_t\<close> values computed with the mixed-width arithmetic of the source
  (\<open>i * step_size\<close> is a 32-bit product, the exponential offset a 64-bit one). The lemmas show that
  a configuration whose floors increase partitions \<open>int64_t\<close> into buckets, and when the two
  constructors produce such floors.
\<close>

section \<open>Data and operations\<close>

datatype IntegerBuckets =
    kExponential (exp_floor: i64) (exp_num_buckets: u32) (initial_step: u32) (step_multiplier: u32)
  | kLinear (lin_floor: i64) (lin_num_buckets: u32) (step_size: u32)
  | BUCKETS_NOT_SET

record IntegerBucketConfig =
  floors :: "i64 list"

text \<open>The search loop of \<open>BucketIndex\<close>: the list starts with \<open>floors_[i - 1]\<close>.\<close>

fun BucketIndex_loop :: "nat \<Rightarrow> i64 list \<Rightarrow> i64 \<Rightarrow> nat" where
  "BucketIndex_loop i (a # b # fs) val =
     (if a \<le>s val \<and> val <s b then i else BucketIndex_loop (i + 1) (b # fs) val)"
| "BucketIndex_loop i fs val = i"

definition BucketIndex :: "IntegerBucketConfig \<Rightarrow> i64 \<Rightarrow> nat" where
  "BucketIndex cfg val =
     (case floors cfg of
        [] \<Rightarrow> 0
      | f # fs \<Rightarrow> if val <s f then 0 else BucketIndex_loop 1 (f # fs) val)"

definition UnderflowBucket :: "IntegerBucketConfig \<Rightarrow> nat" where
  "UnderflowBucket cfg = 0"

definition OverflowBucket :: "IntegerBucketConfig \<Rightarrow> nat" where
  "OverflowBucket cfg = length (floors cfg)"

definition INT64_MIN :: i64 where
  "INT64_MIN = push_bit 63 1"

definition BucketFloor :: "IntegerBucketConfig \<Rightarrow> nat \<Rightarrow> i64" where
  "BucketFloor cfg index =
     (if index > 0 \<and> index \<le> length (floors cfg) then floors cfg ! (index - 1) else INT64_MIN)"

definition CreateLinear :: "i64 \<Rightarrow> u32 \<Rightarrow> u32 \<Rightarrow> IntegerBucketConfig option" where
  "CreateLinear floor0 num_buckets step =
     (if num_buckets = 0 then None
      else if step = 0 then None
      else Some \<lparr>floors = map (\<lambda>i. floor0 + ucast (of_nat i * step :: u32)) [0..<unat (num_buckets + 1)]\<rparr>)"

text \<open>The loop of \<open>CreateExponential\<close>: the remaining \<open>n\<close> floors, for the current offset.\<close>

fun exponential_floors :: "i64 \<Rightarrow> u32 \<Rightarrow> nat \<Rightarrow> u64 \<Rightarrow> i64 list" where
  "exponential_floors floor0 multiplier 0 offset = []"
| "exponential_floors floor0 multiplier (Suc n) offset =
     (floor0 + offset) # exponential_floors floor0 multiplier n (offset * ucast multiplier)"

definition CreateExponential :: "i64 \<Rightarrow> u32 \<Rightarrow> u32 \<Rightarrow> u32 \<Rightarrow> IntegerBucketConfig option" where
  "CreateExponential floor0 num_buckets step multiplier =
     (if num_buckets = 0 then None
      else if step = 0 then None
      else if multiplier = 0 then None
      else Some \<lparr>floors = floor0 # exponential_floors floor0 multiplier (unat (num_buckets + 1) - 1) (ucast step)\<rparr>)"

definition CreateFromProto :: "IntegerBuckets \<Rightarrow> IntegerBucketConfig option" where
  "CreateFromProto int_buckets =
     (case int_buckets of
        kExponential floor0 num_buckets step multiplier \<Rightarrow> CreateExponential floor0 num_buckets step multiplier
      | kLinear floor0 num_buckets step \<Rightarrow> CreateLinear floor0 num_buckets step
      | BUCKETS_NOT_SET \<Rightarrow> None)"

section \<open>Increasing floors\<close>

definition floors_increasing :: "i64 list \<Rightarrow> bool" where
  "floors_increasing fs \<longleftrightarrow> fs \<noteq> [] \<and> sorted_wrt (<) (map sint fs)"

lemma floors_increasingI:
  "fs \<noteq> [] \<Longrightarrow> (\<And>i j. i < j \<Longrightarrow> j < length fs \<Longrightarrow> sint (fs ! i) < sint (fs ! j)) \<Longrightarrow> floors_increasing fs"
  by (simp add: floors_increasing_def sorted_wrt_iff_nth_less)

lemma floors_increasing_nth:
  "floors_increasing fs \<Longrightarrow> i < j \<Longrightarrow> j < length fs \<Longrightarrow> sint (fs ! i) < sint (fs ! j)"
  by (auto simp: floors_increasing_def sorted_wrt_iff_nth_less)

lemma floors_increasing_mono:
  "floors_increasing fs \<Longrightarrow> i \<le> j \<Longrightarrow> j < length fs \<Longrightarrow> sint (fs ! i) \<le> sint (fs ! j)"
  using floors_increasing_nth [of fs i j] by (cases "i = j") auto

lemma BucketIndex_loop_spec:
  assumes "fs \<noteq> []" and "sorted_wrt (<) (map sint fs)" and "sint (hd fs) \<le> sint val"
  shows "\<exists>k < length fs. BucketIndex_loop i fs val = i + k \<and> sint (fs ! k) \<le> sint val \<and>
           (Suc k < length fs \<longrightarrow> sint val < sint (fs ! Suc k))"
  using assms
proof (induction i fs val rule: BucketIndex_loop.induct)
  case (1 i a b fs val)
  show ?case
  proof (cases "sint val < sint b")
    case True
    with "1.prems" show ?thesis by (auto simp: word_sle_eq word_sless_alt intro!: exI [of _ 0])
  next
    case False
    with "1.prems" "1.IH" obtain k where
      "k < length (b # fs)" "BucketIndex_loop (i + 1) (b # fs) val = i + 1 + k"
      "sint ((b # fs) ! k) \<le> sint val" "Suc k < length (b # fs) \<longrightarrow> sint val < sint ((b # fs) ! Suc k)"
      by (auto simp: word_sless_alt)
    with False show ?thesis by (intro exI [of _ "Suc k"]) (auto simp: word_sless_alt)
  qed
qed simp_all

lemma BucketIndex_spec:
  assumes "floors_increasing (floors cfg)"
  shows "BucketIndex cfg val = b \<longleftrightarrow>
    b \<le> OverflowBucket cfg \<and>
    (b = 0 \<or> sint (floors cfg ! (b - 1)) \<le> sint val) \<and>
    (b = OverflowBucket cfg \<or> sint val < sint (floors cfg ! b))"
proof -
  let ?fs = "floors cfg"
  define c where "c = BucketIndex cfg val"
  have c: "c \<le> length ?fs \<and> (c = 0 \<or> sint (?fs ! (c - 1)) \<le> sint val) \<and>
      (c = length ?fs \<or> sint val < sint (?fs ! c))"
  proof (cases "sint val < sint (hd ?fs)")
    case True
    with assms have "c = 0"
      by (cases ?fs) (auto simp: c_def BucketIndex_def floors_increasing_def word_sless_alt)
    with True assms show ?thesis by (cases ?fs) (auto simp: floors_increasing_def)
  next
    case False
    with assms have "c = BucketIndex_loop 1 ?fs val"
      by (cases ?fs) (auto simp: c_def BucketIndex_def floors_increasing_def word_sless_alt)
    with BucketIndex_loop_spec [of ?fs val 1] False assms show ?thesis
      by (auto simp: floors_increasing_def)
  qed
  have uniq: "b = c" if b: "b \<le> length ?fs" "b = 0 \<or> sint (?fs ! (b - 1)) \<le> sint val"
    "b = length ?fs \<or> sint val < sint (?fs ! b)" for b
  proof (rule ccontr)
    assume "b \<noteq> c"
    then consider "b < c" | "c < b" by linarith
    then show False
    proof cases
      case 1
      then have "sint (?fs ! b) \<le> sint (?fs ! (c - 1))"
        using c by (intro floors_increasing_mono [OF assms]) auto
      with 1 b c show False by auto
    next
      case 2
      then have "sint (?fs ! c) \<le> sint (?fs ! (b - 1))"
        using b by (intro floors_increasing_mono [OF assms]) auto
      with 2 b c show False by auto
    qed
  qed
  from c have "c \<le> OverflowBucket cfg \<and> (c = 0 \<or> sint (?fs ! (c - 1)) \<le> sint val) \<and>
      (c = OverflowBucket cfg \<or> sint val < sint (?fs ! c))"
    by (simp only: OverflowBucket_def)
  with uniq show ?thesis by (metis OverflowBucket_def c_def)
qed

text \<open>C35. When the floors increase, \<open>BucketIndex\<close> returns the unique bucket whose half-open interval
  contains the value: bucket 0 below the first floor, the overflow bucket from the last floor on.\<close>

theorem BucketIndex_partition:
  assumes "floors_increasing (floors cfg)"
  shows "BucketIndex cfg val = b \<longleftrightarrow>
    b \<le> OverflowBucket cfg \<and>
    (b = 0 \<or> sint (floors cfg ! (b - 1)) \<le> sint val) \<and>
    (b = OverflowBucket cfg \<or> sint val < sint (floors cfg ! b))"
  by (rule BucketIndex_spec [OF assms])

theorem BucketIndex_partition_witness:
  "BucketIndex \<lparr>floors = [0, 10, 20]\<rparr> 15 = 2"
  using BucketIndex_partition [of "\<lparr>floors = [0, 10, 20]\<rparr>" 15 2]
  by (simp add: floors_increasing_def OverflowBucket_def)

section \<open>Floors of the constructors\<close>

lemma unat_Suc_num_buckets: "num \<noteq> - 1 \<Longrightarrow> unat (num + 1 :: u32) = Suc (unat num)"
  using unatSuc [of num] by (simp add: add.commute eq_neg_iff_add_eq_0)

lemma linear_floor_nth:
  assumes "i \<le> unat num" and "unat num * unat step < 2 ^ 32"
    and "sint floor0 + int (unat num * unat step) < 2 ^ 63"
  shows "sint (floor0 + ucast (of_nat i * step :: u32) :: i64) = sint floor0 + int (i * unat step)"
proof -
  have le: "i * unat step \<le> unat num * unat step" using assms(1) by (rule mult_le_mono1)
  have "unat (of_nat i * step :: u32) = i * unat step"
  proof -
    have "of_nat i * step = (of_nat (i * unat step) :: u32)" by simp
    moreover have "i * unat step < 2 ^ 32" using le assms(2) by linarith
    ultimately show ?thesis by (simp only: unat_of_nat) simp
  qed
  then have "uint (ucast (of_nat i * step :: u32) :: u64) = int (i * unat step)"
    by (simp add: uint_up_ucast is_up) (metis of_nat_mult uint_nat)
  moreover have "int (i * unat step) < 2 ^ 63"
  proof -
    have "i * unat step < 2 ^ 63" by (rule le_less_trans [OF le]) (use assms(2) in simp)
    then have "int (i * unat step) < int (2 ^ 63)" by (simp only: of_nat_less_iff)
    then show ?thesis by (simp only: of_nat_power of_nat_numeral)
  qed
  moreover have "sint floor0 + int (i * unat step) < 2 ^ 63" using le assms(3) by linarith
  ultimately show ?thesis by (subst sint_plus_small) simp_all
qed

text \<open>A linear configuration whose 32-bit products and 64-bit floors do not overflow has
  \<open>num_buckets + 1\<close> increasing floors at equal distances, so \<open>BucketIndex\<close> partitions the values.\<close>

theorem CreateLinear_floors:
  assumes "num_buckets \<noteq> 0" and "step \<noteq> 0" and "unat num_buckets * unat step < 2 ^ 32"
    and "num_buckets \<noteq> - 1" and "sint floor0 + int (unat num_buckets * unat step) < 2 ^ 63"
  shows "\<exists>cfg. CreateLinear floor0 num_buckets step = Some cfg \<and> floors_increasing (floors cfg) \<and>
    length (floors cfg) = unat num_buckets + 1 \<and>
    (\<forall>i \<le> unat num_buckets. sint (floors cfg ! i) = sint floor0 + int i * int (unat step))"
proof -
  let ?fs = "map (\<lambda>i. floor0 + ucast (of_nat i * step :: u32)) [0..<unat (num_buckets + 1)]"
  have len: "length ?fs = Suc (unat num_buckets)"
    using assms(4) by (simp add: unat_Suc_num_buckets)
  have nth: "sint (?fs ! i) = sint floor0 + int i * int (unat step)" if "i \<le> unat num_buckets" for i
    using linear_floor_nth [OF that assms(3,5)] that assms(4)
    by (subst nth_map) (simp_all add: unat_Suc_num_buckets del: upt_Suc)
  have "0 < unat step" using assms(2) by (simp add: unat_gt_0)
  then have "int i * int (unat step) < int j * int (unat step)" if "i < j" for i j
    using that by (intro mult_strict_right_mono) (simp_all only: of_nat_less_iff of_nat_0_less_iff)
  then have "sint (?fs ! i) < sint (?fs ! j)" if "i < j" "j < length ?fs" for i j
    using that len by (subst (1 2) nth) (simp_all del: upt_Suc)
  moreover have "?fs \<noteq> []" using len by (metis length_0_conv nat.distinct(1))
  ultimately have "floors_increasing ?fs" by (rule floors_increasingI [rotated])
  with assms(1,2) len nth show ?thesis
    by (auto simp: CreateLinear_def simp del: upt_Suc)
qed

theorem CreateLinear_floors_witness:
  "\<exists>cfg. CreateLinear 5 3 10 = Some cfg \<and> floors_increasing (floors cfg) \<and>
    length (floors cfg) = unat (3 :: u32) + 1 \<and>
    (\<forall>i \<le> unat (3 :: u32). sint (floors cfg ! i) = sint (5 :: i64) + int i * int (unat (10 :: u32)))"
  using CreateLinear_floors [of 3 10 5] by simp

lemma length_exponential_floors [simp]: "length (exponential_floors floor0 m n offset) = n"
  by (induction n arbitrary: offset) simp_all

lemma exponential_floors_nth:
  "k < n \<Longrightarrow> exponential_floors floor0 m n offset ! k = floor0 + offset * ucast m ^ k"
proof (induction n arbitrary: k offset)
  case (Suc n)
  then show ?case by (cases k) (simp_all add: mult.assoc)
qed simp

lemma exponential_offset:
  fixes step m :: u32
  assumes "uint step * uint m ^ k < 2 ^ 63"
  shows "uint (ucast step * ucast m ^ k :: u64) = uint step * uint m ^ k"
proof -
  have "(ucast step * ucast m ^ k :: u64) = word_of_int (uint step * uint m ^ k)"
    by (simp only: ucast_eq of_int_mult of_int_power)
  moreover have "uint (word_of_int x :: u64) = x" if "0 \<le> x" "x < 2 ^ 63" for x
    using that by (simp add: uint_word_of_int)
  moreover have "0 \<le> uint step * uint m ^ k" by simp
  ultimately show ?thesis using assms by metis
qed

text \<open>An exponential configuration with a multiplier of at least two and no overflow has
  \<open>num_buckets + 1\<close> increasing floors \<open>floor0\<close>, \<open>floor0 + initial_step * multiplier ^ k\<close>.\<close>

theorem CreateExponential_floors:
  assumes "num_buckets \<noteq> 0" and "num_buckets \<noteq> - 1" and "step \<noteq> 0" and "2 \<le> multiplier"
    and "uint step * uint multiplier ^ (unat num_buckets - 1) < 2 ^ 63"
    and "sint floor0 + uint step * uint multiplier ^ (unat num_buckets - 1) < 2 ^ 63"
  shows "\<exists>cfg. CreateExponential floor0 num_buckets step multiplier = Some cfg \<and>
    floors_increasing (floors cfg) \<and> length (floors cfg) = unat num_buckets + 1 \<and>
    sint (floors cfg ! 0) = sint floor0 \<and>
    (\<forall>k < unat num_buckets. sint (floors cfg ! (k + 1)) = sint floor0 + uint step * uint multiplier ^ k)"
proof -
  let ?fs = "floor0 # exponential_floors floor0 multiplier (unat num_buckets) (ucast step)"
  have m2: "2 \<le> uint multiplier" using assms(4) by (simp add: word_le_def)
  have s0: "0 < uint step" using assms(3) by (metis uint_0_iff order_le_less uint_ge_0)
  have mono: "uint step * uint multiplier ^ j \<le> uint step * uint multiplier ^ k" if "j \<le> k" for j k
    using that m2 s0 by (intro mult_left_mono power_increasing) auto
  have nth: "sint (?fs ! Suc k) = sint floor0 + uint step * uint multiplier ^ k"
    if "k < unat num_buckets" for k
  proof -
    have "uint step * uint multiplier ^ k \<le> uint step * uint multiplier ^ (unat num_buckets - 1)"
      using that by (intro mono) simp
    with assms(5,6) have "uint step * uint multiplier ^ k < 2 ^ 63"
      and "sint floor0 + uint step * uint multiplier ^ k < 2 ^ 63" by linarith+
    then show ?thesis
      using that by (simp add: exponential_floors_nth exponential_offset sint_plus_small)
  qed
  have "floors_increasing ?fs"
  proof (rule floors_increasingI)
    fix i j assume ij: "i < j" "j < length ?fs"
    then obtain j' where j': "j = Suc j'" "j' < unat num_buckets" by (cases j) auto
    show "sint (?fs ! i) < sint (?fs ! j)"
    proof (cases i)
      case 0
      have "0 < uint step * uint multiplier ^ j'" using s0 m2 by (intro mult_pos_pos) auto
      with 0 j' nth [of j'] show ?thesis by simp
    next
      case (Suc i')
      with ij j' have "i' < j'" by simp
      then have "uint multiplier ^ i' < uint multiplier ^ j'" using m2 by (intro power_strict_increasing) auto
      then have "uint step * uint multiplier ^ i' < uint step * uint multiplier ^ j'"
        using s0 by (rule mult_strict_left_mono)
      with Suc j' \<open>i' < j'\<close> nth [of i'] nth [of j'] show ?thesis by simp
    qed
  qed simp
  moreover have "multiplier \<noteq> 0" using assms(4) by auto
  ultimately show ?thesis
    using assms(1-3) nth by (simp add: CreateExponential_def unat_Suc_num_buckets)
qed

theorem CreateExponential_floors_witness:
  "\<exists>cfg. CreateExponential 0 3 10 2 = Some cfg \<and>
    floors_increasing (floors cfg) \<and> length (floors cfg) = unat (3 :: u32) + 1 \<and>
    sint (floors cfg ! 0) = sint (0 :: i64) \<and>
    (\<forall>k < unat (3 :: u32). sint (floors cfg ! (k + 1)) = sint (0 :: i64) + uint (10 :: u32) * uint (2 :: u32) ^ k)"
  using CreateExponential_floors [of 3 10 2 0] by simp

text \<open>\<open>BucketFloor\<close> and \<open>BucketIndex\<close> are inverse on the buckets above the underflow bucket, and the
  floor of a value's bucket never exceeds the value.\<close>

theorem BucketFloor_BucketIndex:
  assumes "floors_increasing (floors cfg)"
  shows "(\<forall>b. 0 < b \<and> b \<le> OverflowBucket cfg \<longrightarrow> BucketIndex cfg (BucketFloor cfg b) = b) \<and>
    (\<forall>val. sint (BucketFloor cfg (BucketIndex cfg val)) \<le> sint val)"
proof (intro conjI allI impI)
  fix b assume b: "0 < b \<and> b \<le> OverflowBucket cfg"
  then have "b = OverflowBucket cfg \<or> sint (floors cfg ! (b - 1)) < sint (floors cfg ! b)"
    using floors_increasing_nth [OF assms, of "b - 1" b]
    by (cases "b = length (floors cfg)") (auto simp: OverflowBucket_def)
  with b show "BucketIndex cfg (BucketFloor cfg b) = b"
    unfolding BucketIndex_spec [OF assms] by (simp add: BucketFloor_def OverflowBucket_def)
next
  fix val :: i64
  have "sint INT64_MIN \<le> sint val" using sint_ge [of val] by (simp add: INT64_MIN_def)
  with BucketIndex_spec [OF assms, of val "BucketIndex cfg val"]
  show "sint (BucketFloor cfg (BucketIndex cfg val)) \<le> sint val"
    by (auto simp: BucketFloor_def OverflowBucket_def)
qed

theorem BucketFloor_BucketIndex_witness:
  "BucketIndex \<lparr>floors = [0, 10, 20]\<rparr> (BucketFloor \<lparr>floors = [0, 10, 20]\<rparr> 2) = 2"
  using BucketFloor_BucketIndex [of "\<lparr>floors = [0, 10, 20]\<rparr>"]
  by (simp add: floors_increasing_def OverflowBucket_def)

text \<open>The 32-bit product of \<open>CreateLinear\<close> wraps: three buckets of size \<open>2 ^ 31\<close> get floors that do
  not increase, so the third bucket starts below the second.\<close>

theorem CreateLinear_wraps:
  "CreateLinear 0 3 2147483648 = Some \<lparr>floors = [0, 2147483648, 0, 2147483648]\<rparr>"
  by (simp add: CreateLinear_def upt_rec)

end
