(* ===== verification/Datetime_Util.thy ===== *)
theory Datetime_Util
  imports Cobalt_Prelude
begin

text \<open>
  Calendar arithmetic: \<^verbatim>\<open>src/src/lib/util/datetime_util.cc\<close> and \<^verbatim>\<open>.h\<close>. The functions are
  translated on \<open>uint32_t\<close> words. The C library's \<open>gmtime_r\<close> is modelled by counting whole
  Gregorian years and months, independently of the closed formula of the source; \<open>localtime_r\<close> is
  \<open>gmtime_r\<close> at the time shifted by the time zone's offset, an argument. The lemmas relate the closed
  formula to the calendar; the properties are the equivalence and the round trips.
\<close>

section \<open>The C library's calendar\<close>

definition is_leap_year :: "int \<Rightarrow> bool" where
  "is_leap_year y \<longleftrightarrow> 4 dvd y \<and> (\<not> 100 dvd y \<or> 400 dvd y)"

definition days_in_year :: "int \<Rightarrow> nat" where
  "days_in_year y = (if is_leap_year y then 366 else 365)"

definition days_in_month :: "int \<Rightarrow> nat \<Rightarrow> nat" where
  "days_in_month y m =
     (if m = 2 then (if is_leap_year y then 29 else 28)
      else if m \<in> {4, 6, 9, 11} then 30 else 31)"

lemma days_in_year_pos [simp]: "0 < days_in_year y"
  by (simp add: days_in_year_def)

lemma days_in_month_pos [simp]: "0 < days_in_month y m"
  by (simp add: days_in_month_def)

text \<open>The year containing the \<open>d\<close>-th day after the first of January of year \<open>y\<close>, and the day in it;
  likewise for months.\<close>

function year_from :: "int \<Rightarrow> nat \<Rightarrow> int \<times> nat" where
  "year_from y d = (if d < days_in_year y then (y, d) else year_from (y + 1) (d - days_in_year y))"
  by pat_completeness auto
termination
  by (relation "measure snd") (auto simp: days_in_year_def)

function month_from :: "int \<Rightarrow> nat \<Rightarrow> nat \<Rightarrow> nat \<times> nat" where
  "month_from y m d = (if d < days_in_month y m then (m, d) else month_from y (m + 1) (d - days_in_month y m))"
  by pat_completeness auto
termination
  by (relation "measure (\<lambda>(y, m, d). d)") (auto simp: days_in_month_def)

declare year_from.simps [simp del] month_from.simps [simp del]

text \<open>\<open>struct tm\<close>, the fields the source reads. Times before 1970 are counted from the start of the
  400-year period they fall into.\<close>

record TimeInfo =
  tm_mday :: int
  tm_mon :: int
  tm_year :: int
  tm_hour :: int

definition gmtime_r :: "int \<Rightarrow> TimeInfo" where
  "gmtime_r t =
     (let days = t div 86400;
          era = (if days < 0 then days div 146097 else 0);
          (y, yd) = year_from (1970 + 400 * era) (nat (days - era * 146097));
          (m, md) = month_from y 1 yd
      in \<lparr>tm_mday = int md + 1, tm_mon = int m - 1, tm_year = y - 1900,
          tm_hour = t mod 86400 div 3600\<rparr>)"

definition localtime_r :: "(int \<Rightarrow> int) \<Rightarrow> int \<Rightarrow> TimeInfo" where
  "localtime_r utc_offset t = gmtime_r (t + utc_offset t)"

section \<open>The functions of the source\<close>

datatype TimeZonePolicy = UTC | LOCAL | OtherTimeZonePolicy

record CalendarDate =
  day_of_month :: u32
  month :: u32
  year :: u32

definition kNumUnixSecondsPerDay :: u32 where "kNumUnixSecondsPerDay = 60 * 60 * 24"
definition kNumHoursPerDay :: u32 where "kNumHoursPerDay = 24"
definition kInvalidIndex :: u32 where "kInvalidIndex = - 1"
definition kNumDaysPerEra :: u32 where "kNumDaysPerEra = 146097"
definition kEpochOffset :: u32 where "kEpochOffset = kNumDaysPerEra * 5 - 30 * 365 - 8 - 59"
definition kEpochYearZero :: u32 where "kEpochYearZero = 1970"
definition kTimeInfoYearZero :: u32 where "kTimeInfoYearZero = 1900"
definition kMonthsPerYear :: u32 where "kMonthsPerYear = 12"
definition kDaysPerWeek :: u32 where "kDaysPerWeek = 7"
definition kMaxDaysPerMonth :: u32 where "kMaxDaysPerMonth = 31"
definition kMaxCalendarYear :: u32 where "kMaxCalendarYear = 10000"

lemmas datetime_consts [cobalt_simps] =
  kNumUnixSecondsPerDay_def kNumHoursPerDay_def kInvalidIndex_def kNumDaysPerEra_def kEpochOffset_def
  kEpochYearZero_def kTimeInfoYearZero_def kMonthsPerYear_def kDaysPerWeek_def kMaxDaysPerMonth_def
  kMaxCalendarYear_def

definition TimeInfoToCalendarDate :: "TimeInfo \<Rightarrow> CalendarDate" where
  "TimeInfoToCalendarDate time_info =
     \<lparr>day_of_month = of_int (tm_mday time_info),
      month = of_int (tm_mon time_info + 1),
      year = of_int (tm_year time_info) + kTimeInfoYearZero\<rparr>"

definition CalendarDateToDayIndex :: "CalendarDate \<Rightarrow> u32" where
  "CalendarDateToDayIndex date =
     (if year date < kEpochYearZero \<or> year date \<ge> kMaxCalendarYear \<or>
         month date < 1 \<or> month date > kMonthsPerYear \<or>
         day_of_month date < 1 \<or> day_of_month date > kMaxDaysPerMonth
      then kInvalidIndex
      else
        let y = year date - (if month date \<le> 2 then 1 else 0);
            era = y div 400;
            yoe = y - era * 400;
            doy = (153 * (month date + (if month date > 2 then - 3 else 9)) + 2) div 5 + day_of_month date - 1;
            doe = yoe * 365 + yoe div 4 - yoe div 100 + doy
        in era * kNumDaysPerEra + doe - kEpochOffset)"

definition TimeToDayIndex :: "(int \<Rightarrow> int) \<Rightarrow> int \<Rightarrow> TimeZonePolicy \<Rightarrow> u32" where
  "TimeToDayIndex utc_offset time time_zone =
     (case time_zone of
        LOCAL \<Rightarrow> CalendarDateToDayIndex (TimeInfoToCalendarDate (localtime_r utc_offset time))
      | UTC \<Rightarrow> CalendarDateToDayIndex (TimeInfoToCalendarDate (gmtime_r time))
      | OtherTimeZonePolicy \<Rightarrow> - 1)"

definition hour_index :: "TimeInfo \<Rightarrow> u32" where
  "hour_index time_info =
     of_int (tm_hour time_info) + kNumHoursPerDay * CalendarDateToDayIndex (TimeInfoToCalendarDate time_info)"

definition TimeToHourIndex :: "(int \<Rightarrow> int) \<Rightarrow> int \<Rightarrow> TimeZonePolicy \<Rightarrow> u32" where
  "TimeToHourIndex utc_offset time time_zone =
     (case time_zone of
        LOCAL \<Rightarrow> hour_index (localtime_r utc_offset time)
      | UTC \<Rightarrow> hour_index (gmtime_r time)
      | OtherTimeZonePolicy \<Rightarrow> - 1)"

text \<open>The product is computed in \<open>uint32_t\<close> before it is widened to \<open>time_t\<close>.\<close>

definition MidnightUtcFromDayIndex :: "u32 \<Rightarrow> int" where
  "MidnightUtcFromDayIndex day_index = uint (day_index * kNumUnixSecondsPerDay)"

definition DayIndexToCalendarDate :: "u32 \<Rightarrow> CalendarDate" where
  "DayIndexToCalendarDate day_index =
     TimeInfoToCalendarDate (gmtime_r (uint (day_index * kNumUnixSecondsPerDay)))"

definition DayIndexToWeekIndex :: "u32 \<Rightarrow> u32" where
  "DayIndexToWeekIndex day_index = (day_index + 4) div kDaysPerWeek"

definition HourIndexToDayIndex :: "u32 \<Rightarrow> u32" where
  "HourIndexToDayIndex hour = hour div kNumHoursPerDay"

definition CalendarDateToWeekIndex :: "CalendarDate \<Rightarrow> u32" where
  "CalendarDateToWeekIndex date = DayIndexToWeekIndex (CalendarDateToDayIndex date)"

definition WeekIndexToCalendarDate :: "u32 \<Rightarrow> CalendarDate" where
  "WeekIndexToCalendarDate week_index =
     DayIndexToCalendarDate (week_index * kDaysPerWeek - (if week_index > 0 then 4 else 0))"

definition CalendarDateToMonthIndex :: "CalendarDate \<Rightarrow> u32" where
  "CalendarDateToMonthIndex date =
     (if year date < kEpochYearZero \<or> month date < 1 \<or> month date > kMonthsPerYear then - 1
      else kMonthsPerYear * (year date - kEpochYearZero) + month date - 1)"

definition DayIndexToMonthIndex :: "u32 \<Rightarrow> u32" where
  "DayIndexToMonthIndex day_index = CalendarDateToMonthIndex (DayIndexToCalendarDate day_index)"

definition MonthIndexToCalendarDate :: "u32 \<Rightarrow> CalendarDate" where
  "MonthIndexToCalendarDate month_index =
     \<lparr>day_of_month = 1, month = month_index mod kMonthsPerYear + 1,
      year = month_index div kMonthsPerYear + kEpochYearZero\<rparr>"

section \<open>The calendar as a count of days\<close>

definition days_before_year :: "nat \<Rightarrow> nat" where
  "days_before_year y = (\<Sum>k = 1970..<y. days_in_year (int k))"

definition days_before_month :: "nat \<Rightarrow> nat \<Rightarrow> nat" where
  "days_before_month y m = (\<Sum>k = 1..<m. days_in_month (int y) k)"

definition valid_date :: "nat \<Rightarrow> nat \<Rightarrow> nat \<Rightarrow> bool" where
  "valid_date y m d \<longleftrightarrow> 1970 \<le> y \<and> y < 10000 \<and> 1 \<le> m \<and> m \<le> 12 \<and> 1 \<le> d \<and> d \<le> days_in_month (int y) m"

definition mk_date :: "nat \<Rightarrow> nat \<Rightarrow> nat \<Rightarrow> CalendarDate" where
  "mk_date y m d = \<lparr>day_of_month = of_nat d, month = of_nat m, year = of_nat y\<rparr>"

subsection \<open>Closed forms\<close>

definition rata :: "nat \<Rightarrow> nat" where
  "rata y = 365 * y + y div 4 - y div 100 + y div 400"

lemma rata_Suc: "rata (Suc y) = rata y + days_in_year (int (Suc y))"
proof -
  define a b c where q: "a = y div 4" "b = y div 100" "c = y div 400"
  have le: "b \<le> a" by (simp add: q div_le_mono2)
  have d: "(n::nat) dvd Suc y \<longleftrightarrow> int n dvd int (Suc y)" for n by (simp only: int_dvd_int_iff)
  have leap: "is_leap_year (int (Suc y)) \<longleftrightarrow> 4 dvd Suc y \<and> (\<not> 100 dvd Suc y \<or> 400 dvd Suc y)"
    using d [of 4] d [of 100] d [of 400] by (simp add: is_leap_year_def del: of_nat_Suc)
  have step: "Suc y div n = y div n + (if n dvd Suc y then 1 else 0)" for n
    by (simp add: div_Suc dvd_eq_mod_eq_0)
  have rata: "rata (Suc y) = 365 * Suc y + (a + (if 4 dvd Suc y then 1 else 0)) - (b + (if 100 dvd Suc y then 1 else 0)) +
      (c + (if 400 dvd Suc y then 1 else 0))" "rata y = 365 * y + a - b + c"
    by (simp_all only: rata_def step q)
  have imp: "400 dvd Suc y \<Longrightarrow> 100 dvd Suc y" "100 dvd Suc y \<Longrightarrow> 4 dvd Suc y"
    by (auto elim: dvd_trans [rotated])
  with le show ?thesis unfolding rata days_in_year_def leap
    by (cases "4 dvd Suc y"; cases "100 dvd Suc y"; cases "400 dvd Suc y") simp_all
qed

lemma days_before_year_rata: "1970 \<le> y \<Longrightarrow> days_before_year y + 719468 = rata (y - 1) + 306"
proof (induction y rule: nat_induct_at_least)
  case base
  show ?case by (simp add: days_before_year_def rata_def)
next
  case (Suc y)
  then have "rata y = rata (y - 1) + days_in_year (int y)"
    using rata_Suc [of "y - 1"] by simp
  with Suc show ?case by (simp add: days_before_year_def)
qed

lemma rata_era: "146097 * (y div 400) + (365 * (y mod 400) + y mod 400 div 4 - y mod 400 div 100) = rata y"
proof -
  define e r where "e = y div 400" and "r = y mod 400"
  have y: "y = 400 * e + r" and r: "r < 400" by (simp_all add: e_def r_def)
  have "y div 4 = 100 * e + r div 4" "y div 100 = 4 * e + r div 100" "y div 400 = e"
    using r by (simp_all add: y)
  moreover have "r div 100 \<le> r div 4" by (simp add: div_le_mono2)
  ultimately show ?thesis by (simp add: rata_def y flip: e_def r_def)
qed

lemma days_before_month_Suc:
  "1 \<le> m \<Longrightarrow> days_before_month y (Suc m) = days_before_month y m + days_in_month (int y) m"
  by (simp add: days_before_month_def)

lemma days_before_month_table:
  "days_before_month y 1 = 0"
  "days_before_month y 2 = 31"
  "days_before_month y 3 = 31 + days_in_month (int y) 2"
  "days_before_month y 4 = 62 + days_in_month (int y) 2"
  "days_before_month y 5 = 92 + days_in_month (int y) 2"
  "days_before_month y 6 = 123 + days_in_month (int y) 2"
  "days_before_month y 7 = 153 + days_in_month (int y) 2"
  "days_before_month y 8 = 184 + days_in_month (int y) 2"
  "days_before_month y 9 = 215 + days_in_month (int y) 2"
  "days_before_month y 10 = 245 + days_in_month (int y) 2"
  "days_before_month y 11 = 276 + days_in_month (int y) 2"
  "days_before_month y 12 = 306 + days_in_month (int y) 2"
  "days_before_month y 13 = 337 + days_in_month (int y) 2"
proof -
  show 1: "days_before_month y 1 = 0" by (simp add: days_before_month_def)
  note step = days_before_month_Suc [of _ y, unfolded Suc_eq_plus1]
  have m: "days_in_month (int y) 1 = 31" "days_in_month (int y) 3 = 31" "days_in_month (int y) 4 = 30"
    "days_in_month (int y) 5 = 31" "days_in_month (int y) 6 = 30" "days_in_month (int y) 7 = 31"
    "days_in_month (int y) 8 = 31" "days_in_month (int y) 9 = 30" "days_in_month (int y) 10 = 31"
    "days_in_month (int y) 11 = 30" "days_in_month (int y) 12 = 31"
    by (simp_all add: days_in_month_def)
  show 2: "days_before_month y 2 = 31" using step [of 1] 1 m by (simp add: numeral_2_eq_2)
  show 3: "days_before_month y 3 = 31 + days_in_month (int y) 2" using step [of 2] 2 by simp
  show 4: "days_before_month y 4 = 62 + days_in_month (int y) 2" using step [of 3] 3 m by simp
  show 5: "days_before_month y 5 = 92 + days_in_month (int y) 2" using step [of 4] 4 m by simp
  show 6: "days_before_month y 6 = 123 + days_in_month (int y) 2" using step [of 5] 5 m by simp
  show 7: "days_before_month y 7 = 153 + days_in_month (int y) 2" using step [of 6] 6 m by simp
  show 8: "days_before_month y 8 = 184 + days_in_month (int y) 2" using step [of 7] 7 m by simp
  show 9: "days_before_month y 9 = 215 + days_in_month (int y) 2" using step [of 8] 8 m by simp
  show 10: "days_before_month y 10 = 245 + days_in_month (int y) 2" using step [of 9] 9 m by simp
  show 11: "days_before_month y 11 = 276 + days_in_month (int y) 2" using step [of 10] 10 m by simp
  show 12: "days_before_month y 12 = 306 + days_in_month (int y) 2" using step [of 11] 11 m by simp
  show "days_before_month y 13 = 337 + days_in_month (int y) 2" using step [of 12] 12 m by simp
qed

lemma month_cases:
  fixes m :: nat
  assumes "1 \<le> m" and "m \<le> 12"
  shows "m = 1 \<or> m = 2 \<or> m = 3 \<or> m = 4 \<or> m = 5 \<or> m = 6 \<or> m = 7 \<or> m = 8 \<or> m = 9 \<or> m = 10 \<or> m = 11 \<or> m = 12"
  using assms by arith

lemma days_before_month_shifted:
  assumes "1970 \<le> y" "1 \<le> m" "m \<le> 12"
  shows "rata (y - (if m \<le> 2 then 1 else 0)) + (153 * (if m > 2 then m - 3 else m + 9) + 2) div 5 =
    rata (y - 1) + 306 + days_before_month y m"
proof -
  have r: "rata y = rata (y - 1) + 337 + days_in_month (int y) 2"
    using rata_Suc [of "y - 1"] assms(1) by (simp add: days_in_year_def days_in_month_def)
  show ?thesis using month_cases [OF assms(2,3)]
    by (elim disjE) (simp_all add: r days_before_month_table days_before_month_table(1) [unfolded One_nat_def])
qed

lemma of_nat_div_u32:
  assumes "a < 2 ^ 32" and "b < 2 ^ 32"
  shows "(of_nat a div of_nat b :: u32) = of_nat (a div b)"
  using assms by (simp add: word_arith_nat_div unat_of_nat)


lemma of_nat_less_u32: "m < 2 ^ 32 \<Longrightarrow> n < 2 ^ 32 \<Longrightarrow> (of_nat m < (of_nat n :: u32)) \<longleftrightarrow> m < n"
  by (simp add: word_less_nat_alt unat_of_nat)

lemma of_nat_le_u32: "m < 2 ^ 32 \<Longrightarrow> n < 2 ^ 32 \<Longrightarrow> (of_nat m \<le> (of_nat n :: u32)) \<longleftrightarrow> m \<le> n"
  by (simp add: word_le_nat_alt unat_of_nat)

lemma kEpochOffset_eq: "kEpochOffset = 719468"
  by (simp add: kEpochOffset_def kNumDaysPerEra_def)

lemma CalendarDateToDayIndex_nat:
  assumes v: "valid_date y m d"
  shows "CalendarDateToDayIndex (mk_date y m d) =
    of_nat (rata (y - (if m \<le> 2 then 1 else 0)) + (153 * (if m > 2 then m - 3 else m + 9) + 2) div 5 + d - 1) - 719468"
proof -
  define Y where "Y = y - (if m \<le> 2 then 1 else 0)"
  define M where "M = (if m > 2 then m - 3 else m + 9)"
  have b: "1970 \<le> y" "y < 10000" "1 \<le> m" "m \<le> 12" "1 \<le> d" "d \<le> 31"
    using v by (auto simp: valid_date_def days_in_month_def split: if_splits)
  have Y: "Y < 10000" and M: "M \<le> 11" using b by (auto simp: Y_def M_def)
  have "of_nat m \<le> (2 :: u32) \<longleftrightarrow> m \<le> 2" "(2 :: u32) < of_nat m \<longleftrightarrow> 2 < m"
    using b of_nat_le_u32 [of m 2] of_nat_less_u32 [of 2 m] by simp_all
  then have wY: "of_nat y - (if of_nat m \<le> (2 :: u32) then 1 else 0) = (of_nat Y :: u32)"
    and wM: "of_nat m + (if (2 :: u32) < of_nat m then - 3 else 9) = (of_nat M :: u32)"
    using b by (auto simp: Y_def M_def of_nat_diff)
  have wera: "(of_nat Y :: u32) div 400 = of_nat (Y div 400)"
    using of_nat_div_u32 [of Y 400] Y by simp
  have wyoe: "(of_nat Y :: u32) - of_nat (Y div 400) * 400 = of_nat (Y mod 400)"
  proof -
    have "(of_nat Y :: u32) - of_nat (Y div 400) * 400 = of_nat (Y - Y div 400 * 400)"
      by (simp add: of_nat_diff)
    then show ?thesis by (simp only: minus_div_mult_eq_mod)
  qed
  have wdoy: "(153 * of_nat M + 2 :: u32) div 5 = of_nat ((153 * M + 2) div 5)"
    using of_nat_div_u32 [of "153 * M + 2" 5] M by (simp add: add.commute)
  have wd: "(of_nat (Y mod 400) :: u32) div 4 = of_nat (Y mod 400 div 4)"
    "(of_nat (Y mod 400) :: u32) div 100 = of_nat (Y mod 400 div 100)"
    using of_nat_div_u32 [of "Y mod 400" 4] of_nat_div_u32 [of "Y mod 400" 100]
    by (simp_all add: less_trans [OF mod_less_divisor])
  have le: "Y mod 400 div 100 \<le> Y mod 400 div 4" by (simp add: div_le_mono2)
  have range: "(of_nat y < (1970 :: u32) \<or> of_nat y \<ge> (10000 :: u32) \<or> of_nat m < (1 :: u32) \<or>
      of_nat m > (12 :: u32) \<or> of_nat d < (1 :: u32) \<or> of_nat d > (31 :: u32)) = False"
    using b of_nat_less_u32 [of y 1970] of_nat_le_u32 [of 10000 y] of_nat_less_u32 [of m 1]
      of_nat_less_u32 [of 12 m] of_nat_less_u32 [of d 1] of_nat_less_u32 [of 31 d] by simp
  have "CalendarDateToDayIndex (mk_date y m d) =
      of_nat (Y div 400) * 146097 +
      (of_nat (Y mod 400) * 365 + of_nat (Y mod 400 div 4) - of_nat (Y mod 400 div 100) +
       (of_nat ((153 * M + 2) div 5) + of_nat d - 1)) - 719468"
    by (simp only: CalendarDateToDayIndex_def mk_date_def CalendarDate.select_convs kEpochYearZero_def
        kMaxCalendarYear_def kMonthsPerYear_def kMaxDaysPerMonth_def kNumDaysPerEra_def kEpochOffset_eq
        range if_False Let_def wY wM wera wyoe wdoy wd)
  also have "\<dots> = of_nat (146097 * (Y div 400) + (365 * (Y mod 400) + Y mod 400 div 4 - Y mod 400 div 100) +
      (153 * M + 2) div 5 + d - 1) - 719468"
    using b le by (simp add: of_nat_diff algebra_simps)
  finally show ?thesis by (simp only: rata_era Y_def M_def)
qed

subsection \<open>Bounds and uniqueness of the day count\<close>

lemma days_before_year_Suc:
  "1970 \<le> y \<Longrightarrow> days_before_year (Suc y) = days_before_year y + days_in_year (int y)"
  by (simp add: days_before_year_def)

lemma days_before_year_mono: "y \<le> y' \<Longrightarrow> days_before_year y \<le> days_before_year y'"
  unfolding days_before_year_def by (rule sum_mono2) auto

lemma days_before_month_mono: "m \<le> m' \<Longrightarrow> days_before_month y m \<le> days_before_month y m'"
  unfolding days_before_month_def by (rule sum_mono2) auto

lemma days_before_month_13: "days_before_month y 13 = days_in_year (int y)"
  by (simp add: days_before_month_table days_in_year_def days_in_month_def)

lemma days_before_year_10000: "days_before_year 10000 = 2932897"
  using days_before_year_rata [of 10000] by (simp add: rata_def)

lemma month_day_in_year:
  assumes "m \<le> 12" "1 \<le> m" "d \<le> days_in_month (int y) m"
  shows "days_before_month y m + d \<le> days_in_year (int y)"
proof -
  have "days_before_month y m + d \<le> days_before_month y (m + 1)"
    using assms by (simp add: days_before_month_Suc)
  also have "\<dots> \<le> days_before_month y 13" using assms by (intro days_before_month_mono) simp
  finally show ?thesis by (simp only: days_before_month_13)
qed

lemma valid_date_bound:
  assumes "valid_date y m d"
  shows "days_before_year y + days_before_month y m + d \<le> days_before_year (Suc y)"
    and "days_before_year y + days_before_month y m + d \<le> 2932897"
proof -
  have *: "days_before_month y m + d \<le> days_in_year (int y)"
    using assms by (intro month_day_in_year) (auto simp: valid_date_def)
  then show "days_before_year y + days_before_month y m + d \<le> days_before_year (Suc y)"
    using assms by (simp add: days_before_year_Suc valid_date_def)
  also have "\<dots> \<le> days_before_year 10000"
    using assms by (intro days_before_year_mono) (simp add: valid_date_def)
  finally show "days_before_year y + days_before_month y m + d \<le> 2932897"
    by (simp only: days_before_year_10000)
qed

lemma valid_date_unique:
  assumes v: "valid_date y m d" "valid_date y' m' d'"
    and eq: "days_before_year y + days_before_month y m + d = days_before_year y' + days_before_month y' m' + d'"
  shows "y = y' \<and> m = m' \<and> d = d'"
proof -
  have y_le: "y \<le> y'" if v: "valid_date y m d" "valid_date y' m' d'"
    and eq: "days_before_year y + days_before_month y m + d = days_before_year y' + days_before_month y' m' + d'"
    for y m d y' m' d'
  proof (rule ccontr)
    assume "\<not> y \<le> y'"
    then have "days_before_year (Suc y') \<le> days_before_year y" by (intro days_before_year_mono) simp
    with valid_date_bound(1) [OF v(2)] eq v(1) show False by (simp add: valid_date_def)
  qed
  have y: "y = y'" using y_le [OF v eq] y_le [OF v(2,1) eq [symmetric]] by simp
  have m_le: "m \<le> m'" if v: "valid_date y m d" "valid_date y m' d'"
    and eq: "days_before_month y m + d = days_before_month y m' + d'" for m d m' d'
  proof (rule ccontr)
    assume "\<not> m \<le> m'"
    then have "days_before_month y (m' + 1) \<le> days_before_month y m" by (intro days_before_month_mono) simp
    with eq v show False by (simp add: valid_date_def days_before_month_Suc)
  qed
  have "m = m'" using m_le [of m d m' d'] m_le [of m' d' m d] v eq y by simp
  with y eq show ?thesis by simp
qed

lemma CalendarDateToDayIndex_valid:
  assumes "valid_date y m d"
  shows "CalendarDateToDayIndex (mk_date y m d) = of_nat (days_before_year y + days_before_month y m + d - 1)"
proof -
  have b: "1970 \<le> y" "1 \<le> m" "m \<le> 12" "1 \<le> d" using assms by (simp_all add: valid_date_def)
  have "rata (y - (if m \<le> 2 then 1 else 0)) + (153 * (if m > 2 then m - 3 else m + 9) + 2) div 5 + d - 1 =
      (days_before_year y + days_before_month y m + d - 1) + 719468"
    using days_before_month_shifted [OF b(1-3)] days_before_year_rata [OF b(1)] b(4) by simp
  then show ?thesis
    using CalendarDateToDayIndex_nat [OF assms] by simp
qed

subsection \<open>The broken-down time\<close>

lemma year_from_spec:
  assumes "1970 \<le> y" and "year_from (int y) d = (z, d')"
  shows "\<exists>y'. z = int y' \<and> y \<le> y' \<and> d' < days_in_year (int y') \<and>
    days_before_year y' + d' = days_before_year y + d"
  using assms
proof (induction d arbitrary: y rule: less_induct)
  case (less d)
  show ?case
  proof (cases "d < days_in_year (int y)")
    case True
    with less.prems show ?thesis by (auto simp: year_from.simps [of "int y" d])
  next
    case False
    then have "year_from (int (Suc y)) (d - days_in_year (int y)) = (z, d')"
      using less.prems(2) by (simp add: year_from.simps [of "int y" d] add.commute)
    moreover have "d - days_in_year (int y) < d" using False days_in_year_pos [of "int y"] by linarith
    ultimately obtain y' where "z = int y'" "Suc y \<le> y'" "d' < days_in_year (int y')"
      "days_before_year y' + d' = days_before_year (Suc y) + (d - days_in_year (int y))"
      using less.IH [of "d - days_in_year (int y)" "Suc y"] less.prems(1) by auto
    with False less.prems(1) show ?thesis by (intro exI [of _ y']) (auto simp: days_before_year_Suc)
  qed
qed

lemma month_from_spec:
  assumes "1 \<le> m" and "month_from (int y) m d = (m', d')"
  shows "m \<le> m' \<and> d' < days_in_month (int y) m' \<and> days_before_month y m' + d' = days_before_month y m + d"
  using assms
proof (induction d arbitrary: m rule: less_induct)
  case (less d)
  show ?case
  proof (cases "d < days_in_month (int y) m")
    case True
    with less.prems show ?thesis by (auto simp: month_from.simps [of "int y" m d])
  next
    case False
    then have "month_from (int y) (m + 1) (d - days_in_month (int y) m) = (m', d')"
      using less.prems(2) by (simp add: month_from.simps [of "int y" m d])
    moreover have "d - days_in_month (int y) m < d" using False days_in_month_pos [of "int y" m] by linarith
    ultimately have "m + 1 \<le> m' \<and> d' < days_in_month (int y) m' \<and>
        days_before_month y m' + d' = days_before_month y (m + 1) + (d - days_in_month (int y) m)"
      using less.IH [of "d - days_in_month (int y) m" "m + 1"] by auto
    with False less.prems(1) show ?thesis by (auto simp: days_before_month_Suc)
  qed
qed

lemma gmtime_r_date:
  assumes "0 \<le> t" and "t < 253402300800"
  shows "\<exists>y m d. TimeInfoToCalendarDate (gmtime_r t) = mk_date y m d \<and> valid_date y m d \<and>
    days_before_year y + days_before_month y m + d - 1 = nat (t div 86400)"
proof -
  define n where "n = nat (t div 86400)"
  obtain z yd where zy: "year_from 1970 n = (z, yd)" by fastforce
  obtain y where y: "z = int y" "1970 \<le> y" "yd < days_in_year (int y)" "days_before_year y + yd = n"
    using year_from_spec [of 1970 n z yd] zy by (auto simp: days_before_year_def)
  obtain m md where mm: "month_from (int y) 1 yd = (m, md)" by fastforce
  then have m: "1 \<le> m" "md < days_in_month (int y) m" "days_before_month y m + md = yd"
    using month_from_spec [of 1 y yd m md] by (auto simp: days_before_month_def)
  have "m \<le> 12"
  proof (rule ccontr)
    assume "\<not> m \<le> 12"
    then have "days_before_month y 13 \<le> days_before_month y m" by (intro days_before_month_mono) simp
    with m(3) y(3) show False by (simp add: days_before_month_13)
  qed
  moreover have "y < 10000"
  proof (rule ccontr)
    assume "\<not> y < 10000"
    then have "days_before_year 10000 \<le> days_before_year y" by (intro days_before_year_mono) simp
    moreover have "n < 2932897" using assms by (simp add: n_def)
    ultimately show False using y(4) by (simp add: days_before_year_10000)
  qed
  ultimately have "valid_date y m (md + 1)" using y m by (simp add: valid_date_def)
  moreover have "TimeInfoToCalendarDate (gmtime_r t) = mk_date y m (md + 1)"
    using assms(1) zy mm y(1) pos_imp_zdiv_nonneg_iff [of 86400 t]
    by (simp add: gmtime_r_def Let_def mk_date_def TimeInfoToCalendarDate_def kTimeInfoYearZero_def n_def)
  moreover have "days_before_year y + days_before_month y m + (md + 1) - 1 = n" using m(3) y(4) by simp
  ultimately show ?thesis unfolding n_def by blast
qed

lemma gmtime_r_day_index:
  assumes "0 \<le> t" and "t < 253402300800"
  shows "CalendarDateToDayIndex (TimeInfoToCalendarDate (gmtime_r t)) = of_nat (nat (t div 86400))"
  using gmtime_r_date [OF assms] CalendarDateToDayIndex_valid by force

section \<open>Properties\<close>

text \<open>C36. On every calendar date from 1970 to 9999 the closed formula of \<open>CalendarDateToDayIndex\<close>
  equals the number of days counted year by year and month by month since 1970-01-01.\<close>

theorem CalendarDateToDayIndex_counts_days:
  assumes "valid_date y m d"
  shows "unat (CalendarDateToDayIndex (mk_date y m d)) = days_before_year y + days_before_month y m + d - 1"
  using CalendarDateToDayIndex_valid [OF assms] valid_date_bound(2) [OF assms]
  by (simp add: unat_of_nat)

theorem CalendarDateToDayIndex_counts_days_witness:
  "unat (CalendarDateToDayIndex (mk_date 1972 3 1)) = days_before_year 1972 + days_before_month 1972 3 + 1 - 1"
  by (rule CalendarDateToDayIndex_counts_days) (simp add: valid_date_def days_in_month_def)

text \<open>For every time from 1970 to the end of year 9999, the UTC day index is the number of whole
  days since the epoch, and the hour index is consistent with it through \<open>HourIndexToDayIndex\<close>.\<close>

theorem TimeToDayIndex_UTC:
  assumes "0 \<le> t" and "t < 253402300800"
  shows "uint (TimeToDayIndex utc_offset t UTC) = t div 86400 \<and>
    uint (TimeToHourIndex utc_offset t UTC) = t div 3600 \<and>
    HourIndexToDayIndex (TimeToHourIndex utc_offset t UTC) = TimeToDayIndex utc_offset t UTC"
proof -
  define n where "n = t div 86400"
  define h where "h = t mod 86400 div 3600"
  have n: "0 \<le> n" "n < 2932897" using assms by (simp_all add: n_def pos_imp_zdiv_nonneg_iff)
  have h: "0 \<le> h" "h < 24" by (simp_all add: h_def pos_imp_zdiv_nonneg_iff)
  have th: "t div 3600 = h + 24 * n"
  proof -
    have "t = t mod 86400 + 24 * n * 3600" using mod_div_mult_eq [of t 86400] by (simp add: n_def)
    then have "t div 3600 = (t mod 86400 + 24 * n * 3600) div 3600" by simp
    then show ?thesis by (simp only: div_mult_self1 h_def)
  qed
  have day: "TimeToDayIndex utc_offset t UTC = of_int n"
    using gmtime_r_day_index [OF assms] n by (simp add: TimeToDayIndex_def n_def)
  have "tm_hour (gmtime_r t) = h" by (simp add: gmtime_r_def h_def Let_def split: prod.splits)
  then have hour: "TimeToHourIndex utc_offset t UTC = of_int (h + 24 * n)"
    using gmtime_r_day_index [OF assms] n
    by (simp add: TimeToHourIndex_def hour_index_def kNumHoursPerDay_def n_def)
  have u: "uint (of_int k :: u32) = k" if "0 \<le> k" "k < 4294967296" for k
    using that by (simp add: uint_word_of_int)
  have ud: "uint (TimeToDayIndex utc_offset t UTC) = n" using n by (simp add: day u)
  have uh: "uint (TimeToHourIndex utc_offset t UTC) = h + 24 * n" 
    using n h u [of "h + 24 * n"] by (simp only: hour)
  have "uint (HourIndexToDayIndex (TimeToHourIndex utc_offset t UTC)) = (h + 24 * n) div 24"
    by (simp add: HourIndexToDayIndex_def uint_div uh kNumHoursPerDay_def)
  also have "\<dots> = n" using h by simp
  finally show ?thesis using ud uh th by (simp add: n_def word_uint_eq_iff)
qed

theorem TimeToDayIndex_UTC_witness:
  "uint (TimeToDayIndex (\<lambda>_. 0) 1000000000 UTC) = 11574"
  using TimeToDayIndex_UTC [of 1000000000] by simp

text \<open>\<open>DayIndexToCalendarDate\<close> and \<open>CalendarDateToDayIndex\<close> are inverse to each other on the day
  indices whose second count fits in 32 bits (up to day 49710, in February 2106).\<close>

theorem day_index_round_trip:
  assumes "unat day \<le> 49710"
  shows "CalendarDateToDayIndex (DayIndexToCalendarDate day) = day"
proof -
  have le: "uint day \<le> 49710" using assms by (simp add: nat_le_iff flip: nat_uint_eq)
  then have "uint (day * 86400) = uint day * 86400"
    using uint_mult_lem [of day "86400 :: u32"] by simp
  with le show ?thesis
    using gmtime_r_day_index [of "uint day * 86400"]
    by (simp add: DayIndexToCalendarDate_def kNumUnixSecondsPerDay_def)
qed

theorem day_index_round_trip_witness:
  "CalendarDateToDayIndex (DayIndexToCalendarDate 17092) = 17092"
  by (rule day_index_round_trip) simp

text \<open>The inverse direction: a valid date up to day 49710 survives the conversion to a day index and
  back.\<close>

theorem calendar_date_round_trip:
  assumes v: "valid_date y m d" and "days_before_year y + days_before_month y m + d - 1 \<le> 49710"
  shows "DayIndexToCalendarDate (CalendarDateToDayIndex (mk_date y m d)) = mk_date y m d"
proof -
  define n where "n = days_before_year y + days_before_month y m + d - 1"
  have n: "n \<le> 49710" using assms(2) by (simp add: n_def)
  then have un: "uint (of_nat n :: u32) = int n" by (simp add: unsigned_of_nat take_bit_nat_eq_self)
  have "uint (of_nat n * 86400 :: u32) = int n * 86400"
    using n uint_mult_lem [of "of_nat n :: u32" "86400 :: u32"] by (simp add: un)
  moreover obtain y' m' d' where g: "TimeInfoToCalendarDate (gmtime_r (int n * 86400)) = mk_date y' m' d'"
    "valid_date y' m' d'" "days_before_year y' + days_before_month y' m' + d' - 1 = n"
    using gmtime_r_date [of "int n * 86400"] n by auto
  moreover have "y' = y \<and> m' = m \<and> d' = d"
    using g(2,3) v by (intro valid_date_unique) (auto simp: n_def valid_date_def)
  ultimately show ?thesis
    using CalendarDateToDayIndex_valid [OF v]
    by (simp add: DayIndexToCalendarDate_def kNumUnixSecondsPerDay_def flip: n_def)
qed

theorem calendar_date_round_trip_witness:
  "DayIndexToCalendarDate (CalendarDateToDayIndex (mk_date 1970 12 31)) = mk_date 1970 12 31"
  by (rule calendar_date_round_trip)
    (simp_all add: valid_date_def days_in_month_def days_before_year_def days_before_month_table)

text \<open>Above day 49710 the 32-bit product of \<open>DayIndexToCalendarDate\<close> wraps: day 49711 (8 February
  2106) is converted to 1 January 1970.\<close>

theorem DayIndexToCalendarDate_wraps:
  "DayIndexToCalendarDate 49711 = mk_date 1970 1 1 \<and>
   CalendarDateToDayIndex (mk_date 2106 2 8) = 49711"
proof
  show "DayIndexToCalendarDate 49711 = mk_date 1970 1 1"
    by (simp add: DayIndexToCalendarDate_def kNumUnixSecondsPerDay_def gmtime_r_def Let_def year_from.simps
        month_from.simps days_in_year_def is_leap_year_def days_in_month_def TimeInfoToCalendarDate_def
        kTimeInfoYearZero_def mk_date_def)
  show "CalendarDateToDayIndex (mk_date 2106 2 8) = 49711"
    by (simp add: CalendarDateToDayIndex_def mk_date_def datetime_consts Let_def)
qed

text \<open>Converting a month index to a date and back is the identity for every 32-bit month index.\<close>

theorem month_index_round_trip:
  "CalendarDateToMonthIndex (MonthIndexToCalendarDate month_index) = month_index"
proof -
  have m: "unat (month_index mod 12) < 12" by (simp add: unat_mod)
  then have m1: "unat (month_index mod 12 + 1) = unat (month_index mod 12) + 1"
    by (simp add: unat_word_ariths)
  have "unat (month_index div 12) \<le> 357913941"
  proof -
    have "unat month_index div 12 \<le> 4294967295 div 12"
      using unsigned_less [of month_index, where ?'a = nat] by (intro div_le_mono) simp
    then show ?thesis by (simp add: unat_div)
  qed
  then have y1: "unat (month_index div 12 + 1970) = unat (month_index div 12) + 1970"
    by (simp add: unat_word_ariths)
  have "month_index = 12 * (month_index div 12) + month_index mod 12"
    by (metis mult.commute word_mod_div_equality add.commute)
  then show ?thesis
    using m m1 y1
    by (simp add: CalendarDateToMonthIndex_def MonthIndexToCalendarDate_def datetime_consts
        word_less_nat_alt word_le_nat_alt not_less)
qed

end
