(* ===== verification/Project_Registry.thy ===== *)
theory Project_Registry
  imports Buckets_Config Datetime_Util
begin

text \<open>
  The registry as the client sees it: the messages of \<^verbatim>\<open>src/src/registry/*.proto\<close> with the fields the
  client code reads, \<open>ProjectContext\<close> (\<^verbatim>\<open>src/src/logger/project_context.cc\<close>), \<open>ProjectConfigs\<close>
  (\<^verbatim>\<open>src/src/registry/project_configs.cc\<close>) and \<open>ProjectContextFactory\<close>
  (\<^verbatim>\<open>src/src/logger/project_context_factory.cc\<close>). A null pointer is \<open>None\<close>. Parsing the registry from
  bytes and base64 is a parameter of the constructors that do it. The lemmas describe the maps the
  constructors build as searches in the registry; the property states which metric a context finds.
\<close>

section \<open>Messages\<close>

datatype OnDeviceAggregationWindow = kHours (hours: u32) | kDays (days: u32) | UNITS_NOT_SET

datatype ReportType =
    REPORT_TYPE_UNSET | SIMPLE_OCCURRENCE_COUNT | EVENT_COMPONENT_OCCURRENCE_COUNT | NUMERIC_AGGREGATION
  | INT_RANGE_HISTOGRAM | NUMERIC_PERF_RAW_DUMP | UNIQUE_N_DAY_ACTIVES | PER_DEVICE_NUMERIC_STATS
  | PER_DEVICE_HISTOGRAM | FLEETWIDE_OCCURRENCE_COUNTS | UNIQUE_DEVICE_COUNTS | UNIQUE_DEVICE_HISTOGRAMS
  | HOURLY_VALUE_HISTOGRAMS | FLEETWIDE_HISTOGRAMS | FLEETWIDE_MEANS | UNIQUE_DEVICE_NUMERIC_STATS
  | HOURLY_VALUE_NUMERIC_STATS | STRING_HISTOGRAMS | CUSTOM_RAW_DUMP

datatype LocalPrivacyNoiseLevel = NOISE_LEVEL_UNSET | NO_NOISE | SMALL | MEDIUM | LARGE

text \<open>Enumerations of proto3 are open: a message may carry a number without a name.\<close>

datatype OnDeviceAggregationType = SUM_TYPE | MIN_TYPE | MAX_TYPE | UNKNOWN_AGGREGATION_TYPE

datatype SystemProfileField = OS | ARCH | BOARD_NAME | PRODUCT_NAME | SYSTEM_VERSION | CHANNEL | REALM

datatype LocalAggregationProcedure =
    LOCAL_AGGREGATION_PROCEDURE_UNSET | SUM_PROCEDURE | MIN_PROCEDURE | MAX_PROCEDURE | MEAN | MEDIAN | PERCENTILE_N
  | AT_LEAST_ONCE | SELECT_FIRST | SELECT_MOST_COMMON

record ReportDefinition =
  report_name :: string
  report_def_id :: u32
  report_type :: ReportType
  local_privacy_noise_level :: LocalPrivacyNoiseLevel
  report_int_buckets :: IntegerBuckets
  window_size :: "u32 list"
  aggregation_window :: "OnDeviceAggregationWindow list"
  aggregation_type :: OnDeviceAggregationType
  system_profile_field :: "SystemProfileField list"
  local_aggregation_procedure :: LocalAggregationProcedure

datatype MetricType =
    METRIC_TYPE_UNSET | EVENT_OCCURRED | EVENT_COUNT | ELAPSED_TIME | FRAME_RATE | MEMORY_USAGE
  | INT_HISTOGRAM | OCCURRENCE | INTEGER | INTEGER_HISTOGRAM | STRING | CUSTOM

record MetricDimension =
  event_codes :: "(u32 \<times> string) list"
  max_event_code :: u32

record MetricDefinition =
  metric_name :: string
  metric_customer_id :: u32
  metric_project_id :: u32
  metric_def_id :: u32
  metric_type :: MetricType
  metric_dimensions :: "MetricDimension list"
  metric_int_buckets :: "IntegerBuckets option"
  time_zone_policy :: TimeZonePolicy
  max_release_stage :: nat
  also_log_locally :: bool
  reports :: "ReportDefinition list"

record Project =
  project_customer_id :: u32
  project_project_id :: u32
  project_customer_name :: string
  project_project_name :: string

record ProjectConfig =
  config_project_name :: string
  config_project_id :: u32
  config_metrics :: "MetricDefinition list"

record CustomerConfig =
  config_customer_name :: string
  config_customer_id :: u32
  config_projects :: "ProjectConfig list"

record CobaltRegistry =
  customers :: "CustomerConfig list"

section \<open>ProjectContext\<close>

record ProjectContext =
  project :: Project
  project_config :: ProjectConfig
  metrics_by_name :: "(string \<times> MetricDefinition) list"
  metrics_by_id :: "(u32 \<times> MetricDefinition) list"

definition PopulateProject :: "u32 \<Rightarrow> u32 \<Rightarrow> string \<Rightarrow> string \<Rightarrow> Project" where
  "PopulateProject customer_id project_id customer_name project_name =
     \<lparr>project_customer_id = customer_id, project_project_id = project_id,
      project_customer_name = customer_name, project_project_name = project_name\<rparr>"

text \<open>A metric of another customer or project is left out of the maps, not of the configuration.\<close>

definition add_metric :: "MetricDefinition \<Rightarrow> ProjectContext \<Rightarrow> ProjectContext" where
  "add_metric metric c =
     (if metric_customer_id metric = project_customer_id (project c) \<and>
         metric_project_id metric = project_project_id (project c)
      then c\<lparr>metrics_by_name := map_set (metric_name metric) metric (metrics_by_name c),
             metrics_by_id := map_set (metric_def_id metric) metric (metrics_by_id c)\<rparr>
      else c)"

text \<open>The two arguments are the borrowed and the owned configuration: exactly one is not null, or a
  \<open>CHECK\<close> fails.\<close>

definition ProjectContext_ctor ::
    "u32 \<Rightarrow> string \<Rightarrow> ProjectConfig option \<Rightarrow> ProjectConfig option \<Rightarrow> ProjectContext option" where
  "ProjectContext_ctor customer_id customer_name borrowed owned =
     (case (borrowed, owned) of
        (None, None) \<Rightarrow> None
      | (Some _, Some _) \<Rightarrow> None
      | (Some config, None) \<Rightarrow> Some (fold add_metric (config_metrics config)
          \<lparr>project = PopulateProject customer_id (config_project_id config) customer_name (config_project_name config),
           project_config = config, metrics_by_name = [], metrics_by_id = []\<rparr>)
      | (None, Some config) \<Rightarrow> Some (fold add_metric (config_metrics config)
          \<lparr>project = PopulateProject customer_id (config_project_id config) customer_name (config_project_name config),
           project_config = config, metrics_by_name = [], metrics_by_id = []\<rparr>))"

definition metrics :: "ProjectContext \<Rightarrow> MetricDefinition list" where
  "metrics c = config_metrics (project_config c)"

definition GetMetric :: "ProjectContext \<Rightarrow> u32 \<Rightarrow> MetricDefinition option" where
  "GetMetric c metric_id = map_of (metrics_by_id c) metric_id"

definition GetMetricByName :: "ProjectContext \<Rightarrow> string \<Rightarrow> MetricDefinition option" where
  "GetMetricByName c name = map_of (metrics_by_name c) name"

record MetricRef =
  ref_project :: Project
  ref_metric :: MetricDefinition

definition RefMetric :: "ProjectContext \<Rightarrow> MetricDefinition \<Rightarrow> MetricRef" where
  "RefMetric c m = \<lparr>ref_project = project c, ref_metric = m\<rparr>"

text \<open>A \<open>std::map\<close> is iterated in the order of its keys.\<close>

definition ListMetrics :: "ProjectContext \<Rightarrow> u32 list" where
  "ListMetrics c = sort (map fst (metrics_by_id c))"

section \<open>ProjectConfigs\<close>

record ProjectConfigs =
  cobalt_registry :: CobaltRegistry
  customers_by_name :: "(string \<times> CustomerConfig) list"
  customers_by_id :: "(u32 \<times> CustomerConfig) list"
  projects_by_name :: "((string \<times> string) \<times> ProjectConfig) list"
  projects_by_id :: "((u32 \<times> u32) \<times> ProjectConfig) list"
  configs_metrics_by_id :: "((u32 \<times> u32 \<times> u32) \<times> MetricDefinition) list"
  reports_by_id :: "((u32 \<times> u32 \<times> u32 \<times> u32) \<times> ReportDefinition) list"
  is_single_project :: bool
  is_empty :: bool
  single_customer_id :: u32
  single_customer_name :: string
  single_project_id :: u32
  single_project_name :: string

definition add_report :: "u32 \<Rightarrow> u32 \<Rightarrow> u32 \<Rightarrow> ReportDefinition \<Rightarrow> ProjectConfigs \<Rightarrow> ProjectConfigs" where
  "add_report cid pid mid report p =
     p\<lparr>reports_by_id := map_set (cid, pid, mid, report_def_id report) report (reports_by_id p)\<rparr>"

definition add_project_metric :: "u32 \<Rightarrow> u32 \<Rightarrow> MetricDefinition \<Rightarrow> ProjectConfigs \<Rightarrow> ProjectConfigs" where
  "add_project_metric cid pid metric p =
     fold (add_report cid pid (metric_def_id metric)) (reports metric)
       (p\<lparr>configs_metrics_by_id := map_set (cid, pid, metric_def_id metric) metric (configs_metrics_by_id p)\<rparr>)"

definition add_project :: "CustomerConfig \<Rightarrow> ProjectConfig \<Rightarrow> ProjectConfigs \<Rightarrow> ProjectConfigs" where
  "add_project customer prj p =
     fold (add_project_metric (config_customer_id customer) (config_project_id prj)) (config_metrics prj)
       (p\<lparr>projects_by_id := map_set (config_customer_id customer, config_project_id prj) prj (projects_by_id p),
          projects_by_name := map_set (config_customer_name customer, config_project_name prj) prj (projects_by_name p)\<rparr>)"

definition add_customer :: "CustomerConfig \<Rightarrow> ProjectConfigs \<Rightarrow> ProjectConfigs" where
  "add_customer customer p =
     fold (add_project customer) (config_projects customer)
       (p\<lparr>customers_by_id := map_set (config_customer_id customer) customer (customers_by_id p),
          customers_by_name := map_set (config_customer_name customer) customer (customers_by_name p)\<rparr>)"

definition ProjectConfigs_ctor :: "CobaltRegistry \<Rightarrow> ProjectConfigs" where
  "ProjectConfigs_ctor registry =
     (let p = \<lparr>cobalt_registry = registry, customers_by_name = [], customers_by_id = [],
               projects_by_name = [], projects_by_id = [], configs_metrics_by_id = [], reports_by_id = [],
               is_single_project = False, is_empty = (customers registry = []),
               single_customer_id = 0, single_customer_name = [], single_project_id = 0, single_project_name = []\<rparr>;
          p = (case customers registry of
                 [customer] \<Rightarrow>
                   (case config_projects customer of
                      [prj] \<Rightarrow> p\<lparr>is_single_project := True,
                        single_customer_id := config_customer_id customer,
                        single_customer_name := config_customer_name customer,
                        single_project_id := config_project_id prj,
                        single_project_name := config_project_name prj\<rparr>
                    | _ \<Rightarrow> p)
               | _ \<Rightarrow> p)
      in fold add_customer (customers registry) p)"

definition CreateFromCobaltRegistryProto :: "CobaltRegistry \<Rightarrow> ProjectConfigs" where
  "CreateFromCobaltRegistryProto registry = ProjectConfigs_ctor registry"

definition CreateFromCobaltRegistryBytes :: "('b \<Rightarrow> CobaltRegistry option) \<Rightarrow> 'b \<Rightarrow> ProjectConfigs option" where
  "CreateFromCobaltRegistryBytes ParseFromString cobalt_registry_bytes =
     (case ParseFromString cobalt_registry_bytes of
        None \<Rightarrow> None
      | Some registry \<Rightarrow> Some (CreateFromCobaltRegistryProto registry))"

definition CreateFromCobaltRegistryBase64 ::
    "('e \<Rightarrow> 'b option) \<Rightarrow> ('b \<Rightarrow> CobaltRegistry option) \<Rightarrow> 'e \<Rightarrow> ProjectConfigs option" where
  "CreateFromCobaltRegistryBase64 Base64Unescape ParseFromString cobalt_registry_base64 =
     (case Base64Unescape cobalt_registry_base64 of
        None \<Rightarrow> None
      | Some cobalt_registry_bytes \<Rightarrow> CreateFromCobaltRegistryBytes ParseFromString cobalt_registry_bytes)"

text \<open>The customer map keeps pointing at the customer, whose list of projects is now empty.\<close>

definition take_projects :: "CustomerConfig \<Rightarrow> CustomerConfig" where
  "take_projects customer = customer\<lparr>config_projects := []\<rparr>"

definition TakeSingleProjectConfig :: "ProjectConfigs \<Rightarrow> (ProjectConfig option \<times> ProjectConfigs) option" where
  "TakeSingleProjectConfig p =
     (if \<not> is_single_project p then Some (None, p)
      else case customers (cobalt_registry p) of
             [] \<Rightarrow> None
           | customer # cs \<Rightarrow>
               (case config_projects customer of
                  [] \<Rightarrow> None
                | prj # _ \<Rightarrow>
                    Some (Some prj,
                      p\<lparr>is_empty := True, is_single_project := False, projects_by_name := [], projects_by_id := [],
                        configs_metrics_by_id := [], reports_by_id := [],
                        cobalt_registry := \<lparr>customers = take_projects customer # cs\<rparr>,
                        customers_by_id := map (\<lambda>(k, c). (k, if c = customer then take_projects c else c)) (customers_by_id p),
                        customers_by_name := map (\<lambda>(k, c). (k, if c = customer then take_projects c else c)) (customers_by_name p)\<rparr>)))"

definition GetCustomerConfig :: "ProjectConfigs \<Rightarrow> u32 \<Rightarrow> CustomerConfig option" where
  "GetCustomerConfig p cid = map_of (customers_by_id p) cid"

definition GetProjectConfig :: "ProjectConfigs \<Rightarrow> u32 \<Rightarrow> u32 \<Rightarrow> ProjectConfig option" where
  "GetProjectConfig p cid pid = map_of (projects_by_id p) (cid, pid)"

definition GetMetricDefinition :: "ProjectConfigs \<Rightarrow> u32 \<Rightarrow> u32 \<Rightarrow> u32 \<Rightarrow> MetricDefinition option" where
  "GetMetricDefinition p cid pid mid = map_of (configs_metrics_by_id p) (cid, pid, mid)"

definition GetReportDefinition :: "ProjectConfigs \<Rightarrow> u32 \<Rightarrow> u32 \<Rightarrow> u32 \<Rightarrow> u32 \<Rightarrow> ReportDefinition option" where
  "GetReportDefinition p cid pid mid rid = map_of (reports_by_id p) (cid, pid, mid, rid)"

text \<open>The order of the keys is lexicographic.\<close>

definition pair_less_eq :: "u32 \<times> u32 \<Rightarrow> u32 \<times> u32 \<Rightarrow> bool" where
  "pair_less_eq a b \<longleftrightarrow> fst a < fst b \<or> fst a = fst b \<and> snd a \<le> snd b"

fun insert_pair :: "u32 \<times> u32 \<Rightarrow> (u32 \<times> u32) list \<Rightarrow> (u32 \<times> u32) list" where
  "insert_pair x [] = [x]"
| "insert_pair x (y # ys) = (if pair_less_eq x y then x # y # ys else y # insert_pair x ys)"

definition ListProjects :: "ProjectConfigs \<Rightarrow> (u32 \<times> u32) list" where
  "ListProjects p = foldr insert_pair (map fst (projects_by_id p)) []"

section \<open>ProjectContextFactory\<close>

record ProjectContextFactory =
  project_configs :: "ProjectConfigs option"

definition ParseRegistryBytes :: "('b \<Rightarrow> CobaltRegistry option) \<Rightarrow> 'b \<Rightarrow> CobaltRegistry" where
  "ParseRegistryBytes ParseFromString bytes =
     (case ParseFromString bytes of None \<Rightarrow> \<lparr>customers = []\<rparr> | Some registry \<Rightarrow> registry)"

definition ProjectContextFactory_ctor :: "CobaltRegistry \<Rightarrow> ProjectContextFactory" where
  "ProjectContextFactory_ctor registry = \<lparr>project_configs = Some (CreateFromCobaltRegistryProto registry)\<rparr>"

definition Factory_from_bytes :: "('b \<Rightarrow> CobaltRegistry option) \<Rightarrow> 'b \<Rightarrow> ProjectContextFactory" where
  "Factory_from_bytes ParseFromString bytes = ProjectContextFactory_ctor (ParseRegistryBytes ParseFromString bytes)"

definition Factory_from_base64 ::
    "('e \<Rightarrow> 'b option) \<Rightarrow> ('b \<Rightarrow> CobaltRegistry option) \<Rightarrow> 'e \<Rightarrow> ProjectContextFactory option" where
  "Factory_from_base64 Base64Unescape ParseFromString e =
     (case Base64Unescape e of None \<Rightarrow> None | Some b \<Rightarrow> Some (Factory_from_bytes ParseFromString b))"

definition factory_is_valid :: "ProjectContextFactory \<Rightarrow> bool" where
  "factory_is_valid f = (case project_configs f of None \<Rightarrow> False | Some p \<Rightarrow> \<not> is_empty p)"

definition factory_is_single_project :: "ProjectContextFactory \<Rightarrow> bool" where
  "factory_is_single_project f = (case project_configs f of None \<Rightarrow> False | Some p \<Rightarrow> is_single_project p)"

definition NewProjectContext :: "ProjectContextFactory \<Rightarrow> u32 \<Rightarrow> u32 \<Rightarrow> ProjectContext option" where
  "NewProjectContext f cid pid =
     (case project_configs f of
        None \<Rightarrow> None
      | Some p \<Rightarrow>
          (case GetCustomerConfig p cid of
             None \<Rightarrow> None
           | Some customer_config \<Rightarrow>
               (case GetProjectConfig p cid pid of
                  None \<Rightarrow> None
                | Some prj \<Rightarrow> ProjectContext_ctor cid (config_customer_name customer_config) (Some prj) None)))"

text \<open>The outer option is a failed \<open>CHECK\<close>.\<close>

definition TakeSingleProjectContext :: "ProjectContextFactory \<Rightarrow> (ProjectContext option \<times> ProjectContextFactory) option" where
  "TakeSingleProjectContext f =
     (case project_configs f of
        None \<Rightarrow> Some (None, f)
      | Some p \<Rightarrow>
          if \<not> is_single_project p then Some (None, f)
          else case TakeSingleProjectConfig p of
                 None \<Rightarrow> None
               | Some (config, p') \<Rightarrow>
                   (case ProjectContext_ctor (single_customer_id p) (single_customer_name p) None config of
                      None \<Rightarrow> None
                    | Some c \<Rightarrow> Some (Some c, f\<lparr>project_configs := None\<rparr>)))"

section \<open>The maps as searches in the registry\<close>

lemma map_of_fold_map_set:
  "map_of (fold (\<lambda>x. map_set (k x) (v x)) xs m) i =
     (case List.find (\<lambda>x. k x = i) (rev xs) of Some x \<Rightarrow> Some (v x) | None \<Rightarrow> map_of m i)"
proof (induction xs rule: rev_induct)
  case (snoc x xs)
  then show ?case by (auto split: option.splits)
qed simp

lemma find_rev_unique:
  assumes "x \<in> set xs" and "P x" and "\<And>y. y \<in> set xs \<Longrightarrow> P y \<Longrightarrow> y = x"
  shows "List.find P (rev xs) = Some x"
proof -
  from assms(1,2) obtain y where "List.find P (rev xs) = Some y" by (cases "List.find P (rev xs)") (auto simp: find_None_iff)
  with assms(3) show ?thesis by (metis find_Some_iff nth_mem set_rev)
qed

definition belongs :: "u32 \<Rightarrow> u32 \<Rightarrow> MetricDefinition \<Rightarrow> bool" where
  "belongs cid pid m \<longleftrightarrow> metric_customer_id m = cid \<and> metric_project_id m = pid"

lemma fold_add_metric:
  "project (fold add_metric ms c) = project c \<and> project_config (fold add_metric ms c) = project_config c \<and>
   metrics_by_id (fold add_metric ms c) =
     fold (\<lambda>m. map_set (metric_def_id m) m)
       (filter (belongs (project_customer_id (project c)) (project_project_id (project c))) ms) (metrics_by_id c)"
  by (induction ms arbitrary: c) (auto simp: add_metric_def belongs_def)

lemma GetMetric_ctor:
  assumes "ProjectContext_ctor cid nm (Some cfg) None = Some c"
  shows "GetMetric c mid = List.find (\<lambda>m. metric_def_id m = mid) (rev (filter (belongs cid (config_project_id cfg)) (config_metrics cfg)))"
    and "project c = PopulateProject cid (config_project_id cfg) nm (config_project_name cfg)"
    and "metrics c = config_metrics cfg"
  using assms
  by (auto simp: ProjectContext_ctor_def GetMetric_def fold_add_metric map_of_fold_map_set PopulateProject_def metrics_def
      split: option.splits)

lemma fold_add_project_metric:
  "projects_by_id (fold (add_project_metric cid pid) ms p) = projects_by_id p \<and>
   customers_by_id (fold (add_project_metric cid pid) ms p) = customers_by_id p"
proof -
  have r: "projects_by_id (fold (add_report cid pid mid) rs p) = projects_by_id p \<and>
    customers_by_id (fold (add_report cid pid mid) rs p) = customers_by_id p" for mid rs p
    by (induction rs arbitrary: p) (simp_all add: add_report_def)
  show ?thesis by (induction ms arbitrary: p) (simp_all add: add_project_metric_def r)
qed

lemma fold_add_project:
  "projects_by_id (fold (add_project c) qs p) =
     fold (\<lambda>q. map_set (config_customer_id c, config_project_id q) q) qs (projects_by_id p) \<and>
   customers_by_id (fold (add_project c) qs p) = customers_by_id p"
  by (induction qs arbitrary: p) (simp_all add: add_project_def fold_add_project_metric)

text \<open>All projects with their customers, in the order of the registry.\<close>

definition all_projects :: "CobaltRegistry \<Rightarrow> (CustomerConfig \<times> ProjectConfig) list" where
  "all_projects r = concat (map (\<lambda>c. map (Pair c) (config_projects c)) (customers r))"

lemma fold_add_customer:
  "projects_by_id (fold add_customer cs p) =
     fold (\<lambda>(c, q). map_set (config_customer_id c, config_project_id q) q)
       (concat (map (\<lambda>c. map (Pair c) (config_projects c)) cs)) (projects_by_id p) \<and>
   customers_by_id (fold add_customer cs p) =
     fold (\<lambda>c. map_set (config_customer_id c) c) cs (customers_by_id p)"
  by (induction cs arbitrary: p) (simp_all add: add_customer_def fold_add_project fold_map comp_def)

lemma GetProjectConfig_ctor:
  "GetProjectConfig (ProjectConfigs_ctor r) cid pid =
     map_option snd (List.find (\<lambda>(c, q). config_customer_id c = cid \<and> config_project_id q = pid) (rev (all_projects r)))"
proof -
  have "GetProjectConfig (ProjectConfigs_ctor r) cid pid =
    map_of (fold (\<lambda>cq. map_set (config_customer_id (fst cq), config_project_id (snd cq)) (snd cq)) (all_projects r) []) (cid, pid)"
    by (simp add: GetProjectConfig_def ProjectConfigs_ctor_def Let_def fold_add_customer all_projects_def
        case_prod_unfold split: list.split)
  then show ?thesis
    by (simp add: map_of_fold_map_set case_prod_unfold split: option.split)
qed

lemma GetCustomerConfig_ctor:
  "GetCustomerConfig (ProjectConfigs_ctor r) cid = List.find (\<lambda>c. config_customer_id c = cid) (rev (customers r))"
proof -
  have "GetCustomerConfig (ProjectConfigs_ctor r) cid =
    map_of (fold (\<lambda>c. map_set (config_customer_id c) c) (customers r) []) cid"
    by (simp add: GetCustomerConfig_def ProjectConfigs_ctor_def Let_def fold_add_customer split: list.split)
  then show ?thesis by (simp add: map_of_fold_map_set split: option.split)
qed

text \<open>Ids are unique within their scope, and every metric carries the ids of its project.\<close>

definition registry_ok :: "CobaltRegistry \<Rightarrow> bool" where
  "registry_ok r \<longleftrightarrow> distinct (map config_customer_id (customers r)) \<and>
     list_all (\<lambda>c. distinct (map config_project_id (config_projects c)) \<and>
       list_all (\<lambda>q. distinct (map metric_def_id (config_metrics q)) \<and>
         list_all (belongs (config_customer_id c) (config_project_id q)) (config_metrics q)) (config_projects c)) (customers r)"

lemma registry_ok_unique:
  assumes "registry_ok r" and "c \<in> set (customers r)" and "q \<in> set (config_projects c)"
    and "c' \<in> set (customers r)" and "q' \<in> set (config_projects c')"
    and "config_customer_id c' = config_customer_id c" and "config_project_id q' = config_project_id q"
  shows "c' = c \<and> q' = q"
proof -
  have "c' = c" using assms by (auto simp: registry_ok_def distinct_map dest: inj_onD)
  with assms show ?thesis by (auto simp: registry_ok_def list_all_iff distinct_map dest: inj_onD)
qed

section \<open>Properties\<close>

text \<open>In a registry with unique ids, the factory makes a context exactly for the projects of the registry,
  the context carries the names of its customer and project, and \<open>GetMetric\<close> finds a metric exactly when
  the project has a metric of that id.\<close>

theorem NewProjectContext_spec:
  assumes "registry_ok r"
  shows "(case NewProjectContext (ProjectContextFactory_ctor r) cid pid of
      None \<Rightarrow> \<not> (\<exists>c \<in> set (customers r). \<exists>q \<in> set (config_projects c).
                config_customer_id c = cid \<and> config_project_id q = pid)
    | Some ctx \<Rightarrow> (\<exists>c \<in> set (customers r). \<exists>q \<in> set (config_projects c).
        config_customer_id c = cid \<and> config_project_id q = pid \<and>
        project ctx = PopulateProject cid pid (config_customer_name c) (config_project_name q) \<and>
        metrics ctx = config_metrics q \<and>
        (\<forall>mid m. GetMetric ctx mid = Some m \<longleftrightarrow> m \<in> set (config_metrics q) \<and> metric_def_id m = mid)))"
proof (cases "\<exists>c \<in> set (customers r). \<exists>q \<in> set (config_projects c). config_customer_id c = cid \<and> config_project_id q = pid")
  case False
  then have "GetProjectConfig (ProjectConfigs_ctor r) cid pid = None"
    by (auto simp: GetProjectConfig_ctor find_None_iff all_projects_def)
  then have "NewProjectContext (ProjectContextFactory_ctor r) cid pid = None"
    by (simp add: NewProjectContext_def ProjectContextFactory_ctor_def CreateFromCobaltRegistryProto_def split: option.split)
  with False show ?thesis by auto
next
  case True
  then obtain c q where cq: "c \<in> set (customers r)" "q \<in> set (config_projects c)" "config_customer_id c = cid" "config_project_id q = pid"
    by blast
  note u = registry_ok_unique [OF assms cq(1,2)]
  have "List.find (\<lambda>(c, q). config_customer_id c = cid \<and> config_project_id q = pid) (rev (all_projects r)) = Some (c, q)"
  proof (rule find_rev_unique)
    show "(c, q) \<in> set (all_projects r)" using cq(1,2) by (auto simp: all_projects_def)
    show "case (c, q) of (c, q) \<Rightarrow> config_customer_id c = cid \<and> config_project_id q = pid" using cq(3,4) by simp
    fix cq' assume "cq' \<in> set (all_projects r)" "case cq' of (c, q) \<Rightarrow> config_customer_id c = cid \<and> config_project_id q = pid"
    then show "cq' = (c, q)" using u [of "fst cq'" "snd cq'"] cq(3,4) by (auto simp: all_projects_def)
  qed
  then have p: "GetProjectConfig (ProjectConfigs_ctor r) cid pid = Some q" by (simp add: GetProjectConfig_ctor)
  have "GetCustomerConfig (ProjectConfigs_ctor r) cid = Some c"
    unfolding GetCustomerConfig_ctor
    by (rule find_rev_unique) (use cq assms in \<open>auto simp: registry_ok_def distinct_map dest: inj_onD\<close>)
  with p have n': "NewProjectContext (ProjectContextFactory_ctor r) cid pid = ProjectContext_ctor cid (config_customer_name c) (Some q) None"
    by (simp only: NewProjectContext_def ProjectContextFactory_ctor_def CreateFromCobaltRegistryProto_def
        ProjectContextFactory.simps option.case)
  obtain ctx where ctx: "ProjectContext_ctor cid (config_customer_name c) (Some q) None = Some ctx"
    by (simp add: ProjectContext_ctor_def)
  with n' have n: "NewProjectContext (ProjectContextFactory_ctor r) cid pid = Some ctx" by simp
  have ok: "distinct (map metric_def_id (config_metrics q))" "list_all (belongs cid pid) (config_metrics q)"
    using assms cq by (auto simp: registry_ok_def list_all_iff)
  then have f: "filter (belongs cid (config_project_id q)) (config_metrics q) = config_metrics q"
    using cq(4) by (simp add: filter_id_conv list_all_iff)
  have "GetMetric ctx mid = Some m \<longleftrightarrow> m \<in> set (config_metrics q) \<and> metric_def_id m = mid" for mid m
  proof
    assume "GetMetric ctx mid = Some m"
    then show "m \<in> set (config_metrics q) \<and> metric_def_id m = mid"
      unfolding GetMetric_ctor(1) [OF ctx] f by (metis (mono_tags, lifting) find_Some_iff nth_mem set_rev)
  next
    assume m: "m \<in> set (config_metrics q) \<and> metric_def_id m = mid"
    show "GetMetric ctx mid = Some m"
      unfolding GetMetric_ctor(1) [OF ctx] f
      by (rule find_rev_unique) (use m ok(1) in \<open>auto simp: distinct_map dest: inj_onD\<close>)
  qed
  with n cq GetMetric_ctor(2,3) [OF ctx] show ?thesis by auto
qed

definition example_metric :: MetricDefinition where
  "example_metric =
     \<lparr>metric_name = ''m'', metric_customer_id = 1, metric_project_id = 2, metric_def_id = 3, metric_type = EVENT_COUNT,
      metric_dimensions = [], metric_int_buckets = None, time_zone_policy = UTC, max_release_stage = 99,
      also_log_locally = False, reports = []\<rparr>"

definition example_registry :: CobaltRegistry where
  "example_registry =
     \<lparr>customers = [\<lparr>config_customer_name = ''c'', config_customer_id = 1,
        config_projects = [\<lparr>config_project_name = ''p'', config_project_id = 2, config_metrics = [example_metric]\<rparr>]\<rparr>]\<rparr>"

theorem NewProjectContext_spec_witness:
  "\<exists>ctx. NewProjectContext (ProjectContextFactory_ctor example_registry) 1 2 = Some ctx \<and>
     GetMetric ctx 3 = Some example_metric \<and> GetMetric ctx 4 = None"
proof -
  have "registry_ok example_registry"
    by (simp add: registry_ok_def example_registry_def example_metric_def belongs_def)
  note spec = NewProjectContext_spec [OF this, of 1 2]
  define q where "q = \<lparr>config_project_name = ''p'', config_project_id = 2, config_metrics = [example_metric]\<rparr>"
  have c: "set (customers example_registry) = {\<lparr>config_customer_name = ''c'', config_customer_id = 1, config_projects = [q]\<rparr>}"
    by (simp add: example_registry_def q_def)
  have q: "config_project_id q = 2" "config_metrics q = [example_metric]" by (simp_all add: q_def)
  obtain ctx where n: "NewProjectContext (ProjectContextFactory_ctor example_registry) 1 2 = Some ctx"
    and g: "\<And>mid m. GetMetric ctx mid = Some m \<longleftrightarrow> m \<in> set (config_metrics q) \<and> metric_def_id m = mid"
    using spec unfolding c by (cases "NewProjectContext (ProjectContextFactory_ctor example_registry) 1 2") (simp_all add: q(1))
  have i: "metric_def_id example_metric = 3" by (simp add: example_metric_def)
  have "GetMetric ctx 3 = Some example_metric" by (simp add: g q(2) i)
  moreover have "GetMetric ctx 4 \<noteq> Some m" for m unfolding g by (auto simp: q(2) i)
  then have "GetMetric ctx 4 = None" by (metis option.exhaust)
  ultimately show ?thesis using n by blast
qed

end
