(* ===== verification/Rappor.thy ===== *)
theory Rappor
  imports Crypto_Random Project_Registry
begin

text \<open>
  Basic RAPPOR: \<open>RapporConfigValidator\<close>, \<open>BasicRapporEncoder\<close>, \<open>BasicRapporAnalyzer\<close> and
  \<open>RapporConfigHelper\<close> (\<^verbatim>\<open>src/src/algorithms/rappor/\<close>). Probabilities are the rational values of the
  \<open>float\<close>s. The serialisation of a \<open>ValuePart\<close>, which only serves as a key, is a parameter. The lemmas
  describe the category map, the bits of an encoded observation and the counting loop; the properties
  are what \<open>Encode\<close> returns on every branch, what the analyzer counts, and that encoding without noise
  followed by the analysis is exact. The roots in the standard errors are real numbers.
\<close>

section \<open>Configuration\<close>

datatype ValuePart = string_value string | int_value i64 | blob_value "u8 list" | index_value u32 | DATA_NOT_SET

datatype Categories =
    kStringCategories "string list"
  | kIntRangeCategories "32 word" "32 word"
  | kIndexedCategories u32
  | kUnset

record BasicRapporConfig =
  prob_0_becomes_1 :: rat
  prob_1_stays_1 :: rat
  prob_rr :: rat
  categories :: Categories

definition CommonValidate :: "rat \<Rightarrow> rat \<Rightarrow> rat \<Rightarrow> bool" where
  "CommonValidate p q rr =
     (if p < 0 \<or> p > 1 then False
      else if q < 0 \<or> q > 1 then False
      else if p = q then False
      else if rr \<noteq> 0 then False
      else True)"

definition max_num_categories :: int where "max_num_categories = 1024"

definition ExtractCategories :: "BasicRapporConfig \<Rightarrow> ValuePart list option" where
  "ExtractCategories config =
     (case categories config of
        kStringCategories strings \<Rightarrow>
          if int (length strings) \<le> 1 \<or> int (length strings) \<ge> max_num_categories then None
          else if list_ex (\<lambda>category. category = []) strings then None
          else Some (map string_value strings)
      | kIntRangeCategories from_int to_int \<Rightarrow>
          if sint to_int \<le> sint from_int \<or> sint to_int - sint from_int + 1 \<ge> max_num_categories then None
          else Some (map (\<lambda>category. int_value (of_int category)) [sint from_int..sint to_int])
      | kIndexedCategories indexed \<Rightarrow>
          if uint indexed \<ge> max_num_categories then None
          else Some (map (\<lambda>i. index_value (of_nat i)) [0..<unat indexed])
      | kUnset \<Rightarrow> None)"

text \<open>\<open>num_bits_\<close> is not initialised when the constructor returns early.\<close>

record 'k RapporConfigValidator =
  valid :: bool
  val_prob_0_becomes_1 :: rat
  val_prob_1_stays_1 :: rat
  num_bits :: "nat option"
  category_to_bit_index :: "('k \<times> nat) list"
  val_categories :: "ValuePart list"

text \<open>The loop that fills the map; \<open>None\<close> when a category occurs twice.\<close>

fun insert_categories :: "(ValuePart \<Rightarrow> 'k) \<Rightarrow> nat \<Rightarrow> ValuePart list \<Rightarrow> ('k \<times> nat) list \<Rightarrow> ('k \<times> nat) list option" where
  "insert_categories Serialize index [] m = Some m"
| "insert_categories Serialize index (category # cs) m =
     (if map_of m (Serialize category) \<noteq> None then None
      else insert_categories Serialize (index + 1) cs (map_set (Serialize category) index m))"

definition RapporConfigValidator_ctor :: "(ValuePart \<Rightarrow> 'k) \<Rightarrow> BasicRapporConfig \<Rightarrow> 'k RapporConfigValidator" where
  "RapporConfigValidator_ctor Serialize config =
     (let v = \<lparr>valid = False, val_prob_0_becomes_1 = prob_0_becomes_1 config, val_prob_1_stays_1 = prob_1_stays_1 config,
               num_bits = None, category_to_bit_index = [], val_categories = []\<rparr>
      in if \<not> CommonValidate (prob_0_becomes_1 config) (prob_1_stays_1 config) (prob_rr config) then v
         else case ExtractCategories config of
                None \<Rightarrow> v
              | Some cs \<Rightarrow>
                  let v = v\<lparr>val_categories := cs, num_bits := Some (length cs)\<rparr>
                  in case insert_categories Serialize 0 cs [] of
                       None \<Rightarrow> v
                     | Some m \<Rightarrow> v\<lparr>category_to_bit_index := m, valid := True\<rparr>)"

definition bit_index :: "(ValuePart \<Rightarrow> 'k) \<Rightarrow> 'k RapporConfigValidator \<Rightarrow> ValuePart \<Rightarrow> int" where
  "bit_index Serialize v category =
     (case map_of (category_to_bit_index v) (Serialize category) of None \<Rightarrow> - 1 | Some i \<Rightarrow> int i)"

definition MinPower2Above :: "16 word \<Rightarrow> u32" where
  "MinPower2Above x =
     (if x = 0 then 1
      else let v = ucast x - 1;
               v = v OR drop_bit 1 v;
               v = v OR drop_bit 2 v;
               v = v OR drop_bit 4 v;
               v = v OR drop_bit 8 v
           in v + 1)"

section \<open>Encoder\<close>

datatype RapporStatus = rappor_kOK | rappor_kInvalidConfig | rappor_kInvalidInput

record 'k BasicRapporEncoder =
  enc_config :: "'k RapporConfigValidator"
  enc_client_secret :: ClientSecret

definition BasicRapporEncoder_ctor ::
    "(ValuePart \<Rightarrow> 'k) \<Rightarrow> BasicRapporConfig \<Rightarrow> ClientSecret \<Rightarrow> 'k BasicRapporEncoder" where
  "BasicRapporEncoder_ctor Serialize config secret =
     \<lparr>enc_config = RapporConfigValidator_ctor Serialize config, enc_client_secret = secret\<rparr>"

definition FlipBits :: "rat \<Rightarrow> rat \<Rightarrow> Random \<Rightarrow> u8 list \<Rightarrow> RapporStatus \<times> u8 list \<times> Random" where
  "FlipBits p q r data =
     (if p \<le> 0 \<and> q \<ge> 1 then (rappor_kOK, data, r)
      else case RandomBits p (length data) r of
             (None, r) \<Rightarrow> (rappor_kInvalidInput, data, r)
           | (Some p_mask, r) \<Rightarrow>
               (case RandomBits q (length data) r of
                  (None, r) \<Rightarrow> (rappor_kInvalidInput, data, r)
                | (Some q_mask, r) \<Rightarrow>
                    (rappor_kOK,
                     map (\<lambda>i. (p_mask ! i AND NOT (data ! i)) OR (q_mask ! i AND data ! i)) [0..<length data], r)))"

text \<open>The \<open>Inl\<close> case is a status other than \<open>kOK\<close>. An uninitialised \<open>num_bits_\<close> is never read, because
  the configuration is then not valid.\<close>

definition InitializeObservationData :: "'k BasicRapporEncoder \<Rightarrow> RapporStatus + u8 list" where
  "InitializeObservationData e =
     (if \<not> valid (enc_config e) then Inl rappor_kInvalidConfig
      else if \<not> secret_valid (enc_client_secret e) then Inl rappor_kInvalidConfig
      else case num_bits (enc_config e) of
             None \<Rightarrow> Inl rappor_kInvalidConfig
           | Some n \<Rightarrow> Inr (replicate ((n + 7) div 8) 0))"

text \<open>\<open>observation_out\<close> is \<open>Some\<close> data when it is set.\<close>

definition Rappor_Encode ::
    "(ValuePart \<Rightarrow> 'k) \<Rightarrow> 'k BasicRapporEncoder \<Rightarrow> ValuePart \<Rightarrow> Random \<Rightarrow> RapporStatus \<times> u8 list option \<times> Random" where
  "Rappor_Encode Serialize e value r =
     (case InitializeObservationData e of
        Inl status \<Rightarrow> (status, None, r)
      | Inr data \<Rightarrow>
          let index = bit_index Serialize (enc_config e) value
          in if index = - 1 then (rappor_kInvalidInput, None, r)
             else let byte_index = nat index div 8;
                      bit_in_byte_index = nat index mod 8;
                      data = data[length data - (byte_index + 1) := push_bit bit_in_byte_index 1]
                  in case FlipBits (val_prob_0_becomes_1 (enc_config e)) (val_prob_1_stays_1 (enc_config e)) r data of
                       (status, data, r) \<Rightarrow> (if status = rappor_kOK then (rappor_kOK, Some data, r) else (status, None, r)))"

definition EncodeNullObservation :: "'k BasicRapporEncoder \<Rightarrow> Random \<Rightarrow> RapporStatus \<times> u8 list option \<times> Random" where
  "EncodeNullObservation e r =
     (case InitializeObservationData e of
        Inl status \<Rightarrow> (status, None, r)
      | Inr data \<Rightarrow>
          (case FlipBits (val_prob_0_becomes_1 (enc_config e)) (val_prob_1_stays_1 (enc_config e)) r data of
             (status, data, r) \<Rightarrow> (if status = rappor_kOK then (rappor_kOK, Some data, r) else (status, None, r))))"

section \<open>Analyzer\<close>

record 'k BasicRapporAnalyzer =
  ana_config :: "'k RapporConfigValidator"
  num_observations :: nat
  observation_errors :: nat
  category_counts :: "nat list"
  num_encoding_bytes :: nat

definition BasicRapporAnalyzer_ctor :: "(ValuePart \<Rightarrow> 'k) \<Rightarrow> BasicRapporConfig \<Rightarrow> 'k BasicRapporAnalyzer" where
  "BasicRapporAnalyzer_ctor Serialize config =
     (let v = RapporConfigValidator_ctor Serialize config;
          a = \<lparr>ana_config = v, num_observations = 0, observation_errors = 0, category_counts = [], num_encoding_bytes = 0\<rparr>
      in case (valid v, num_bits v) of
           (True, Some n) \<Rightarrow> a\<lparr>category_counts := replicate n 0, num_encoding_bytes := (n + 7) div 8\<rparr>
         | _ \<Rightarrow> a)"

text \<open>The loop over the bits of one byte: the flag tells that the function returned, which it does as soon
  as all categories have been seen.\<close>

function count_bits :: "u8 \<Rightarrow> nat \<Rightarrow> nat \<Rightarrow> nat list \<Rightarrow> bool \<times> nat \<times> nat list" where
  "count_bits byte index category counts =
     (if index \<ge> 8 then (False, category, counts)
      else if category \<ge> length counts then (True, category, counts)
      else count_bits byte (index + 1) (category + 1)
             (if push_bit index 1 AND byte \<noteq> 0 then counts[category := counts ! category + 1] else counts))"
  by pat_completeness auto
termination
  by (relation "measure (\<lambda>(byte, index, category, counts). 8 - index)") auto

declare count_bits.simps [simp del]

text \<open>The loop over the bytes, from the last to the first. Its condition \<open>byte_index >= 0\<close> holds for every
  unsigned index, so after the first byte it goes on with an index outside of the data; \<open>None\<close> is the read
  there, which only happens when a category is left.\<close>

fun count_bytes :: "u8 list \<Rightarrow> nat \<Rightarrow> nat list \<Rightarrow> nat list option" where
  "count_bytes [] category counts = (if category \<ge> length counts then Some counts else None)"
| "count_bytes (byte # bytes) category counts =
     (case count_bits byte 0 category counts of
        (True, _, counts) \<Rightarrow> Some counts
      | (False, category, counts) \<Rightarrow> count_bytes bytes category counts)"

definition AddObservation :: "'k BasicRapporAnalyzer \<Rightarrow> u8 list \<Rightarrow> (bool \<times> 'k BasicRapporAnalyzer) option" where
  "AddObservation a data =
     (if \<not> valid (ana_config a) then Some (False, a\<lparr>observation_errors := observation_errors a + 1\<rparr>)
      else if length data \<noteq> num_encoding_bytes a then Some (False, a\<lparr>observation_errors := observation_errors a + 1\<rparr>)
      else case count_bytes (rev data) 0 (category_counts a) of
             None \<Rightarrow> None
           | Some counts \<Rightarrow> Some (True, a\<lparr>num_observations := num_observations a + 1, category_counts := counts\<rparr>))"

text \<open>The estimates are the rational values of the formulas, their standard errors real numbers. \<open>None\<close> stands for an access outside of a vector, a size
  that was not initialised and a result that is not a number.\<close>

record CategoryResult =
  category :: ValuePart
  count_estimate :: rat
  std_error :: real

definition category_result :: "'k BasicRapporAnalyzer \<Rightarrow> nat \<Rightarrow> CategoryResult option" where
  "category_result a category_index =
     (let q = val_prob_1_stays_1 (ana_config a);
          p = val_prob_0_becomes_1 (ana_config a);
          N = of_nat (num_observations a);
          one_minus_q_plus_p = 1 - (q + p);
          Npq = N * p * q;
          correction = p * N;
          divisor = q - p;
          abs_divisor = \<bar>divisor\<bar>
      in if category_index \<ge> length (val_categories (ana_config a)) \<or> category_index \<ge> length (category_counts a) then None
         else let Y = of_nat (category_counts a ! category_index)
              in if divisor = 0 \<or> Y * one_minus_q_plus_p + Npq < 0 then None
                 else Some \<lparr>category = val_categories (ana_config a) ! category_index, count_estimate = (Y - correction) / divisor,
                            std_error = sqrt (of_rat (Y * one_minus_q_plus_p + Npq)) / of_rat abs_divisor\<rparr>)"

fun collect_results :: "(nat \<Rightarrow> 'r option) \<Rightarrow> nat list \<Rightarrow> 'r list option" where
  "collect_results f [] = Some []"
| "collect_results f (i # is) =
     (case f i of None \<Rightarrow> None | Some r \<Rightarrow> map_option (Cons r) (collect_results f is))"

definition Analyze :: "'k BasicRapporAnalyzer \<Rightarrow> CategoryResult list option" where
  "Analyze a =
     (case num_bits (ana_config a) of
        None \<Rightarrow> None
      | Some n \<Rightarrow> collect_results (category_result a) [0..<n])"

section \<open>Configuration from the registry\<close>

definition kProbRR :: rat where "kProbRR = 0"

definition ProbBitFlip :: "ReportDefinition \<Rightarrow> rat" where
  "ProbBitFlip report =
     (case local_privacy_noise_level report of
        NO_NOISE \<Rightarrow> 0
      | SMALL \<Rightarrow> 10737418 / 2 ^ 30
      | MEDIUM \<Rightarrow> 13421773 / 2 ^ 27
      | LARGE \<Rightarrow> 1 / 4
      | NOISE_LEVEL_UNSET \<Rightarrow> - 1)"

text \<open>\<open>1.0f - p\<close>, rounded to 24 bits. For the values of \<open>ProbBitFlip\<close> the result is at least one half, so one
  unit in the last place is \<open>2^-24\<close>.\<close>

definition one_minus :: "rat \<Rightarrow> rat" where
  "one_minus p = of_int (round ((1 - p) * 2 ^ 24)) / 2 ^ 24"

definition BasicRapporNumCategories :: "MetricDefinition \<Rightarrow> u32" where
  "BasicRapporNumCategories metric =
     (case metric_dimensions metric of [d] \<Rightarrow> max_event_code d + 1 | _ \<Rightarrow> 0)"

section \<open>The category map\<close>

lemma insert_categories_Some:
  assumes "distinct (map S cs)" and "\<And>c. c \<in> set cs \<Longrightarrow> map_of m (S c) = None"
  shows "\<exists>m'. insert_categories S i cs m = Some m' \<and> (\<forall>j < length cs. map_of m' (S (cs ! j)) = Some (i + j)) \<and>
    (\<forall>k. k \<notin> S ` set cs \<longrightarrow> map_of m' k = map_of m k)"
  using assms
proof (induction cs arbitrary: i m)
  case (Cons c cs)
  have "\<exists>m'. insert_categories S (i + 1) cs (map_set (S c) i m) = Some m' \<and>
      (\<forall>j < length cs. map_of m' (S (cs ! j)) = Some (i + 1 + j)) \<and>
      (\<forall>k. k \<notin> S ` set cs \<longrightarrow> map_of m' k = map_of (map_set (S c) i m) k)"
    by (rule Cons.IH) (use Cons.prems in \<open>auto intro: rev_image_eqI\<close>)
  then obtain m' where m': "insert_categories S (i + 1) cs (map_set (S c) i m) = Some m'"
    "\<forall>j < length cs. map_of m' (S (cs ! j)) = Some (i + 1 + j)"
    "\<forall>k. k \<notin> S ` set cs \<longrightarrow> map_of m' k = map_of (map_set (S c) i m) k" by blast
  have "map_of m' (S ((c # cs) ! j)) = Some (i + j)" if "j < length (c # cs)" for j
    using that m' Cons.prems(1) by (cases j) auto
  with m' Cons.prems show ?case by auto
qed simp

lemma insert_categories_distinct:
  "insert_categories S i cs m = Some m' \<Longrightarrow> distinct (map S cs) \<and> (\<forall>c \<in> set cs. map_of m (S c) = None)"
  by (induction S i cs m rule: insert_categories.induct) (auto split: if_splits)

text \<open>The configuration the encoder builds for \<open>n\<close> indexed categories.\<close>

definition indexed_config :: "rat \<Rightarrow> rat \<Rightarrow> u32 \<Rightarrow> BasicRapporConfig" where
  "indexed_config p q n = \<lparr>prob_0_becomes_1 = p, prob_1_stays_1 = q, prob_rr = kProbRR, categories = kIndexedCategories n\<rparr>"

lemma map_of_nat_word_distinct:
  assumes "inj S" and "n \<le> 2 ^ 32"
  shows "distinct (map (\<lambda>i. S (index_value (of_nat i :: u32))) [0..<n])"
proof -
  have "inj_on (\<lambda>i. S (index_value (of_nat i :: u32))) {0..<n}"
  proof (rule inj_onI)
    fix i j assume *: "i \<in> {0..<n}" "j \<in> {0..<n}" "S (index_value (of_nat i :: u32)) = S (index_value (of_nat j))"
    with \<open>inj S\<close> have "unat (of_nat i :: u32) = unat (of_nat j :: u32)" by (auto dest: injD)
    with * assms(2) show "i = j" by (simp add: unat_of_nat)
  qed
  then show ?thesis by (simp add: distinct_map)
qed

lemma validator_indexed:
  assumes S: "inj S" and ok: "CommonValidate p q 0" and n: "uint n < 1024"
  defines "v \<equiv> RapporConfigValidator_ctor S (indexed_config p q n)"
  shows "valid v" and "num_bits v = Some (unat n)" and "val_prob_0_becomes_1 v = p" and "val_prob_1_stays_1 v = q"
    and "bit_index S v (index_value i) = (if i < n then int (unat i) else - 1)"
    and "val_categories v = map (\<lambda>i. index_value (of_nat i)) [0..<unat n]"
proof -
  define cs :: "ValuePart list" where "cs = map (\<lambda>i. index_value (of_nat i)) [0..<unat n]"
  have n': "unat n < 1024" using n by (simp only: unat_eq_nat_uint nat_less_iff uint_ge_0)
  have "map S cs = map (\<lambda>i. S (index_value (of_nat i))) [0..<unat n]" by (simp add: cs_def)
  then have "distinct (map S cs)" using map_of_nat_word_distinct [OF S, of "unat n"] n' by (simp only:) simp
  then obtain m where m: "insert_categories S 0 cs [] = Some m" "\<forall>j < length cs. map_of m (S (cs ! j)) = Some j"
    "\<forall>k. k \<notin> S ` set cs \<longrightarrow> map_of m k = None"
    using insert_categories_Some [of S cs "[]" 0] by auto
  have v: "v = \<lparr>valid = True, val_prob_0_becomes_1 = p, val_prob_1_stays_1 = q, num_bits = Some (length cs),
      category_to_bit_index = m, val_categories = cs\<rparr>"
    using ok n m(1)
    by (simp add: v_def RapporConfigValidator_ctor_def indexed_config_def ExtractCategories_def kProbRR_def Let_def
        max_num_categories_def cs_def [symmetric])
  show "valid v" "num_bits v = Some (unat n)" "val_prob_0_becomes_1 v = p" "val_prob_1_stays_1 v = q"
    "val_categories v = map (\<lambda>i. index_value (of_nat i)) [0..<unat n]"
    by (simp_all add: v cs_def)
  show "bit_index S v (index_value i) = (if i < n then int (unat i) else - 1)"
  proof (cases "i < n")
    case True
    then have "unat i < unat n" by (simp add: word_less_nat_alt)
    then have "cs ! unat i = index_value i" "unat i < length cs" by (simp_all add: cs_def)
    with m(2) have "map_of m (S (index_value i)) = Some (unat i)" by metis
    with True show ?thesis by (simp add: bit_index_def v)
  next
    case False
    have "index_value i \<notin> set cs"
    proof
      assume "index_value i \<in> set cs"
      then obtain j where "j < unat n" "i = of_nat j" by (auto simp: cs_def)
      then have "i < n" using n' by (simp add: word_less_nat_alt unat_of_nat)
      with False show False by simp
    qed
    with S have "S (index_value i) \<notin> S ` set cs" by (auto dest: injD)
    with m(3) False show ?thesis by (simp add: bit_index_def v)
  qed
qed

section \<open>The bits of an observation\<close>

text \<open>Bit \<open>i\<close> of an observation, counted from the least significant bit of its last byte.\<close>

definition obs_bit :: "u8 list \<Rightarrow> nat \<Rightarrow> bool" where
  "obs_bit data i = bit (data ! (length data - 1 - i div 8)) (i mod 8)"

lemma obs_bit_set:
  assumes "v < 8 * n" and "i < 8 * n"
  shows "obs_bit ((replicate n 0)[n - (v div 8 + 1) := push_bit (v mod 8) 1]) i \<longleftrightarrow> i = v"
proof -
  have d: "v div 8 < n" "i div 8 < n" using assms by (auto simp: less_mult_imp_div_less mult.commute)
  have "n - 1 - i div 8 = n - (v div 8 + 1) \<longleftrightarrow> i div 8 = v div 8" using d by linarith
  moreover have "i div 8 = v div 8 \<and> i mod 8 = v mod 8 \<longleftrightarrow> i = v" by (metis div_mult_mod_eq)
  moreover have "bit (push_bit (v mod 8) 1 :: u8) (i mod 8) \<longleftrightarrow> i mod 8 = v mod 8"
    by (auto simp: bit_push_bit_iff bit_1_iff simp del: push_bit_of_1)
  moreover have "n - 1 - i div 8 < n" using d by linarith
  ultimately show ?thesis by (auto simp: obs_bit_def nth_list_update)
qed

lemma FlipBits_ok:
  assumes "length data \<le> 256" and "q \<le> 1"
  shows "\<exists>d r'. FlipBits p q r data = (rappor_kOK, d, r') \<and> length d = length data \<and>
    (\<forall>k < length data. \<forall>n < 8. (p \<le> 0 \<longrightarrow> bit (d ! k) n \<longrightarrow> bit (data ! k) n) \<and>
                         (q = 1 \<longrightarrow> bit (data ! k) n \<longrightarrow> bit (d ! k) n))"
proof (cases "p \<le> 0 \<and> q \<ge> 1")
  case True
  then show ?thesis by (simp add: FlipBits_def)
next
  case False
  obtain pm r1 where pm: "RandomBits p (length data) r = (Some pm, r1)" using RandomBits_Some [OF assms(1)] by blast
  obtain qm r2 where qm: "RandomBits q (length data) r1 = (Some qm, r2)" using RandomBits_Some [OF assms(1)] by blast
  have "p \<le> 0 \<Longrightarrow> pm = replicate (length data) 0" using pm RandomBits_zero [of p "length data" r] assms(1) by simp
  moreover have "bit (qm ! k) n" if "q = 1" "k < length data" "n < 8" for k n
    using RandomBits_one [of "length data" r1 qm r2 k n] qm that by simp
  ultimately show ?thesis
    using False pm qm by (auto simp: FlipBits_def bit_simps)
qed

lemma FlipBits_obs_bit:
  assumes "length data \<le> 256" and "q \<le> 1"
  shows "\<exists>d r'. FlipBits p q r data = (rappor_kOK, d, r') \<and> length d = length data \<and>
    (\<forall>i < 8 * length data. (p \<le> 0 \<longrightarrow> obs_bit d i \<longrightarrow> obs_bit data i) \<and> (q = 1 \<longrightarrow> obs_bit data i \<longrightarrow> obs_bit d i))"
proof -
  obtain d r' where d: "FlipBits p q r data = (rappor_kOK, d, r')" "length d = length data"
    "\<forall>k < length data. \<forall>n < 8. (p \<le> 0 \<longrightarrow> bit (d ! k) n \<longrightarrow> bit (data ! k) n) \<and> (q = 1 \<longrightarrow> bit (data ! k) n \<longrightarrow> bit (d ! k) n)"
    using FlipBits_ok [OF assms, of p r] by blast
  have "length data - 1 - i div 8 < length data" if "i < 8 * length data" for i using that by (cases data) auto
  with d show ?thesis by (auto simp: obs_bit_def)
qed

section \<open>The counting loops\<close>

lemma count_bits_spec:
  assumes "count_bits byte i c counts = (ret, c', counts')" and "i \<le> 8" and "c \<le> length counts"
  shows "length counts' = length counts \<and> c' = min (c + (8 - i)) (length counts) \<and>
    (ret \<longleftrightarrow> length counts < c + (8 - i)) \<and>
    (\<forall>k < length counts. counts' ! k = counts ! k + (if c \<le> k \<and> k < c + (8 - i) \<and> bit byte (i + k - c) then 1 else 0))"
  using assms
proof (induction byte i c counts arbitrary: ret c' counts' rule: count_bits.induct)
  case (1 byte i c counts)
  consider "i = 8" | "i < 8" "c = length counts" | "i < 8" "c < length counts" using "1.prems"(2,3) by linarith
  then show ?case
  proof cases
    case 1
    with "1.prems"(1,3) show ?thesis by (auto simp: count_bits.simps [of byte 8])
  next
    case 2
    with "1.prems"(1) have "ret" "c' = length counts" "counts' = counts" by (auto simp: count_bits.simps [of byte i])
    with 2 show ?thesis by auto
  next
    case 3
    define cs where "cs = (if push_bit i 1 AND byte \<noteq> 0 then counts[c := counts ! c + 1] else counts)"
    have b: "push_bit i 1 AND byte \<noteq> 0 \<longleftrightarrow> bit byte i"
      by (simp add: bit_iff_and_push_bit_not_eq_0 and.commute)
    have "count_bits byte (i + 1) (c + 1) cs = (ret, c', counts')"
      using "1.prems"(1) 3 by (simp add: count_bits.simps [of byte i] cs_def)
    with "1.IH" [of ret c' counts', folded cs_def] 3
    have ih: "length counts' = length cs" "c' = min (c + 1 + (8 - (i + 1))) (length cs)"
      "ret \<longleftrightarrow> length cs < c + 1 + (8 - (i + 1))"
      "\<forall>k < length cs. counts' ! k = cs ! k + (if c + 1 \<le> k \<and> k < c + 1 + (8 - (i + 1)) \<and> bit byte (i + 1 + k - (c + 1)) then 1 else 0)"
      by (simp_all add: cs_def)
    have l: "length cs = length counts" "\<And>k. k < length counts \<Longrightarrow> cs ! k = counts ! k + (if k = c \<and> bit byte i then 1 else 0)"
      using 3 by (auto simp: cs_def [unfolded b] nth_list_update)
    show ?thesis
    proof (intro conjI allI impI)
      fix k assume "k < length counts"
      then show "counts' ! k = counts ! k + (if c \<le> k \<and> k < c + (8 - i) \<and> bit byte (i + k - c) then 1 else 0)"
        using ih(4) l 3 by (cases "k = c") auto
    qed (use ih l 3 in auto)
  qed
qed

lemma count_bytes_spec:
  assumes "c \<le> length counts" and "length counts \<le> c + 8 * length bytes"
  shows "\<exists>counts'. count_bytes bytes c counts = Some counts' \<and> length counts' = length counts \<and>
    (\<forall>k < length counts. counts' ! k = counts ! k + (if c \<le> k \<and> bit (bytes ! ((k - c) div 8)) ((k - c) mod 8) then 1 else 0))"
  using assms
proof (induction bytes arbitrary: c counts)
  case (Cons b bs)
  obtain ret c1 counts1 where r: "count_bits b 0 c counts = (ret, c1, counts1)" by (metis prod.exhaust)
  have 1: "length counts1 = length counts" "c1 = min (c + 8) (length counts)" "ret \<longleftrightarrow> length counts < c + 8"
    "\<And>k. k < length counts \<Longrightarrow> counts1 ! k = counts ! k + (if c \<le> k \<and> k < c + 8 \<and> bit b (k - c) then 1 else 0)"
    using count_bits_spec [OF r _ Cons.prems(1)] by simp_all
  have d: "(b # bs) ! ((k - c) div 8) = b" "(k - c) mod 8 = k - c" if "k < c + 8" for k
    using that by (simp_all add: div_less mod_less less_diff_conv2)
  show ?case
  proof (cases ret)
    case True
    with 1 r d show ?thesis by (auto simp: less_le_trans)
  next
    case False
    then have c1: "c1 = c + 8" using 1(2,3) by simp
    obtain counts' where c': "count_bytes bs c1 counts1 = Some counts'" "length counts' = length counts1"
      "\<And>k. k < length counts1 \<Longrightarrow> counts' ! k = counts1 ! k + (if c1 \<le> k \<and> bit (bs ! ((k - c1) div 8)) ((k - c1) mod 8) then 1 else 0)"
      using Cons.IH [of c1 counts1] Cons.prems 1 c1 False by auto
    have e: "(b # bs) ! ((k - c) div 8) = bs ! ((k - c1) div 8)" "(k - c) mod 8 = (k - c1) mod 8" if "c1 \<le> k" for k
    proof -
      have "k - c = (k - c1) + 8" using that c1 by simp
      then show "(b # bs) ! ((k - c) div 8) = bs ! ((k - c1) div 8)" "(k - c) mod 8 = (k - c1) mod 8" by simp_all
    qed
    have "counts' ! k = counts ! k + (if c \<le> k \<and> bit ((b # bs) ! ((k - c) div 8)) ((k - c) mod 8) then 1 else 0)"
      if k: "k < length counts" for k
    proof (cases "c1 \<le> k")
      case True
      with k c'(3) 1 e [OF True] c1 show ?thesis by simp
    next
      case f: False
      with k c'(3) 1 d [of k] c1 show ?thesis by simp
    qed
    with r False c' 1 show ?thesis by simp
  qed
qed simp

lemma AddObservation_counts:
  assumes "valid (ana_config a)" and "length data = num_encoding_bytes a"
    and "length (category_counts a) \<le> 8 * num_encoding_bytes a"
  shows "\<exists>a'. AddObservation a data = Some (True, a') \<and> num_observations a' = num_observations a + 1 \<and>
    category_counts a' =
      map (\<lambda>i. category_counts a ! i + (if obs_bit data i then 1 else 0)) [0..<length (category_counts a)]"
proof -
  obtain counts where c: "count_bytes (rev data) 0 (category_counts a) = Some counts" "length counts = length (category_counts a)"
    "\<And>k. k < length (category_counts a) \<Longrightarrow> counts ! k = category_counts a ! k + (if bit (rev data ! (k div 8)) (k mod 8) then 1 else 0)"
    using count_bytes_spec [of 0 "category_counts a" "rev data"] assms by auto
  have "rev data ! (k div 8) = data ! (length data - 1 - k div 8)" if "k < length (category_counts a)" for k
    using that assms by (subst rev_nth) (auto simp: less_mult_imp_div_less mult.commute)
  with c have "counts = map (\<lambda>i. category_counts a ! i + (if obs_bit data i then 1 else 0)) [0..<length (category_counts a)]"
    by (intro nth_equalityI) (auto simp: obs_bit_def)
  with c assms show ?thesis by (simp add: AddObservation_def)
qed

section \<open>Encoding one of the indexed categories\<close>

lemma encoder_indexed:
  assumes S: "inj Serialize" and pq: "CommonValidate p q 0" and n: "uint n < 1024" and secret: "secret_valid secret"
  defines "e \<equiv> BasicRapporEncoder_ctor Serialize (indexed_config p q n) secret"
  shows "InitializeObservationData e = Inr (replicate ((unat n + 7) div 8) 0)"
    and "bit_index Serialize (enc_config e) (index_value v) = (if v < n then int (unat v) else - 1)"
    and "val_prob_0_becomes_1 (enc_config e) = p" and "val_prob_1_stays_1 (enc_config e) = q"
  using secret
  by (simp_all add: InitializeObservationData_def e_def BasicRapporEncoder_ctor_def validator_indexed [OF S pq n])

lemma Rappor_Encode_in_range:
  assumes S: "inj Serialize" and pq: "CommonValidate p q 0" and n: "uint n < 1024" and secret: "secret_valid secret"
    and vn: "v < n"
  shows "\<exists>data r'. Rappor_Encode Serialize (BasicRapporEncoder_ctor Serialize (indexed_config p q n) secret) (index_value v) r =
      (rappor_kOK, Some data, r') \<and> length data = (unat n + 7) div 8 \<and> unat v < 8 * length data \<and>
    (\<forall>i < 8 * length data. p = 0 \<longrightarrow> obs_bit data i \<longrightarrow> i = unat v) \<and> (q = 1 \<longrightarrow> obs_bit data (unat v))"
proof -
  define e where "e = BasicRapporEncoder_ctor Serialize (indexed_config p q n) secret"
  define len where "len = (unat n + 7) div 8"
  note enc = encoder_indexed [OF S pq n secret, folded e_def len_def]
  have n': "unat n < 1024" using n by (simp only: unat_eq_nat_uint nat_less_iff uint_ge_0)
  have q1: "q \<le> 1" "0 \<le> p" using pq by (auto simp: CommonValidate_def split: if_splits)
  have v: "unat v < unat n" using vn by (simp add: word_less_nat_alt)
  then have v8: "unat v < 8 * len" unfolding len_def by linarith
  define d0 :: "u8 list" where "d0 = (replicate len 0)[len - (unat v div 8 + 1) := push_bit (unat v mod 8) 1]"
  have l: "length d0 = len" "len \<le> 256" using n' by (simp_all add: d0_def len_def)
  have d0: "obs_bit d0 i \<longleftrightarrow> i = unat v" if "i < 8 * len" for i
    unfolding d0_def by (rule obs_bit_set [OF v8 that])
  obtain d r' where d: "FlipBits p q r d0 = (rappor_kOK, d, r')" "length d = len"
    "\<forall>i < 8 * len. (p \<le> 0 \<longrightarrow> obs_bit d i \<longrightarrow> obs_bit d0 i) \<and> (q = 1 \<longrightarrow> obs_bit d0 i \<longrightarrow> obs_bit d i)"
    using FlipBits_obs_bit [of d0 q p r] l q1 by auto
  have "uint v \<noteq> - 1" using uint_ge_0 [of v] by linarith
  moreover have "FlipBits p q r ((replicate len 0)[len - (unat v div 8 + 1) := 2 ^ (unat v mod 8)]) = (rappor_kOK, d, r')"
    using d(1) by (simp add: d0_def)
  ultimately have "Rappor_Encode Serialize e (index_value v) r = (rappor_kOK, Some d, r')"
    using vn by (simp add: Rappor_Encode_def enc Let_def)
  with d d0 v8 show ?thesis unfolding e_def [symmetric] len_def [symmetric] by auto
qed

section \<open>Properties\<close>

text \<open>Encoding one of \<open>n\<close> indexed categories: for a valid configuration and secret, a value out of range is
  refused with \<open>kInvalidInput\<close>; a value in range gives an observation of \<open>n\<close> bits rounded up to bytes, in which
  no bit but the value's is set when the probability of a zero becoming a one is zero, and the value's bit is
  set when the probability of a one staying a one is one.\<close>

theorem Encode_indexed:
  assumes S: "inj Serialize" and pq: "CommonValidate p q 0" and n: "uint n < 1024" and secret: "secret_valid secret"
  shows "let e = BasicRapporEncoder_ctor Serialize (indexed_config p q n) secret;
             (status, obs, r') = Rappor_Encode Serialize e (index_value v) r
         in if v < n
            then status = rappor_kOK \<and>
                 (\<exists>data. obs = Some data \<and> length data = (unat n + 7) div 8 \<and>
                    (\<forall>i < 8 * length data. p = 0 \<longrightarrow> obs_bit data i \<longrightarrow> i = unat v) \<and>
                    (q = 1 \<longrightarrow> obs_bit data (unat v)))
            else status = rappor_kInvalidInput \<and> obs = None \<and> r' = r"
proof (cases "v < n")
  case False
  then show ?thesis by (simp add: Rappor_Encode_def encoder_indexed [OF S pq n secret] Let_def)
next
  case True
  obtain data r' where "Rappor_Encode Serialize (BasicRapporEncoder_ctor Serialize (indexed_config p q n) secret) (index_value v) r =
      (rappor_kOK, Some data, r')" "length data = (unat n + 7) div 8"
    "\<forall>i < 8 * length data. p = 0 \<longrightarrow> obs_bit data i \<longrightarrow> i = unat v" "q = 1 \<longrightarrow> obs_bit data (unat v)"
    using Rappor_Encode_in_range [OF assms True, of r] by blast
  with True show ?thesis by (simp add: Let_def)
qed

text \<open>An injective serialisation for the examples.\<close>

lemma inj_id_ValuePart: "inj (\<lambda>v :: ValuePart. v)"
  by (simp add: inj_def)

lemma no_noise_valid: "CommonValidate 0 1 0"
  by (simp add: CommonValidate_def)

definition example_secret :: ClientSecret where
  "example_secret = \<lparr>secret_bytes = replicate 16 7\<rparr>"

lemma example_secret_valid: "secret_valid example_secret"
  by (simp add: example_secret_def secret_valid_def kNumSecretBytes_def)

theorem Encode_indexed_witness:
  "\<exists>data r'. Rappor_Encode (\<lambda>v. v) (BasicRapporEncoder_ctor (\<lambda>v. v) (indexed_config 0 1 10) example_secret)
     (index_value 9) (\<lambda>i. 0) = (rappor_kOK, Some data, r') \<and> length data = 2 \<and> obs_bit data 9"
proof -
  let ?e = "Rappor_Encode (\<lambda>v. v) (BasicRapporEncoder_ctor (\<lambda>v. v) (indexed_config 0 1 10) example_secret) (index_value 9) (\<lambda>i. 0)"
  obtain status obs r' where e: "?e = (status, obs, r')" by (metis prod.exhaust)
  have "uint (10 :: u32) < 1024" "(9 :: u32) < 10" by simp_all
  with Encode_indexed [OF inj_id_ValuePart no_noise_valid _ example_secret_valid, of 10 9 "\<lambda>i. 0"] e show ?thesis
    by (simp add: Let_def) blast
qed

text \<open>The analyzer accepts every observation of the right length without reading outside of it, and adds one to
  exactly the categories whose bit is set; any other observation is counted as an error and changes nothing
  else.\<close>

theorem AddObservation_spec:
  assumes "inj Serialize" and "CommonValidate p q 0" and "uint n < 1024"
    and "a = BasicRapporAnalyzer_ctor Serialize (indexed_config p q n)"
    and "length (category_counts a') = unat n" and "a' = a\<lparr>category_counts := cs, num_observations := k, observation_errors := er\<rparr>"
  shows "\<exists>ok a''. AddObservation a' data = Some (ok, a'') \<and> (ok \<longleftrightarrow> length data = (unat n + 7) div 8) \<and>
    (if ok then num_observations a'' = k + 1 \<and> observation_errors a'' = er \<and>
        category_counts a'' = map (\<lambda>i. cs ! i + (if obs_bit data i then 1 else 0)) [0..<unat n]
     else num_observations a'' = k \<and> observation_errors a'' = er + 1 \<and> category_counts a'' = cs)"
proof -
  note vi = validator_indexed [OF assms(1-3)]
  have a: "valid (ana_config a')" "num_encoding_bytes a' = (unat n + 7) div 8" "category_counts a' = cs" "length cs = unat n"
    "num_observations a' = k" "observation_errors a' = er"
    using vi assms(5) by (simp_all add: assms(4,6) BasicRapporAnalyzer_ctor_def Let_def)
  show ?thesis
  proof (cases "length data = (unat n + 7) div 8")
    case True
    then have "unat n \<le> 8 * ((unat n + 7) div 8)" by linarith
    with AddObservation_counts [of a' data] True a obtain a'' where
      "AddObservation a' data = Some (True, a'')" "num_observations a'' = k + 1"
      "category_counts a'' = map (\<lambda>i. cs ! i + (if obs_bit data i then 1 else 0)) [0..<unat n]" by auto
    moreover from this(1) a have "observation_errors a'' = er" by (auto simp: AddObservation_def split: option.splits if_splits)
    ultimately show ?thesis using True by auto
  next
    case False
    with a show ?thesis by (auto simp: AddObservation_def)
  qed
qed

definition example_analyzer :: "ValuePart BasicRapporAnalyzer" where
  "example_analyzer = BasicRapporAnalyzer_ctor (\<lambda>v. v) (indexed_config 0 1 3)"

theorem AddObservation_spec_witness:
  "\<exists>a. AddObservation (example_analyzer\<lparr>category_counts := [4, 0, 2], num_observations := 6, observation_errors := 0\<rparr>) [0b101] =
     Some (True, a) \<and> category_counts a = [5, 0, 3] \<and> num_observations a = 7"
proof -
  let ?a = "example_analyzer\<lparr>category_counts := [4, 0, 2], num_observations := 6, observation_errors := 0\<rparr>"
  have o: "obs_bit [0b101] 0" "\<not> obs_bit [0b101] 1" "obs_bit [0b101] 2" by (simp_all add: obs_bit_def bit_simps)
  have l: "[0..<unat (3 :: u32)] = [0, 1, 2]" by (simp add: upt_rec)
  obtain ok a where a: "AddObservation ?a [0b101] = Some (ok, a)" "ok \<longleftrightarrow> length [0b101 :: u8] = (unat (3 :: u32) + 7) div 8"
    "if ok then num_observations a = 6 + 1 \<and> observation_errors a = 0 \<and>
        category_counts a = map (\<lambda>i. [4, 0, 2] ! i + (if obs_bit [0b101] i then 1 else 0)) [0..<unat (3 :: u32)]
     else num_observations a = 6 \<and> observation_errors a = 0 + 1 \<and> category_counts a = [4, 0, 2]"
    using AddObservation_spec [OF inj_id_ValuePart no_noise_valid, where n = 3 and a' = ?a and cs = "[4, 0, 2]" and k = 6 and er = 0 and data = "[0b101]", OF _ example_analyzer_def _ refl] by auto
  then have "ok" by simp
  with a(3) o l have "category_counts a = [5, 0, 3]" "num_observations a = 7" by simp_all
  with a(1) \<open>ok\<close> show ?thesis by simp
qed

text \<open>A call of the encoder without noise, followed by one of the analyzer.\<close>

lemma encode_then_add:
  assumes "inj Serialize" and "uint n < 1024" and "secret_valid secret" and "v < n"
    and a: "ana_config a = RapporConfigValidator_ctor Serialize (indexed_config 0 1 n)" "num_encoding_bytes a = (unat n + 7) div 8"
      "length (category_counts a) = unat n"
  shows "\<exists>data r' a'. Rappor_Encode Serialize (BasicRapporEncoder_ctor Serialize (indexed_config 0 1 n) secret) (index_value v) r = (rappor_kOK, Some data, r') \<and>
    AddObservation a data = Some (True, a') \<and> ana_config a' = ana_config a \<and> num_encoding_bytes a' = num_encoding_bytes a \<and>
    num_observations a' = num_observations a + 1 \<and> category_counts a' = (category_counts a)[unat v := category_counts a ! unat v + 1]"
proof -
  note vi = validator_indexed [OF assms(1) no_noise_valid assms(2)]
  obtain data r' where
    enc: "Rappor_Encode Serialize (BasicRapporEncoder_ctor Serialize (indexed_config 0 1 n) secret) (index_value v) r = (rappor_kOK, Some data, r')"
      "length data = (unat n + 7) div 8"
    and bits: "\<forall>i < 8 * length data. 0 = (0 :: rat) \<longrightarrow> obs_bit data i \<longrightarrow> i = unat v" "1 = (1 :: rat) \<longrightarrow> obs_bit data (unat v)"
    using Rappor_Encode_in_range [OF assms(1) no_noise_valid assms(2,3,4), of r] by blast
  have bits: "obs_bit data i \<longleftrightarrow> i = unat v" if "i < 8 * length data" for i using bits that by auto
  have l: "unat n \<le> 8 * ((unat n + 7) div 8)" by linarith
  have "valid (ana_config a)" using vi(1) a(1) by simp
  then obtain a' where a': "AddObservation a data = Some (True, a')" "num_observations a' = num_observations a + 1"
    "category_counts a' = map (\<lambda>i. category_counts a ! i + (if obs_bit data i then 1 else 0)) [0..<unat n]"
    using AddObservation_counts [of a data] a enc(2) l by auto
  have "category_counts a' = (category_counts a)[unat v := category_counts a ! unat v + 1]"
    unfolding a'(3) using enc(2) bits l a(3) by (intro nth_equalityI) (auto simp: nth_list_update)
  moreover have "ana_config a' = ana_config a" "num_encoding_bytes a' = num_encoding_bytes a"
    using a'(1) by (auto simp: AddObservation_def split: if_splits option.splits)
  ultimately show ?thesis using enc(1) a' by blast
qed

section \<open>Analysis\<close>

lemma collect_results_map: "\<forall>i\<in>set is. f i = Some (g i) \<Longrightarrow> collect_results f is = Some (map g is)"
  by (induction "is") simp_all

text \<open>The radicand of the standard error is never negative: no count is larger than the number of observations.\<close>

lemma radicand_nonneg:
  assumes "CommonValidate p q rr" and "Y \<le> N"
  shows "0 \<le> of_nat Y * (1 - (q + p)) + of_nat N * p * (q :: rat)"
proof -
  have pq: "0 \<le> p" "p \<le> 1" "0 \<le> q" "q \<le> 1" using assms(1) by (auto simp: CommonValidate_def split: if_splits)
  have Y: "(0 :: rat) \<le> of_nat Y" "(of_nat Y :: rat) \<le> of_nat N" using assms(2) by simp_all
  have "0 \<le> of_nat Y * ((1 - p) * (1 - q)) + (of_nat N - of_nat Y) * (p * q)"
    using pq Y by (intro add_nonneg_nonneg mult_nonneg_nonneg) simp_all
  also have "\<dots> = of_nat Y * (1 - (q + p)) + of_nat N * p * q" by (simp add: algebra_simps)
  finally show ?thesis .
qed

text \<open>So the analysis of the observations of a valid configuration returns a result for every category.\<close>

lemma Analyze_defined:
  assumes p: "CommonValidate (val_prob_0_becomes_1 (ana_config a)) (val_prob_1_stays_1 (ana_config a)) rr"
    and n: "num_bits (ana_config a) = Some n" "length (val_categories (ana_config a)) = n" "length (category_counts a) = n"
    and counts: "\<forall>i<n. category_counts a ! i \<le> num_observations a"
  shows "\<exists>rs. Analyze a = Some rs \<and> length rs = n \<and> (\<forall>i<n. category_result a i = Some (rs ! i))"
proof -
  have ne: "val_prob_1_stays_1 (ana_config a) \<noteq> val_prob_0_becomes_1 (ana_config a)" using p by (auto simp: CommonValidate_def split: if_splits)
  have "\<exists>r. category_result a i = Some r" if "i < n" for i
    using radicand_nonneg [OF p counts [rule_format, OF that]] that n ne by (simp add: category_result_def Let_def)
  then obtain g where "\<forall>i<n. category_result a i = Some (g i)" by metis
  with collect_results_map [of "[0..<n]" "category_result a" g] n(1) show ?thesis by (simp add: Analyze_def)
qed

text \<open>The estimate is unbiased: when the counts are those that \<open>T\<close> of \<open>N\<close> clients with the value lead to on average, it is \<open>T\<close>.\<close>

lemma estimate_of_expected_count:
  assumes "q \<noteq> (p :: rat)" and "Y = q * T + p * (N - T)"
  shows "(Y - p * N) / (q - p) = T"
  using assms by (simp add: field_simps)

text \<open>A sequence of clients, each of which encodes its value, and the analyzer that adds their observations.\<close>

fun encode_and_add :: "(ValuePart \<Rightarrow> 'k) \<Rightarrow> 'k BasicRapporEncoder \<Rightarrow> u32 list \<Rightarrow> 'k BasicRapporAnalyzer \<Rightarrow> Random \<Rightarrow> 'k BasicRapporAnalyzer option" where
  "encode_and_add Serialize e [] a r = Some a"
| "encode_and_add Serialize e (v # vs) a r =
     (case Rappor_Encode Serialize e (index_value v) r of
        (status, Some data, r) \<Rightarrow>
          if status \<noteq> rappor_kOK then None
          else (case AddObservation a data of Some (True, a) \<Rightarrow> encode_and_add Serialize e vs a r | _ \<Rightarrow> None)
      | _ \<Rightarrow> None)"

lemma encode_and_add_counts:
  assumes S: "inj Serialize" and n: "uint n < 1024" and secret: "secret_valid secret" and "\<forall>v\<in>set vs. v < n"
    and "ana_config a = RapporConfigValidator_ctor Serialize (indexed_config 0 1 n)" "num_encoding_bytes a = (unat n + 7) div 8"
      "length (category_counts a) = unat n"
  shows "\<exists>a'. encode_and_add Serialize (BasicRapporEncoder_ctor Serialize (indexed_config 0 1 n) secret) vs a r = Some a' \<and>
    ana_config a' = ana_config a \<and> num_observations a' = num_observations a + length vs \<and> length (category_counts a') = unat n \<and>
    (\<forall>i<unat n. category_counts a' ! i = category_counts a ! i + length (filter (\<lambda>v. unat v = i) vs))"
  using assms(4-)
proof (induction vs arbitrary: a r)
  case (Cons v vs)
  have v: "v < n" using Cons.prems(1) by simp
  obtain data r1 a1 where 1:
    "Rappor_Encode Serialize (BasicRapporEncoder_ctor Serialize (indexed_config 0 1 n) secret) (index_value v) r = (rappor_kOK, Some data, r1)"
    "AddObservation a data = Some (True, a1)" "ana_config a1 = ana_config a" "num_encoding_bytes a1 = num_encoding_bytes a"
    "num_observations a1 = num_observations a + 1" "category_counts a1 = (category_counts a)[unat v := category_counts a ! unat v + 1]"
    using encode_then_add [OF S n secret v Cons.prems(2,3,4), of r] by blast
  obtain a' where "encode_and_add Serialize (BasicRapporEncoder_ctor Serialize (indexed_config 0 1 n) secret) vs a1 r1 = Some a'"
    "ana_config a' = ana_config a1" "num_observations a' = num_observations a1 + length vs" "length (category_counts a') = unat n"
    "\<forall>i<unat n. category_counts a' ! i = category_counts a1 ! i + length (filter (\<lambda>v. unat v = i) vs)"
    using Cons.IH [of a1 r1] Cons.prems 1 by auto
  with 1 Cons.prems(4) show ?case by (auto simp: nth_list_update)
qed simp

text \<open>C30. Encoding without noise and analysis are inverse to each other: when every client encodes one of \<open>n\<close> indexed categories and the analyzer adds all of the observations,
  it reports for every category, in their order, the exact number of clients with that category, with a standard error of 0.\<close>

theorem encode_then_analyze:
  assumes "inj Serialize" and "uint n < 1024" and "secret_valid secret" and "list_all (\<lambda>v. v < n) vs"
    and "e = BasicRapporEncoder_ctor Serialize (indexed_config 0 1 n) secret"
    and "a = BasicRapporAnalyzer_ctor Serialize (indexed_config 0 1 n)"
  shows "\<exists>a'. encode_and_add Serialize e vs a r = Some a' \<and> num_observations a' = length vs \<and>
    Analyze a' = Some (map (\<lambda>i. \<lparr>category = index_value (of_nat i), count_estimate = of_nat (length (filter (\<lambda>v. unat v = i) vs)), std_error = 0\<rparr>) [0..<unat n])"
proof -
  note vi = validator_indexed [OF assms(1) no_noise_valid assms(2)]
  have a: "ana_config a = RapporConfigValidator_ctor Serialize (indexed_config 0 1 n)" "num_encoding_bytes a = (unat n + 7) div 8"
    "category_counts a = replicate (unat n) 0" "num_observations a = 0"
    using vi by (simp_all add: assms(6) BasicRapporAnalyzer_ctor_def Let_def)
  obtain a' where a': "encode_and_add Serialize e vs a r = Some a'" "ana_config a' = ana_config a" "num_observations a' = length vs"
    "length (category_counts a') = unat n" "\<forall>i<unat n. category_counts a' ! i = length (filter (\<lambda>v. unat v = i) vs)"
    using encode_and_add_counts [OF assms(1,2,3), of vs a r] assms(4,5) a by (auto simp: list_all_iff)
  have "\<forall>i\<in>set [0..<unat n]. category_result a' i =
      Some \<lparr>category = index_value (of_nat i), count_estimate = of_nat (length (filter (\<lambda>v. unat v = i) vs)), std_error = 0\<rparr>"
    using a' a vi by (simp add: category_result_def Let_def)
  then have "Analyze a' = Some (map (\<lambda>i. \<lparr>category = index_value (of_nat i), count_estimate = of_nat (length (filter (\<lambda>v. unat v = i) vs)), std_error = 0\<rparr>) [0..<unat n])"
    using a'(2) a(1) vi(2) by (simp add: Analyze_def collect_results_map)
  with a' show ?thesis by blast
qed

theorem encode_then_analyze_witness:
  "\<exists>a'. encode_and_add (\<lambda>v. v) (BasicRapporEncoder_ctor (\<lambda>v. v) (indexed_config 0 1 3) example_secret) [2, 0, 2] example_analyzer (\<lambda>i. 0) = Some a' \<and>
     map_option (map count_estimate) (Analyze a') = Some [1, 0, 2]"
proof -
  have l: "[0..<3] = [0, 1, 2 :: nat]" by (simp add: upt_rec)
  from encode_then_analyze [OF inj_id_ValuePart _ example_secret_valid _ refl example_analyzer_def, of "[2, 0, 2]" "\<lambda>i. 0"]
  show ?thesis by (auto simp: l simp del: encode_and_add.simps)
qed

end
