(* ===== verification/Observation_Store.thy ===== *)
theory Observation_Store
  imports Cobalt_Prelude
begin

text \<open>
  The vocabulary of the observation stores and the base class they share:
  \<^verbatim>\<open>src/src/observation_store/observation_store.h\<close> and \<^verbatim>\<open>.cc\<close>, with the messages of
  \<^verbatim>\<open>src/src/pb/observation_batch.proto\<close>, \<^verbatim>\<open>encrypted_message.proto\<close>, \<^verbatim>\<open>envelope.proto\<close> and
  \<^verbatim>\<open>observation_store_internal.proto\<close>. The unencrypted observation \<open>Observation2\<close> is a type
  parameter: the stores never look inside it.

  The locales at the end are the contract between a store and its client, the shipping manager: taking,
  returning and destroying envelope holders conserves the observations. They are interpreted on
  \<open>MemoryObservationStore\<close> and \<open>FileObservationStore\<close> in the theories of those stores.
\<close>

section \<open>Messages\<close>

datatype EncryptionScheme = NONE | HYBRID_ECDH_V1 | HYBRID_TINK

record EncryptedMessage =
  scheme :: EncryptionScheme
  key_index :: u32
  public_key_fingerprint :: "u8 list"
  ciphertext :: "u8 list"

definition default_EncryptedMessage :: EncryptedMessage where
  "default_EncryptedMessage =
     \<lparr>scheme = NONE, key_index = 0, public_key_fingerprint = [], ciphertext = []\<rparr>"

record SystemProfile =
  os :: nat
  arch :: nat
  board_name :: string
  product_name :: string
  system_version :: string
  channel :: string
  realm :: string
  experiments :: "(int \<times> int) list"

record ObservationMetadata =
  customer_id :: u32
  project_id :: u32
  metric_id :: u32
  report_id :: u32
  day_index :: u32
  system_profile :: SystemProfile

datatype 'o StoredObservation = encrypted EncryptedMessage | unencrypted 'o | OBSERVATION_NOT_SET

record 'o StoredObservationBatch =
  meta_data :: ObservationMetadata
  observation :: "'o StoredObservation list"

record ObservationBatch =
  batch_meta_data :: ObservationMetadata
  encrypted_observation :: "EncryptedMessage list"

record Envelope =
  batch :: "ObservationBatch list"
  api_key :: string

text \<open>A metadata record for the examples.\<close>

definition example_metadata :: ObservationMetadata where
  "example_metadata =
     \<lparr>customer_id = 1, project_id = 2, metric_id = 3, report_id = 4, day_index = 5,
      system_profile = \<lparr>os = 1, arch = 1, board_name = [], product_name = [], system_version = [],
        channel = [], realm = [], experiments = []\<rparr>\<rparr>"

text \<open>What is added to a batch for a stored observation. The entry is added before the encryption is tried,
  so it stays, empty, when the encryption fails.\<close>

definition encrypt_on_read :: "('o \<Rightarrow> EncryptedMessage option) \<Rightarrow> 'o StoredObservation \<Rightarrow> EncryptedMessage" where
  "encrypt_on_read Encrypt obs =
     (case obs of
        encrypted e \<Rightarrow> e
      | unencrypted u \<Rightarrow> (case Encrypt u of Some e \<Rightarrow> e | None \<Rightarrow> default_EncryptedMessage)
      | OBSERVATION_NOT_SET \<Rightarrow> default_EncryptedMessage)"

section \<open>The base class\<close>

datatype StoreStatus = kOk | kObservationTooBig | kStoreFull | kWriteFailed

datatype BytesStoredStatus = Attempted | Succeeded

text \<open>\<open>bytes_stored_metrics\<close> lists the calls of \<open>InternalMetrics::BytesStored\<close>, the latest first.\<close>

record ObservationStore =
  max_bytes_per_observation :: nat
  max_bytes_per_envelope :: nat
  max_bytes_total :: nat
  almost_full_threshold :: nat
  num_obs_per_report :: "(u32 \<times> u64) list"
  is_disabled :: bool
  bytes_stored_metrics :: "(BytesStoredStatus \<times> nat \<times> u32 \<times> u32) list"

text \<open>The product \<open>0.6f * n\<close> of the constructors, truncated to an integer: the integer and the product are
  rounded to 24 significant bits, ties to even; \<open>0.6f\<close> is \<open>10066330 / 2^24\<close>.\<close>

fun bit_length :: "nat \<Rightarrow> nat" where
  "bit_length n = (if n = 0 then 0 else Suc (bit_length (n div 2)))"

declare bit_length.simps [simp del]

definition round_to_float :: "nat \<Rightarrow> nat" where
  "round_to_float n =
     (let p = 2 ^ (bit_length n - 24); q = n div p; r = n mod p
      in (if 2 * r > p \<or> 2 * r = p \<and> odd q then q + 1 else q) * p)"

definition percent60 :: "nat \<Rightarrow> nat" where
  "percent60 n = round_to_float (round_to_float n * 10066330) div 2 ^ 24"

text \<open>The constructor; the model has no value when a \<open>CHECK\<close> fails.\<close>

definition ObservationStore_ctor :: "nat \<Rightarrow> nat \<Rightarrow> nat \<Rightarrow> ObservationStore option" where
  "ObservationStore_ctor per_observation per_envelope bytes_total =
     (if per_observation \<le> per_envelope \<and> per_envelope \<le> bytes_total
      then Some \<lparr>max_bytes_per_observation = per_observation, max_bytes_per_envelope = per_envelope,
                 max_bytes_total = bytes_total, almost_full_threshold = percent60 bytes_total,
                 num_obs_per_report = [], is_disabled = False, bytes_stored_metrics = []\<rparr>
      else None)"

text \<open>\<open>Size()\<close> is virtual and an argument here.\<close>

definition IsAlmostFull :: "nat \<Rightarrow> 'z ObservationStore_scheme \<Rightarrow> bool" where
  "IsAlmostFull Size s \<longleftrightarrow> Size > almost_full_threshold s"

fun StatusDebugString :: "StoreStatus \<Rightarrow> string" where
  "StatusDebugString kOk = ''kOk''"
| "StatusDebugString kObservationTooBig = ''kObservationTooBig''"
| "StatusDebugString kStoreFull = ''kStoreFull''"
| "StatusDebugString kWriteFailed = ''kWriteFailed''"

definition num_observations_added :: "'z ObservationStore_scheme \<Rightarrow> u64" where
  "num_observations_added s = foldl (\<lambda>num_obs count. num_obs + snd count) 0 (num_obs_per_report s)"

definition num_observations_added_for_reports :: "'z ObservationStore_scheme \<Rightarrow> u32 list \<Rightarrow> u64 list" where
  "num_observations_added_for_reports s report_ids =
     map (\<lambda>i. case map_of (num_obs_per_report s) i of Some n \<Rightarrow> n | None \<Rightarrow> 0) report_ids"

definition ResetObservationCounter :: "'z ObservationStore_scheme \<Rightarrow> 'z ObservationStore_scheme" where
  "ResetObservationCounter s = s\<lparr>num_obs_per_report := []\<rparr>"

definition Disable :: "bool \<Rightarrow> 'z ObservationStore_scheme \<Rightarrow> 'z ObservationStore_scheme" where
  "Disable b s = s\<lparr>is_disabled := b\<rparr>"

text \<open>\<open>num_obs_per_report_[report_id]++\<close> and \<open>internal_metrics_->BytesStored(...)\<close>.\<close>

definition count_observation :: "u32 \<Rightarrow> 'z ObservationStore_scheme \<Rightarrow> 'z ObservationStore_scheme" where
  "count_observation r s =
     s\<lparr>num_obs_per_report := map_set r (map_get 0 (num_obs_per_report s) r + 1) (num_obs_per_report s)\<rparr>"

definition BytesStored :: "BytesStoredStatus \<Rightarrow> nat \<Rightarrow> ObservationMetadata \<Rightarrow> 'z ObservationStore_scheme \<Rightarrow> 'z ObservationStore_scheme" where
  "BytesStored status n m s =
     s\<lparr>bytes_stored_metrics := (status, n, customer_id m, project_id m) # bytes_stored_metrics s\<rparr>"

lemma count_observation_sel [simp]:
  "max_bytes_per_observation (count_observation r s) = max_bytes_per_observation s"
  "max_bytes_per_envelope (count_observation r s) = max_bytes_per_envelope s"
  "max_bytes_total (count_observation r s) = max_bytes_total s"
  "is_disabled (count_observation r s) = is_disabled s"
  "bytes_stored_metrics (count_observation r s) = bytes_stored_metrics s"
  "ObservationStore.more (count_observation r s) = ObservationStore.more s"
  by (simp_all add: count_observation_def)

lemma BytesStored_sel [simp]:
  "max_bytes_per_observation (BytesStored st n m s) = max_bytes_per_observation s"
  "max_bytes_per_envelope (BytesStored st n m s) = max_bytes_per_envelope s"
  "max_bytes_total (BytesStored st n m s) = max_bytes_total s"
  "is_disabled (BytesStored st n m s) = is_disabled s"
  "num_obs_per_report (BytesStored st n m s) = num_obs_per_report s"
  "ObservationStore.more (BytesStored st n m s) = ObservationStore.more s"
  by (simp_all add: BytesStored_def)

text \<open>The counters answer for the reports that were counted.\<close>

lemma counts_after_count:
  "num_observations_added_for_reports (count_observation r s) [q] =
     [map_get 0 (num_obs_per_report s) q + (if q = r then 1 else 0)]"
  by (simp add: num_observations_added_for_reports_def count_observation_def map_get_def split: option.splits)

lemma foldl_snd_plus: "foldl (\<lambda>n c. n + snd c) (a :: u64) m = a + (\<Sum>x \<leftarrow> m. snd x)"
  by (induction m arbitrary: a) (simp_all add: add.assoc)

lemma sum_list_map_set:
  "(\<Sum>x \<leftarrow> map_set r (map_get 0 m r + 1) m. snd x) = (\<Sum>x \<leftarrow> m. snd x) + (1 :: u64)"
  by (induction m) (auto simp: map_get_def)

lemma num_observations_added_count:
  "num_observations_added (count_observation r s) = num_observations_added s + 1"
  by (simp add: num_observations_added_def count_observation_def foldl_snd_plus sum_list_map_set)

section \<open>The contract of a store\<close>

text \<open>\<open>contents s\<close> are the observations in the store, \<open>held s h\<close> those of the holder \<open>h\<close> that was taken from
  it, and \<open>rank\<close> bounds the number of holders that can still be taken.\<close>

locale observation_store =
  fixes take_next :: "'s \<Rightarrow> 'h option \<times> 's"
    and return_holder :: "'h \<Rightarrow> 's \<Rightarrow> 's"
    and destroy_holder :: "'h \<Rightarrow> 's \<Rightarrow> 's"
    and inv :: "'s \<Rightarrow> bool"
    and owned :: "'s \<Rightarrow> 'h \<Rightarrow> bool"
    and contents :: "'s \<Rightarrow> 'c multiset"
    and held :: "'s \<Rightarrow> 'h \<Rightarrow> 'c multiset"
    and rank :: "'s \<Rightarrow> nat"
  assumes take_none: "inv s \<Longrightarrow> take_next s = (None, s') \<Longrightarrow> inv s' \<and> contents s' = contents s"
    and take_some: "inv s \<Longrightarrow> take_next s = (Some h, s') \<Longrightarrow>
      inv s' \<and> owned s' h \<and> contents s = contents s' + held s' h \<and> rank s' < rank s"
    and return: "inv s \<Longrightarrow> owned s h \<Longrightarrow>
      inv (return_holder h s) \<and> contents (return_holder h s) = contents s + held s h \<and>
      rank (return_holder h s) \<le> Suc (rank s)"
    and destroy: "inv s \<Longrightarrow> owned s h \<Longrightarrow>
      inv (destroy_holder h s) \<and> contents (destroy_holder h s) = contents s \<and>
      rank (destroy_holder h s) \<le> rank s"
begin

lemma take_return:
  assumes "inv s" and "take_next s = (Some h, s')"
  shows "inv (return_holder h s') \<and> contents (return_holder h s') = contents s \<and>
    rank (return_holder h s') \<le> rank s"
  using take_some [OF assms] return [of s' h] by auto

lemma take_destroy:
  assumes "inv s" and "take_next s = (Some h, s')"
  shows "inv (destroy_holder h s') \<and> contents s = contents (destroy_holder h s') + held s' h \<and>
    rank (destroy_holder h s') < rank s"
  using take_some [OF assms] destroy [of s' h] by auto

end

text \<open>A store that gives out a holder whenever it holds an observation.\<close>

locale reliable_observation_store = observation_store +
  assumes take_none_empty: "inv s \<Longrightarrow> take_next s = (None, s') \<Longrightarrow> contents s = {#}"
begin

lemma nonempty_takes: "inv s \<Longrightarrow> contents s \<noteq> {#} \<Longrightarrow> \<exists>h s'. take_next s = (Some h, s')"
  using take_none_empty by (cases "take_next s", cases "fst (take_next s)") auto

end

end
