(* ===== verification/Observation_Encoder.thy ===== *)
theory Observation_Encoder
  imports Packed_Event_Codes Rappor Observation_Store
begin

text \<open>
  \<open>Encoder\<close> (\<^verbatim>\<open>src/src/logger/encoder.cc\<close>) and \<open>ObservationWriter\<close>
  (\<^verbatim>\<open>src/src/logger/observation_writer.cc\<close>), with the observation messages of
  \<^verbatim>\<open>src/src/pb/observation2.proto\<close>. An encoder carries, besides its members, the third-party functions it
  calls: SHA-256 and the serialisation of a \<open>ValuePart\<close>. Random bytes are threaded through as in
  \<open>Crypto_Random\<close>. The writer works on any observation store, given by its \<open>StoreObservation\<close>. The lemmas
  describe the metadata and the observation each method produces.
\<close>

section \<open>Messages\<close>

record IntegerEventObservation =
  int_event_code :: u64
  int_component_name_hash :: "u8 list"
  int_obs_value :: i64

record HistogramBucket =
  bucket_index :: u32
  bucket_count :: u64

record HistogramObservation =
  hist_event_code :: u64
  hist_component_name_hash :: "u8 list"
  hist_buckets :: "HistogramBucket list"

text \<open>A \<open>double\<close> is its bit pattern: the client only copies it.\<close>

datatype CustomDimensionValue =
    custom_string string | custom_int i64 | custom_blob "u8 list" | custom_index u32 | custom_double u64
  | CUSTOM_NOT_SET

type_synonym EventValues = "(string \<times> CustomDimensionValue) list"

datatype ObservationType =
    numeric_event IntegerEventObservation
  | histogram HistogramObservation
  | basic_rappor "u8 list"
  | unique_actives (rappor_data: "u8 list") (actives_window: OnDeviceAggregationWindow) (actives_event_code: u64)
  | per_device_numeric (integer_event_obs: IntegerEventObservation) (numeric_window: OnDeviceAggregationWindow)
  | per_device_histogram (device_histogram: HistogramObservation) (histogram_window: OnDeviceAggregationWindow)
  | custom EventValues
  | report_participation
  | OBSERVATION_TYPE_NOT_SET

record Observation2 =
  observation_type :: ObservationType
  random_id :: "u8 list"

section \<open>Encoder\<close>

record Encoder =
  client_secret :: ClientSecret
  system_data :: "SystemProfile option"
  Hash :: "string \<Rightarrow> bool \<times> u8 list"
  SerializeValuePart :: "ValuePart \<Rightarrow> u8 list"

record Result =
  status :: Status
  result_observation :: "Observation2 option"
  result_metadata :: "ObservationMetadata option"

definition HashComponentNameIfNotEmpty :: "Encoder \<Rightarrow> string \<Rightarrow> bool \<times> u8 list" where
  "HashComponentNameIfNotEmpty e component = (if component = [] then (True, []) else Hash e component)"

definition TranslateBasicRapporEncoderStatus :: "RapporStatus \<Rightarrow> Status" where
  "TranslateBasicRapporEncoderStatus s =
     (case s of rappor_kOK \<Rightarrow> kOK | rappor_kInvalidConfig \<Rightarrow> kInvalidConfig | rappor_kInvalidInput \<Rightarrow> kInvalidArguments)"

definition default_SystemProfile :: SystemProfile where
  "default_SystemProfile =
     \<lparr>os = 0, arch = 0, board_name = [], product_name = [], system_version = [], channel = [], realm = [], experiments = []\<rparr>"

text \<open>The switch over the fields a report asks for. The realm is filled from the channel.\<close>

definition set_profile_field :: "SystemProfile \<Rightarrow> SystemProfileField \<Rightarrow> SystemProfile \<Rightarrow> SystemProfile" where
  "set_profile_field profile field p =
     (case field of
        OS \<Rightarrow> p\<lparr>os := os profile\<rparr>
      | ARCH \<Rightarrow> p\<lparr>arch := arch profile\<rparr>
      | BOARD_NAME \<Rightarrow> p\<lparr>board_name := board_name profile\<rparr>
      | PRODUCT_NAME \<Rightarrow> p\<lparr>product_name := product_name profile\<rparr>
      | SYSTEM_VERSION \<Rightarrow> p\<lparr>system_version := system_version profile\<rparr>
      | CHANNEL \<Rightarrow> p\<lparr>channel := channel profile\<rparr>
      | REALM \<Rightarrow> p\<lparr>realm := channel profile\<rparr>)"

definition make_metadata :: "Encoder \<Rightarrow> MetricRef \<Rightarrow> ReportDefinition \<Rightarrow> u32 \<Rightarrow> ObservationMetadata" where
  "make_metadata e metric report day =
     \<lparr>customer_id = project_customer_id (ref_project metric),
      project_id = project_project_id (ref_project metric),
      metric_id = metric_def_id (ref_metric metric),
      report_id = report_def_id report,
      day_index = day,
      system_profile =
        (case system_data e of
           None \<Rightarrow> default_SystemProfile
         | Some profile \<Rightarrow> fold (set_profile_field profile) (system_profile_field report) default_SystemProfile)\<rparr>"

definition MakeObservation :: "Encoder \<Rightarrow> MetricRef \<Rightarrow> ReportDefinition \<Rightarrow> u32 \<Rightarrow> Random \<Rightarrow> Result \<times> Random" where
  "MakeObservation e metric report day r =
     (case RandomString (replicate 8 0) r of
        (rid, r) \<Rightarrow>
          (\<lparr>status = kOK,
            result_observation = Some \<lparr>observation_type = OBSERVATION_TYPE_NOT_SET, random_id = rid\<rparr>,
            result_metadata = Some (make_metadata e metric report day)\<rparr>, r))"

text \<open>Sets the type of the observation, as the \<open>mutable_\<close> accessors do.\<close>

definition set_type :: "ObservationType \<Rightarrow> Result \<Rightarrow> Result" where
  "set_type t res = res\<lparr>result_observation := map_option (\<lambda>ob. ob\<lparr>observation_type := t\<rparr>) (result_observation res)\<rparr>"

definition rappor_config :: "ReportDefinition \<Rightarrow> u32 \<Rightarrow> BasicRapporConfig" where
  "rappor_config report num_categories =
     (let prob_bit_flip = ProbBitFlip report
      in \<lparr>prob_0_becomes_1 = prob_bit_flip, prob_1_stays_1 = one_minus prob_bit_flip, prob_rr = kProbRR,
          categories = kIndexedCategories num_categories\<rparr>)"

text \<open>The observation's data stay empty when the encoding fails.\<close>

definition data_or_empty :: "u8 list option \<Rightarrow> u8 list" where
  "data_or_empty d = (case d of None \<Rightarrow> [] | Some b \<Rightarrow> b)"

definition EncodeBasicRapporObservation ::
    "Encoder \<Rightarrow> MetricRef \<Rightarrow> ReportDefinition \<Rightarrow> u32 \<Rightarrow> u32 \<Rightarrow> u32 \<Rightarrow> Random \<Rightarrow> Result \<times> Random" where
  "EncodeBasicRapporObservation e metric report day value_index num_categories r =
     (let (res, r) = MakeObservation e metric report day r;
          enc = BasicRapporEncoder_ctor (SerializeValuePart e) (rappor_config report num_categories) (client_secret e);
          (st, data, r) = Rappor_Encode (SerializeValuePart e) enc (index_value value_index) r
      in ((set_type (basic_rappor (data_or_empty data)) res)\<lparr>status := TranslateBasicRapporEncoderStatus st\<rparr>, r))"

definition EncodeNullBasicRapporObservation ::
    "Encoder \<Rightarrow> MetricRef \<Rightarrow> ReportDefinition \<Rightarrow> u32 \<Rightarrow> u32 \<Rightarrow> Random \<Rightarrow> Result \<times> Random" where
  "EncodeNullBasicRapporObservation e metric report day num_categories r =
     (let (res, r) = MakeObservation e metric report day r;
          enc = BasicRapporEncoder_ctor (SerializeValuePart e) (rappor_config report num_categories) (client_secret e);
          (st, data, r) = EncodeNullObservation enc r
      in ((set_type (basic_rappor (data_or_empty data)) res)\<lparr>status := TranslateBasicRapporEncoderStatus st\<rparr>, r))"

definition EncodeIntegerEventObservation ::
    "Encoder \<Rightarrow> MetricRef \<Rightarrow> ReportDefinition \<Rightarrow> u32 \<Rightarrow> u32 list \<Rightarrow> string \<Rightarrow> i64 \<Rightarrow> Random \<Rightarrow> Result \<times> Random" where
  "EncodeIntegerEventObservation e metric report day codes component v r =
     (let (res, r) = MakeObservation e metric report day r;
          (ok, hash) = HashComponentNameIfNotEmpty e component;
          res = (if ok then res else res\<lparr>status := kOther\<rparr>)
      in (set_type (numeric_event \<lparr>int_event_code = PackEventCodes codes, int_component_name_hash = hash, int_obs_value = v\<rparr>) res, r))"

definition EncodeHistogramObservation ::
    "Encoder \<Rightarrow> MetricRef \<Rightarrow> ReportDefinition \<Rightarrow> u32 \<Rightarrow> u32 list \<Rightarrow> string \<Rightarrow> HistogramBucket list \<Rightarrow> Random \<Rightarrow> Result \<times> Random" where
  "EncodeHistogramObservation e metric report day codes component buckets r =
     (let (res, r) = MakeObservation e metric report day r;
          (ok, hash) = HashComponentNameIfNotEmpty e component;
          res = (if ok then res else res\<lparr>status := kOther\<rparr>)
      in (set_type (histogram \<lparr>hist_event_code = PackEventCodes codes, hist_component_name_hash = hash, hist_buckets = buckets\<rparr>) res, r))"

definition EncodeCustomObservation ::
    "Encoder \<Rightarrow> MetricRef \<Rightarrow> ReportDefinition \<Rightarrow> u32 \<Rightarrow> EventValues \<Rightarrow> Random \<Rightarrow> Result \<times> Random" where
  "EncodeCustomObservation e metric report day event_values r =
     (case MakeObservation e metric report day r of (res, r) \<Rightarrow> (set_type (custom event_values) res, r))"

definition result_rappor_data :: "Result \<Rightarrow> u8 list" where
  "result_rappor_data res =
     (case result_observation res of
        Some ob \<Rightarrow> (case observation_type ob of basic_rappor d \<Rightarrow> d | _ \<Rightarrow> [])
      | None \<Rightarrow> [])"

definition EncodeUniqueActivesObservation ::
    "Encoder \<Rightarrow> MetricRef \<Rightarrow> ReportDefinition \<Rightarrow> u32 \<Rightarrow> u32 \<Rightarrow> bool \<Rightarrow> OnDeviceAggregationWindow \<Rightarrow> Random \<Rightarrow> Result \<times> Random" where
  "EncodeUniqueActivesObservation e metric report day event_code was_active window r =
     (let (res, r) = MakeObservation e metric report day r;
          (rappor_res, r) =
            (if was_active then EncodeBasicRapporObservation e metric report day 0 1 r
             else EncodeNullBasicRapporObservation e metric report day 1 r)
      in if status rappor_res \<noteq> kOK then (res\<lparr>status := status rappor_res\<rparr>, r)
         else (set_type (unique_actives (result_rappor_data rappor_res) window (ucast event_code)) res, r))"

definition EncodePerDeviceNumericObservation ::
    "Encoder \<Rightarrow> MetricRef \<Rightarrow> ReportDefinition \<Rightarrow> u32 \<Rightarrow> string \<Rightarrow> u32 list \<Rightarrow> i64 \<Rightarrow> OnDeviceAggregationWindow \<Rightarrow> Random \<Rightarrow>
     Result \<times> Random" where
  "EncodePerDeviceNumericObservation e metric report day component codes v window r =
     (let (res, r) = EncodeIntegerEventObservation e metric report day codes component v r
      in (case result_observation res of
            Some ob \<Rightarrow>
              (case observation_type ob of
                 numeric_event n \<Rightarrow> (set_type (per_device_numeric n window) res, r)
               | _ \<Rightarrow> (res, r))
          | None \<Rightarrow> (res, r)))"

definition EncodePerDeviceHistogramObservation ::
    "Encoder \<Rightarrow> MetricRef \<Rightarrow> ReportDefinition \<Rightarrow> u32 \<Rightarrow> string \<Rightarrow> u32 list \<Rightarrow> i64 \<Rightarrow> OnDeviceAggregationWindow \<Rightarrow> Random \<Rightarrow>
     Result \<times> Random" where
  "EncodePerDeviceHistogramObservation e metric report day component codes v window r =
     (let (res, r) = MakeObservation e metric report day r;
          (ok, hash) = HashComponentNameIfNotEmpty e component;
          res = (if ok then res else res\<lparr>status := kOther\<rparr>);
          h = \<lparr>hist_event_code = PackEventCodes codes, hist_component_name_hash = hash, hist_buckets = []\<rparr>
      in case CreateFromProto (report_int_buckets report) of
           None \<Rightarrow> ((set_type (per_device_histogram h window) res)\<lparr>status := kOther\<rparr>, r)
         | Some cfg \<Rightarrow>
             (set_type (per_device_histogram
                (h\<lparr>hist_buckets := [\<lparr>bucket_index = of_nat (BucketIndex cfg v), bucket_count = 1\<rparr>]\<rparr>) window) res, r))"

definition EncodeReportParticipationObservation ::
    "Encoder \<Rightarrow> MetricRef \<Rightarrow> ReportDefinition \<Rightarrow> u32 \<Rightarrow> Random \<Rightarrow> Result \<times> Random" where
  "EncodeReportParticipationObservation e metric report day r =
     (case MakeObservation e metric report day r of (res, r) \<Rightarrow> (set_type report_participation res, r))"

section \<open>ObservationWriter\<close>

text \<open>\<open>'s\<close> is the state behind the two pointers: the observation store and the recipient that is notified.\<close>

record 's ObservationWriter =
  store_observation :: "Observation2 StoredObservation \<Rightarrow> ObservationMetadata \<Rightarrow> 's \<Rightarrow> StoreStatus \<times> 's"
  notify_observations_added :: "'s \<Rightarrow> 's"
  observation_encrypter :: "(Observation2 \<Rightarrow> EncryptedMessage option) option"

definition WriteObservation ::
    "'s ObservationWriter \<Rightarrow> Observation2 \<Rightarrow> ObservationMetadata \<Rightarrow> 's \<Rightarrow> Status \<times> 's" where
  "WriteObservation w ob metadata s =
     (let stored =
        (case observation_encrypter w of
           Some Encrypt \<Rightarrow> map_option (\<lambda>m. store_observation w (encrypted m) metadata s) (Encrypt ob)
         | None \<Rightarrow> Some (store_observation w (unencrypted ob) metadata s))
      in case stored of
           None \<Rightarrow> (kOther, s)
         | Some (store_status, s) \<Rightarrow>
             if store_status \<noteq> kOk then (kOther, s) else (kOK, notify_observations_added w s))"

section \<open>What the methods produce\<close>

lemma set_type_simps [simp]:
  "status (set_type t res) = status res" "result_metadata (set_type t res) = result_metadata res"
  by (simp_all add: set_type_def)

lemma MakeObservation_eq:
  "MakeObservation e metric report day r =
     (\<lparr>status = kOK, result_observation = Some \<lparr>observation_type = OBSERVATION_TYPE_NOT_SET, random_id = map r [0..<8]\<rparr>,
       result_metadata = Some (make_metadata e metric report day)\<rparr>, \<lambda>i. r (i + 8))"
  by (simp add: MakeObservation_def RandomString_def RandomBytes_def del: replicate_numeral)

text \<open>A result carries an observation of type \<open>t\<close> and the metadata of the report and day.\<close>

definition produces :: "Encoder \<Rightarrow> MetricRef \<Rightarrow> ReportDefinition \<Rightarrow> u32 \<Rightarrow> ObservationType \<Rightarrow> Result \<Rightarrow> bool" where
  "produces e metric report day t res \<longleftrightarrow> status res = kOK \<and>
     (\<exists>rid. result_observation res = Some \<lparr>observation_type = t, random_id = rid\<rparr> \<and> length rid = 8) \<and>
     result_metadata res = Some (make_metadata e metric report day)"

definition hash_ok :: "Encoder \<Rightarrow> string \<Rightarrow> bool" where
  "hash_ok e component \<longleftrightarrow> fst (HashComponentNameIfNotEmpty e component)"

definition component_hash :: "Encoder \<Rightarrow> string \<Rightarrow> u8 list" where
  "component_hash e component = snd (HashComponentNameIfNotEmpty e component)"

lemma hash_ok_Nil [simp]: "hash_ok e []" "component_hash e [] = []"
  by (simp_all add: hash_ok_def component_hash_def HashComponentNameIfNotEmpty_def)

lemmas encode_defs = set_type_def MakeObservation_eq produces_def hash_ok_def component_hash_def Let_def

lemma EncodeIntegerEventObservation_ok:
  "hash_ok e component \<Longrightarrow>
   produces e metric report day
     (numeric_event \<lparr>int_event_code = PackEventCodes codes, int_component_name_hash = component_hash e component, int_obs_value = v\<rparr>)
     (fst (EncodeIntegerEventObservation e metric report day codes component v r))"
  by (cases "HashComponentNameIfNotEmpty e component") (simp add: EncodeIntegerEventObservation_def encode_defs)

lemma EncodeHistogramObservation_ok:
  "hash_ok e component \<Longrightarrow>
   produces e metric report day
     (histogram \<lparr>hist_event_code = PackEventCodes codes, hist_component_name_hash = component_hash e component, hist_buckets = bs\<rparr>)
     (fst (EncodeHistogramObservation e metric report day codes component bs r))"
  by (cases "HashComponentNameIfNotEmpty e component") (simp add: EncodeHistogramObservation_def encode_defs)

lemma EncodePerDeviceNumericObservation_ok:
  "hash_ok e component \<Longrightarrow>
   produces e metric report day
     (per_device_numeric \<lparr>int_event_code = PackEventCodes codes, int_component_name_hash = component_hash e component, int_obs_value = v\<rparr> window)
     (fst (EncodePerDeviceNumericObservation e metric report day component codes v window r))"
  by (cases "HashComponentNameIfNotEmpty e component") (simp add: EncodePerDeviceNumericObservation_def EncodeIntegerEventObservation_def encode_defs)

lemma EncodePerDeviceHistogramObservation_ok:
  "hash_ok e component \<Longrightarrow> CreateFromProto (report_int_buckets report) = Some cfg \<Longrightarrow>
   produces e metric report day
     (per_device_histogram \<lparr>hist_event_code = PackEventCodes codes, hist_component_name_hash = component_hash e component,
        hist_buckets = [\<lparr>bucket_index = of_nat (BucketIndex cfg v), bucket_count = 1\<rparr>]\<rparr> window)
     (fst (EncodePerDeviceHistogramObservation e metric report day component codes v window r))"
  by (cases "HashComponentNameIfNotEmpty e component") (simp add: EncodePerDeviceHistogramObservation_def encode_defs)

lemma EncodeReportParticipationObservation_ok:
  "produces e metric report day report_participation (fst (EncodeReportParticipationObservation e metric report day r))"
  by (simp add: EncodeReportParticipationObservation_def encode_defs)

lemma EncodeCustomObservation_ok:
  "produces e metric report day (custom vs) (fst (EncodeCustomObservation e metric report day vs r))"
  by (simp add: EncodeCustomObservation_def encode_defs)

text \<open>The configuration the encoder builds is valid for every noise level that is set.\<close>

lemma ProbBitFlip_valid:
  assumes "local_privacy_noise_level report \<noteq> NOISE_LEVEL_UNSET"
  shows "CommonValidate (ProbBitFlip report) (one_minus (ProbBitFlip report)) 0"
proof -
  have "one_minus 0 = 1" "one_minus (10737418 / 2 ^ 30) = 16609444 / 2 ^ 24"
    "one_minus (13421773 / 2 ^ 27) = 15099494 / 2 ^ 24" "one_minus (1 / 4) = 3 / 4"
    by (simp_all add: one_minus_def round_def floor_eq_iff)
  with assms show ?thesis
    by (cases "local_privacy_noise_level report") (simp_all add: ProbBitFlip_def CommonValidate_def)
qed

lemma rappor_config_indexed:
  "rappor_config report n = indexed_config (ProbBitFlip report) (one_minus (ProbBitFlip report)) n"
  by (simp add: rappor_config_def indexed_config_def Let_def)

lemma profile_fields:
  "let p = fold (set_profile_field profile) fs p0 in
     os p = (if OS \<in> set fs then os profile else os p0) \<and>
     arch p = (if ARCH \<in> set fs then arch profile else arch p0) \<and>
     board_name p = (if BOARD_NAME \<in> set fs then board_name profile else board_name p0) \<and>
     product_name p = (if PRODUCT_NAME \<in> set fs then product_name profile else product_name p0) \<and>
     system_version p = (if SYSTEM_VERSION \<in> set fs then system_version profile else system_version p0) \<and>
     channel p = (if CHANNEL \<in> set fs then channel profile else channel p0) \<and>
     realm p = (if REALM \<in> set fs then channel profile else realm p0) \<and> experiments p = experiments p0"
proof (induction fs arbitrary: p0)
  case (Cons f fs)
  show ?case using Cons.IH [of "set_profile_field profile f p0"]
    by (cases f) (simp_all add: set_profile_field_def Let_def)
qed simp

lemma InitializeObservationData_rappor:
  assumes "inj S"
  shows "InitializeObservationData (BasicRapporEncoder_ctor S (rappor_config report 1) secret) =
    (if secret_valid secret \<and> local_privacy_noise_level report \<noteq> NOISE_LEVEL_UNSET then Inr [0] else Inl rappor_kInvalidConfig)"
proof (cases "local_privacy_noise_level report = NOISE_LEVEL_UNSET")
  case True
  then show ?thesis
    by (simp add: InitializeObservationData_def BasicRapporEncoder_ctor_def RapporConfigValidator_ctor_def
        CommonValidate_def ProbBitFlip_def rappor_config_def Let_def)
next
  case False
  have "uint (1 :: u32) < 1024" by simp
  note vi = validator_indexed [OF assms ProbBitFlip_valid [OF False] this]
  with False show ?thesis
    by (simp add: InitializeObservationData_def BasicRapporEncoder_ctor_def rappor_config_indexed)
qed

text \<open>One category encoded, and none.\<close>

lemma Rappor_Encode_one:
  assumes S: "inj S" and r: "EncodeRes = Rappor_Encode S (BasicRapporEncoder_ctor S (rappor_config report 1) secret) (index_value 0) r"
  shows "if secret_valid secret \<and> local_privacy_noise_level report \<noteq> NOISE_LEVEL_UNSET
    then \<exists>data r'. EncodeRes = (rappor_kOK, Some data, r') \<and> length data = 1 \<and>
         (local_privacy_noise_level report = NO_NOISE \<longrightarrow> data = [1])
    else EncodeRes = (rappor_kInvalidConfig, None, r)"
proof (cases "secret_valid secret \<and> local_privacy_noise_level report \<noteq> NOISE_LEVEL_UNSET")
  case False
  then have "InitializeObservationData (BasicRapporEncoder_ctor S (rappor_config report 1) secret) = Inl rappor_kInvalidConfig"
    unfolding InitializeObservationData_rappor [OF S] by simp
  with False show ?thesis unfolding r by (simp add: Rappor_Encode_def)
next
  case True
  then have pv: "CommonValidate (ProbBitFlip report) (one_minus (ProbBitFlip report)) 0" by (simp add: ProbBitFlip_valid)
  have n: "uint (1 :: u32) < 1024" by simp
  have "(0 :: u32) < 1" by simp
  from Rappor_Encode_in_range [OF S pv n _ this, of secret r] True obtain data r' where
    d: "EncodeRes = (rappor_kOK, Some data, r')" "length data = 1"
    unfolding r rappor_config_indexed by auto
  have "data = [1]" if nn: "local_privacy_noise_level report = NO_NOISE"
  proof -
    have p: "ProbBitFlip report = 0" "one_minus 0 = 1" using nn by (simp_all add: ProbBitFlip_def one_minus_def)
    have "secret_valid secret" using True by simp
    note enc = encoder_indexed [OF S no_noise_valid n this]
    show ?thesis using d(1) unfolding r rappor_config_indexed p
      by (simp add: Rappor_Encode_def enc Let_def FlipBits_def)
  qed
  with True d show ?thesis by auto
qed

lemma EncodeNull_one:
  assumes S: "inj S" and r: "EncodeRes = EncodeNullObservation (BasicRapporEncoder_ctor S (rappor_config report 1) secret) r"
  shows "if secret_valid secret \<and> local_privacy_noise_level report \<noteq> NOISE_LEVEL_UNSET
    then \<exists>data r'. EncodeRes = (rappor_kOK, Some data, r') \<and> length data = 1 \<and>
         (local_privacy_noise_level report = NO_NOISE \<longrightarrow> data = [0])
    else EncodeRes = (rappor_kInvalidConfig, None, r)"
proof (cases "secret_valid secret \<and> local_privacy_noise_level report \<noteq> NOISE_LEVEL_UNSET")
  case False
  then have "InitializeObservationData (BasicRapporEncoder_ctor S (rappor_config report 1) secret) = Inl rappor_kInvalidConfig"
    unfolding InitializeObservationData_rappor [OF S] by simp
  with False show ?thesis unfolding r by (simp add: EncodeNullObservation_def)
next
  case True
  let ?p = "ProbBitFlip report" and ?q = "one_minus (ProbBitFlip report)"
  have pv: "CommonValidate ?p ?q 0" using True by (simp add: ProbBitFlip_valid)
  then have "?q \<le> 1" by (auto simp: CommonValidate_def split: if_splits)
  then obtain d r' where d: "FlipBits ?p ?q r [0] = (rappor_kOK, d, r')" "length d = 1"
    using FlipBits_ok [of "[0]" ?q ?p r] by auto
  have n: "uint (1 :: u32) < 1024" by simp
  have "secret_valid secret" using True by simp
  note enc = encoder_indexed [OF S pv n this]
  have "EncodeRes = (rappor_kOK, Some d, r')"
    unfolding r rappor_config_indexed by (simp add: EncodeNullObservation_def enc d)
  moreover have "d = [0]" if "local_privacy_noise_level report = NO_NOISE"
    using that d by (simp add: ProbBitFlip_def one_minus_def FlipBits_def)
  ultimately show ?thesis using True d(2) by auto
qed

section \<open>Properties\<close>


definition example_report :: ReportDefinition where
  "example_report =
     \<lparr>report_name = ''r'', report_def_id = 4, report_type = UNIQUE_N_DAY_ACTIVES, local_privacy_noise_level = NO_NOISE,
      report_int_buckets = kLinear 0 3 10, window_size = [], aggregation_window = [kDays 1, kDays 7],
      aggregation_type = SUM_TYPE, system_profile_field = [CHANNEL, REALM], local_aggregation_procedure = LOCAL_AGGREGATION_PROCEDURE_UNSET\<rparr>"

definition example_ref :: MetricRef where
  "example_ref = \<lparr>ref_project = PopulateProject 1 2 ''c'' ''p'', ref_metric = example_metric\<rparr>"

instance ValuePart :: countable
  by countable_datatype

definition example_encoder :: Encoder where
  "example_encoder =
     \<lparr>client_secret = example_secret,
      system_data = Some (default_SystemProfile\<lparr>channel := ''dev'', realm := ''prod''\<rparr>),
      Hash = (\<lambda>s. (True, replicate 32 1)),
      SerializeValuePart = unary_ser\<rparr>"


text \<open>Encoding a unique-actives observation: with a valid client secret and a noise level the result is an
  observation with the window, the event code and one byte of RAPPOR data, and without noise that byte is one
  if the event was active in the window and zero if not; otherwise the status is \<open>kInvalidConfig\<close>.\<close>

theorem EncodeUniqueActivesObservation_spec:
  assumes "inj (SerializeValuePart e)"
  shows "let (res, r') = EncodeUniqueActivesObservation e metric report day event_code was_active window r
    in if secret_valid (client_secret e) \<and> local_privacy_noise_level report \<noteq> NOISE_LEVEL_UNSET
       then \<exists>data. produces e metric report day (unique_actives data window (ucast event_code)) res \<and> length data = 1 \<and>
              (local_privacy_noise_level report = NO_NOISE \<longrightarrow> data = [if was_active then 1 else 0])
       else status res = kInvalidConfig"
proof (cases was_active)
  case True
  obtain res where res: "res = Rappor_Encode (SerializeValuePart e) (BasicRapporEncoder_ctor (SerializeValuePart e) (rappor_config report 1) (client_secret e))
      (index_value 0) (\<lambda>i. r (i + 8 + 8))" by blast
  from Rappor_Encode_one [OF assms res] res [symmetric] True show ?thesis
    by (auto simp: EncodeUniqueActivesObservation_def EncodeBasicRapporObservation_def encode_defs
        TranslateBasicRapporEncoderStatus_def result_rappor_data_def data_or_empty_def split: if_splits)
next
  case False
  obtain res where res: "res = EncodeNullObservation (BasicRapporEncoder_ctor (SerializeValuePart e) (rappor_config report 1) (client_secret e))
      (\<lambda>i. r (i + 8 + 8))" by blast
  from EncodeNull_one [OF assms res] res [symmetric] False show ?thesis
    by (auto simp: EncodeUniqueActivesObservation_def EncodeNullBasicRapporObservation_def encode_defs
        TranslateBasicRapporEncoderStatus_def result_rappor_data_def data_or_empty_def split: if_splits)
qed

theorem EncodeUniqueActivesObservation_spec_witness:
  "\<exists>data. produces example_encoder example_ref example_report 18000 (unique_actives data (kDays 7) 5)
     (fst (EncodeUniqueActivesObservation example_encoder example_ref example_report 18000 5 True (kDays 7) (\<lambda>i. 0))) \<and> data = [1]"
proof -
  have "inj (SerializeValuePart example_encoder)" "secret_valid (client_secret example_encoder)"
    "local_privacy_noise_level example_report = NO_NOISE"
    by (simp_all add: example_encoder_def inj_unary_ser example_secret_valid example_report_def)
  with EncodeUniqueActivesObservation_spec [of example_encoder example_ref example_report 18000 5 True "kDays 7" "\<lambda>i. 0"]
  show ?thesis by (auto simp: Let_def case_prod_unfold)
qed

end
