(* ===== verification/File_System.thy ===== *)
theory File_System
  imports Cobalt_Prelude
begin

text \<open>
  The file system behind the stores: \<^verbatim>\<open>src/src/lib/util/posix_file_system.cc\<close>,
  \<^verbatim>\<open>status_codes.cc\<close> and \<^verbatim>\<open>status_codes.h\<close>.

  A \<open>Disk\<close> maps path names to contents. Every system call takes the next entry of the list \<open>faults\<close>:
  \<open>NoFault\<close> (also when the list is empty) lets it do its work, \<open>Fails e\<close> makes it fail with \<open>errno\<close>
  \<open>e\<close>, and \<open>ShortWrite n\<close> makes a write stop after \<open>n\<close> bytes (\<open>errno\<close> 0 is no failure). A theorem for every list of faults is a
  theorem for every pattern of failing system calls. The field \<open>history\<close> records every intermediate
  content of the disk, most recent first, byte by byte within a write: these are the states in which a
  crash can leave the disk.

  The paths given to \<open>stat\<close>, \<open>open\<close>, \<open>rename\<close> and \<open>remove\<close> name regular files in existing directories. A
  protobuf output stream writes to its file as it is called; that an error of the last flush, which
  \<open>FileOutputStream\<close> performs when it is destroyed, is lost is not modelled. The text of a
  \<open>util::Status\<close> is not modelled, only its code.
\<close>

section \<open>Status codes\<close>

datatype StatusCode =
    OK | CANCELLED | UNKNOWN | INVALID_ARGUMENT | DEADLINE_EXCEEDED | NOT_FOUND | ALREADY_EXISTS
  | PERMISSION_DENIED | RESOURCE_EXHAUSTED | FAILED_PRECONDITION | ABORTED | OUT_OF_RANGE
  | UNIMPLEMENTED | INTERNAL | UNAVAILABLE | DATA_LOSS | UNAUTHENTICATED | DO_NOT_USE

datatype Errno =
    ENone | EINVAL | ETIMEDOUT | ETIME | ENODEV | ENOENT | ENXIO | ESRCH | EEXIST | EADDRNOTAVAIL | EALREADY
  | EPERM | EACCES | EROFS | EMFILE | ENFILE | EMLINK | EFBIG | EOVERFLOW | ERANGE | ENOSYS | ENOTSUP
  | EAGAIN | ECONNABORTED | ECANCELED | EOther int

fun ErrnoToStatusCode :: "Errno \<Rightarrow> StatusCode option" where
  "ErrnoToStatusCode ENone = Some OK"
| "ErrnoToStatusCode EINVAL = Some INVALID_ARGUMENT"
| "ErrnoToStatusCode ETIMEDOUT = Some DEADLINE_EXCEEDED"
| "ErrnoToStatusCode ETIME = Some DEADLINE_EXCEEDED"
| "ErrnoToStatusCode ENODEV = Some NOT_FOUND"
| "ErrnoToStatusCode ENOENT = Some NOT_FOUND"
| "ErrnoToStatusCode ENXIO = Some NOT_FOUND"
| "ErrnoToStatusCode ESRCH = Some NOT_FOUND"
| "ErrnoToStatusCode EEXIST = Some ALREADY_EXISTS"
| "ErrnoToStatusCode EADDRNOTAVAIL = Some ALREADY_EXISTS"
| "ErrnoToStatusCode EALREADY = Some ALREADY_EXISTS"
| "ErrnoToStatusCode EPERM = Some PERMISSION_DENIED"
| "ErrnoToStatusCode EACCES = Some PERMISSION_DENIED"
| "ErrnoToStatusCode EROFS = Some PERMISSION_DENIED"
| "ErrnoToStatusCode EMFILE = Some RESOURCE_EXHAUSTED"
| "ErrnoToStatusCode ENFILE = Some RESOURCE_EXHAUSTED"
| "ErrnoToStatusCode EMLINK = Some RESOURCE_EXHAUSTED"
| "ErrnoToStatusCode EFBIG = Some OUT_OF_RANGE"
| "ErrnoToStatusCode EOVERFLOW = Some OUT_OF_RANGE"
| "ErrnoToStatusCode ERANGE = Some OUT_OF_RANGE"
| "ErrnoToStatusCode ENOSYS = Some UNIMPLEMENTED"
| "ErrnoToStatusCode ENOTSUP = Some UNIMPLEMENTED"
| "ErrnoToStatusCode EAGAIN = Some UNAVAILABLE"
| "ErrnoToStatusCode ECONNABORTED = Some ABORTED"
| "ErrnoToStatusCode ECANCELED = Some CANCELLED"
| "ErrnoToStatusCode (EOther n) = None"

text \<open>\<open>ErrnoToStatusCode(errno).value_or(DATA_LOSS)\<close>.\<close>

definition errno_code :: "Errno \<Rightarrow> StatusCode" where
  "errno_code e = (case ErrnoToStatusCode e of None \<Rightarrow> DATA_LOSS | Some c \<Rightarrow> c)"

section \<open>The disk\<close>

datatype Fault = NoFault | Fails Errno | ShortWrite nat

type_synonym bytes = "u8 list"
type_synonym files = "(string \<times> bytes) list"

record Disk =
  files :: files
  directories :: "string list"
  faults :: "Fault list"
  history :: "files list"

definition next_fault :: "Disk \<Rightarrow> Fault \<times> Disk" where
  "next_fault d =
     (case faults d of
        [] \<Rightarrow> (NoFault, d)
      | f # fs \<Rightarrow> (if f = Fails ENone then NoFault else f, d\<lparr>faults := fs\<rparr>))"

fun fails :: "Fault \<Rightarrow> bool" where
  "fails (Fails e) = True"
| "fails NoFault = False"
| "fails (ShortWrite n) = False"

definition commit :: "files \<Rightarrow> Disk \<Rightarrow> Disk" where
  "commit fs d = d\<lparr>files := fs, history := fs # history d\<rparr>"

abbreviation file_of :: "Disk \<Rightarrow> string \<Rightarrow> bytes option" where
  "file_of d \<equiv> map_of (files d)"

section \<open>PosixFileSystem\<close>

definition MakeDirectory :: "string \<Rightarrow> Disk \<Rightarrow> bool \<times> Disk" where
  "MakeDirectory directory d =
     (let (f, d) = next_fault d
      in if fails f \<or> directory \<in> set (directories d) \<or> file_of d directory \<noteq> None then (False, d)
         else (True, d\<lparr>directories := directory # directories d\<rparr>))"

text \<open>\<open>readdir\<close>: the special entries, then the entries directly below the directory.\<close>

definition entry_in :: "string \<Rightarrow> string \<Rightarrow> string option" where
  "entry_in directory path =
     (let p = directory @ ''/''; name = drop (length p) path
      in if take (length p) path = p \<and> CHR ''/'' \<notin> set name then Some name else None)"

definition readdir :: "string \<Rightarrow> Disk \<Rightarrow> string list" where
  "readdir directory d = [''.'', ''..''] @ List.map_filter (entry_in directory) (map fst (files d))"

definition skipped_entry :: "string \<Rightarrow> bool" where
  "skipped_entry d_name \<longleftrightarrow>
     (case d_name of c # cs \<Rightarrow> c = CHR ''.'' \<and> (case cs of [] \<Rightarrow> True | c' # _ \<Rightarrow> c' = CHR ''.'') | [] \<Rightarrow> False)"

definition ListFiles :: "string \<Rightarrow> Disk \<Rightarrow> (StatusCode + string list) \<times> Disk" where
  "ListFiles directory d =
     (let (f, d) = next_fault d
      in if fails f \<or> directory \<notin> set (directories d) then (Inl INTERNAL, d)
         else (Inr (filter (\<lambda>n. \<not> skipped_entry n) (readdir directory d)), d))"

definition Delete :: "string \<Rightarrow> Disk \<Rightarrow> bool \<times> Disk" where
  "Delete file d =
     (let (f, d) = next_fault d
      in if fails f \<or> file_of d file = None then (False, d)
         else (True, commit (AList.delete file (files d)) d))"

definition FileSize :: "string \<Rightarrow> Disk \<Rightarrow> (StatusCode + nat) \<times> Disk" where
  "FileSize file d =
     (let (f, d) = next_fault d
      in if fails f then (Inl INTERNAL, d)
         else (case file_of d file of None \<Rightarrow> Inl INTERNAL | Some b \<Rightarrow> Inr (length b), d))"

definition FileExists :: "string \<Rightarrow> Disk \<Rightarrow> bool \<times> Disk" where
  "FileExists file d =
     (let (f, d) = next_fault d in (\<not> fails f \<and> file_of d file \<noteq> None, d))"

text \<open>\<open>rename\<close> replaces an existing target.\<close>

definition Rename :: "string \<Rightarrow> string \<Rightarrow> Disk \<Rightarrow> bool \<times> Disk" where
  "Rename from to d =
     (let (f, d) = next_fault d
      in if fails f then (False, d)
         else case file_of d from of
                None \<Rightarrow> (False, d)
              | Some b \<Rightarrow> (True, commit (map_set to b (AList.delete from (files d))) d))"

text \<open>An input stream delivers the contents of the file at the time of the call.\<close>

definition NewProtoInputStream :: "string \<Rightarrow> Disk \<Rightarrow> (StatusCode + bytes) \<times> Disk" where
  "NewProtoInputStream file d =
     (let (f, d) = next_fault d
      in case f of
           Fails e \<Rightarrow> (Inl (errno_code e), d)
         | _ \<Rightarrow> (case file_of d file of None \<Rightarrow> (Inl (errno_code ENOENT), d) | Some b \<Rightarrow> (Inr b, d)))"

record OutputStream =
  stream_path :: string
  stream_append :: bool
  ByteCount :: nat

text \<open>The flags are \<open>O_WRONLY | O_CREAT\<close>, with \<open>O_APPEND\<close> on request: an existing file keeps its bytes.\<close>

definition NewProtoOutputStream :: "string \<Rightarrow> bool \<Rightarrow> Disk \<Rightarrow> (StatusCode + OutputStream) \<times> Disk" where
  "NewProtoOutputStream file append_mode d =
     (let (f, d) = next_fault d
      in case f of
           Fails e \<Rightarrow> (Inl (errno_code e), d)
         | _ \<Rightarrow> (Inr \<lparr>stream_path = file, stream_append = append_mode, ByteCount = 0\<rparr>,
                 if file_of d file = None then commit (map_set file [] (files d)) d else d))"

text \<open>Writing \<open>bs\<close> at an offset of a file: the bytes after it are kept.\<close>

definition overlay :: "nat \<Rightarrow> bytes \<Rightarrow> bytes \<Rightarrow> bytes" where
  "overlay off bs content = take off content @ bs @ drop (off + length bs) content"

definition written :: "OutputStream \<Rightarrow> bytes \<Rightarrow> bytes \<Rightarrow> bytes" where
  "written st bs content =
     (if stream_append st then content @ bs else overlay (ByteCount st) bs content)"

definition stream_write :: "OutputStream \<Rightarrow> bytes \<Rightarrow> Disk \<Rightarrow> bool \<times> OutputStream \<times> Disk" where
  "stream_write st bs d =
     (let (f, d) = next_fault d;
          n = (case f of NoFault \<Rightarrow> length bs | Fails e \<Rightarrow> 0 | ShortWrite k \<Rightarrow> min k (length bs));
          content = (case file_of d (stream_path st) of None \<Rightarrow> [] | Some b \<Rightarrow> b);
          state = (\<lambda>k. map_set (stream_path st) (written st (take k bs) content) (files d))
      in (f = NoFault, st\<lparr>ByteCount := ByteCount st + n\<rparr>,
          d\<lparr>files := state n, history := rev (map state [0..<Suc n]) @ history d\<rparr>))"

section \<open>Facts on the calls\<close>

lemma next_fault_state:
  "next_fault d = (f, d') \<Longrightarrow> files d' = files d \<and> directories d' = directories d \<and> history d' = history d"
  by (auto simp: next_fault_def split: list.splits)

lemma next_fault_Nil: "faults d = [] \<Longrightarrow> next_fault d = (NoFault, d)"
  by (simp add: next_fault_def)

lemma commit_sel [simp]:
  "files (commit fs d) = fs" "history (commit fs d) = fs # history d"
  "faults (commit fs d) = faults d" "directories (commit fs d) = directories d"
  by (simp_all add: commit_def)

lemma map_of_delete [simp]: "map_of (AList.delete k m) = (map_of m)(k := None)"
  by (rule delete_conv')

lemma overlay_0: "length content \<le> length bs \<Longrightarrow> overlay 0 bs content = bs"
  by (simp add: overlay_def)

lemma overlay_Nil [simp]: "off \<le> length content \<Longrightarrow> overlay off [] content = content"
  by (simp add: overlay_def)

lemma errno_code_ENOENT [simp]: "errno_code ENOENT = NOT_FOUND"
  by (simp add: errno_code_def)

lemma ErrnoToStatusCode_OK: "ErrnoToStatusCode e = Some OK \<longleftrightarrow> e = ENone"
  by (cases e) simp_all

lemma next_fault_Fails: "next_fault d = (Fails e, d') \<Longrightarrow> errno_code e \<noteq> OK"
  by (auto simp: next_fault_def errno_code_def ErrnoToStatusCode_OK split: list.splits if_splits option.splits)

lemma fails_iff: "fails f \<longleftrightarrow> (\<exists>e. f = Fails e)"
  by (cases f) auto

text \<open>The effect of the single calls under every fault.\<close>

lemma Rename_cases:
  assumes "Rename a b d = (ok, d')"
  obtains "\<not> ok" "files d' = files d" "history d' = history d" "directories d' = directories d"
  | c where "ok" "file_of d a = Some c" "files d' = map_set b c (AList.delete a (files d))"
    "history d' = files d' # history d" "directories d' = directories d"
proof -
  obtain f e where n: "next_fault d = (f, e)" by force
  note s = next_fault_state [OF n]
  show thesis
  proof (cases "fails f \<or> file_of d a = None")
    case True
    with n s assms show thesis by (intro that(1)) (auto simp: Rename_def split: if_splits option.splits)
  next
    case False
    then obtain c where "file_of d a = Some c" by auto
    with False n s assms show thesis by (intro that(2) [of c]) (auto simp: Rename_def)
  qed
qed

lemma Delete_cases:
  assumes "Delete a d = (ok, d')"
  obtains "\<not> ok" "files d' = files d" "history d' = history d" "directories d' = directories d"
  | "ok" "files d' = AList.delete a (files d)" "history d' = files d' # history d" "directories d' = directories d"
proof -
  obtain f e where n: "next_fault d = (f, e)" by force
  note s = next_fault_state [OF n]
  show thesis
  proof (cases "fails f \<or> file_of d a = None")
    case True
    with n s assms show thesis by (intro that(1)) (auto simp: Delete_def)
  next
    case False
    with n s assms show thesis by (intro that(2)) (auto simp: Delete_def)
  qed
qed

lemma FileExists_state:
  assumes "FileExists a d = (ex, d')"
  shows "files d' = files d" "history d' = history d" "ex \<Longrightarrow> file_of d a \<noteq> None"
  using assms next_fault_state [of d "fst (next_fault d)" "snd (next_fault d)"]
  by (auto simp: FileExists_def split: prod.splits)

lemma FileSize_state:
  assumes "FileSize a d = (r, d')"
  shows "files d' = files d" "directories d' = directories d"
    and "r = Inr n \<Longrightarrow> \<exists>b. file_of d a = Some b \<and> length b = n"
  using assms next_fault_state [of d "fst (next_fault d)" "snd (next_fault d)"]
  by (auto simp: FileSize_def split: prod.splits option.splits if_splits)

lemma ListFiles_state:
  assumes "ListFiles a d = (r, d')"
  shows "files d' = files d" "directories d' = directories d"
    and "r = Inr ns \<Longrightarrow> ns = filter (\<lambda>n. \<not> skipped_entry n) (readdir a d)"
  using assms next_fault_state [of d "fst (next_fault d)" "snd (next_fault d)"]
  by (auto simp: ListFiles_def readdir_def split: prod.splits if_splits)

lemma NewProtoInputStream_state:
  assumes "NewProtoInputStream a d = (r, d')"
  shows "files d' = files d" "directories d' = directories d" and "r = Inr b \<Longrightarrow> file_of d a = Some b"
  using assms next_fault_state [of d "fst (next_fault d)" "snd (next_fault d)"]
  by (auto simp: NewProtoInputStream_def split: prod.splits option.splits Fault.splits)

text \<open>Without faults every call does its work and no fault appears.\<close>

lemma no_faults:
  assumes "faults d = []"
  shows "FileSize p d = (case file_of d p of None \<Rightarrow> Inl INTERNAL | Some b \<Rightarrow> Inr (length b), d)"
    and "Delete p d = (if file_of d p = None then (False, d) else (True, commit (AList.delete p (files d)) d))"
    and "Rename p q d = (case file_of d p of None \<Rightarrow> (False, d)
           | Some b \<Rightarrow> (True, commit (map_set q b (AList.delete p (files d))) d))"
    and "ListFiles p d = (if p \<notin> set (directories d) then (Inl INTERNAL, d)
           else (Inr (filter (\<lambda>n. \<not> skipped_entry n) (readdir p d)), d))"
    and "NewProtoInputStream p d = (case file_of d p of None \<Rightarrow> (Inl NOT_FOUND, d) | Some b \<Rightarrow> (Inr b, d))"
  using assms
  by (simp_all add: FileSize_def Delete_def Rename_def ListFiles_def NewProtoInputStream_def next_fault_Nil split: option.splits)

lemma entry_in_iff: "entry_in directory path = Some n \<longleftrightarrow> path = directory @ ''/'' @ n \<and> CHR ''/'' \<notin> set n"
proof
  assume "entry_in directory path = Some n"
  then have *: "take (length (directory @ ''/'')) path = directory @ ''/''" "n = drop (length (directory @ ''/'')) path"
    "CHR ''/'' \<notin> set n"
    by (auto simp: entry_in_def Let_def split: if_splits)
  have "path = take (length (directory @ ''/'')) path @ drop (length (directory @ ''/'')) path" by simp
  also have "\<dots> = directory @ ''/'' @ n" unfolding *(1) *(2) [symmetric] by simp
  finally show "path = directory @ ''/'' @ n \<and> CHR ''/'' \<notin> set n" using *(3) by simp
next
  assume "path = directory @ ''/'' @ n \<and> CHR ''/'' \<notin> set n"
  then show "entry_in directory path = Some n" by (simp add: entry_in_def)
qed

text \<open>Sums over the files of a disk.\<close>

definition files_sum :: "(string \<Rightarrow> bytes \<Rightarrow> 'a :: comm_monoid_add) \<Rightarrow> files \<Rightarrow> 'a" where
  "files_sum w fs = (\<Sum>(p, b) \<leftarrow> fs. w p b)"

lemma files_sum_simps [simp]: "files_sum w [] = 0" "files_sum w ((p, b) # fs) = w p b + files_sum w fs"
  by (simp_all add: files_sum_def)

lemma files_sum_map_set: "map_of fs p = None \<Longrightarrow> files_sum w (map_set p b fs) = files_sum w fs + w p b"
  by (induction fs) (auto split: if_splits simp: ac_simps)

lemma files_sum_delete:
  "distinct_keys fs \<Longrightarrow> map_of fs p = Some b \<Longrightarrow> files_sum w fs = files_sum w (AList.delete p fs) + w p b"
proof (induction fs)
  case (Cons x fs)
  obtain q c where x: "x = (q, c)" by force
  show ?case
  proof (cases "q = p")
    case True
    then have "p \<notin> fst ` set fs" using Cons.prems x by (auto simp: image_iff)
    then have "AList.delete p fs = fs" by (simp add: delete_id)
    with True Cons.prems x show ?thesis by (simp add: ac_simps)
  next
    case False
    with Cons x show ?thesis by (simp add: ac_simps)
  qed
qed simp

lemma files_sum_cong: "(\<And>p b. (p, b) \<in> set fs \<Longrightarrow> w p b = w' p b) \<Longrightarrow> files_sum w fs = files_sum w' fs"
  unfolding files_sum_def by (rule arg_cong [of _ _ sum_list]) auto

lemma files_sum_change:
  assumes "distinct_keys fs" and "map_of fs q = Some b"
    and "\<And>p c. p \<noteq> q \<Longrightarrow> g p c = g' p c" and "g' q b = 0"
  shows "files_sum g fs = files_sum g' fs + g q b"
proof -
  have "p \<noteq> q" if "(p, c) \<in> set (AList.delete q fs)" for p c using that by (auto simp: AList.delete_eq)
  then have "files_sum g (AList.delete q fs) = files_sum g' (AList.delete q fs)"
    using assms(3) by (intro files_sum_cong) blast
  with files_sum_delete [OF assms(1,2), of g] files_sum_delete [OF assms(1,2), of g'] assms(4) show ?thesis by simp
qed

lemma files_sum_update:
  "distinct_keys fs \<Longrightarrow> map_of fs p = Some b \<Longrightarrow>
     files_sum w (map_set p b' fs) + w p b = files_sum w fs + w p b'"
  by (induction fs) (auto simp: ac_simps split: if_splits)

lemma stream_write_no_fault:
  assumes "faults d = []" and "file_of d (stream_path st) = Some b" and "\<not> stream_append st" and "ByteCount st = length b"
  shows "\<exists>d'. stream_write st bs d = (True, st\<lparr>ByteCount := length (b @ bs)\<rparr>, d') \<and>
    files d' = map_set (stream_path st) (b @ bs) (files d) \<and> faults d' = [] \<and> directories d' = directories d"
  using assms by (simp add: stream_write_def next_fault_Nil written_def overlay_def Let_def)

end
