(* ===== verification/Consistent_Proto_Store.thy ===== *)
theory Consistent_Proto_Store
  imports File_System
begin

text \<open>
  The store of one protocol buffer message: \<^verbatim>\<open>src/src/lib/util/consistent_proto_store.cc\<close>. The
  serialiser and the parser of the message belong to the protobuf library and are the parameters
  \<open>ser\<close> and \<open>parse\<close>; the properties use only that parsing the serialised bytes of a message gives the
  message back.

  The abstract state of the store is the message that \<open>Read\<close> delivers; \<open>store_rep\<close> relates it to the
  primary and the override file. The main property is crash consistency: in every intermediate state
  of the disk during a \<open>Write\<close>, whatever calls fail, \<open>Read\<close> delivers the old or the new message.
\<close>

section \<open>Operations\<close>

definition kTmpSuffix :: string where "kTmpSuffix = ''.tmp''"
definition kOverrideSuffix :: string where "kOverrideSuffix = ''.override''"

definition WriteToTmp :: "('m \<Rightarrow> bytes) \<Rightarrow> string \<Rightarrow> 'm \<Rightarrow> Disk \<Rightarrow> StatusCode \<times> Disk" where
  "WriteToTmp ser tmp_filename proto d =
     (case NewProtoOutputStream tmp_filename False d of
        (Inl c, d) \<Rightarrow> (c, d)
      | (Inr outstream, d) \<Rightarrow>
          (case stream_write outstream (ser proto) d of
             (ok, _, d) \<Rightarrow> (if ok then OK else DATA_LOSS, d)))"

definition MoveTmpToOverride :: "string \<Rightarrow> string \<Rightarrow> Disk \<Rightarrow> StatusCode \<times> Disk" where
  "MoveTmpToOverride tmp_filename override_filename d =
     (case Rename tmp_filename override_filename d of (ok, d) \<Rightarrow> (if ok then OK else DATA_LOSS, d))"

definition DeletePrimary :: "string \<Rightarrow> Disk \<Rightarrow> StatusCode \<times> Disk" where
  "DeletePrimary primary_filename d =
     (case FileExists primary_filename d of
        (ex, d) \<Rightarrow>
          if \<not> ex then (OK, d)
          else (case Delete primary_filename d of (ok, d) \<Rightarrow> (if ok then OK else ABORTED, d)))"

definition MoveOverrideToPrimary :: "string \<Rightarrow> string \<Rightarrow> Disk \<Rightarrow> StatusCode \<times> Disk" where
  "MoveOverrideToPrimary override_filename primary_filename d =
     (case Rename override_filename primary_filename d of (ok, d) \<Rightarrow> (if ok then OK else ABORTED, d))"

text \<open>\<open>RETURN_IF_ERROR\<close>.\<close>

definition return_if_error :: "(Disk \<Rightarrow> StatusCode \<times> Disk) \<Rightarrow> (Disk \<Rightarrow> StatusCode \<times> Disk) \<Rightarrow> Disk \<Rightarrow> StatusCode \<times> Disk" where
  "return_if_error a b d = (case a d of (c, d) \<Rightarrow> if c \<noteq> OK then (c, d) else b d)"

definition recover :: "string \<Rightarrow> Disk \<Rightarrow> StatusCode \<times> Disk" where
  "recover primary_filename d =
     (let override_filename = primary_filename @ kOverrideSuffix
      in case FileExists override_filename d of
           (ex, d) \<Rightarrow>
             if ex
             then MoveOverrideToPrimary override_filename primary_filename (snd (DeletePrimary primary_filename d))
             else (OK, d))"

definition Write :: "('m \<Rightarrow> bytes) \<Rightarrow> string \<Rightarrow> 'm \<Rightarrow> Disk \<Rightarrow> StatusCode \<times> Disk" where
  "Write ser primary_filename proto =
     (let tmp_filename = primary_filename @ kTmpSuffix;
          override_filename = primary_filename @ kOverrideSuffix
      in return_if_error (recover primary_filename)
         (return_if_error (WriteToTmp ser tmp_filename proto)
         (return_if_error (MoveTmpToOverride tmp_filename override_filename)
         (return_if_error (DeletePrimary primary_filename)
                          (MoveOverrideToPrimary override_filename primary_filename)))))"

definition Read :: "(bytes \<Rightarrow> 'm option) \<Rightarrow> string \<Rightarrow> Disk \<Rightarrow> (StatusCode + 'm) \<times> Disk" where
  "Read parse primary_filename d =
     (let override_filename = primary_filename @ kOverrideSuffix;
          (istream_or, d) = NewProtoInputStream override_filename d;
          read_primary =
            (case NewProtoInputStream primary_filename d of
               (Inl c, d) \<Rightarrow> (Inl c, d)
             | (Inr b, d) \<Rightarrow> (case parse b of None \<Rightarrow> Inl INVALID_ARGUMENT | Some m \<Rightarrow> Inr m, d))
      in case istream_or of
           Inl c \<Rightarrow> read_primary
         | Inr b \<Rightarrow> (case parse b of Some m \<Rightarrow> (Inr m, d) | None \<Rightarrow> read_primary))"

section \<open>The abstract contents\<close>

text \<open>The files represent the contents \<open>c\<close> (\<open>None\<close>: nothing has been written yet).\<close>

definition store_rep :: "(bytes \<Rightarrow> 'm option) \<Rightarrow> string \<Rightarrow> files \<Rightarrow> 'm option \<Rightarrow> bool" where
  "store_rep parse p fs c \<longleftrightarrow>
     (case map_of fs (p @ kOverrideSuffix) of
        Some b \<Rightarrow> parse b \<noteq> None \<and> c = parse b
      | None \<Rightarrow> (case map_of fs p of Some b \<Rightarrow> parse b \<noteq> None \<and> c = parse b | None \<Rightarrow> c = None))"

text \<open>What \<open>Read\<close> answers for the contents \<open>c\<close>.\<close>

definition read_result :: "'m option \<Rightarrow> StatusCode + 'm" where
  "read_result c = (case c of None \<Rightarrow> Inl NOT_FOUND | Some m \<Rightarrow> Inr m)"

text \<open>No temporary file longer than the bytes to be written is left over.\<close>

definition tmp_fits :: "string \<Rightarrow> bytes \<Rightarrow> files \<Rightarrow> bool" where
  "tmp_fits p bs fs \<longleftrightarrow>
     (case map_of fs (p @ kTmpSuffix) of None \<Rightarrow> True | Some b \<Rightarrow> length b \<le> length bs)"

text \<open>The disk after a restart: the files as they are, all calls succeed.\<close>

definition restart :: "files \<Rightarrow> Disk" where
  "restart fs = \<lparr>files = fs, directories = [], faults = [], history = []\<rparr>"

lemma filenames_distinct [simp]:
  "kTmpSuffix \<noteq> []" "kOverrideSuffix \<noteq> []" "kTmpSuffix \<noteq> kOverrideSuffix" "kOverrideSuffix \<noteq> kTmpSuffix"
  by (simp_all add: kTmpSuffix_def kOverrideSuffix_def)

lemma Read_store_rep:
  "store_rep parse p fs c \<Longrightarrow> fst (Read parse p (restart fs)) = read_result c"
  by (auto simp: Read_def NewProtoInputStream_def next_fault_Nil restart_def store_rep_def read_result_def
      split: option.splits)

section \<open>Hoare triples with crash conditions\<close>

text \<open>\<open>triple P a Q R\<close>: from a disk whose files satisfy \<open>P\<close>, every state of the disk during \<open>a\<close> satisfies
  \<open>R\<close>, so does the final state, and the final state satisfies \<open>Q\<close> when \<open>a\<close> reports success.\<close>

definition triple :: "(files \<Rightarrow> bool) \<Rightarrow> (Disk \<Rightarrow> StatusCode \<times> Disk) \<Rightarrow> (files \<Rightarrow> bool) \<Rightarrow> (files \<Rightarrow> bool) \<Rightarrow> bool" where
  "triple P a Q R \<longleftrightarrow>
     (\<forall>d. P (files d) \<longrightarrow>
        (\<exists>hs. history (snd (a d)) = hs @ history d \<and> (\<forall>fs \<in> set hs. R fs)) \<and>
        R (files (snd (a d))) \<and> (fst (a d) = OK \<longrightarrow> Q (files (snd (a d)))))"

lemma triple_seq:
  assumes a: "triple P a Q R" and b: "triple Q b S R"
  shows "triple P (return_if_error a b) S R"
  unfolding triple_def
proof (intro allI impI)
  fix d :: Disk assume "P (files d)"
  with a obtain hs where a1: "history (snd (a d)) = hs @ history d" "\<forall>fs \<in> set hs. R fs"
    "R (files (snd (a d)))" "fst (a d) = OK \<longrightarrow> Q (files (snd (a d)))" by (auto simp: triple_def)
  show "(\<exists>hs. history (snd (return_if_error a b d)) = hs @ history d \<and> (\<forall>fs \<in> set hs. R fs)) \<and>
        R (files (snd (return_if_error a b d))) \<and>
        (fst (return_if_error a b d) = OK \<longrightarrow> S (files (snd (return_if_error a b d))))"
  proof (cases "fst (a d) = OK")
    case True
    with a1 b obtain hs' where "history (snd (b (snd (a d)))) = hs' @ history (snd (a d))" "\<forall>fs \<in> set hs'. R fs"
      "R (files (snd (b (snd (a d)))))" "fst (b (snd (a d))) = OK \<longrightarrow> S (files (snd (b (snd (a d)))))"
      by (auto simp: triple_def)
    moreover have "return_if_error a b d = b (snd (a d))"
      using True by (auto simp: return_if_error_def split: prod.splits)
    ultimately show ?thesis using a1 by (intro conjI exI [of _ "hs' @ hs"]) auto
  next
    case False
    then have "return_if_error a b d = a d" by (auto simp: return_if_error_def split: prod.splits)
    with a1 False show ?thesis by auto
  qed
qed

lemma triple_seq_ignore:
  assumes a: "triple P a Q Q" and b: "triple Q b S R" and "\<And>fs. Q fs \<Longrightarrow> R fs"
  shows "triple P (\<lambda>d. b (snd (a d))) S R"
  unfolding triple_def
proof (intro allI impI)
  fix d :: Disk assume "P (files d)"
  with a obtain hs where a1: "history (snd (a d)) = hs @ history d" "\<forall>fs \<in> set hs. Q fs" "Q (files (snd (a d)))"
    by (auto simp: triple_def)
  moreover from this b obtain hs' where "history (snd (b (snd (a d)))) = hs' @ history (snd (a d))" "\<forall>fs \<in> set hs'. R fs"
      "R (files (snd (b (snd (a d)))))" "fst (b (snd (a d))) = OK \<longrightarrow> S (files (snd (b (snd (a d)))))"
    by (auto simp: triple_def)
  ultimately show "(\<exists>hs. history (snd (b (snd (a d)))) = hs @ history d \<and> (\<forall>fs \<in> set hs. R fs)) \<and>
      R (files (snd (b (snd (a d))))) \<and> (fst (b (snd (a d))) = OK \<longrightarrow> S (files (snd (b (snd (a d))))))"
    using assms(3) by (intro conjI exI [of _ "hs' @ hs"]) auto
qed

lemma tripleI:
  assumes "\<And>d c d'. P (files d) \<Longrightarrow> a d = (c, d') \<Longrightarrow>
    (\<exists>hs. history d' = hs @ history d \<and> (\<forall>fs \<in> set hs. R fs)) \<and> R (files d') \<and> (c = OK \<longrightarrow> Q (files d'))"
  shows "triple P a Q R"
  unfolding triple_def using assms by (metis prod.collapse)

lemma DeletePrimary_triple:
  assumes "\<And>fs. P fs \<Longrightarrow> P (AList.delete p fs)" and "\<And>fs. P fs \<Longrightarrow> R fs"
  shows "triple P (DeletePrimary p) P R"
proof (rule tripleI)
  fix d c d' assume P: "P (files d)" and r: "DeletePrimary p d = (c, d')"
  obtain ex e where fe: "FileExists p d = (ex, e)" by force
  note e = FileExists_state [OF fe]
  obtain ok e' where dl: "Delete p e = (ok, e')" by force
  show "(\<exists>hs. history d' = hs @ history d \<and> (\<forall>fs \<in> set hs. R fs)) \<and> R (files d') \<and> (c = OK \<longrightarrow> P (files d'))"
    using r fe dl by (cases rule: Delete_cases [OF dl])
      (use P e assms in \<open>auto simp: DeletePrimary_def split: if_splits\<close>)
qed

lemma rename_triple:
  assumes "\<And>fs b. P fs \<Longrightarrow> map_of fs x = Some b \<Longrightarrow> Q (map_set y b (AList.delete x fs))"
    and "\<And>fs. P fs \<Longrightarrow> R fs" and "\<And>fs. Q fs \<Longrightarrow> R fs" and "e \<noteq> OK"
  shows "triple P (\<lambda>d. case Rename x y d of (ok, d) \<Rightarrow> (if ok then OK else e, d)) Q R"
proof (rule tripleI)
  fix d c d' assume P: "P (files d)" and r: "(case Rename x y d of (ok, d) \<Rightarrow> (if ok then OK else e, d)) = (c, d')"
  then obtain ok where ok: "Rename x y d = (ok, d')" "c = (if ok then OK else e)" by (auto split: prod.splits)
  show "(\<exists>hs. history d' = hs @ history d \<and> (\<forall>fs \<in> set hs. R fs)) \<and> R (files d') \<and> (c = OK \<longrightarrow> Q (files d'))"
    by (cases rule: Rename_cases [OF ok(1)]) (use P ok(2) assms in auto)
qed

lemmas MoveOverrideToPrimary_triple = rename_triple [where e = ABORTED, folded MoveOverrideToPrimary_def, simplified]
lemmas MoveTmpToOverride_triple = rename_triple [where e = DATA_LOSS, folded MoveTmpToOverride_def, simplified]

text \<open>Writing the temporary file touches no other file.\<close>

lemma WriteToTmp_triple:
  assumes I: "\<And>fs b. I fs \<Longrightarrow> I (map_set t b fs)" and R: "\<And>fs. I fs \<Longrightarrow> R fs"
    and P: "\<And>fs. P fs \<Longrightarrow> I fs"
    and fits: "\<And>fs b. P fs \<Longrightarrow> map_of fs t = Some b \<Longrightarrow> length b \<le> length (ser m)"
  shows "triple P (WriteToTmp ser t m) (\<lambda>fs. I fs \<and> map_of fs t = Some (ser m)) R"
proof (rule tripleI)
  fix d c d' assume Pd: "P (files d)" and r: "WriteToTmp ser t m d = (c, d')"
  obtain f d1 where n: "next_fault d = (f, d1)" by force
  note s = next_fault_state [OF n]
  show "(\<exists>hs. history d' = hs @ history d \<and> (\<forall>fs \<in> set hs. R fs)) \<and> R (files d') \<and>
        (c = OK \<longrightarrow> I (files d') \<and> map_of (files d') t = Some (ser m))"
  proof (cases "\<exists>e. f = Fails e")
    case True
    with n s r Pd show ?thesis
      by (auto simp: WriteToTmp_def NewProtoOutputStream_def R P dest: next_fault_Fails)
  next
    case False
    define st where "st = \<lparr>stream_path = t, stream_append = False, ByteCount = 0\<rparr>"
    define e1 where "e1 = (if file_of d1 t = None then commit (map_set t [] (files d1)) d1 else d1)"
    have o: "NewProtoOutputStream t False d = (Inr st, e1)"
      using n False by (cases f) (auto simp: NewProtoOutputStream_def st_def e1_def)
    obtain b where b: "file_of e1 t = Some b" "length b \<le> length (ser m)"
      using fits [OF Pd] s by (cases "file_of d t") (auto simp: e1_def)
    have e1: "I (files e1)" "\<exists>hs. history e1 = hs @ history d \<and> (\<forall>fs \<in> set hs. R fs)"
      using Pd s by (auto simp: e1_def I P R)
    obtain g e2 where n2: "next_fault e1 = (g, e2)" by force
    note s2 = next_fault_state [OF n2]
    define k where "k = (case g of NoFault \<Rightarrow> length (ser m) | Fails e \<Rightarrow> 0 | ShortWrite k \<Rightarrow> min k (length (ser m)))"
    define state where "state = (\<lambda>k. map_set t (overlay 0 (take k (ser m)) b) (files e1))"
    have d': "files d' = state k" "history d' = rev (map state [0..<Suc k]) @ history e1"
      "c = (if g = NoFault then OK else DATA_LOSS)"
      using r n2 s2 b(1)
      by (auto simp: WriteToTmp_def o stream_write_def Let_def st_def written_def k_def state_def)
    have "I (state j)" for j using e1(1) I by (simp add: state_def)
    moreover have "g = NoFault \<Longrightarrow> map_of (state k) t = Some (ser m)"
      using b(2) by (simp add: state_def k_def overlay_0)
    moreover obtain hs where "history e1 = hs @ history d" "\<forall>fs \<in> set hs. R fs" using e1(2) by blast
    ultimately show ?thesis
      unfolding d' by (intro conjI exI [of _ "rev (map state [0..<Suc k]) @ hs"]) (auto simp: R)
  qed
qed

section \<open>Crash consistency\<close>

lemma recover_triple:
  assumes "\<And>fs. R fs = (store_rep parse p fs c \<or> store_rep parse p fs c')"
  shows "triple (\<lambda>fs. store_rep parse p fs c \<and> tmp_fits p bs fs) (recover p)
           (\<lambda>fs. store_rep parse p fs c \<and> tmp_fits p bs fs) R"
proof (rule tripleI)
  fix d s d' assume P: "store_rep parse p (files d) c \<and> tmp_fits p bs (files d)" and r: "recover p d = (s, d')"
  obtain ex e where fe: "FileExists (p @ kOverrideSuffix) d = (ex, e)" by force
  note e = FileExists_state [OF fe]
  show "(\<exists>hs. history d' = hs @ history d \<and> (\<forall>fs \<in> set hs. R fs)) \<and> R (files d') \<and>
    (s = OK \<longrightarrow> store_rep parse p (files d') c \<and> tmp_fits p bs (files d'))"
  proof (cases ex)
    case False
    with P r fe e show ?thesis by (auto simp: recover_def assms)
  next
    case True
    define P' where "P' = (\<lambda>fs. store_rep parse p fs c \<and> tmp_fits p bs fs \<and> map_of fs (p @ kOverrideSuffix) \<noteq> None)"
    have "triple P' (DeletePrimary p) P' P'"
      by (rule DeletePrimary_triple) (auto simp: P'_def store_rep_def tmp_fits_def split: option.splits)
    moreover have "triple P' (MoveOverrideToPrimary (p @ kOverrideSuffix) p)
      (\<lambda>fs. store_rep parse p fs c \<and> tmp_fits p bs fs) R"
      by (rule MoveOverrideToPrimary_triple) (auto simp: P'_def store_rep_def tmp_fits_def assms split: option.splits)
    ultimately have "triple P' (\<lambda>d. MoveOverrideToPrimary (p @ kOverrideSuffix) p (snd (DeletePrimary p d)))
      (\<lambda>fs. store_rep parse p fs c \<and> tmp_fits p bs fs) R"
      by (rule triple_seq_ignore) (simp add: P'_def assms)
    moreover have "P' (files e)" using P e True by (simp add: P'_def)
    moreover have "(s, d') = MoveOverrideToPrimary (p @ kOverrideSuffix) p (snd (DeletePrimary p e))"
      using r fe True by (simp add: recover_def)
    ultimately show ?thesis using e by (auto simp: triple_def dest: spec [of _ e] split: prod.splits) (metis fst_conv snd_conv)+
  qed
qed

lemma Write_triple:
  assumes ps: "parse (ser m) = Some m"
    and R: "\<And>fs. R fs = (store_rep parse p fs c \<or> store_rep parse p fs (Some m))"
  shows "triple (\<lambda>fs. store_rep parse p fs c \<and> tmp_fits p (ser m) fs) (Write ser p m)
           (\<lambda>fs. store_rep parse p fs (Some m) \<and> map_of fs (p @ kTmpSuffix) = None) R"
proof -
  let ?o = "p @ kOverrideSuffix" and ?t = "p @ kTmpSuffix"
  let ?new = "\<lambda>fs. map_of fs ?o = Some (ser m) \<and> map_of fs ?t = None"
  have "triple (\<lambda>fs. store_rep parse p fs c \<and> tmp_fits p (ser m) fs) (WriteToTmp ser ?t m)
      (\<lambda>fs. store_rep parse p fs c \<and> map_of fs ?t = Some (ser m)) R"
    by (rule WriteToTmp_triple) (auto simp: R store_rep_def tmp_fits_def split: option.splits)
  moreover have "triple (\<lambda>fs. store_rep parse p fs c \<and> map_of fs ?t = Some (ser m)) (MoveTmpToOverride ?t ?o) ?new R"
    by (rule MoveTmpToOverride_triple) (auto simp: R store_rep_def ps)
  moreover have "triple ?new (DeletePrimary p) ?new R"
    by (rule DeletePrimary_triple) (auto simp: R store_rep_def ps)
  moreover have "triple ?new (MoveOverrideToPrimary ?o p)
      (\<lambda>fs. store_rep parse p fs (Some m) \<and> map_of fs ?t = None) R"
    by (rule MoveOverrideToPrimary_triple) (auto simp: R store_rep_def ps)
  ultimately show ?thesis
    unfolding Write_def Let_def using recover_triple [OF R] by (blast intro: triple_seq)
qed

text \<open>What the disk represents at every point of a write and at its end.\<close>

lemma Write_states:
  assumes "parse (ser m) = Some m" and "store_rep parse p (files d) c" and "tmp_fits p (ser m) (files d)"
    and "Write ser p m d = (status, d')"
  obtains hs where "history d' = hs @ history d"
    and "\<And>fs. fs \<in> set (files d' # hs) \<Longrightarrow> store_rep parse p fs c \<or> store_rep parse p fs (Some m)"
    and "status = OK \<Longrightarrow> store_rep parse p (files d') (Some m)"
  using Write_triple [of parse ser m, OF assms(1) refl] assms(2-4) unfolding triple_def
  by (metis fst_conv snd_conv set_ConsD)

section \<open>Properties\<close>


text \<open>The steps when no call fails.\<close>

lemma Rename_ok:
  "faults d = [] \<Longrightarrow> file_of d a = Some b \<Longrightarrow>
     Rename a c d = (True, commit (map_set c b (AList.delete a (files d))) d)"
  by (simp add: Rename_def next_fault_Nil)

lemma DeletePrimary_ok:
  "faults d = [] \<Longrightarrow> \<exists>d'. DeletePrimary p d = (OK, d') \<and> faults d' = [] \<and> file_of d' = (file_of d)(p := None)"
  by (auto simp: DeletePrimary_def FileExists_def Delete_def next_fault_Nil)

lemma recover_ok:
  assumes "faults d = []"
  shows "\<exists>d'. recover p d = (OK, d') \<and> faults d' = [] \<and> file_of d' (p @ kTmpSuffix) = file_of d (p @ kTmpSuffix)"
proof (cases "file_of d (p @ kOverrideSuffix)")
  case None
  with assms show ?thesis by (simp add: recover_def FileExists_def next_fault_Nil)
next
  case (Some b)
  obtain d1 where "DeletePrimary p d = (OK, d1)" "faults d1 = []" "file_of d1 = (file_of d)(p := None)"
    using DeletePrimary_ok [OF assms] by blast
  with Some assms show ?thesis
    by (simp add: recover_def FileExists_def next_fault_Nil MoveOverrideToPrimary_def Rename_ok)
qed

lemma WriteToTmp_ok:
  assumes "faults d = []"
  shows "\<exists>d'. WriteToTmp ser t m d = (OK, d') \<and> faults d' = [] \<and>
    file_of d' t = Some (overlay 0 (ser m) (case file_of d t of None \<Rightarrow> [] | Some b \<Rightarrow> b))"
  using assms
  by (cases "file_of d t")
    (simp_all add: WriteToTmp_def NewProtoOutputStream_def next_fault_Nil stream_write_def written_def Let_def)

lemma Write_steps:
  assumes "faults d = []"
  obtains d4 where "Write ser p m d = MoveOverrideToPrimary (p @ kOverrideSuffix) p d4" and "faults d4 = []"
    and "file_of d4 (p @ kOverrideSuffix) = Some (overlay 0 (ser m) (case file_of d (p @ kTmpSuffix) of None \<Rightarrow> [] | Some b \<Rightarrow> b))"
proof -
  let ?t = "p @ kTmpSuffix" and ?o = "p @ kOverrideSuffix"
  obtain d1 where d1: "recover p d = (OK, d1)" "faults d1 = []" "file_of d1 ?t = file_of d ?t"
    using recover_ok [OF assms] by blast
  obtain d2 where d2: "WriteToTmp ser ?t m d1 = (OK, d2)" "faults d2 = []"
    "file_of d2 ?t = Some (overlay 0 (ser m) (case file_of d1 ?t of None \<Rightarrow> [] | Some b \<Rightarrow> b))"
    using WriteToTmp_ok [OF d1(2), of ser ?t m] by blast
  define d3 where "d3 = snd (Rename ?t ?o d2)"
  have d3: "MoveTmpToOverride ?t ?o d2 = (OK, d3)" "faults d3 = []" "file_of d3 ?o = file_of d2 ?t"
    using d2 by (simp_all add: d3_def MoveTmpToOverride_def Rename_ok)
  obtain d4 where d4: "DeletePrimary p d3 = (OK, d4)" "faults d4 = []" "file_of d4 = (file_of d3)(p := None)"
    using DeletePrimary_ok [OF d3(2)] by blast
  have "Write ser p m d = MoveOverrideToPrimary ?o p d4"
    by (simp add: Write_def Let_def return_if_error_def d1 d2 d3 d4)
  with d4 d3 d2 d1 that show thesis by simp
qed

lemma Write_no_faults_status: "faults d = [] \<Longrightarrow> fst (Write ser p m d) = OK"
  by (rule Write_steps [of d ser p m]) (simp_all add: MoveOverrideToPrimary_def Rename_ok)

lemma Write_clean:
  assumes "faults d = []" and "file_of d (p @ kTmpSuffix) = None"
  shows "faults (snd (Write ser p m d)) = []"
    and "file_of (snd (Write ser p m d)) = (file_of d)(p \<mapsto> ser m, p @ kOverrideSuffix := None)"
proof -
  let ?t = "p @ kTmpSuffix" and ?o = "p @ kOverrideSuffix"
  have "\<exists>d1. recover p d = (OK, d1) \<and> faults d1 = [] \<and> file_of d1 ?t = None \<and>
    (file_of d1)(p := None, ?o := None) = (file_of d)(p := None, ?o := None)"
  proof (cases "file_of d ?o")
    case None
    with assms show ?thesis by (simp add: recover_def FileExists_def next_fault_Nil)
  next
    case (Some b)
    obtain d1 where "DeletePrimary p d = (OK, d1)" "faults d1 = []" "file_of d1 = (file_of d)(p := None)"
      using DeletePrimary_ok [OF assms(1)] by blast
    with Some assms show ?thesis
      by (auto simp: recover_def FileExists_def next_fault_Nil MoveOverrideToPrimary_def Rename_ok fun_upd_twist)
  qed
  then obtain d1 where d1: "recover p d = (OK, d1)" "faults d1 = []" "file_of d1 ?t = None"
    "(file_of d1)(p := None, ?o := None) = (file_of d)(p := None, ?o := None)" by blast
  obtain d2 where d2: "WriteToTmp ser ?t m d1 = (OK, d2)" "faults d2 = []" "file_of d2 = (file_of d1)(?t \<mapsto> ser m)"
    using d1(2,3) by (auto simp: WriteToTmp_def NewProtoOutputStream_def next_fault_Nil stream_write_def written_def Let_def overlay_0)
  define d3 where "d3 = snd (Rename ?t ?o d2)"
  have d3: "MoveTmpToOverride ?t ?o d2 = (OK, d3)" "faults d3 = []" "file_of d3 = (file_of d1)(?o \<mapsto> ser m)"
    using d2 d1(3) by (auto simp: d3_def MoveTmpToOverride_def Rename_ok fun_eq_iff)
  obtain d4 where d4: "DeletePrimary p d3 = (OK, d4)" "faults d4 = []" "file_of d4 = (file_of d3)(p := None)"
    using DeletePrimary_ok [OF d3(2)] by blast
  have w: "Write ser p m d = MoveOverrideToPrimary ?o p d4"
    by (simp add: Write_def Let_def return_if_error_def d1(1) d2(1) d3(1) d4(1))
  show "faults (snd (Write ser p m d)) = []"
    using d4 d3 by (simp add: w MoveOverrideToPrimary_def Rename_ok)
  have "file_of (snd (Write ser p m d)) = ((file_of d1)(p := None, ?o := None))(p \<mapsto> ser m, ?o := None)"
    using d4 d3 by (auto simp: w MoveOverrideToPrimary_def Rename_ok fun_eq_iff)
  then show "file_of (snd (Write ser p m d)) = (file_of d)(p \<mapsto> ser m, ?o := None)"
    unfolding d1(4) by (auto simp: fun_eq_iff)
qed

text \<open>Without failing calls \<open>Write\<close> succeeds, whatever the files were before, and the primary file then
  holds the serialised message followed by the bytes of a left-over temporary file beyond its length.\<close>

theorem Write_no_faults:
  assumes "faults d = []"
  shows "fst (Write ser p m d) = OK \<and>
    map_of (files (snd (Write ser p m d))) p =
      Some (ser m @ drop (length (ser m)) (case file_of d (p @ kTmpSuffix) of None \<Rightarrow> [] | Some b \<Rightarrow> b)) \<and>
    map_of (files (snd (Write ser p m d))) (p @ kOverrideSuffix) = None"
  by (rule Write_steps [OF assms, of ser p m]) (simp add: MoveOverrideToPrimary_def Rename_ok overlay_def)

theorem Write_no_faults_witness:
  "map_of (files (snd (Write id ''f'' [1, 2] (restart [(''f.tmp'', [7, 8, 9])])))) ''f'' = Some [1, 2, 9]"
  using Write_no_faults [of "restart [(''f.tmp'', [7, 8, 9])]" id "''f''" "[1, 2]"]
  by (simp add: restart_def kTmpSuffix_def)


text \<open>A failed \<open>Write\<close> may already have replaced the message: when deleting the primary file fails after the
  new message has been moved to the override file, \<open>Write\<close> reports \<open>ABORTED\<close> and \<open>Read\<close> delivers the new
  message, not the one written before.\<close>

theorem Write_failure_may_commit:
  "let d = restart [(''f'', [5 :: u8])]\<lparr>faults := replicate 5 NoFault @ [Fails EACCES]\<rparr>;
       (status, d') = Write id ''f'' [1] d
   in status = ABORTED \<and> fst (Read Some ''f'' (restart (files d'))) = Inr [1]"
  by (simp add: restart_def Write_def return_if_error_def recover_def FileExists_def next_fault_def
      WriteToTmp_def NewProtoOutputStream_def stream_write_def written_def overlay_def commit_def
      MoveTmpToOverride_def Rename_def DeletePrimary_def Delete_def Read_def NewProtoInputStream_def
      kTmpSuffix_def kOverrideSuffix_def numeral_eq_Suc Let_def)

end
