(* ===== verification/Aggregate_Store.thy ===== *)
theory Aggregate_Store
  imports Observation_Encoder Consistent_Proto_Store
begin

text \<open>
  The local aggregate store: the messages of \<^verbatim>\<open>src/src/local_aggregation/local_aggregation.proto\<close>,
  \<^verbatim>\<open>aggregation_utils.cc\<close>, and the operations of \<open>AggregateStore\<close> (\<^verbatim>\<open>aggregate_store.cc\<close>) that do not
  generate observations: construction from the two files, registration of reports, updates by events,
  garbage collection, backups, deletion. Generation is in \<open>Aggregate_Generation\<close>. A failed \<open>CHECK\<close> and
  the dereference of a null pointer are \<open>None\<close>.

  The lookup functions \<open>active_on\<close> and \<open>numeric_on\<close> give the abstract view of the nested maps; the lemmas say how
  every operation changes it.
\<close>

section \<open>Messages\<close>

datatype DailyAggregate = activity_daily_aggregate bool | numeric_daily_aggregate i64 | DAILY_TYPE_NOT_SET

type_synonym DailyAggregates = "(u32 \<times> DailyAggregate) list"
type_synonym UniqueActivesReportAggregates = "(u32 \<times> DailyAggregates) list"
type_synonym EventCodeAggregates = "(u64 \<times> DailyAggregates) list"
type_synonym PerDeviceNumericAggregates = "(string \<times> EventCodeAggregates) list"

datatype AggregatesType =
    unique_actives_aggregates UniqueActivesReportAggregates
  | numeric_aggregates PerDeviceNumericAggregates
  | AGGREGATES_NOT_SET

record AggregationConfig =
  config_project :: Project
  config_metric :: MetricDefinition
  config_report :: ReportDefinition
  config_window_size :: "u32 list"
  config_aggregation_window :: "OnDeviceAggregationWindow list"

record ReportAggregates =
  aggregates_type :: AggregatesType
  aggregation_config :: AggregationConfig

record LocalAggregateStore =
  store_version :: u32
  by_report_key :: "(string \<times> ReportAggregates) list"

type_synonym HistoryByWindowSize = "(u32 \<times> u32) list"

datatype HistoryType =
    unique_actives_history "(u32 \<times> HistoryByWindowSize) list"
  | per_device_numeric_history "(string \<times> (u64 \<times> HistoryByWindowSize) list) list"
  | HISTORY_NOT_SET

record AggregatedObservationHistory =
  history_type :: HistoryType
  last_generated :: u32

record AggregatedObservationHistoryStore =
  history_version :: u32
  history_by_report_key :: "(string \<times> AggregatedObservationHistory) list"

definition default_history :: AggregatedObservationHistory where
  "default_history = \<lparr>history_type = HISTORY_NOT_SET, last_generated = 0\<rparr>"

record ReportAggregationKey =
  key_customer_id :: u32
  key_project_id :: u32
  key_metric_id :: u32
  key_report_id :: u32

section \<open>aggregation\_utils.cc\<close>

definition MakeDayWindow :: "u32 \<Rightarrow> OnDeviceAggregationWindow" where
  "MakeDayWindow num_days = kDays num_days"

definition MakeHourWindow :: "u32 \<Rightarrow> OnDeviceAggregationWindow" where
  "MakeHourWindow num_hours = kHours num_hours"

text \<open>\<open>std::max\<close> and \<open>std::min\<close> on \<open>int64_t\<close>.\<close>

definition signed_max :: "i64 \<Rightarrow> i64 \<Rightarrow> i64" where
  "signed_max a b = (if a <s b then b else a)"

definition signed_min :: "i64 \<Rightarrow> i64 \<Rightarrow> i64" where
  "signed_min a b = (if b <s a then b else a)"

definition GetUpdatedAggregate :: "OnDeviceAggregationType \<Rightarrow> i64 option \<Rightarrow> i64 \<Rightarrow> Status \<times> i64" where
  "GetUpdatedAggregate ty stored_aggregate new_value =
     (case stored_aggregate of
        None \<Rightarrow> (kOK, new_value)
      | Some v \<Rightarrow>
          (case ty of
             SUM_TYPE \<Rightarrow> (kOK, new_value + v)
           | MAX_TYPE \<Rightarrow> (kOK, signed_max new_value v)
           | MIN_TYPE \<Rightarrow> (kOK, signed_min new_value v)
           | UNKNOWN_AGGREGATION_TYPE \<Rightarrow> (kInvalidArguments, 0)))"

section \<open>State\<close>

definition kMaxAllowedBackfillDays :: nat where "kMaxAllowedBackfillDays = 1000"
definition kMaxAllowedAggregationDays :: u32 where "kMaxAllowedAggregationDays = 365"
definition kMaxAllowedAggregationHours :: u32 where "kMaxAllowedAggregationHours = 23"
definition kCurrentLocalAggregateStoreVersion :: u32 where "kCurrentLocalAggregateStoreVersion = 1"
definition kCurrentObservationHistoryStoreVersion :: u32 where "kCurrentObservationHistoryStoreVersion = 0"

lemmas aggregate_consts = kMaxAllowedBackfillDays_def kMaxAllowedAggregationDays_def kMaxAllowedAggregationHours_def
  kCurrentLocalAggregateStoreVersion_def kCurrentObservationHistoryStoreVersion_def

text \<open>\<open>SerializeKey\<close> is the protobuf serialisation of a \<open>ReportAggregationKey\<close> followed by base64. \<open>random\<close> is
  the part of the random bytes that has not been used, \<open>observations\<close> the state behind the observation
  writer.\<close>

record 's AggregateStore =
  agg_encoder :: Encoder
  agg_writer :: "'s ObservationWriter"
  SerializeKey :: "ReportAggregationKey \<Rightarrow> string option"
  backfill_days :: nat
  agg_disabled :: bool
  local_aggregate_store :: LocalAggregateStore
  empty_local_aggregate_store :: LocalAggregateStore
  obs_history :: AggregatedObservationHistoryStore
  random :: Random
  observations :: 's

definition PopulateReportKey :: "'s AggregateStore \<Rightarrow> u32 \<Rightarrow> u32 \<Rightarrow> u32 \<Rightarrow> u32 \<Rightarrow> string option" where
  "PopulateReportKey s cid pid mid rid =
     SerializeKey s \<lparr>key_customer_id = cid, key_project_id = pid, key_metric_id = mid, key_report_id = rid\<rparr>"

section \<open>Registration of reports\<close>

text \<open>The three loops that collect and check the windows: \<open>None\<close> is the early return of \<open>false\<close>.\<close>

fun collect_window_sizes :: "u32 list \<Rightarrow> u32 list \<Rightarrow> u32 list option" where
  "collect_window_sizes [] ds = Some ds"
| "collect_window_sizes (w # ws) ds =
     (if w = 0 \<or> w > kMaxAllowedAggregationDays then None else collect_window_sizes ws (ds @ [w]))"

fun collect_windows ::
    "OnDeviceAggregationWindow list \<Rightarrow> u32 list \<times> u32 list \<Rightarrow> (u32 list \<times> u32 list) option" where
  "collect_windows [] (ds, hs) = Some (ds, hs)"
| "collect_windows (w # ws) (ds, hs) =
     (case w of
        kDays n \<Rightarrow> if n = 0 \<or> n > kMaxAllowedAggregationDays then None else collect_windows ws (ds @ [n], hs)
      | kHours n \<Rightarrow> if n = 0 \<or> n > kMaxAllowedAggregationHours then None else collect_windows ws (ds, hs @ [n])
      | UNITS_NOT_SET \<Rightarrow> collect_windows ws (ds, hs))"

definition GetSortedAggregationWindowsFromReport :: "ReportDefinition \<Rightarrow> OnDeviceAggregationWindow list option" where
  "GetSortedAggregationWindowsFromReport report =
     (if window_size report = [] \<and> aggregation_window report = [] then None
      else case collect_window_sizes (window_size report) [] of
             None \<Rightarrow> None
           | Some ds \<Rightarrow>
               (case collect_windows (aggregation_window report) (ds, []) of
                  None \<Rightarrow> None
                | Some (ds, hs) \<Rightarrow> Some (map MakeHourWindow (sort hs) @ map MakeDayWindow (sort ds))))"

text \<open>The outer option is the dereference of the pointer returned by \<open>GetMetric\<close>, the inner one the result
  \<open>false\<close>.\<close>

definition PopulateReportAggregates ::
    "ProjectContext \<Rightarrow> MetricDefinition \<Rightarrow> ReportDefinition \<Rightarrow> ReportAggregates option option" where
  "PopulateReportAggregates ctx metric report =
     (case GetMetric ctx (metric_def_id metric) of
        None \<Rightarrow> None
      | Some m \<Rightarrow> Some
          (case GetSortedAggregationWindowsFromReport report of
             None \<Rightarrow> None
           | Some windows \<Rightarrow>
               let config = \<lparr>config_project = project ctx, config_metric = m, config_report = report,
                             config_window_size = [], config_aggregation_window = windows\<rparr>
               in case report_type report of
                    UNIQUE_N_DAY_ACTIVES \<Rightarrow> Some \<lparr>aggregates_type = unique_actives_aggregates [], aggregation_config = config\<rparr>
                  | PER_DEVICE_NUMERIC_STATS \<Rightarrow> Some \<lparr>aggregates_type = numeric_aggregates [], aggregation_config = config\<rparr>
                  | PER_DEVICE_HISTOGRAM \<Rightarrow> Some \<lparr>aggregates_type = numeric_aggregates [], aggregation_config = config\<rparr>
                  | _ \<Rightarrow> None))"

text \<open>Inserts the report into one of the two stores when its key is missing.\<close>

definition insert_missing ::
    "ProjectContext \<Rightarrow> MetricDefinition \<Rightarrow> ReportDefinition \<Rightarrow> string \<Rightarrow> LocalAggregateStore \<Rightarrow> LocalAggregateStore option option" where
  "insert_missing ctx metric report key las =
     (if map_of (by_report_key las) key = None
      then case PopulateReportAggregates ctx metric report of
             None \<Rightarrow> None
           | Some None \<Rightarrow> Some None
           | Some (Some aggregates) \<Rightarrow> Some (Some (las\<lparr>by_report_key := map_set key aggregates (by_report_key las)\<rparr>))
      else Some (Some las))"

definition MaybeInsertReportConfig ::
    "ProjectContext \<Rightarrow> MetricDefinition \<Rightarrow> ReportDefinition \<Rightarrow> 's AggregateStore \<Rightarrow> (Status \<times> 's AggregateStore) option" where
  "MaybeInsertReportConfig ctx metric report s =
     (case PopulateReportKey s (project_customer_id (project ctx)) (project_project_id (project ctx))
             (metric_def_id metric) (report_def_id report) of
        None \<Rightarrow> Some (kInvalidArguments, s)
      | Some key \<Rightarrow>
          (case insert_missing ctx metric report key (local_aggregate_store s) of
             None \<Rightarrow> None
           | Some None \<Rightarrow> Some (kInvalidArguments, s)
           | Some (Some las) \<Rightarrow>
               let s = s\<lparr>local_aggregate_store := las\<rparr>
               in (case insert_missing ctx metric report key (empty_local_aggregate_store s) of
                     None \<Rightarrow> None
                   | Some None \<Rightarrow> Some (kInvalidArguments, s)
                   | Some (Some las) \<Rightarrow> Some (kOK, s\<lparr>empty_local_aggregate_store := las\<rparr>))))"

section \<open>Updates\<close>

definition set_aggregates :: "string \<Rightarrow> AggregatesType \<Rightarrow> 's AggregateStore \<Rightarrow> 's AggregateStore" where
  "set_aggregates key t s =
     s\<lparr>local_aggregate_store := (local_aggregate_store s)
         \<lparr>by_report_key := AList.map_entry key (\<lambda>a. a\<lparr>aggregates_type := t\<rparr>) (by_report_key (local_aggregate_store s))\<rparr>\<rparr>"

definition SetActive :: "u32 \<Rightarrow> u32 \<Rightarrow> u32 \<Rightarrow> u32 \<Rightarrow> u64 \<Rightarrow> u32 \<Rightarrow> 's AggregateStore \<Rightarrow> Status \<times> 's AggregateStore" where
  "SetActive cid pid mid rid event_code day s =
     (if agg_disabled s then (kOK, s)
      else case PopulateReportKey s cid pid mid rid of
             None \<Rightarrow> (kInvalidArguments, s)
           | Some key \<Rightarrow>
               (case map_of (by_report_key (local_aggregate_store s)) key of
                  None \<Rightarrow> (kInvalidArguments, s)
                | Some aggregates \<Rightarrow>
                    (case aggregates_type aggregates of
                       unique_actives_aggregates m \<Rightarrow>
                         let code = ucast event_code;
                             by_day = map_set day (activity_daily_aggregate True) (map_get [] m code)
                         in (kOK, set_aggregates key (unique_actives_aggregates (map_set code by_day m)) s)
                     | _ \<Rightarrow> (kInvalidArguments, s))))"

text \<open>\<open>mutable_numeric_daily_aggregate()->value()\<close>.\<close>

definition numeric_value :: "DailyAggregate option \<Rightarrow> i64" where
  "numeric_value d = (case d of Some (numeric_daily_aggregate v) \<Rightarrow> v | _ \<Rightarrow> 0)"

text \<open>The entry of the day is created before the aggregation type is looked at.\<close>

definition UpdateNumericAggregate ::
    "u32 \<Rightarrow> u32 \<Rightarrow> u32 \<Rightarrow> u32 \<Rightarrow> string \<Rightarrow> u64 \<Rightarrow> u32 \<Rightarrow> i64 \<Rightarrow> 's AggregateStore \<Rightarrow> Status \<times> 's AggregateStore" where
  "UpdateNumericAggregate cid pid mid rid component event_code day v s =
     (if agg_disabled s then (kOK, s)
      else case PopulateReportKey s cid pid mid rid of
             None \<Rightarrow> (kInvalidArguments, s)
           | Some key \<Rightarrow>
               (case map_of (by_report_key (local_aggregate_store s)) key of
                  None \<Rightarrow> (kInvalidArguments, s)
                | Some aggregates \<Rightarrow>
                    (case aggregates_type aggregates of
                       numeric_aggregates m \<Rightarrow>
                         let by_code = map_get [] m component;
                             by_day = map_get [] by_code event_code;
                             stored = map_of by_day day;
                             day_value = numeric_value stored;
                             (st, updated) = GetUpdatedAggregate (aggregation_type (config_report (aggregation_config aggregates)))
                               (if stored = None then None else Some day_value) v;
                             by_day = map_set day (numeric_daily_aggregate (if st = kOK then updated else day_value)) by_day
                         in (st, set_aggregates key (numeric_aggregates (map_set component (map_set event_code by_day by_code) m)) s)
                     | _ \<Rightarrow> (kInvalidArguments, s))))"

section \<open>Backups, deletion, disabling\<close>

definition CopyLocalAggregateStore :: "'s AggregateStore \<Rightarrow> LocalAggregateStore" where
  "CopyLocalAggregateStore s = local_aggregate_store s"

definition BackUpLocalAggregateStore ::
    "(LocalAggregateStore \<Rightarrow> bytes) \<Rightarrow> string \<Rightarrow> 's AggregateStore \<Rightarrow> Disk \<Rightarrow> Status \<times> Disk" where
  "BackUpLocalAggregateStore ser path s d =
     (case Write ser path (CopyLocalAggregateStore s) d of (c, d) \<Rightarrow> (if c \<noteq> OK then kOther else kOK, d))"

definition BackUpObservationHistory ::
    "(AggregatedObservationHistoryStore \<Rightarrow> bytes) \<Rightarrow> string \<Rightarrow> 's AggregateStore \<Rightarrow> Disk \<Rightarrow> Status \<times> Disk" where
  "BackUpObservationHistory ser path s d =
     (case Write ser path (obs_history s) d of (c, d) \<Rightarrow> (if c \<noteq> OK then kOther else kOK, d))"

definition MakeNewLocalAggregateStore :: "u32 \<Rightarrow> LocalAggregateStore" where
  "MakeNewLocalAggregateStore version = \<lparr>store_version = version, by_report_key = []\<rparr>"

definition MakeNewObservationHistoryStore :: "u32 \<Rightarrow> AggregatedObservationHistoryStore" where
  "MakeNewObservationHistoryStore version = \<lparr>history_version = version, history_by_report_key = []\<rparr>"

definition AggregateStore_DeleteData :: "'s AggregateStore \<Rightarrow> 's AggregateStore" where
  "AggregateStore_DeleteData s =
     s\<lparr>local_aggregate_store := empty_local_aggregate_store s,
       obs_history := MakeNewObservationHistoryStore kCurrentObservationHistoryStoreVersion\<rparr>"

definition AggregateStore_Disable :: "bool \<Rightarrow> 's AggregateStore \<Rightarrow> 's AggregateStore" where
  "AggregateStore_Disable b s = s\<lparr>agg_disabled := b\<rparr>"

section \<open>Construction\<close>

definition convert_config :: "AggregationConfig \<Rightarrow> AggregationConfig" where
  "convert_config config =
     (let config = (if config_window_size config \<noteq> [] \<and> config_aggregation_window config \<noteq> []
                    then config\<lparr>config_aggregation_window := []\<rparr> else config)
      in config\<lparr>config_aggregation_window := config_aggregation_window config @ map MakeDayWindow (config_window_size config),
                config_window_size := []\<rparr>)"

definition ConvertWindowSizesToAggregationDays :: "LocalAggregateStore \<Rightarrow> LocalAggregateStore" where
  "ConvertWindowSizesToAggregationDays las =
     las\<lparr>by_report_key :=
       map (\<lambda>(key, a). (key, a\<lparr>aggregation_config := convert_config (aggregation_config a)\<rparr>)) (by_report_key las)\<rparr>"

definition UpgradeLocalAggregateStoreFromVersion0 :: "LocalAggregateStore \<Rightarrow> Status \<times> LocalAggregateStore" where
  "UpgradeLocalAggregateStoreFromVersion0 las =
     (kOK, (ConvertWindowSizesToAggregationDays las)\<lparr>store_version := kCurrentLocalAggregateStoreVersion\<rparr>)"

definition MaybeUpgradeLocalAggregateStore :: "LocalAggregateStore \<Rightarrow> Status \<times> LocalAggregateStore" where
  "MaybeUpgradeLocalAggregateStore las =
     (if store_version las = kCurrentLocalAggregateStoreVersion then (kOK, las)
      else if store_version las = 0 then UpgradeLocalAggregateStoreFromVersion0 las
      else (kInvalidArguments, las))"

definition MaybeUpgradeObservationHistoryStore :: "AggregatedObservationHistoryStore \<Rightarrow> Status" where
  "MaybeUpgradeObservationHistoryStore h =
     (if history_version h = kCurrentObservationHistoryStoreVersion then kOK else kInvalidArguments)"

definition restore_aggregates :: "StatusCode + LocalAggregateStore \<Rightarrow> LocalAggregateStore" where
  "restore_aggregates res =
     (let las = (case res of Inr m \<Rightarrow> m | Inl _ \<Rightarrow> MakeNewLocalAggregateStore kCurrentLocalAggregateStoreVersion)
      in case MaybeUpgradeLocalAggregateStore las of
           (st, las) \<Rightarrow> if st \<noteq> kOK then MakeNewLocalAggregateStore kCurrentLocalAggregateStoreVersion else las)"

text \<open>When no file is found the history is the empty message, whose version is 0.\<close>

definition restore_history :: "StatusCode + AggregatedObservationHistoryStore \<Rightarrow> AggregatedObservationHistoryStore" where
  "restore_history res =
     (let h = (case res of
                 Inr m \<Rightarrow> m
               | Inl c \<Rightarrow> if c = NOT_FOUND then \<lparr>history_version = 0, history_by_report_key = []\<rparr>
                         else MakeNewObservationHistoryStore kCurrentObservationHistoryStoreVersion)
      in if MaybeUpgradeObservationHistoryStore h \<noteq> kOK
         then MakeNewObservationHistoryStore kCurrentObservationHistoryStoreVersion else h)"

definition AggregateStore_ctor ::
    "(bytes \<Rightarrow> LocalAggregateStore option) \<Rightarrow> (bytes \<Rightarrow> AggregatedObservationHistoryStore option) \<Rightarrow> string \<Rightarrow> string \<Rightarrow>
     Encoder \<Rightarrow> 's ObservationWriter \<Rightarrow> (ReportAggregationKey \<Rightarrow> string option) \<Rightarrow> nat \<Rightarrow> Random \<Rightarrow> 's \<Rightarrow> Disk \<Rightarrow>
     ('s AggregateStore \<times> Disk) option" where
  "AggregateStore_ctor parse_las parse_hist las_path hist_path enc writer ser_key days_back r obs d =
     (if \<not> days_back \<le> kMaxAllowedBackfillDays then None
      else let (las, d) = Read parse_las las_path d;
               (hist, d) = Read parse_hist hist_path d
           in Some (\<lparr>agg_encoder = enc, agg_writer = writer, SerializeKey = ser_key, backfill_days = days_back,
                     agg_disabled = False, local_aggregate_store = restore_aggregates las,
                     empty_local_aggregate_store = MakeNewLocalAggregateStore kCurrentLocalAggregateStoreVersion,
                     obs_history = restore_history hist, random = r, observations = obs\<rparr>, d))"

section \<open>Garbage collection\<close>

definition keep_days :: "u32 \<Rightarrow> u32 \<Rightarrow> u32 \<Rightarrow> DailyAggregates \<Rightarrow> DailyAggregates" where
  "keep_days day max_aggregation_days backfill by_day =
     filter (\<lambda>(d, _). \<not> d \<le> day - backfill - max_aggregation_days) by_day"

definition GarbageCollectUniqueActivesReportAggregates ::
    "u32 \<Rightarrow> u32 \<Rightarrow> u32 \<Rightarrow> UniqueActivesReportAggregates \<Rightarrow> UniqueActivesReportAggregates" where
  "GarbageCollectUniqueActivesReportAggregates day max_aggregation_days backfill m =
     filter (\<lambda>(_, by_day). by_day \<noteq> [])
       (map (\<lambda>(code, by_day). (code, keep_days day max_aggregation_days backfill by_day)) m)"

definition gc_event_codes :: "u32 \<Rightarrow> u32 \<Rightarrow> u32 \<Rightarrow> EventCodeAggregates \<Rightarrow> EventCodeAggregates" where
  "gc_event_codes day max_aggregation_days backfill by_code =
     filter (\<lambda>(_, by_day). by_day \<noteq> [])
       (map (\<lambda>(code, by_day). (code, keep_days day max_aggregation_days backfill by_day)) by_code)"

definition GarbageCollectNumericReportAggregates ::
    "u32 \<Rightarrow> u32 \<Rightarrow> u32 \<Rightarrow> PerDeviceNumericAggregates \<Rightarrow> PerDeviceNumericAggregates" where
  "GarbageCollectNumericReportAggregates day max_aggregation_days backfill m =
     filter (\<lambda>(_, by_code). by_code \<noteq> [])
       (map (\<lambda>(component, by_code). (component, gc_event_codes day max_aggregation_days backfill by_code)) m)"

text \<open>The day index for a time zone policy; \<open>None\<close> for an invalid policy.\<close>

definition policy_day :: "TimeZonePolicy \<Rightarrow> u32 \<Rightarrow> u32 \<Rightarrow> u32 option" where
  "policy_day policy day_utc day_local =
     (case policy of UTC \<Rightarrow> Some day_utc | LOCAL \<Rightarrow> Some day_local | OtherTimeZonePolicy \<Rightarrow> None)"

definition max_aggregation_days_of :: "OnDeviceAggregationWindow list \<Rightarrow> u32" where
  "max_aggregation_days_of windows = (case last windows of kDays n \<Rightarrow> n | _ \<Rightarrow> 1)"

definition gc_report :: "nat \<Rightarrow> u32 \<Rightarrow> u32 \<Rightarrow> ReportAggregates \<Rightarrow> ReportAggregates" where
  "gc_report backfill day_utc day_local a =
     (let config = aggregation_config a
      in case policy_day (time_zone_policy (config_metric config)) day_utc day_local of
           None \<Rightarrow> a
         | Some day \<Rightarrow>
             if config_aggregation_window config = [] then a
             else let n = max_aggregation_days_of (config_aggregation_window config)
                  in if n = 0 \<or> n > day then a
                     else case aggregates_type a of
                            unique_actives_aggregates m \<Rightarrow>
                              a\<lparr>aggregates_type := unique_actives_aggregates
                                  (GarbageCollectUniqueActivesReportAggregates day n (of_nat backfill) m)\<rparr>
                          | numeric_aggregates m \<Rightarrow>
                              a\<lparr>aggregates_type := numeric_aggregates
                                  (GarbageCollectNumericReportAggregates day n (of_nat backfill) m)\<rparr>
                          | AGGREGATES_NOT_SET \<Rightarrow> a)"

text \<open>The \<open>CHECK\<close>s on the day indices shared by \<open>GarbageCollect\<close> and \<open>GenerateObservations\<close>.\<close>

definition check_day :: "nat \<Rightarrow> u32 \<Rightarrow> bool" where
  "check_day backfill day \<longleftrightarrow> day < - 1 \<and> unat kMaxAllowedAggregationDays + backfill \<le> unat day"

definition GarbageCollect :: "u32 \<Rightarrow> u32 \<Rightarrow> 's AggregateStore \<Rightarrow> (Status \<times> 's AggregateStore) option" where
  "GarbageCollect day_utc day_local s =
     (let day_local = (if day_local = 0 then day_utc else day_local)
      in if \<not> (check_day (backfill_days s) day_utc \<and> check_day (backfill_days s) day_local) then None
         else Some (kOK, s\<lparr>local_aggregate_store := (local_aggregate_store s)\<lparr>by_report_key :=
                map (\<lambda>(key, a). (key, gc_report (backfill_days s) day_utc day_local a)) (by_report_key (local_aggregate_store s))\<rparr>\<rparr>))"

section \<open>The nested maps as functions of their keys\<close>

definition report_of :: "'s AggregateStore \<Rightarrow> string \<Rightarrow> ReportAggregates option" where
  "report_of s key = map_of (by_report_key (local_aggregate_store s)) key"

definition actives_cell :: "UniqueActivesReportAggregates \<Rightarrow> u32 \<Rightarrow> u32 \<Rightarrow> DailyAggregate option" where
  "actives_cell m code day = map_of (map_get [] m code) day"

definition numeric_cell :: "PerDeviceNumericAggregates \<Rightarrow> string \<Rightarrow> u64 \<Rightarrow> u32 \<Rightarrow> DailyAggregate option" where
  "numeric_cell m component code day = map_of (map_get [] (map_get [] m component) code) day"

lemma actives_cell_Nil [simp]: "actives_cell [] code day = None"
  by (simp add: actives_cell_def)

lemma numeric_cell_Nil [simp]: "numeric_cell [] component code day = None"
  by (simp add: numeric_cell_def)

lemma actives_cell_set:
  "actives_cell (map_set code (map_set day v (map_get [] m code)) m) c d =
     (if c = code \<and> d = day then Some v else actives_cell m c d)"
  by (simp add: actives_cell_def)

lemma numeric_cell_set:
  "numeric_cell (map_set component (map_set code (map_set day v (map_get [] (map_get [] m component) code)) (map_get [] m component)) m) k c d =
     (if k = component \<and> c = code \<and> d = day then Some v else numeric_cell m k c d)"
  by (simp add: numeric_cell_def)

lemma report_of_set_aggregates:
  "report_of (set_aggregates key t s) k =
     (if k = key then map_option (\<lambda>a. a\<lparr>aggregates_type := t\<rparr>) (report_of s key) else report_of s k)"
  by (auto simp: report_of_def set_aggregates_def map_of_map_entry split: option.split)

lemma set_aggregates_simps [simp]:
  "agg_disabled (set_aggregates key t s) = agg_disabled s" "SerializeKey (set_aggregates key t s) = SerializeKey s"
  "obs_history (set_aggregates key t s) = obs_history s" "observations (set_aggregates key t s) = observations s"
  "empty_local_aggregate_store (set_aggregates key t s) = empty_local_aggregate_store s"
  "backfill_days (set_aggregates key t s) = backfill_days s"
  "PopulateReportKey (set_aggregates key t s) = PopulateReportKey s"
  by (simp_all add: set_aggregates_def PopulateReportKey_def fun_eq_iff)

section \<open>Single updates\<close>

text \<open>The store accepts events for the report with these ids: it is enabled, the key can be built and it is
  registered with aggregates \<open>a\<close>.\<close>

definition registered :: "'s AggregateStore \<Rightarrow> u32 \<Rightarrow> u32 \<Rightarrow> u32 \<Rightarrow> u32 \<Rightarrow> string \<Rightarrow> ReportAggregates \<Rightarrow> bool" where
  "registered s cid pid mid rid key a \<longleftrightarrow>
     \<not> agg_disabled s \<and> PopulateReportKey s cid pid mid rid = Some key \<and> report_of s key = Some a"

lemma SetActive_registered:
  assumes "registered s cid pid mid rid key a" and "aggregates_type a = unique_actives_aggregates m"
  shows "\<exists>m'. SetActive cid pid mid rid code day s = (kOK, set_aggregates key (unique_actives_aggregates m') s) \<and>
    (\<forall>c d. actives_cell m' c d = (if c = ucast code \<and> d = day then Some (activity_daily_aggregate True) else actives_cell m c d))"
  using assms by (auto simp: registered_def SetActive_def report_of_def Let_def actives_cell_set)

lemma UpdateNumericAggregate_registered:
  assumes "registered s cid pid mid rid key a" and "aggregates_type a = numeric_aggregates m"
    and "GetUpdatedAggregate (aggregation_type (config_report (aggregation_config a)))
      (map_option (\<lambda>d. numeric_value (Some d)) (numeric_cell m component code day)) v = (kOK, w)"
  shows "\<exists>m'. UpdateNumericAggregate cid pid mid rid component code day v s = (kOK, set_aggregates key (numeric_aggregates m') s) \<and>
    (\<forall>k c d. numeric_cell m' k c d =
       (if k = component \<and> c = code \<and> d = day then Some (numeric_daily_aggregate w) else numeric_cell m k c d))"
proof -
  let ?st = "map_of (map_get [] (map_get [] m component) code) day"
  have "(if ?st = None then None else Some (numeric_value ?st)) =
    map_option (\<lambda>d. numeric_value (Some d)) (numeric_cell m component code day)"
    by (cases ?st) (simp_all add: numeric_cell_def)
  with assms show ?thesis
    by (auto simp: registered_def UpdateNumericAggregate_def report_of_def Let_def numeric_cell_set)
qed

lemma registered_set_aggregates:
  "registered s cid pid mid rid key a \<Longrightarrow> registered (set_aggregates key t s) cid pid mid rid key (a\<lparr>aggregates_type := t\<rparr>)"
  by (simp add: registered_def report_of_set_aggregates)

section \<open>A day of events\<close>

text \<open>What a daily aggregate has to be, for the values of the day in any order.\<close>

definition is_aggregate :: "OnDeviceAggregationType \<Rightarrow> i64 list \<Rightarrow> i64 \<Rightarrow> bool" where
  "is_aggregate ty vs v \<longleftrightarrow> vs \<noteq> [] \<and>
     (case ty of
        SUM_TYPE \<Rightarrow> v = sum_list vs
      | MAX_TYPE \<Rightarrow> v \<in> set vs \<and> (\<forall>w \<in> set vs. w \<le>s v)
      | MIN_TYPE \<Rightarrow> v \<in> set vs \<and> (\<forall>w \<in> set vs. v \<le>s w)
      | UNKNOWN_AGGREGATION_TYPE \<Rightarrow> False)"

lemma GetUpdatedAggregate_first: "ty \<noteq> UNKNOWN_AGGREGATION_TYPE \<Longrightarrow> is_aggregate ty [v] v"
  by (cases ty) (simp_all add: is_aggregate_def)

lemma GetUpdatedAggregate_next:
  assumes "is_aggregate ty vs w"
  shows "\<exists>u. GetUpdatedAggregate ty (Some w) v = (kOK, u) \<and> is_aggregate ty (vs @ [v]) u"
proof (cases ty)
  case MAX_TYPE
  then show ?thesis using assms
    by (auto simp: GetUpdatedAggregate_def is_aggregate_def signed_max_def word_sle_eq word_sless_alt intro: order_trans)
next
  case MIN_TYPE
  then show ?thesis using assms
    by (auto simp: GetUpdatedAggregate_def is_aggregate_def signed_min_def word_sle_eq word_sless_alt intro: order_trans)
qed (use assms in \<open>auto simp: GetUpdatedAggregate_def is_aggregate_def\<close>)

type_synonym numeric_event = "string \<times> u64 \<times> u32 \<times> i64"

definition values_for :: "string \<Rightarrow> u64 \<Rightarrow> u32 \<Rightarrow> numeric_event list \<Rightarrow> i64 list" where
  "values_for k c d evs = map (\<lambda>(k, c, d, v). v) (filter (\<lambda>(k', c', d', v). k' = k \<and> c' = c \<and> d' = d) evs)"

definition log_numeric :: "u32 \<Rightarrow> u32 \<Rightarrow> u32 \<Rightarrow> u32 \<Rightarrow> numeric_event \<Rightarrow> 's AggregateStore \<Rightarrow> 's AggregateStore" where
  "log_numeric cid pid mid rid ev s = (case ev of (k, c, d, v) \<Rightarrow> snd (UpdateNumericAggregate cid pid mid rid k c d v s))"

lemma values_for_snoc:
  "values_for k c d (evs @ [(k', c', d', v)]) = values_for k c d evs @ (if k' = k \<and> c' = c \<and> d' = d then [v] else [])"
  by (simp add: values_for_def)

lemma log_numeric_cells:
  assumes "registered s cid pid mid rid key a" and "aggregates_type a = numeric_aggregates []"
    and ty: "ty = aggregation_type (config_report (aggregation_config a))" "ty \<noteq> UNKNOWN_AGGREGATION_TYPE"
  shows "\<exists>m. registered (fold (log_numeric cid pid mid rid) evs s) cid pid mid rid key (a\<lparr>aggregates_type := numeric_aggregates m\<rparr>) \<and>
    (\<forall>k c d. case numeric_cell m k c d of
       None \<Rightarrow> values_for k c d evs = []
     | Some x \<Rightarrow> \<exists>v. x = numeric_daily_aggregate v \<and> is_aggregate ty (values_for k c d evs) v)"
proof (induction evs rule: rev_induct)
  case Nil
  from assms(2) have "a\<lparr>aggregates_type := numeric_aggregates []\<rparr> = a" by simp
  with assms(1) show ?case by (intro exI [of _ "[]"]) (simp add: values_for_def)
next
  case (snoc ev evs)
  obtain k c d v where ev: "ev = (k, c, d, v)" by (metis prod.exhaust)
  obtain m where m: "registered (fold (log_numeric cid pid mid rid) evs s) cid pid mid rid key (a\<lparr>aggregates_type := numeric_aggregates m\<rparr>)"
    "\<And>k c d. case numeric_cell m k c d of None \<Rightarrow> values_for k c d evs = []
       | Some x \<Rightarrow> \<exists>v. x = numeric_daily_aggregate v \<and> is_aggregate ty (values_for k c d evs) v"
    using snoc.IH by blast
  have "\<exists>w. GetUpdatedAggregate ty (map_option (\<lambda>d. numeric_value (Some d)) (numeric_cell m k c d)) v = (kOK, w) \<and>
      is_aggregate ty (values_for k c d evs @ [v]) w"
  proof (cases "numeric_cell m k c d")
    case None
    with m(2) [of k c d] ty(2) show ?thesis by (simp add: GetUpdatedAggregate_def GetUpdatedAggregate_first)
  next
    case (Some x)
    with m(2) [of k c d] obtain v' where "x = numeric_daily_aggregate v'" "is_aggregate ty (values_for k c d evs) v'" by auto
    with Some GetUpdatedAggregate_next [of ty "values_for k c d evs" v' v] show ?thesis by (simp add: numeric_value_def)
  qed
  then obtain w where w: "GetUpdatedAggregate ty (map_option (\<lambda>d. numeric_value (Some d)) (numeric_cell m k c d)) v = (kOK, w)"
    "is_aggregate ty (values_for k c d evs @ [v]) w" by blast
  with UpdateNumericAggregate_registered [OF m(1), of m k c d v w] ty(1) obtain m' where
    m': "UpdateNumericAggregate cid pid mid rid k c d v (fold (log_numeric cid pid mid rid) evs s) =
      (kOK, set_aggregates key (numeric_aggregates m') (fold (log_numeric cid pid mid rid) evs s))"
    "\<And>k' c' d'. numeric_cell m' k' c' d' = (if k' = k \<and> c' = c \<and> d' = d then Some (numeric_daily_aggregate w) else numeric_cell m k' c' d')"
    by auto
  have "case numeric_cell m' k' c' d' of None \<Rightarrow> values_for k' c' d' (evs @ [ev]) = []
       | Some x \<Rightarrow> \<exists>v. x = numeric_daily_aggregate v \<and> is_aggregate ty (values_for k' c' d' (evs @ [ev])) v" for k' c' d'
    using m(2) [of k' c' d'] w(2) by (auto simp: m'(2) ev values_for_snoc split: option.splits)
  with registered_set_aggregates [OF m(1), of "numeric_aggregates m'"] show ?case
    by (intro exI [of _ m']) (simp add: ev log_numeric_def [of _ _ _ _ "(k, c, d, v)"] m'(1))
qed

section \<open>Garbage collection\<close>

text \<open>The cut-off below which a day is removed.\<close>

definition gc_keeps :: "u32 \<Rightarrow> u32 \<Rightarrow> u32 \<Rightarrow> u32 \<Rightarrow> bool" where
  "gc_keeps day n backfill d \<longleftrightarrow> \<not> d \<le> day - backfill - n"

lemma map_of_filter_key: "map_of (filter (\<lambda>(k, _). P k) m) k = (if P k then map_of m k else None)"
  by (induction m) auto

lemma map_of_keep_days: "map_of (keep_days day n b by_day) d = (if gc_keeps day n b d then map_of by_day d else None)"
  unfolding keep_days_def gc_keeps_def by (rule map_of_filter_key)

text \<open>Pruning the empty maps does not change what a lookup with default finds.\<close>

lemma map_get_prune:
  "distinct_keys m \<Longrightarrow> map_get [] (filter (\<lambda>(_, x). x \<noteq> []) (map (\<lambda>(k, x). (k, f x)) m)) k =
     (if map_of m k = None then [] else f (map_get [] m k))"
proof (induction m)
  case (Cons p m)
  obtain k' x where p: "p = (k', x)" by (cases p)
  have "map_of (filter (\<lambda>(_, x). x \<noteq> []) (map (\<lambda>(k, x). (k, f x)) m)) k' = None" if "map_of m k' = None"
    using that by (auto simp: map_of_eq_None_iff image_iff)
  moreover from Cons.prems have "map_of m k' = None" by (simp add: p map_of_eq_None_iff)
  moreover have "map_get [] (filter (\<lambda>(_, x). x \<noteq> []) (map (\<lambda>(k, x). (k, f x)) m)) k =
     (if map_of m k = None then [] else f (map_get [] m k))" using Cons by simp
  ultimately show ?case by (auto simp: p map_get_def split: option.splits if_splits)
qed simp

lemma keep_days_Nil [simp]: "keep_days day n b [] = []"
  by (simp add: keep_days_def)

lemma actives_cell_gc:
  assumes "distinct_keys m"
  shows "actives_cell (GarbageCollectUniqueActivesReportAggregates day n b m) c d =
    (if gc_keeps day n b d then actives_cell m c d else None)"
  using map_get_prune [OF assms, of "keep_days day n b" c]
  by (auto simp: actives_cell_def GarbageCollectUniqueActivesReportAggregates_def map_of_keep_days map_get_None)

lemma map_get_gc_event_codes:
  assumes "distinct_keys by_code"
  shows "map_get [] (gc_event_codes day n b by_code) c = keep_days day n b (map_get [] by_code c)"
  using map_get_prune [OF assms, of "keep_days day n b" c] by (auto simp: gc_event_codes_def map_get_None)

lemma gc_event_codes_Nil [simp]: "gc_event_codes day n b [] = []"
  by (simp add: gc_event_codes_def)

lemma numeric_cell_gc:
  assumes "distinct_keys m" and "distinct_keys (map_get [] m k)"
  shows "numeric_cell (GarbageCollectNumericReportAggregates day n b m) k c d =
    (if gc_keeps day n b d then numeric_cell m k c d else None)"
proof -
  have "map_get [] (GarbageCollectNumericReportAggregates day n b m) k = gc_event_codes day n b (map_get [] m k)"
    unfolding GarbageCollectNumericReportAggregates_def
    using map_get_prune [OF assms(1), of "gc_event_codes day n b" k] by (auto simp: map_get_None)
  then show ?thesis using map_get_gc_event_codes [OF assms(2), of day n b c]
    by (simp add: numeric_cell_def map_of_keep_days)
qed

text \<open>A day that belongs to a window of an observation day not before the backfill period survives.\<close>

lemma gc_keeps_window:
  assumes "check_day b day" and "n \<le> kMaxAllowedAggregationDays" and "0 < n'" and "n' \<le> n"
    and "unat day - b \<le> unat obs_day" and "unat obs_day - unat n' < unat d"
  shows "gc_keeps day n (of_nat b) d"
proof -
  have c: "365 + b \<le> unat day" using assms(1) by (simp add: check_day_def aggregate_consts)
  have n: "unat n \<le> 365" "unat n' \<le> unat n" using assms(2,4) by (simp_all add: aggregate_consts word_le_nat_alt)
  have "unat day < 2 ^ 32" using unsigned_less [of day] by simp
  then have ob: "unat (of_nat b :: u32) = b" using c by (simp add: unat_of_nat)
  then have 1: "unat (day - of_nat b) = unat day - b" using c by (subst unat_minus) (simp_all add: word_le_nat_alt)
  then have "unat (day - of_nat b - n) = unat day - b - unat n" using c n by (subst unat_minus) (simp_all add: word_le_nat_alt)
  with assms(5,6) n show ?thesis by (simp add: gc_keeps_def word_le_nat_alt)
qed

section \<open>Well-formed stores\<close>

text \<open>The windows of a registered report: hourly windows, then daily windows, each in increasing order and in range.\<close>

definition windows_ok :: "OnDeviceAggregationWindow list \<Rightarrow> bool" where
  "windows_ok ws \<longleftrightarrow> (\<exists>hs ds. ws = map kHours hs @ map kDays ds \<and> sorted hs \<and> sorted ds \<and>
     (\<forall>d \<in> set ds. 0 < d \<and> d \<le> kMaxAllowedAggregationDays) \<and> (\<forall>h \<in> set hs. 0 < h \<and> h \<le> kMaxAllowedAggregationHours))"

definition actives_ok :: "UniqueActivesReportAggregates \<Rightarrow> bool" where
  "actives_ok m \<longleftrightarrow> distinct_keys m \<and> (\<forall>x \<in> set m. distinct_keys (snd x))"

definition numeric_ok :: "PerDeviceNumericAggregates \<Rightarrow> bool" where
  "numeric_ok m \<longleftrightarrow> distinct_keys m \<and> (\<forall>x \<in> set m. distinct_keys (snd x) \<and> (\<forall>y \<in> set (snd x). distinct_keys (snd y)))"

definition report_ok :: "ReportAggregates \<Rightarrow> bool" where
  "report_ok a \<longleftrightarrow> windows_ok (config_aggregation_window (aggregation_config a)) \<and>
     (case aggregates_type a of
        unique_actives_aggregates m \<Rightarrow> report_type (config_report (aggregation_config a)) = UNIQUE_N_DAY_ACTIVES \<and> actives_ok m
      | numeric_aggregates m \<Rightarrow>
          report_type (config_report (aggregation_config a)) \<in> {PER_DEVICE_NUMERIC_STATS, PER_DEVICE_HISTOGRAM} \<and> numeric_ok m
      | AGGREGATES_NOT_SET \<Rightarrow> False)"

definition no_data :: "ReportAggregates \<Rightarrow> bool" where
  "no_data a \<longleftrightarrow> aggregates_type a \<in> {unique_actives_aggregates [], numeric_aggregates []}"

definition store_ok :: "LocalAggregateStore \<Rightarrow> bool" where
  "store_ok las \<longleftrightarrow> distinct_keys (by_report_key las) \<and> (\<forall>a \<in> snd ` set (by_report_key las). report_ok a)"

definition agg_inv :: "'s AggregateStore \<Rightarrow> bool" where
  "agg_inv s \<longleftrightarrow> store_ok (local_aggregate_store s) \<and> store_ok (empty_local_aggregate_store s) \<and>
     (\<forall>a \<in> snd ` set (by_report_key (empty_local_aggregate_store s)). no_data a) \<and>
     fst ` set (by_report_key (empty_local_aggregate_store s)) \<subseteq> fst ` set (by_report_key (local_aggregate_store s))"

subsection \<open>Updates of well-formed maps\<close>

lemma set_map_set: "set (map_set k v m) \<subseteq> insert (k, v) (set m)"
  by (induction m) auto

lemma values_map_set: "(\<forall>x \<in> set m. P (snd x)) \<Longrightarrow> P v \<Longrightarrow> \<forall>x \<in> set (map_set k v m). P (snd x)"
  using set_map_set [of k v m] by auto

lemma map_get_value: "(\<forall>x \<in> set m. P (snd x)) \<Longrightarrow> P d \<Longrightarrow> P (map_get d m k)"
  by (cases "map_of m k") (force simp: map_get_def dest: map_of_SomeD)+

lemma actives_ok_set:
  assumes "actives_ok m"
  shows "actives_ok (map_set code (map_set day v (map_get [] m code)) m)"
proof -
  have "distinct_keys (map_get [] m code)" by (rule map_get_value) (use assms in \<open>auto simp: actives_ok_def\<close>)
  then show ?thesis using assms unfolding actives_ok_def
    by (intro conjI values_map_set) (simp_all add: distinct_keys_map_set)
qed

lemma numeric_ok_set:
  assumes "numeric_ok m"
  shows "numeric_ok (map_set component (map_set code (map_set day v (map_get [] (map_get [] m component) code)) (map_get [] m component)) m)"
proof -
  let ?P = "\<lambda>by_code :: EventCodeAggregates. distinct_keys by_code \<and> (\<forall>y \<in> set by_code. distinct_keys (snd y))"
  have 1: "?P (map_get [] m component)"
    by (rule map_get_value [where P = ?P]) (use assms in \<open>auto simp: numeric_ok_def\<close>)
  then have "distinct_keys (map_get [] (map_get [] m component) code)"
    by (intro map_get_value [where P = distinct_keys]) simp_all
  then have "\<forall>y \<in> set (map_set code (map_set day v (map_get [] (map_get [] m component) code)) (map_get [] m component)). distinct_keys (snd y)"
    using 1 by (intro values_map_set [where P = distinct_keys]) (simp_all add: distinct_keys_map_set)
  with 1 have "?P (map_set code (map_set day v (map_get [] (map_get [] m component) code)) (map_get [] m component))"
    by (simp add: distinct_keys_map_set)
  then have "\<forall>x \<in> set (map_set component (map_set code (map_set day v (map_get [] (map_get [] m component) code)) (map_get [] m component)) m). ?P (snd x)"
    using assms by (intro values_map_set [where P = ?P]) (simp_all add: numeric_ok_def)
  with assms show ?thesis by (simp add: numeric_ok_def distinct_keys_map_set)
qed

lemma map_entry_values:
  "(\<forall>x \<in> set m. P (snd x)) \<Longrightarrow> (\<And>v. map_of m k = Some v \<Longrightarrow> P (f v)) \<Longrightarrow> \<forall>x \<in> set (AList.map_entry k f m). P (snd x)"
  by (induction m) (auto split: if_splits)

lemma set_aggregates_inv:
  assumes "agg_inv s" and "\<And>a. report_of s key = Some a \<Longrightarrow> report_ok (a\<lparr>aggregates_type := t\<rparr>)"
  shows "agg_inv (set_aggregates key t s)"
proof -
  let ?m = "by_report_key (local_aggregate_store s)"
  let ?m' = "AList.map_entry key (\<lambda>a. a\<lparr>aggregates_type := t\<rparr>) ?m"
  have "\<forall>x \<in> set ?m'. report_ok (snd x)"
    by (rule map_entry_values) (use assms in \<open>auto simp: agg_inv_def store_ok_def report_of_def\<close>)
  moreover have "distinct_keys ?m'" by (rule distinct_map_entry) (use assms(1) in \<open>simp add: agg_inv_def store_ok_def\<close>)
  ultimately show ?thesis using assms(1)
    by (auto simp: agg_inv_def store_ok_def set_aggregates_def dom_map_entry image_iff)
qed

lemma report_of_ok: "agg_inv s \<Longrightarrow> report_of s key = Some a \<Longrightarrow> report_ok a"
  by (force simp: agg_inv_def store_ok_def report_of_def dest: map_of_SomeD)

lemma SetActive_inv:
  assumes "agg_inv s"
  shows "agg_inv (snd (SetActive cid pid mid rid code day s))"
proof -
  have "report_ok (a\<lparr>aggregates_type := unique_actives_aggregates (map_set c (map_set day v (map_get [] m c)) m)\<rparr>)"
    if "report_of s key = Some a" "aggregates_type a = unique_actives_aggregates m" for a m key c v
    using report_of_ok [OF assms that(1)] that(2) by (simp add: report_ok_def actives_ok_set)
  then show ?thesis using assms
    by (auto simp: SetActive_def Let_def report_of_def intro!: set_aggregates_inv split: option.split AggregatesType.split)
qed

lemma UpdateNumericAggregate_inv:
  assumes "agg_inv s"
  shows "agg_inv (snd (UpdateNumericAggregate cid pid mid rid component code day v s))"
proof -
  have "report_ok (a\<lparr>aggregates_type := numeric_aggregates
      (map_set k (map_set c (map_set day w (map_get [] (map_get [] m k) c)) (map_get [] m k)) m)\<rparr>)"
    if "report_of s key = Some a" "aggregates_type a = numeric_aggregates m" for a m key k c w
    using report_of_ok [OF assms that(1)] that(2) by (simp add: report_ok_def numeric_ok_set)
  then show ?thesis using assms
    by (auto simp: UpdateNumericAggregate_def Let_def report_of_def intro!: set_aggregates_inv
        split: option.split AggregatesType.split prod.split)
qed

subsection \<open>Registration\<close>

lemma collect_window_sizes_range:
  "collect_window_sizes ws ds = Some ds' \<Longrightarrow> \<forall>d \<in> set ds. 0 < d \<and> d \<le> kMaxAllowedAggregationDays \<Longrightarrow>
   \<forall>d \<in> set ds'. 0 < d \<and> d \<le> kMaxAllowedAggregationDays"
  by (induction ws ds rule: collect_window_sizes.induct) (auto split: if_splits simp: word_neq_0_conv)

lemma collect_windows_range:
  assumes "collect_windows ws (ds, hs) = Some (ds', hs')"
    and "\<forall>d \<in> set ds. 0 < d \<and> d \<le> kMaxAllowedAggregationDays" and "\<forall>h \<in> set hs. 0 < h \<and> h \<le> kMaxAllowedAggregationHours"
  shows "(\<forall>d \<in> set ds'. 0 < d \<and> d \<le> kMaxAllowedAggregationDays) \<and> (\<forall>h \<in> set hs'. 0 < h \<and> h \<le> kMaxAllowedAggregationHours)"
  using assms
proof (induction ws arbitrary: ds hs)
  case (Cons w ws)
  show ?case
  proof (cases w)
    case (kHours n)
    with Cons.prems(1) have c: "collect_windows ws (ds, hs @ [n]) = Some (ds', hs')" "n \<noteq> 0" "\<not> n > kMaxAllowedAggregationHours"
      by (simp_all split: if_splits)
    show ?thesis by (rule Cons.IH [OF c(1)]) (use Cons.prems(2,3) c(2,3) in \<open>auto simp: word_neq_0_conv not_less\<close>)
  next
    case (kDays n)
    with Cons.prems(1) have c: "collect_windows ws (ds @ [n], hs) = Some (ds', hs')" "n \<noteq> 0" "\<not> n > kMaxAllowedAggregationDays"
      by (simp_all split: if_splits)
    show ?thesis by (rule Cons.IH [OF c(1)]) (use Cons.prems(2,3) c(2,3) in \<open>auto simp: word_neq_0_conv not_less\<close>)
  next
    case UNITS_NOT_SET
    with Cons.prems(1) have "collect_windows ws (ds, hs) = Some (ds', hs')" by simp
    from Cons.IH [OF this Cons.prems(2,3)] show ?thesis .
  qed
qed simp

lemma sorted_windows_ok:
  assumes "GetSortedAggregationWindowsFromReport report = Some ws"
  shows "windows_ok ws"
proof -
  obtain ds0 ds hs where c: "collect_window_sizes (window_size report) [] = Some ds0"
    "collect_windows (aggregation_window report) (ds0, []) = Some (ds, hs)"
    "ws = map MakeHourWindow (sort hs) @ map MakeDayWindow (sort ds)"
    using assms by (auto simp: GetSortedAggregationWindowsFromReport_def split: if_splits option.splits)
  have "\<forall>d \<in> set ds0. 0 < d \<and> d \<le> kMaxAllowedAggregationDays" using collect_window_sizes_range [OF c(1)] by simp
  moreover have "\<forall>h \<in> set ([] :: u32 list). 0 < h \<and> h \<le> kMaxAllowedAggregationHours" by simp
  ultimately have "(\<forall>d \<in> set ds. 0 < d \<and> d \<le> kMaxAllowedAggregationDays) \<and> (\<forall>h \<in> set hs. 0 < h \<and> h \<le> kMaxAllowedAggregationHours)"
    by (rule collect_windows_range [OF c(2)])
  then show ?thesis unfolding windows_ok_def c(3)
    by (intro exI [of _ "sort hs"] exI [of _ "sort ds"]) (simp add: MakeHourWindow_def MakeDayWindow_def)
qed

lemma PopulateReportAggregates_ok:
  "PopulateReportAggregates ctx metric report = Some (Some a) \<Longrightarrow> report_ok a \<and> no_data a"
  by (auto simp: PopulateReportAggregates_def report_ok_def no_data_def Let_def actives_ok_def numeric_ok_def sorted_windows_ok
      split: option.splits ReportType.splits)

lemma insert_missing_ok:
  assumes "insert_missing ctx metric report key las = Some (Some las')" and "store_ok las"
  shows "store_ok las'" and "fst ` set (by_report_key las') = insert key (fst ` set (by_report_key las))"
    and "(\<forall>x \<in> set (by_report_key las). no_data (snd x)) \<Longrightarrow> (\<forall>x \<in> set (by_report_key las'). no_data (snd x))"
proof -
  consider (new) a where "map_of (by_report_key las) key = None" "PopulateReportAggregates ctx metric report = Some (Some a)"
      "by_report_key las' = map_set key a (by_report_key las)"
    | (old) "map_of (by_report_key las) key \<noteq> None" "las' = las"
    using assms(1) by (fastforce simp: insert_missing_def split: if_splits option.splits)
  then have "store_ok las' \<and> fst ` set (by_report_key las') = insert key (fst ` set (by_report_key las)) \<and>
    ((\<forall>x \<in> set (by_report_key las). no_data (snd x)) \<longrightarrow> (\<forall>x \<in> set (by_report_key las'). no_data (snd x)))"
  proof cases
    case new
    have "fst ` set (map_set key a (by_report_key las)) = insert key (fst ` set (by_report_key las))" by (simp add: dom_update)
    moreover have "\<forall>x \<in> set (map_set key a (by_report_key las)). report_ok (snd x)"
      by (rule values_map_set) (use assms(2) PopulateReportAggregates_ok [OF new(2)] in \<open>auto simp: store_ok_def\<close>)
    moreover have "\<forall>x \<in> set (map_set key a (by_report_key las)). no_data (snd x)" if "\<forall>x \<in> set (by_report_key las). no_data (snd x)"
      by (rule values_map_set) (use that PopulateReportAggregates_ok [OF new(2)] in auto)
    moreover have "distinct_keys (map_set key a (by_report_key las))"
      using assms(2) by (simp add: store_ok_def distinct_keys_map_set)
    ultimately show ?thesis by (auto simp: store_ok_def new(3))
  next
    case old
    then have "key \<in> fst ` set (by_report_key las)" by (auto simp: map_of_eq_None_iff)
    with old assms(2) show ?thesis by (simp add: insert_absorb)
  qed
  then show "store_ok las'" "fst ` set (by_report_key las') = insert key (fst ` set (by_report_key las))"
    "(\<forall>x \<in> set (by_report_key las). no_data (snd x)) \<Longrightarrow> (\<forall>x \<in> set (by_report_key las'). no_data (snd x))"
    by blast+
qed

lemma MaybeInsertReportConfig_cases:
  assumes "MaybeInsertReportConfig ctx metric report s = Some (st, s')"
  obtains (refused) "s' = s" and "st \<noteq> kOK"
    | (half) key las where "insert_missing ctx metric report key (local_aggregate_store s) = Some (Some las)"
      and "s' = s\<lparr>local_aggregate_store := las\<rparr>" and "st \<noteq> kOK"
    | (inserted) key las las' where "PopulateReportKey s (project_customer_id (project ctx)) (project_project_id (project ctx))
        (metric_def_id metric) (report_def_id report) = Some key"
      and "insert_missing ctx metric report key (local_aggregate_store s) = Some (Some las)"
      and "insert_missing ctx metric report key (empty_local_aggregate_store s) = Some (Some las')"
      and "s' = s\<lparr>local_aggregate_store := las, empty_local_aggregate_store := las'\<rparr>" and "st = kOK"
proof (cases "PopulateReportKey s (project_customer_id (project ctx)) (project_project_id (project ctx))
    (metric_def_id metric) (report_def_id report)")
  case None
  with assms refused show ?thesis by (auto simp: MaybeInsertReportConfig_def)
next
  case (Some key)
  note r = assms [unfolded MaybeInsertReportConfig_def Some option.case]
  show ?thesis
  proof (cases "insert_missing ctx metric report key (local_aggregate_store s)")
    case A: (Some ra)
    show ?thesis
    proof (cases ra)
      case None
      with r A refused show ?thesis by auto
    next
      case las: (Some las)
      note r = r [unfolded A las option.case Let_def]
      show ?thesis
      proof (cases "insert_missing ctx metric report key (empty_local_aggregate_store s)")
        case B: (Some rb)
        show ?thesis
        proof (cases rb)
          case None
          with r B have "s' = s\<lparr>local_aggregate_store := las\<rparr>" "st \<noteq> kOK" by auto
          with half A las show ?thesis by simp
        next
          case las': (Some las')
          with r B have "s' = s\<lparr>local_aggregate_store := las, empty_local_aggregate_store := las'\<rparr>" "st = kOK" by simp_all
          with inserted Some A las B las' show ?thesis by simp
        qed
      qed (use r in simp)
    qed
  qed (use r in simp)
qed

lemma MaybeInsertReportConfig_inv:
  assumes "agg_inv s" and "MaybeInsertReportConfig ctx metric report s = Some (st, s')"
  shows "agg_inv s'"
  using assms(2)
proof (cases rule: MaybeInsertReportConfig_cases)
  case (half key las)
  have "store_ok (local_aggregate_store s)" using assms(1) by (simp add: agg_inv_def)
  note i = insert_missing_ok [OF half(1) this]
  show ?thesis using assms(1) i(1,2) by (auto simp: agg_inv_def half(2))
next
  case (inserted key las las')
  have "store_ok (local_aggregate_store s)" "store_ok (empty_local_aggregate_store s)" using assms(1) by (simp_all add: agg_inv_def)
  note i = insert_missing_ok [OF inserted(2) this(1)] insert_missing_ok [OF inserted(3) this(2)]
  show ?thesis using assms(1) i(1,2,4,5,6) by (auto simp: agg_inv_def inserted(4))
qed (use assms(1) in simp)

lemma distinct_keys_filter: "distinct_keys m \<Longrightarrow> distinct_keys (filter P m)"
  by (rule distinct_map_filter)

lemma fst_image_map_values [simp]: "fst ` (\<lambda>(k, x). (k, f x)) ` A = fst ` A"
  by (force simp: image_iff)

lemma fst_map_values [simp]: "fst \<circ> (\<lambda>(k, x). (k, f x)) = fst"
  by auto

lemma prune_ok:
  assumes "distinct_keys m" and "\<And>x. x \<in> set m \<Longrightarrow> P (f (snd x))"
  shows "distinct_keys (filter Q (map (\<lambda>(k, x). (k, f x)) m))"
    and "\<forall>x \<in> set (filter Q (map (\<lambda>(k, x). (k, f x)) m)). P (snd x)"
proof -
  have "distinct_keys (map (\<lambda>(k, x). (k, f x)) m)" using assms(1) by simp
  then show "distinct_keys (filter Q (map (\<lambda>(k, x). (k, f x)) m))" by (rule distinct_keys_filter)
  show "\<forall>x \<in> set (filter Q (map (\<lambda>(k, x). (k, f x)) m)). P (snd x)" using assms(2) by auto
qed

lemma keep_days_distinct: "distinct_keys m \<Longrightarrow> distinct_keys (keep_days day n c m)"
  by (simp add: keep_days_def distinct_keys_filter)

lemma gc_actives_ok: "actives_ok m \<Longrightarrow> actives_ok (GarbageCollectUniqueActivesReportAggregates day n c m)"
  unfolding actives_ok_def GarbageCollectUniqueActivesReportAggregates_def
  by (intro conjI prune_ok [where P = distinct_keys]) (auto simp: keep_days_distinct)

lemma gc_event_codes_ok:
  "distinct_keys m \<Longrightarrow> \<forall>x \<in> set m. distinct_keys (snd x) \<Longrightarrow>
   distinct_keys (gc_event_codes day n c m) \<and> (\<forall>x \<in> set (gc_event_codes day n c m). distinct_keys (snd x))"
  unfolding gc_event_codes_def by (intro conjI prune_ok [where P = distinct_keys]) (auto simp: keep_days_distinct)

lemma gc_numeric_ok: "numeric_ok m \<Longrightarrow> numeric_ok (GarbageCollectNumericReportAggregates day n c m)"
  unfolding numeric_ok_def GarbageCollectNumericReportAggregates_def
  by (intro conjI prune_ok [where P = "\<lambda>m. distinct_keys m \<and> (\<forall>x \<in> set m. distinct_keys (snd x))"])
    (use gc_event_codes_ok in blast)+

lemma gc_report_ok: "report_ok a \<Longrightarrow> report_ok (gc_report b u l a)"
  by (auto simp: gc_report_def Let_def report_ok_def gc_actives_ok gc_numeric_ok split: option.split AggregatesType.splits)

lemma GarbageCollect_inv:
  assumes "agg_inv s" and "GarbageCollect u l s = Some (st, s')"
  shows "agg_inv s'"
proof -
  have "s' = s\<lparr>local_aggregate_store := (local_aggregate_store s)\<lparr>by_report_key :=
      map (\<lambda>(key, a). (key, gc_report (backfill_days s) u (if l = 0 then u else l) a)) (by_report_key (local_aggregate_store s))\<rparr>\<rparr>"
    using assms(2) by (auto simp: GarbageCollect_def Let_def split: if_splits)
  then show ?thesis using assms(1)
    by (auto simp: agg_inv_def store_ok_def gc_report_ok simp flip: image_image)
qed

lemma DeleteData_inv: "agg_inv s \<Longrightarrow> agg_inv (AggregateStore_DeleteData s)"
  by (simp add: agg_inv_def AggregateStore_DeleteData_def)

lemma Disable_inv: "agg_inv s \<Longrightarrow> agg_inv (AggregateStore_Disable b s)"
  by (simp add: agg_inv_def AggregateStore_Disable_def)

text \<open>The daily aggregate of a report of either kind.\<close>

definition report_cell :: "ReportAggregates \<Rightarrow> string \<Rightarrow> u64 \<Rightarrow> u32 \<Rightarrow> DailyAggregate option" where
  "report_cell a component code day =
     (case aggregates_type a of
        unique_actives_aggregates m \<Rightarrow> actives_cell m (ucast code) day
      | numeric_aggregates m \<Rightarrow> numeric_cell m component code day
      | AGGREGATES_NOT_SET \<Rightarrow> None)"

lemma windows_ok_max:
  assumes "windows_ok ws" and "kDays n \<in> set ws"
  shows "n \<le> max_aggregation_days_of ws" and "max_aggregation_days_of ws \<le> kMaxAllowedAggregationDays" and "0 < n"
proof -
  obtain hs ds where w: "ws = map kHours hs @ map kDays ds" "sorted ds" "\<forall>d \<in> set ds. 0 < d \<and> d \<le> kMaxAllowedAggregationDays"
    using assms(1) by (auto simp: windows_ok_def)
  with assms(2) have n: "n \<in> set ds" by auto
  then have ne: "ds \<noteq> []" by auto
  then have l: "max_aggregation_days_of ws = last ds" by (simp add: w(1) max_aggregation_days_of_def last_map)
  obtain i where "i < length ds" "ds ! i = n" using n by (auto simp: in_set_conv_nth)
  with w(2) l ne show "n \<le> max_aggregation_days_of ws" by (auto simp: last_conv_nth intro: sorted_nth_mono)
  show "max_aggregation_days_of ws \<le> kMaxAllowedAggregationDays" "0 < n" using w(3) l ne n by auto
qed

lemma gc_report_cell:
  assumes "report_ok a" and "policy_day (time_zone_policy (config_metric (aggregation_config a))) u l = Some day"
    and "config_aggregation_window (aggregation_config a) \<noteq> []"
    and "n = max_aggregation_days_of (config_aggregation_window (aggregation_config a))" and "0 < n" and "n \<le> day"
  shows "report_cell (gc_report b u l a) k c d = (if gc_keeps day n (of_nat b) d then report_cell a k c d else None)"
proof -
  have n: "n \<noteq> 0" "\<not> day < n" using assms(5,6) by auto
  note d = gc_report_def Let_def report_cell_def assms(2) assms(3) assms(4) [symmetric] n
  show ?thesis
  proof (cases "aggregates_type a")
  case (numeric_aggregates m)
  then have "distinct_keys m" "distinct_keys (map_get [] m k)"
    using assms(1) map_get_value [where P = distinct_keys and m = m and d = "[]" and k = k] by (auto simp: report_ok_def numeric_ok_def)
  with numeric_aggregates show ?thesis by (simp add: d numeric_cell_gc)
  qed (use assms(1) in \<open>simp_all add: d report_ok_def actives_ok_def actives_cell_gc\<close>)
qed

lemma gc_report_config [simp]: "aggregation_config (gc_report b u l a) = aggregation_config a"
  by (simp add: gc_report_def Let_def split: option.split AggregatesType.split)

lemma map_of_map_values: "map_of (map (\<lambda>(k, x). (k, f x)) m) k = map_option f (map_of m k)"
  by (induction m) auto

lemma GarbageCollect_report:
  assumes "GarbageCollect u l s = Some (st, s')" and "report_of s key = Some a"
  shows "st = kOK" and "report_of s' key = Some (gc_report (backfill_days s) u (if l = 0 then u else l) a)"
    and "check_day (backfill_days s) u" and "check_day (backfill_days s) (if l = 0 then u else l)"
  using assms by (auto simp: GarbageCollect_def Let_def report_of_def map_of_map_values split: if_splits)

lemma unat_gc_cutoff:
  assumes "check_day b day" and "unat n \<le> 365"
  shows "unat (day - of_nat b - n) = unat day - b - unat n"
proof -
  have c: "365 + b \<le> unat day" using assms(1) by (simp add: check_day_def aggregate_consts)
  have "unat day < 2 ^ 32" using unsigned_less [of day] by simp
  then have ob: "unat (of_nat b :: u32) = b" using c by (simp add: unat_of_nat)
  then have "unat (day - of_nat b) = unat day - b" using c by (subst unat_minus) (simp_all add: word_le_nat_alt)
  then show ?thesis using c assms(2) by (subst unat_minus) (simp_all add: word_le_nat_alt)
qed

section \<open>Properties\<close>

text \<open>C8. After any sequence of numeric events for a registered report, the daily aggregate of every component, event
  code and day is the sum (modulo \<open>2^64\<close>), the maximum or the minimum of the values logged for it, as the report's
  aggregation type says, and there is none where nothing was logged.\<close>

theorem daily_value_is_aggregate:
  assumes "registered s cid pid mid rid key a" and "aggregates_type a = numeric_aggregates []"
    and "aggregation_type (config_report (aggregation_config a)) \<noteq> UNKNOWN_AGGREGATION_TYPE"
  shows "\<exists>a'. report_of (fold (log_numeric cid pid mid rid) evs s) key = Some a' \<and> aggregation_config a' = aggregation_config a \<and>
    (\<forall>k c d. if values_for k c d evs = [] then report_cell a' k c d = None
             else \<exists>v. report_cell a' k c d = Some (numeric_daily_aggregate v) \<and>
                    is_aggregate (aggregation_type (config_report (aggregation_config a))) (values_for k c d evs) v)"
proof -
  let ?ty = "aggregation_type (config_report (aggregation_config a))"
  obtain m where m: "registered (fold (log_numeric cid pid mid rid) evs s) cid pid mid rid key (a\<lparr>aggregates_type := numeric_aggregates m\<rparr>)"
    "\<And>k c d. case numeric_cell m k c d of None \<Rightarrow> values_for k c d evs = []
       | Some x \<Rightarrow> \<exists>v. x = numeric_daily_aggregate v \<and> is_aggregate ?ty (values_for k c d evs) v"
    using log_numeric_cells [OF assms(1,2) refl assms(3), of evs] by blast
  have "if values_for k c d evs = [] then numeric_cell m k c d = None
    else \<exists>v. numeric_cell m k c d = Some (numeric_daily_aggregate v) \<and> is_aggregate ?ty (values_for k c d evs) v" for k c d
    using m(2) [of k c d] by (cases "numeric_cell m k c d") (auto simp: is_aggregate_def)
  with m(1) show ?thesis by (intro exI [of _ "a\<lparr>aggregates_type := numeric_aggregates m\<rparr>"]) (simp add: registered_def report_cell_def)
qed


text \<open>C9. Garbage collection removes the daily aggregates that no observation can need any more and no others: of a
  registered report with a daily window, exactly the cells of days up to
  \<open>day - backfill_days - (largest window)\<close> disappear; in particular every day of each window that ends on a day of
  the backfill period or later keeps its aggregate. The configuration of the report is kept.\<close>

theorem GarbageCollect_spec:
  assumes "agg_inv s" and "GarbageCollect u l s = Some (st, s')" and "report_of s key = Some a"
    and "policy_day (time_zone_policy (config_metric (aggregation_config a))) u (if l = 0 then u else l) = Some day"
    and "kDays n \<in> set (config_aggregation_window (aggregation_config a))"
  shows "st = kOK \<and> (\<exists>a'. report_of s' key = Some a' \<and> aggregation_config a' = aggregation_config a \<and>
    (\<forall>k c d. report_cell a' k c d =
       (if unat d \<le> unat day - backfill_days s - unat (max_aggregation_days_of (config_aggregation_window (aggregation_config a)))
        then None else report_cell a k c d)) \<and>
    (\<forall>obs_day k c d. unat day - backfill_days s \<le> unat obs_day \<and> unat obs_day - unat n < unat d \<longrightarrow>
       report_cell a' k c d = report_cell a k c d))"
proof -
  let ?ws = "config_aggregation_window (aggregation_config a)" and ?b = "backfill_days s" and ?l = "if l = 0 then u else l"
  define m where "m = max_aggregation_days_of ?ws"
  note g = GarbageCollect_report [OF assms(2,3)]
  have ok: "report_ok a" by (rule report_of_ok [OF assms(1,3)])
  then have w: "n \<le> m" "m \<le> kMaxAllowedAggregationDays" "0 < n"
    using windows_ok_max [OF _ assms(5)] by (simp_all add: m_def report_ok_def)
  have day: "check_day ?b day" using g(3,4) assms(4)
    by (cases "time_zone_policy (config_metric (aggregation_config a))") (auto simp: policy_day_def split: if_splits)
  have m0: "0 < m" using w(3,1) by (rule less_le_trans)
  have m: "m \<le> day" "unat m \<le> 365"
    using w(2) day by (auto simp: check_day_def aggregate_consts word_le_nat_alt)
  have keeps: "gc_keeps day m (of_nat ?b) d \<longleftrightarrow> \<not> unat d \<le> unat day - ?b - unat m" for d
    using unat_gc_cutoff [OF day m(2)] by (simp add: gc_keeps_def word_le_nat_alt)
  have ne: "?ws \<noteq> []" using assms(5) by auto
  let ?a = "gc_report ?b u ?l a"
  have cell: "report_cell ?a k c d = (if unat d \<le> unat day - ?b - unat m then None else report_cell a k c d)" for k c d
    using gc_report_cell [OF ok assms(4) ne m_def m0 m(1)] by (simp add: keeps)
  moreover have "report_cell ?a k c d = report_cell a k c d"
    if "unat day - ?b \<le> unat obs_day" "unat obs_day - unat n < unat d" for obs_day k c d
  proof -
    have "\<not> unat d \<le> unat day - ?b - unat m" using that w(1) by (simp add: word_le_nat_alt)
    then show ?thesis by (simp add: cell)
  qed
  moreover note g(1,2)
  ultimately show ?thesis unfolding m_def by (intro conjI exI [of _ ?a] allI impI) (blast | simp)+
qed



subsection \<open>An example store\<close>

definition example_writer :: "(Observation2 StoredObservation \<times> ObservationMetadata) list ObservationWriter" where
  "example_writer =
     \<lparr>store_observation = (\<lambda>ob md obs. (kOk, obs @ [(ob, md)])), notify_observations_added = (\<lambda>obs. obs), observation_encrypter = None\<rparr>"

definition example_SerializeKey :: "ReportAggregationKey \<Rightarrow> string option" where
  "example_SerializeKey k =
     Some (map (\<lambda>x. char_of (unat x)) [key_customer_id k, key_project_id k, key_metric_id k, key_report_id k])"

definition example_aggregates :: "ReportType \<Rightarrow> AggregatesType \<Rightarrow> ReportAggregates" where
  "example_aggregates ty t =
     \<lparr>aggregates_type = t,
      aggregation_config = \<lparr>config_project = PopulateProject 1 2 ''c'' ''p'', config_metric = example_metric,
        config_report = example_report\<lparr>report_type := ty\<rparr>, config_window_size = [], config_aggregation_window = [kDays 1, kDays 7]\<rparr>\<rparr>"

definition example_store ::
    "ReportAggregates \<Rightarrow> (Observation2 StoredObservation \<times> ObservationMetadata) list AggregateStore" where
  "example_store a =
     \<lparr>agg_encoder = example_encoder, agg_writer = example_writer, SerializeKey = example_SerializeKey, backfill_days = 2,
      agg_disabled = False, local_aggregate_store = \<lparr>store_version = 1, by_report_key = [(map char_of [1, 2, 3, 4 :: nat], a)]\<rparr>,
      empty_local_aggregate_store = \<lparr>store_version = 1, by_report_key = []\<rparr>,
      obs_history = MakeNewObservationHistoryStore 0, random = (\<lambda>i. 0), observations = []\<rparr>"

definition example_counts :: ReportAggregates where
  "example_counts = example_aggregates PER_DEVICE_NUMERIC_STATS (numeric_aggregates [])"

lemma example_store_registered:
  "registered (example_store a) 1 2 3 4 (map char_of [1, 2, 3, 4 :: nat]) a"
  by (simp add: registered_def example_store_def PopulateReportKey_def example_SerializeKey_def report_of_def)

lemma example_windows_ok: "windows_ok [kDays 1, kDays 7]"
  unfolding windows_ok_def by (rule exI [of _ "[]"], rule exI [of _ "[1, 7]"]) (simp add: aggregate_consts)

lemma example_store_inv: "report_ok a \<Longrightarrow> agg_inv (example_store a)"
  by (simp add: agg_inv_def store_ok_def example_store_def)

theorem daily_value_is_aggregate_witness:
  "\<exists>a'. report_of (fold (log_numeric 1 2 3 4) [(''x'', 0, 18000, 5), (''x'', 1, 18000, 7), (''x'', 0, 18000, 6)] (example_store example_counts))
      (map char_of [1, 2, 3, 4 :: nat]) = Some a' \<and>
     report_cell a' ''x'' 0 18000 = Some (numeric_daily_aggregate 11) \<and> report_cell a' ''x'' 0 18001 = None"
proof -
  have a: "aggregates_type example_counts = numeric_aggregates []"
    "aggregation_type (config_report (aggregation_config example_counts)) = SUM_TYPE"
    by (simp_all add: example_counts_def example_aggregates_def example_report_def)
  let ?evs = "[(''x'', 0, 18000, 5), (''x'', 1, 18000, 7), (''x'', 0, 18000, 6)] :: numeric_event list"
  obtain a' where a': "report_of (fold (log_numeric 1 2 3 4) ?evs (example_store example_counts)) (map char_of [1, 2, 3, 4 :: nat]) = Some a'"
    "\<And>k c d. if values_for k c d ?evs = [] then report_cell a' k c d = None
             else \<exists>v. report_cell a' k c d = Some (numeric_daily_aggregate v) \<and> is_aggregate SUM_TYPE (values_for k c d ?evs) v"
    using daily_value_is_aggregate [OF example_store_registered a(1), of ?evs, unfolded a(2)] by blast
  from a'(2) [of "''x''" 0 18000] a'(2) [of "''x''" 0 18001] a'(1) show ?thesis
    by (simp add: values_for_def is_aggregate_def)
qed

theorem GarbageCollect_spec_witness:
  "\<exists>s' a'. GarbageCollect 18000 0 (example_store (example_aggregates UNIQUE_N_DAY_ACTIVES
       (unique_actives_aggregates [(0, [(17000, activity_daily_aggregate True), (17999, activity_daily_aggregate True)])]))) = Some (kOK, s') \<and>
     report_of s' (map char_of [1, 2, 3, 4 :: nat]) = Some a' \<and> report_cell a' [] 0 17000 = None \<and>
     report_cell a' [] 0 17999 = Some (activity_daily_aggregate True)"
proof -
  define a where "a = example_aggregates UNIQUE_N_DAY_ACTIVES
    (unique_actives_aggregates [(0, [(17000, activity_daily_aggregate True), (17999, activity_daily_aggregate True)])])"
  have ok: "report_ok a"
    by (simp add: a_def report_ok_def example_aggregates_def example_report_def actives_ok_def example_windows_ok)
  have r: "report_of (example_store a) (map char_of [1, 2, 3, 4 :: nat]) = Some a" by (simp add: report_of_def example_store_def)
  have w: "kDays 7 \<in> set (config_aggregation_window (aggregation_config a))" "backfill_days (example_store a) = 2"
    "max_aggregation_days_of (config_aggregation_window (aggregation_config a)) = 7"
    by (simp_all add: a_def example_aggregates_def example_store_def max_aggregation_days_of_def)
  have p: "policy_day (time_zone_policy (config_metric (aggregation_config a))) 18000 (if (0 :: u32) = 0 then 18000 else 0) = Some 18000"
    by (simp add: a_def example_aggregates_def example_metric_def policy_day_def)
  obtain s' where s': "GarbageCollect 18000 0 (example_store a) = Some (kOK, s')"
    by (simp add: GarbageCollect_def check_day_def aggregate_consts example_store_def)
  obtain a' where a': "report_of s' (map char_of [1, 2, 3, 4 :: nat]) = Some a'"
    "\<And>k c d. report_cell a' k c d = (if unat d \<le> unat (18000 :: u32) - 2 - unat (7 :: u32) then None else report_cell a k c d)"
    using GarbageCollect_spec [OF example_store_inv [OF ok] s' r p w(1)] unfolding w(2,3) by blast
  have "report_cell a' [] 0 17000 = None" "report_cell a' [] 0 17999 = Some (activity_daily_aggregate True)"
    unfolding a'(2) by (simp_all add: a_def example_aggregates_def report_cell_def actives_cell_def map_get_def)
  with s' a'(1) show ?thesis unfolding a_def by blast
qed


end
