(* ===== verification/Aggregate_Generation.thy ===== *)
theory Aggregate_Generation
  imports Aggregate_Store
begin

text \<open>
  Generation of observations from the local aggregates: \<open>AggregateStore::GenerateObservations\<close> and its helpers
  (\<^verbatim>\<open>src/src/local_aggregation/aggregate_store.cc\<close>). The loops over event codes, windows, days and components are
  nested \<open>for_each\<close> loops, which return as soon as a step reports an error. A loop
  \<open>for (d = first; d <= last; d++)\<close> over day indices is a loop over \<open>day_range first last\<close>; the \<open>CHECK\<close>s exclude
  the last index \<open>UINT32_MAX\<close>, for which the loop would not end. The packed event code of a numeric aggregate has 64 bits;
  the parameters of the functions it is passed to have 32, so it is truncated there. The \<open>CHECK_GT\<close> of the two generating
  functions follows from the \<open>CHECK\<close>s of \<open>GenerateObservations\<close>, their only caller.
\<close>

section \<open>Days and windows\<close>

definition day_range :: "u32 \<Rightarrow> u32 \<Rightarrow> u32 list" where
  "day_range first_day last_day = map of_nat [unat first_day..<Suc (unat last_day)]"

definition active_indicator :: "DailyAggregate \<Rightarrow> bool" where
  "active_indicator d = (case d of activity_daily_aggregate b \<Rightarrow> b | _ \<Rightarrow> False)"

fun first_active :: "DailyAggregates \<Rightarrow> u32 list \<Rightarrow> u32" where
  "first_active by_day [] = 0"
| "first_active by_day (d # ds) =
     (case map_of by_day d of
        Some a \<Rightarrow> if active_indicator a then d else first_active by_day ds
      | None \<Rightarrow> first_active by_day ds)"

definition FirstActiveDayIndexInWindow :: "DailyAggregates \<Rightarrow> u32 \<Rightarrow> u32 \<Rightarrow> u32" where
  "FirstActiveDayIndexInWindow by_day obs_day aggregation_days =
     first_active by_day (day_range (obs_day - aggregation_days + 1) obs_day)"

definition IsActivityInWindow :: "u32 \<Rightarrow> u32 \<Rightarrow> u32 \<Rightarrow> bool" where
  "IsActivityInWindow active_day obs_day aggregation_days \<longleftrightarrow>
     active_day \<le> obs_day \<and> active_day > obs_day - aggregation_days"

section \<open>The history of generated observations\<close>

definition unique_actives_history_of :: "AggregatedObservationHistory \<Rightarrow> (u32 \<times> HistoryByWindowSize) list" where
  "unique_actives_history_of h = (case history_type h of unique_actives_history m \<Rightarrow> m | _ \<Rightarrow> [])"

definition numeric_history_of :: "AggregatedObservationHistory \<Rightarrow> (string \<times> (u64 \<times> HistoryByWindowSize) list) list" where
  "numeric_history_of h = (case history_type h of per_device_numeric_history m \<Rightarrow> m | _ \<Rightarrow> [])"

definition GetUniqueActivesLastGeneratedDayIndex :: "string \<Rightarrow> u32 \<Rightarrow> u32 \<Rightarrow> AggregatedObservationHistoryStore \<Rightarrow> u32" where
  "GetUniqueActivesLastGeneratedDayIndex key event_code aggregation_days h =
     (case map_of (history_by_report_key h) key of
        None \<Rightarrow> 0
      | Some rh \<Rightarrow>
          (case map_of (unique_actives_history_of rh) event_code of
             None \<Rightarrow> 0
           | Some wh \<Rightarrow> (case map_of wh aggregation_days of None \<Rightarrow> 0 | Some d \<Rightarrow> d)))"

definition SetUniqueActivesLastGeneratedDayIndex ::
    "string \<Rightarrow> u32 \<Rightarrow> u32 \<Rightarrow> u32 \<Rightarrow> AggregatedObservationHistoryStore \<Rightarrow> AggregatedObservationHistoryStore" where
  "SetUniqueActivesLastGeneratedDayIndex key event_code aggregation_days day h =
     (let rh = map_get default_history (history_by_report_key h) key;
          m = unique_actives_history_of rh;
          wh = map_set aggregation_days day (map_get [] m event_code)
      in h\<lparr>history_by_report_key := map_set key
             (rh\<lparr>history_type := unique_actives_history (map_set event_code wh m)\<rparr>) (history_by_report_key h)\<rparr>)"

definition GetPerDeviceNumericLastGeneratedDayIndex ::
    "string \<Rightarrow> string \<Rightarrow> u32 \<Rightarrow> u32 \<Rightarrow> AggregatedObservationHistoryStore \<Rightarrow> u32" where
  "GetPerDeviceNumericLastGeneratedDayIndex key component event_code aggregation_days h =
     (case map_of (history_by_report_key h) key of
        None \<Rightarrow> 0
      | Some rh \<Rightarrow>
          (case map_of (numeric_history_of rh) component of
             None \<Rightarrow> 0
           | Some ch \<Rightarrow>
               (case map_of ch (ucast event_code) of
                  None \<Rightarrow> 0
                | Some wh \<Rightarrow> (case map_of wh aggregation_days of None \<Rightarrow> 0 | Some d \<Rightarrow> d))))"

definition SetPerDeviceNumericLastGeneratedDayIndex ::
    "string \<Rightarrow> string \<Rightarrow> u32 \<Rightarrow> u32 \<Rightarrow> u32 \<Rightarrow> AggregatedObservationHistoryStore \<Rightarrow> AggregatedObservationHistoryStore" where
  "SetPerDeviceNumericLastGeneratedDayIndex key component event_code aggregation_days day h =
     (let rh = map_get default_history (history_by_report_key h) key;
          m = numeric_history_of rh;
          ch = map_get [] m component;
          wh = map_set aggregation_days day (map_get [] ch (ucast event_code))
      in h\<lparr>history_by_report_key := map_set key
             (rh\<lparr>history_type := per_device_numeric_history (map_set component (map_set (ucast event_code) wh ch) m)\<rparr>)
             (history_by_report_key h)\<rparr>)"

definition GetReportParticipationLastGeneratedDayIndex :: "string \<Rightarrow> AggregatedObservationHistoryStore \<Rightarrow> u32" where
  "GetReportParticipationLastGeneratedDayIndex key h =
     (case map_of (history_by_report_key h) key of None \<Rightarrow> 0 | Some rh \<Rightarrow> last_generated rh)"

definition SetReportParticipationLastGeneratedDayIndex ::
    "string \<Rightarrow> u32 \<Rightarrow> AggregatedObservationHistoryStore \<Rightarrow> AggregatedObservationHistoryStore" where
  "SetReportParticipationLastGeneratedDayIndex key day h =
     h\<lparr>history_by_report_key := map_set key
         ((map_get default_history (history_by_report_key h) key)\<lparr>last_generated := day\<rparr>) (history_by_report_key h)\<rparr>"

section \<open>Single observations\<close>

text \<open>What every \<open>GenerateSingle...\<close> method does with the result of the encoder.\<close>

definition write_result :: "Result \<times> Random \<Rightarrow> 's AggregateStore \<Rightarrow> Status \<times> 's AggregateStore" where
  "write_result res s =
     (let (res, r) = res; s = s\<lparr>random := r\<rparr>
      in if status res \<noteq> kOK then (status res, s)
         else case (result_observation res, result_metadata res) of
                (Some ob, Some md) \<Rightarrow>
                  (case WriteObservation (agg_writer s) ob md (observations s) of
                     (st, obs) \<Rightarrow> (st, s\<lparr>observations := obs\<rparr>))
              | _ \<Rightarrow> (kOther, s))"

definition GenerateSingleUniqueActivesObservation ::
    "MetricRef \<Rightarrow> ReportDefinition \<Rightarrow> u32 \<Rightarrow> u32 \<Rightarrow> OnDeviceAggregationWindow \<Rightarrow> bool \<Rightarrow> 's AggregateStore \<Rightarrow> Status \<times> 's AggregateStore" where
  "GenerateSingleUniqueActivesObservation metric report obs_day event_code window was_active s =
     write_result (EncodeUniqueActivesObservation (agg_encoder s) metric report obs_day event_code was_active window (random s)) s"

definition UnpackEventCodesProto :: "u64 \<Rightarrow> u32 list" where
  "UnpackEventCodesProto packed = UnpackEventCodes packed"

definition GenerateSinglePerDeviceNumericObservation ::
    "MetricRef \<Rightarrow> ReportDefinition \<Rightarrow> u32 \<Rightarrow> string \<Rightarrow> u32 \<Rightarrow> OnDeviceAggregationWindow \<Rightarrow> i64 \<Rightarrow> 's AggregateStore \<Rightarrow> Status \<times> 's AggregateStore" where
  "GenerateSinglePerDeviceNumericObservation metric report obs_day component event_code window v s =
     write_result (EncodePerDeviceNumericObservation (agg_encoder s) metric report obs_day component
       (UnpackEventCodesProto (ucast event_code)) v window (random s)) s"

definition GenerateSinglePerDeviceHistogramObservation ::
    "MetricRef \<Rightarrow> ReportDefinition \<Rightarrow> u32 \<Rightarrow> string \<Rightarrow> u32 \<Rightarrow> OnDeviceAggregationWindow \<Rightarrow> i64 \<Rightarrow> 's AggregateStore \<Rightarrow> Status \<times> 's AggregateStore" where
  "GenerateSinglePerDeviceHistogramObservation metric report obs_day component event_code window v s =
     write_result (EncodePerDeviceHistogramObservation (agg_encoder s) metric report obs_day component
       (UnpackEventCodesProto (ucast event_code)) v window (random s)) s"

definition GenerateSingleReportParticipationObservation ::
    "MetricRef \<Rightarrow> ReportDefinition \<Rightarrow> u32 \<Rightarrow> 's AggregateStore \<Rightarrow> Status \<times> 's AggregateStore" where
  "GenerateSingleReportParticipationObservation metric report obs_day s =
     write_result (EncodeReportParticipationObservation (agg_encoder s) metric report obs_day (random s)) s"

section \<open>Unique actives\<close>

definition first_day_to_generate :: "u32 \<Rightarrow> u32 \<Rightarrow> u32" where
  "first_day_to_generate last_gen backfill_period_start = max (last_gen + 1) backfill_period_start"

text \<open>The body of the loop over days; the local variable \<open>active_day_index\<close> is kept beside the store.\<close>

definition unique_actives_day ::
    "MetricRef \<Rightarrow> ReportDefinition \<Rightarrow> string \<Rightarrow> DailyAggregates option \<Rightarrow> u32 \<Rightarrow> OnDeviceAggregationWindow \<Rightarrow> u32 \<Rightarrow>
     u32 \<times> 's AggregateStore \<Rightarrow> Status \<times> u32 \<times> 's AggregateStore" where
  "unique_actives_day metric report key daily event_code window obs_day st =
     (let (active_day, s) = st;
          n = days window;
          (was_active, active_day) =
            (case daily of
               None \<Rightarrow> (False, active_day)
             | Some by_day \<Rightarrow>
                 if IsActivityInWindow active_day obs_day n then (True, active_day)
                 else let active_day = FirstActiveDayIndexInWindow by_day obs_day n
                      in (IsActivityInWindow active_day obs_day n, active_day));
          (stat, s) = GenerateSingleUniqueActivesObservation metric report obs_day event_code window was_active s
      in if stat \<noteq> kOK then (stat, active_day, s)
         else (kOK, active_day, s\<lparr>obs_history := SetUniqueActivesLastGeneratedDayIndex key event_code n obs_day (obs_history s)\<rparr>))"

definition unique_actives_window ::
    "MetricRef \<Rightarrow> ReportDefinition \<Rightarrow> string \<Rightarrow> u32 \<Rightarrow> u32 \<Rightarrow> DailyAggregates option \<Rightarrow> u32 \<Rightarrow> OnDeviceAggregationWindow \<Rightarrow>
     's AggregateStore \<Rightarrow> Status \<times> 's AggregateStore" where
  "unique_actives_window metric report key backfill_period_start final_day daily event_code window s =
     (case window of
        kDays n \<Rightarrow>
          if n > kMaxAllowedAggregationDays then (kOK, s)
          else let last_gen = GetUniqueActivesLastGeneratedDayIndex key event_code n (obs_history s);
                   first_day = first_day_to_generate last_gen backfill_period_start;
                   (stat, _, s) = for_each (unique_actives_day metric report key daily event_code window)
                                    (day_range first_day final_day) (0, s)
               in (stat, s)
      | _ \<Rightarrow> (kOK, s))"

definition unique_actives_of :: "ReportAggregates \<Rightarrow> UniqueActivesReportAggregates" where
  "unique_actives_of a = (case aggregates_type a of unique_actives_aggregates m \<Rightarrow> m | _ \<Rightarrow> [])"

definition GenerateUniqueActivesObservations ::
    "MetricRef \<Rightarrow> string \<Rightarrow> ReportAggregates \<Rightarrow> u32 \<Rightarrow> u32 \<Rightarrow> 's AggregateStore \<Rightarrow> Status \<times> 's AggregateStore" where
  "GenerateUniqueActivesObservations metric key a num_event_codes final_day s =
     (let backfill_period_start = final_day - of_nat (backfill_days s);
          config = aggregation_config a
      in for_each (\<lambda>event_code s.
           for_each (\<lambda>window s.
             unique_actives_window metric (config_report config) key backfill_period_start final_day
               (map_of (unique_actives_of a) event_code) event_code window s)
             (config_aggregation_window config) s)
           (map of_nat [0..<unat num_event_codes]) s)"

section \<open>Numeric aggregates\<close>

text \<open>The body of the \<open>while\<close> loop over the days of a window; \<open>None\<close> for an unknown aggregation type.\<close>

definition aggregate_day :: "OnDeviceAggregationType \<Rightarrow> DailyAggregate option \<Rightarrow> bool \<times> i64 \<Rightarrow> (bool \<times> i64) option" where
  "aggregate_day ty day_aggregate st =
     (let (found_for_window, window_aggregate) = st; v = numeric_value day_aggregate
      in case ty of
           SUM_TYPE \<Rightarrow> Some (if day_aggregate \<noteq> None then (True, window_aggregate + v) else st)
         | MAX_TYPE \<Rightarrow> Some (if day_aggregate \<noteq> None then (True, signed_max window_aggregate v) else st)
         | MIN_TYPE \<Rightarrow> Some (if day_aggregate \<noteq> None \<and> \<not> found_for_window then (True, v)
                            else if day_aggregate \<noteq> None then (found_for_window, signed_min window_aggregate v)
                            else st)
         | UNKNOWN_AGGREGATION_TYPE \<Rightarrow> None)"

function window_loop ::
    "OnDeviceAggregationType \<Rightarrow> DailyAggregates \<Rightarrow> u32 \<Rightarrow> u32 \<Rightarrow> bool \<times> i64 \<Rightarrow> u32 \<Rightarrow> ((bool \<times> i64) \<times> u32) option" where
  "window_loop ty by_day obs_day window_days st num_days =
     (if num_days < window_days
      then case aggregate_day ty (map_of by_day (obs_day - num_days)) st of
             None \<Rightarrow> None
           | Some st \<Rightarrow> window_loop ty by_day obs_day window_days st (num_days + 1)
      else Some (st, num_days))"
  by pat_completeness auto
termination
proof (relation "measure (\<lambda>(ty, by_day, obs_day, window_days, st, num_days). unat window_days - unat num_days)", goal_cases)
  case (2 ty by_day obs_day window_days st num_days st')
  then show ?case by (simp add: unat_plus1 word_less_nat_alt)
qed simp

declare window_loop.simps [simp del]

text \<open>The report types that reach \<open>GenerateObsFromNumericAggregates\<close> have an observation of their own; any other
  type is refused.\<close>

definition generate_numeric ::
    "MetricRef \<Rightarrow> ReportDefinition \<Rightarrow> u32 \<Rightarrow> string \<Rightarrow> u64 \<Rightarrow> OnDeviceAggregationWindow \<Rightarrow> i64 \<Rightarrow> 's AggregateStore \<Rightarrow> Status \<times> 's AggregateStore" where
  "generate_numeric metric report obs_day component event_code window v s =
     (case report_type report of
        PER_DEVICE_NUMERIC_STATS \<Rightarrow>
          GenerateSinglePerDeviceNumericObservation metric report obs_day component (ucast event_code) window v s
      | PER_DEVICE_HISTOGRAM \<Rightarrow>
          GenerateSinglePerDeviceHistogramObservation metric report obs_day component (ucast event_code) window v s
      | _ \<Rightarrow> (kInvalidArguments, s))"

text \<open>The body of the loop over the windows of one day; \<open>found_value_for_window\<close>, \<open>window_aggregate\<close> and \<open>num_days\<close>
  live across its iterations.\<close>

definition numeric_window ::
    "MetricRef \<Rightarrow> ReportDefinition \<Rightarrow> string \<Rightarrow> string \<Rightarrow> u64 \<Rightarrow> DailyAggregates \<Rightarrow> u32 \<Rightarrow> OnDeviceAggregationWindow \<Rightarrow>
     ((bool \<times> i64) \<times> u32) \<times> 's AggregateStore \<Rightarrow> Status \<times> ((bool \<times> i64) \<times> u32) \<times> 's AggregateStore" where
  "numeric_window metric report key component event_code by_day obs_day window st =
     (let ((acc, num_days), s) = st
      in case window_loop (aggregation_type report) by_day obs_day (days window) acc num_days of
           None \<Rightarrow> (kInvalidArguments, (acc, num_days), s)
         | Some (acc, num_days) \<Rightarrow>
             let (stat, s) = (if fst acc then generate_numeric metric report obs_day component event_code window (snd acc) s
                              else (kOK, s))
             in if stat \<noteq> kOK then (stat, (acc, num_days), s)
                else (kOK, (acc, num_days),
                      s\<lparr>obs_history := SetPerDeviceNumericLastGeneratedDayIndex key component (ucast event_code) (days window)
                          obs_day (obs_history s)\<rparr>))"

text \<open>The helper map from days to the windows to generate.\<close>

definition add_window_days ::
    "string \<Rightarrow> string \<Rightarrow> u64 \<Rightarrow> u32 \<Rightarrow> u32 \<Rightarrow> AggregatedObservationHistoryStore \<Rightarrow> OnDeviceAggregationWindow \<Rightarrow>
     (u32 \<times> OnDeviceAggregationWindow list) list \<Rightarrow> (u32 \<times> OnDeviceAggregationWindow list) list" where
  "add_window_days key component event_code backfill_period_start final_day h window m =
     (case window of
        kDays n \<Rightarrow>
          let last_gen = GetPerDeviceNumericLastGeneratedDayIndex key component (ucast event_code) n h
          in fold (\<lambda>d m. map_set d (map_get [] m d @ [window]) m)
               (day_range (first_day_to_generate last_gen backfill_period_start) final_day) m
      | _ \<Rightarrow> m)"

definition windows_by_obs_day ::
    "string \<Rightarrow> string \<Rightarrow> u64 \<Rightarrow> u32 \<Rightarrow> u32 \<Rightarrow> AggregatedObservationHistoryStore \<Rightarrow> OnDeviceAggregationWindow list \<Rightarrow>
     (u32 \<times> OnDeviceAggregationWindow list) list" where
  "windows_by_obs_day key component event_code backfill_period_start final_day h windows =
     fold (add_window_days key component event_code backfill_period_start final_day h) windows []"

definition numeric_day ::
    "MetricRef \<Rightarrow> ReportDefinition \<Rightarrow> string \<Rightarrow> string \<Rightarrow> u64 \<Rightarrow> DailyAggregates \<Rightarrow> (u32 \<times> OnDeviceAggregationWindow list) list \<Rightarrow>
     u32 \<Rightarrow> 's AggregateStore \<Rightarrow> Status \<times> 's AggregateStore" where
  "numeric_day metric report key component event_code by_day by_obs_day obs_day s =
     (case map_of by_obs_day obs_day of
        None \<Rightarrow> (kOK, s)
      | Some windows \<Rightarrow>
          (case for_each (numeric_window metric report key component event_code by_day obs_day) windows (((False, 0), 0), s) of
             (stat, _, s) \<Rightarrow> (stat, s)))"

definition numeric_event_code ::
    "MetricRef \<Rightarrow> ReportDefinition \<Rightarrow> string \<Rightarrow> OnDeviceAggregationWindow list \<Rightarrow> u32 \<Rightarrow> u32 \<Rightarrow> string \<Rightarrow> u64 \<times> DailyAggregates \<Rightarrow>
     's AggregateStore \<Rightarrow> Status \<times> 's AggregateStore" where
  "numeric_event_code metric report key windows backfill_period_start final_day component code_days s =
     (let (event_code, by_day) = code_days;
          by_obs_day = windows_by_obs_day key component event_code backfill_period_start final_day (obs_history s) windows
      in for_each (numeric_day metric report key component event_code by_day by_obs_day)
           (day_range backfill_period_start final_day) s)"

text \<open>The result of generating a participation observation is not looked at.\<close>

definition participation_day ::
    "MetricRef \<Rightarrow> ReportDefinition \<Rightarrow> string \<Rightarrow> u32 \<Rightarrow> 's AggregateStore \<Rightarrow> Status \<times> 's AggregateStore" where
  "participation_day metric report key obs_day s =
     (let (_, s) = GenerateSingleReportParticipationObservation metric report obs_day s
      in (kOK, s\<lparr>obs_history := SetReportParticipationLastGeneratedDayIndex key obs_day (obs_history s)\<rparr>))"

definition numeric_aggregates_of :: "ReportAggregates \<Rightarrow> PerDeviceNumericAggregates" where
  "numeric_aggregates_of a = (case aggregates_type a of numeric_aggregates m \<Rightarrow> m | _ \<Rightarrow> [])"

definition GenerateObsFromNumericAggregates ::
    "MetricRef \<Rightarrow> string \<Rightarrow> ReportAggregates \<Rightarrow> u32 \<Rightarrow> 's AggregateStore \<Rightarrow> Status \<times> 's AggregateStore" where
  "GenerateObsFromNumericAggregates metric key a final_day s =
     (let backfill_period_start = final_day - of_nat (backfill_days s);
          config = aggregation_config a; report = config_report config;
          (stat, s) = for_each (\<lambda>(component, by_code) s.
              for_each (numeric_event_code metric report key (config_aggregation_window config) backfill_period_start final_day component)
                by_code s)
            (numeric_aggregates_of a) s
      in if stat \<noteq> kOK then (stat, s)
         else let last_gen = GetReportParticipationLastGeneratedDayIndex key (obs_history s)
              in for_each (participation_day metric report key)
                   (day_range (first_day_to_generate last_gen backfill_period_start) final_day) s)"

section \<open>All reports\<close>

definition generate_report :: "u32 \<Rightarrow> u32 \<Rightarrow> string \<times> ReportAggregates \<Rightarrow> 's AggregateStore \<Rightarrow> Status \<times> 's AggregateStore" where
  "generate_report day_utc day_local key_aggregates s =
     (let (key, a) = key_aggregates; config = aggregation_config a; metric = config_metric config;
          metric_ref = \<lparr>ref_project = config_project config, ref_metric = metric\<rparr>; report = config_report config
      in case policy_day (time_zone_policy metric) day_utc day_local of
           None \<Rightarrow> (kOK, s)
         | Some final_day \<Rightarrow>
             if config_aggregation_window config = [] then (kOK, s)
             else let n = max_aggregation_days_of (config_aggregation_window config)
                  in if n = 0 \<or> n > final_day then (kOK, s)
                     else if metric_type metric = EVENT_OCCURRED
                     then (if report_type report = UNIQUE_N_DAY_ACTIVES
                           then GenerateUniqueActivesObservations metric_ref key a (BasicRapporNumCategories metric) final_day s
                           else (kOK, s))
                     else if metric_type metric \<in> {EVENT_COUNT, ELAPSED_TIME, FRAME_RATE, MEMORY_USAGE}
                     then (if report_type report \<in> {PER_DEVICE_NUMERIC_STATS, PER_DEVICE_HISTOGRAM}
                           then GenerateObsFromNumericAggregates metric_ref key a final_day s
                           else (kOK, s))
                     else (kOK, s))"

definition GenerateObservations :: "u32 \<Rightarrow> u32 \<Rightarrow> 's AggregateStore \<Rightarrow> (Status \<times> 's AggregateStore) option" where
  "GenerateObservations day_utc day_local s =
     (let day_local = (if day_local = 0 then day_utc else day_local)
      in if \<not> (check_day (backfill_days s) day_utc \<and> check_day (backfill_days s) day_local) then None
         else Some (for_each (generate_report day_utc day_local) (by_report_key (CopyLocalAggregateStore s)) s))"

end
