(* ===== verification/Shipping_Manager.thy ===== *)
theory Shipping_Manager
  imports Observation_Store File_System
begin

text \<open>
  The component that decides when to send and moves envelopes from the store to the backend:
  \<^verbatim>\<open>src/src/uploader/upload_scheduler.cc\<close> and \<^verbatim>\<open>shipping_manager.cc\<close>.

  The observation store and the backend are abstract here, as they are abstract classes in the source: the
  virtual methods of \<open>ObservationStore\<close> are the fields of a record \<open>store_ops\<close>, and the virtual method
  \<open>SendEnvelopeToBackend\<close> is a function that tells whether the send succeeded. The loop of
  \<open>SendAllEnvelopes\<close> is a partial function: \<open>None\<close> would be a loop that never ends. The locale \<open>shipping\<close> proves
  once, from the contract of a store and of a backend, that the loop ends and loses nothing. The worker thread
  is a step relation that interleaves with the calls of the other threads.
\<close>

section \<open>UploadScheduler\<close>

record UploadScheduler =
  current_interval :: int
  target_interval :: int
  min_interval :: int

definition kMaxSeconds :: int where "kMaxSeconds = 999999999"

definition UploadScheduler_ctor :: "int \<Rightarrow> int \<Rightarrow> int \<Rightarrow> UploadScheduler option" where
  "UploadScheduler_ctor target minimum initial =
     (if minimum \<ge> 0 \<and> initial \<le> target \<and> minimum \<le> target \<and> target \<le> kMaxSeconds
      then Some \<lparr>current_interval = initial, target_interval = target, min_interval = minimum\<rparr>
      else None)"

definition UploadScheduler_ctor2 :: "int \<Rightarrow> int \<Rightarrow> UploadScheduler option" where
  "UploadScheduler_ctor2 target minimum = UploadScheduler_ctor target minimum target"

definition Interval :: "UploadScheduler \<Rightarrow> int \<times> UploadScheduler" where
  "Interval u =
     (current_interval u,
      if current_interval u < target_interval u
      then let c = current_interval u * 2
           in u\<lparr>current_interval := (if c \<ge> target_interval u then target_interval u else c)\<rparr>
      else u)"

text \<open>The scheduler after \<open>n\<close> calls.\<close>

fun after_intervals :: "nat \<Rightarrow> UploadScheduler \<Rightarrow> UploadScheduler" where
  "after_intervals 0 u = u"
| "after_intervals (Suc n) u = after_intervals n (snd (Interval u))"

section \<open>The shipping manager\<close>

text \<open>The virtual methods of an \<open>ObservationStore\<close> that the manager calls; \<open>destroy\<close> is the destructor of a holder.\<close>

record ('s, 'h) store_ops =
  TakeNextEnvelopeHolder :: "'s \<Rightarrow> 'h option \<times> 's"
  ReturnEnvelopeHolder :: "'h \<Rightarrow> 's \<Rightarrow> 's"
  destroy :: "'h \<Rightarrow> 's \<Rightarrow> 's"
  Empty :: "'s \<Rightarrow> bool"
  almost_full :: "'s \<Rightarrow> bool"

text \<open>The counters of the manager, which only the method \<open>SendEnvelopeToBackend\<close> of the subclasses changes; they are kept
  with the state of the backend.\<close>

record SendStats =
  num_send_attempts :: nat
  num_failed_attempts :: nat
  last_send_status :: StatusCode

definition count_send :: "StatusCode \<Rightarrow> 'z SendStats_scheme \<Rightarrow> 'z SendStats_scheme" where
  "count_send status b =
     b\<lparr>num_send_attempts := num_send_attempts b + 1,
       num_failed_attempts := (if status \<noteq> OK then num_failed_attempts b + 1 else num_failed_attempts b),
       last_send_status := status\<rparr>"

text \<open>The other \<open>UnprotectedFields\<close> with the scheduler, the time of the next send, the state \<open>backend\<close> of the subclass and the
  list of the callbacks that were invoked, with their argument, the latest first.\<close>

record ('s, 'b, 'cb) ShippingManager =
  expedited_send_requested :: bool
  send_callback_queue :: "'cb list"
  shut_down :: bool
  idle :: bool
  waiting_for_schedule :: bool
  sm_is_disabled :: bool
  store :: 's
  upload_scheduler :: UploadScheduler
  next_scheduled_send_time :: int
  backend :: 'b
  invoked_callbacks :: "('cb \<times> bool) list"

definition ShippingManager_ctor :: "UploadScheduler \<Rightarrow> 's \<Rightarrow> 'b \<Rightarrow> int \<Rightarrow> ('s, 'b, 'cb) ShippingManager" where
  "ShippingManager_ctor scheduler s b now =
     (let (interval, scheduler) = Interval scheduler
      in \<lparr>expedited_send_requested = False, send_callback_queue = [], shut_down = False, idle = True,
          waiting_for_schedule = True, sm_is_disabled = False, store = s, upload_scheduler = scheduler, next_scheduled_send_time = now + interval,
          backend = b, invoked_callbacks = []\<rparr>)"

definition Start :: "('s, 'b, 'cb) ShippingManager \<Rightarrow> ('s, 'b, 'cb) ShippingManager" where
  "Start m = m\<lparr>idle := False, waiting_for_schedule := False\<rparr>"

definition ObservationsAvailable :: "('s, 'h) store_ops \<Rightarrow> ('s, 'b, 'cb) ShippingManager \<Rightarrow> bool" where
  "ObservationsAvailable ops m \<longleftrightarrow> \<not> Empty ops (store m) \<and> \<not> sm_is_disabled m"

definition RequestSendSoonLockHeld :: "('s, 'b, 'cb) ShippingManager \<Rightarrow> ('s, 'b, 'cb) ShippingManager" where
  "RequestSendSoonLockHeld m = m\<lparr>expedited_send_requested := True, waiting_for_schedule := False\<rparr>"

definition NotifyObservationsAdded :: "('s, 'h) store_ops \<Rightarrow> ('s, 'b, 'cb) ShippingManager \<Rightarrow> ('s, 'b, 'cb) ShippingManager" where
  "NotifyObservationsAdded ops m =
     (let m = (if almost_full ops (store m) then RequestSendSoonLockHeld m else m)
      in if \<not> Empty ops (store m) then m\<lparr>idle := False\<rparr> else m)"

text \<open>An empty \<open>std::function\<close> is \<open>None\<close>.\<close>

definition RequestSendSoon :: "('s, 'h) store_ops \<Rightarrow> 'cb option \<Rightarrow> ('s, 'b, 'cb) ShippingManager \<Rightarrow> ('s, 'b, 'cb) ShippingManager" where
  "RequestSendSoon ops send_callback m =
     (let m = RequestSendSoonLockHeld m
      in case send_callback of
           None \<Rightarrow> m
         | Some cb \<Rightarrow>
             if Empty ops (store m) \<and> idle m
             then m\<lparr>expedited_send_requested := False, invoked_callbacks := (cb, True) # invoked_callbacks m\<rparr>
             else m\<lparr>send_callback_queue := send_callback_queue m @ [cb]\<rparr>)"

definition ShutDown :: "('s, 'b, 'cb) ShippingManager \<Rightarrow> ('s, 'b, 'cb) ShippingManager" where
  "ShutDown m = m\<lparr>shut_down := True\<rparr>"

definition ShippingManager_Disable :: "bool \<Rightarrow> ('s, 'b, 'cb) ShippingManager \<Rightarrow> ('s, 'b, 'cb) ShippingManager" where
  "ShippingManager_Disable b m =
     (let m = m\<lparr>sm_is_disabled := b\<rparr> in if \<not> b then m\<lparr>idle := False\<rparr> else m)"

definition InvokeSendCallbacksLockHeld :: "bool \<Rightarrow> ('s, 'b, 'cb) ShippingManager \<Rightarrow> ('s, 'b, 'cb) ShippingManager" where
  "InvokeSendCallbacksLockHeld success m =
     m\<lparr>expedited_send_requested := False, send_callback_queue := [],
       invoked_callbacks := rev (map (\<lambda>cb. (cb, success)) (send_callback_queue m)) @ invoked_callbacks m\<rparr>"

section \<open>SendAllEnvelopes\<close>

definition kMaxFailuresWithoutSuccess :: nat where "kMaxFailuresWithoutSuccess = 3"

text \<open>The virtual method \<open>SendEnvelopeToBackend\<close>: whether the envelope was sent (\<open>nullptr\<close> is returned), and the holder,
  store and backend afterwards; \<open>None\<close> when it does not return. A holder that was sent is destroyed.\<close>

type_synonym ('s, 'h, 'b) send_fun = "'h \<Rightarrow> 's \<Rightarrow> 'b \<Rightarrow> (bool \<times> 'h \<times> 's \<times> 'b) option"

partial_function (option) send_loop ::
  "('s, 'h) store_ops \<Rightarrow> ('s, 'h, 'b) send_fun \<Rightarrow> 's \<Rightarrow> 'b \<Rightarrow> bool \<Rightarrow> nat \<Rightarrow> ('s \<times> 'b \<times> bool) option" where
  "send_loop ops send s b success failures_without_success =
     (case TakeNextEnvelopeHolder ops s of
        (None, s) \<Rightarrow> Some (s, b, success)
      | (Some holder, s) \<Rightarrow>
          (case send holder s b of
             None \<Rightarrow> None
           | Some (ok, holder, s, b) \<Rightarrow>
               let (s, success, failures_without_success) =
                 (if ok then (destroy ops holder s, success, 0)
                  else (ReturnEnvelopeHolder ops holder s, False, failures_without_success + 1))
               in if failures_without_success \<ge> kMaxFailuresWithoutSuccess then Some (s, b, success)
                  else send_loop ops send s b success failures_without_success))"

definition SendAllEnvelopes :: "('s, 'h) store_ops \<Rightarrow> ('s, 'h, 'b) send_fun \<Rightarrow> ('s, 'b, 'cb) ShippingManager \<Rightarrow> ('s, 'b, 'cb) ShippingManager option" where
  "SendAllEnvelopes ops send m =
     (if sm_is_disabled m then Some m
      else
        case send_loop ops send (store m) (backend m) True 0 of
          None \<Rightarrow> None
        | Some (s, b, success) \<Rightarrow> Some (InvokeSendCallbacksLockHeld success (m\<lparr>store := s, backend := b\<rparr>)))"

section \<open>The worker thread\<close>

text \<open>Where \<open>Run\<close> stands: at the top of its loop, asleep for \<open>MinInterval\<close>, waiting for an observation, waiting for the
  schedule, about to send (with the lock released), or returned.\<close>

datatype worker = AtTop | SleepingMinInterval | WaitingForObservation | WaitingForSchedule | AboutToSend | Returned

text \<open>The rest of an iteration of \<open>Run\<close> after the sleep, at time \<open>now\<close>.\<close>

definition after_sleep :: "('s, 'h) store_ops \<Rightarrow> int \<Rightarrow> ('s, 'b, 'cb) ShippingManager \<Rightarrow> worker \<times> ('s, 'b, 'cb) ShippingManager" where
  "after_sleep ops now m =
     (if shut_down m then (Returned, m)
      else if \<not> ObservationsAvailable ops m
      then (WaitingForObservation, (InvokeSendCallbacksLockHeld True m)\<lparr>idle := True\<rparr>)
      else if next_scheduled_send_time m \<le> now \<or> expedited_send_requested m
      then (AboutToSend, m\<lparr>expedited_send_requested := False\<rparr>)
      else (WaitingForSchedule, m\<lparr>waiting_for_schedule := True\<rparr>))"

definition finish_send :: "int \<Rightarrow> ('s, 'b, 'cb) ShippingManager \<Rightarrow> ('s, 'b, 'cb) ShippingManager" where
  "finish_send now m =
     (let (interval, scheduler) = Interval (upload_scheduler m)
      in m\<lparr>upload_scheduler := scheduler, next_scheduled_send_time := now + interval\<rparr>)"

text \<open>One step of the worker; \<open>now\<close> is the time at which it runs.\<close>

inductive worker_step ::
  "('s, 'h) store_ops \<Rightarrow> ('s, 'h, 'b) send_fun \<Rightarrow> worker \<times> ('s, 'b, 'cb) ShippingManager \<Rightarrow> worker \<times> ('s, 'b, 'cb) ShippingManager \<Rightarrow> bool"
  for ops :: "('s, 'h) store_ops" and send :: "('s, 'h, 'b) send_fun" where
  top: "worker_step ops send (AtTop, m) (if shut_down m then Returned else SleepingMinInterval, m)"
| wake: "worker_step ops send (SleepingMinInterval, m) (after_sleep ops now m)"
| observation: "shut_down m \<or> ObservationsAvailable ops m \<or> \<not> idle m \<Longrightarrow>
    worker_step ops send (WaitingForObservation, m) (AtTop, m\<lparr>idle := False\<rparr>)"
| schedule: "shut_down m \<or> expedited_send_requested m \<or> next_scheduled_send_time m \<le> now \<Longrightarrow>
    worker_step ops send (WaitingForSchedule, m) (AtTop, m\<lparr>waiting_for_schedule := False\<rparr>)"
| send_all: "SendAllEnvelopes ops send m = Some m' \<Longrightarrow> worker_step ops send (AboutToSend, m) (AtTop, finish_send now m')"

text \<open>A call of the manager by another thread, or a change of the store by the threads that add observations to it.\<close>

inductive client_step ::
  "('s, 'h) store_ops \<Rightarrow> ('s, 'b, 'cb) ShippingManager \<Rightarrow> ('s, 'b, 'cb) ShippingManager \<Rightarrow> bool"
  for ops :: "('s, 'h) store_ops" where
  notify: "client_step ops m (NotifyObservationsAdded ops m)"
| request: "client_step ops m (RequestSendSoon ops None m)"
| disable: "client_step ops m (ShippingManager_Disable b m)"
| shutdown: "client_step ops m (ShutDown m)"
| store_change: "client_step ops m (m\<lparr>store := s\<rparr>)"

text \<open>The states a manager can reach after \<open>Start\<close>, with the callbacks that were passed to \<open>RequestSendSoon\<close>.\<close>

inductive reach ::
  "('s, 'h) store_ops \<Rightarrow> ('s, 'h, 'b) send_fun \<Rightarrow> 'cb list \<Rightarrow> worker \<times> ('s, 'b, 'cb) ShippingManager \<Rightarrow> bool"
  for ops :: "('s, 'h) store_ops" and send :: "('s, 'h, 'b) send_fun" where
  start: "reach ops send [] (AtTop, Start (ShippingManager_ctor scheduler s b now))"
| work: "reach ops send req x \<Longrightarrow> worker_step ops send x y \<Longrightarrow> reach ops send req y"
| client: "reach ops send req (w, m) \<Longrightarrow> client_step ops m m' \<Longrightarrow> reach ops send req (w, m')"
| request: "reach ops send req (w, m) \<Longrightarrow> reach ops send (cb # req) (w, RequestSendSoon ops (Some cb) m)"

inductive_simps worker_step_Returned: "worker_step ops send (Returned, m) y"

section \<open>The schedule\<close>

lemma Interval_cases:
  "snd (Interval u) = (if current_interval u < target_interval u
     then u\<lparr>current_interval := min (target_interval u) (2 * current_interval u)\<rparr> else u)"
  by (auto simp: Interval_def Let_def min_def)

lemma after_intervals_target: "target_interval (after_intervals n u) = target_interval u"
  by (induction n arbitrary: u) (simp_all add: Interval_cases)

lemma after_intervals_current:
  assumes "0 < current_interval u" and "current_interval u \<le> target_interval u"
  shows "current_interval (after_intervals n u) = min (target_interval u) (2 ^ n * current_interval u)"
  using assms
proof (induction n arbitrary: u)
  case (Suc n)
  let ?c = "current_interval u" and ?t = "target_interval u"
  have c': "current_interval (snd (Interval u)) = min ?t (2 * ?c)" "target_interval (snd (Interval u)) = ?t"
    using Suc.prems by (auto simp: Interval_cases)
  have "current_interval (after_intervals (Suc n) u) = min ?t (2 ^ n * min ?t (2 * ?c))"
    using Suc.IH [of "snd (Interval u)"] Suc.prems c' by simp
  also have "\<dots> = min ?t (2 ^ Suc n * ?c)"
  proof (cases "?t \<le> 2 * ?c")
    case True
    have "?t \<le> 2 ^ n * ?t" using Suc.prems by simp
    moreover have "?t \<le> 2 ^ n * (2 * ?c)"
      using True Suc.prems mult_mono [of 1 "2 ^ n" ?t "2 * ?c"] by simp
    ultimately show ?thesis using True by (simp add: min_absorb1 mult.assoc mult.left_commute)
  next
    case False
    then show ?thesis by (simp add: min_def mult.assoc mult.left_commute)
  qed
  finally show ?case .
qed simp

section \<open>The contract of a backend\<close>

text \<open>\<open>image\<close> is what the backend receives for an observation, and \<open>delivered\<close> what it has received.\<close>

locale shipping = observation_store take_next return_holder destroy_holder inv owned contents held rank
  for take_next :: "'s \<Rightarrow> 'h option \<times> 's" and return_holder and destroy_holder and inv and owned
    and contents :: "'s \<Rightarrow> 'c multiset" and held and rank +
  fixes send :: "('s, 'h, 'b) send_fun"
    and binv :: "'b \<Rightarrow> bool"
    and image :: "'c \<Rightarrow> 'd"
    and delivered :: "'b \<Rightarrow> 'd multiset"
  assumes send_returns: "inv s \<Longrightarrow> owned s h \<Longrightarrow> binv b \<Longrightarrow> send h s b \<noteq> None"
    and send_store: "inv s \<Longrightarrow> owned s h \<Longrightarrow> binv b \<Longrightarrow> send h s b = Some (ok, h', s', b') \<Longrightarrow>
      inv s' \<and> owned s' h' \<and> contents s' = contents s \<and> held s' h' = held s h \<and> rank s' = rank s"
    and send_backend: "inv s \<Longrightarrow> owned s h \<Longrightarrow> binv b \<Longrightarrow> send h s b = Some (ok, h', s', b') \<Longrightarrow>
      binv b' \<and> delivered b \<subseteq># delivered b' \<and>
      (ok \<longrightarrow> delivered b + image_mset image (held s h) \<subseteq># delivered b')"
begin

lemma send_loop_step:
  assumes inv: "inv s" "binv b" and take: "take_next s = (Some h, s1)" and snd: "send h s1 b = Some (ok, h2, s2, b2)"
  defines "s3 \<equiv> (if ok then destroy_holder h2 s2 else return_holder h2 s2)"
  shows "inv s3" and "binv b2" and "ok \<Longrightarrow> rank s3 < rank s" and "rank s3 \<le> rank s"
    and "image_mset image (contents s) + delivered b \<subseteq># image_mset image (contents s3) + delivered b2"
    and "\<not> ok \<Longrightarrow> contents s3 = contents s"
proof -
  note t = take_some [OF inv(1) take]
  have b: "inv s2" "owned s2 h2" "contents s2 = contents s1" "held s2 h2 = held s1 h" "rank s2 = rank s1"
    using send_store [OF _ _ inv(2) snd] t by simp_all
  have c3: "contents s3 = (if ok then contents s1 else contents s1 + held s1 h)"
    using destroy [OF b(1,2)] return [OF b(1,2)] b by (simp add: s3_def)
  show "inv s3" "ok \<Longrightarrow> rank s3 < rank s" "rank s3 \<le> rank s" "\<not> ok \<Longrightarrow> contents s3 = contents s"
    using destroy [OF b(1,2)] return [OF b(1,2)] b t c3 by (auto simp: s3_def)
  from send_backend [OF _ _ inv(2) snd] t
  have d: "binv b2" "delivered b \<subseteq># delivered b2" "ok \<longrightarrow> delivered b + image_mset image (held s1 h) \<subseteq># delivered b2"
    by simp_all
  show "binv b2" by (rule d(1))
  show "image_mset image (contents s) + delivered b \<subseteq># image_mset image (contents s3) + delivered b2"
    using t c3 d by (cases ok) (simp_all add: ac_simps)
qed

lemma send_loop_result:
  assumes ops: "TakeNextEnvelopeHolder ops = take_next" "ReturnEnvelopeHolder ops = return_holder"
    "destroy ops = destroy_holder" and "inv s" and "binv b" and "k < kMaxFailuresWithoutSuccess"
  shows "\<exists>s' b' success'. send_loop ops send s b success k = Some (s', b', success') \<and> inv s' \<and> binv b' \<and>
    image_mset image (contents s) + delivered b \<subseteq># image_mset image (contents s') + delivered b' \<and>
    (success' \<longrightarrow> success \<and> (\<exists>t. inv t \<and> take_next t = (None, s'))) \<and>
    ((\<forall>h s b r. send h s b = Some r \<longrightarrow> \<not> fst r) \<longrightarrow> contents s' = contents s)"
  using assms(4-6)
proof (induction "(rank s, kMaxFailuresWithoutSuccess - k)" arbitrary: s b success k
    rule: wf_induct_rule [OF wf_lex_prod [OF wf_less_than wf_less_than]])
  case less: 1
  obtain ho s1 where tk0: "take_next s = (ho, s1)" by force
  show ?case
  proof (cases ho)
    case None
    with tk0 ops less(2,3) take_none [OF less(2), of s1] show ?thesis
      by (subst send_loop.simps) (auto intro: exI [of _ s])
  next
    case (Some h)
    with tk0 have tk: "take_next s = (Some h, s1)" by simp
    obtain ok h2 s2 b2 where sd: "send h s1 b = Some (ok, h2, s2, b2)"
      using send_returns [OF _ _ less(3)] take_some [OF less(2) tk] by (metis not_Some_eq prod_cases4)
    define s3 where "s3 = (if ok then destroy_holder h2 s2 else return_holder h2 s2)"
    note st = send_loop_step [OF less(2,3) tk sd, folded s3_def]
    define k' where "k' = (if ok then 0 else k + 1)"
    have unf: "send_loop ops send s b success k =
      (if k' \<ge> kMaxFailuresWithoutSuccess then Some (s3, b2, ok \<and> success) else send_loop ops send s3 b2 (ok \<and> success) k')"
      by (subst send_loop.simps) (simp add: ops tk sd s3_def k'_def)
    have nok: "(\<forall>h s b r. send h s b = Some r \<longrightarrow> \<not> fst r) \<longrightarrow> contents s3 = contents s" using st(6) sd by force
    show ?thesis
    proof (cases "k' \<ge> kMaxFailuresWithoutSuccess")
      case True
      then have "\<not> ok" by (auto simp: k'_def kMaxFailuresWithoutSuccess_def)
      with True st nok show ?thesis unfolding unf by auto
    next
      case False
      have "((rank s3, kMaxFailuresWithoutSuccess - k'), (rank s, kMaxFailuresWithoutSuccess - k)) \<in> less_than <*lex*> less_than"
        using st(3,4) less(4) False by (cases ok) (auto simp: k'_def)
      from less(1) [OF this st(1,2), of "ok \<and> success"] False obtain s' b' success' where r:
        "send_loop ops send s3 b2 (ok \<and> success) k' = Some (s', b', success')" "inv s'" "binv b'"
        "image_mset image (contents s3) + delivered b2 \<subseteq># image_mset image (contents s') + delivered b'"
        "success' \<longrightarrow> (ok \<and> success) \<and> (\<exists>t. inv t \<and> take_next t = (None, s'))"
        "(\<forall>h s b r. send h s b = Some r \<longrightarrow> \<not> fst r) \<longrightarrow> contents s' = contents s3"
        by (metis not_le)
      from st(5) r(4) have "image_mset image (contents s) + delivered b \<subseteq># image_mset image (contents s') + delivered b'"
        by (rule subset_mset.order_trans)
      with r nok False show ?thesis unfolding unf by auto
    qed
  qed
qed

lemma SendAllEnvelopes_result:
  assumes ops: "TakeNextEnvelopeHolder ops = take_next" "ReturnEnvelopeHolder ops = return_holder"
    "destroy ops = destroy_holder" and inv: "inv (store m)" "binv (backend m)" and enabled: "\<not> sm_is_disabled m"
  shows "\<exists>m' success. SendAllEnvelopes ops send m = Some m' \<and> inv (store m') \<and> binv (backend m') \<and>
    image_mset image (contents (store m)) + delivered (backend m) \<subseteq>#
      image_mset image (contents (store m')) + delivered (backend m') \<and>
    send_callback_queue m' = [] \<and>
    mset (invoked_callbacks m') = mset (invoked_callbacks m) + {#(cb, success). cb \<in># mset (send_callback_queue m)#} \<and>
    (success \<longrightarrow> (\<exists>t. inv t \<and> take_next t = (None, store m'))) \<and>
    ((\<forall>h s b r. send h s b = Some r \<longrightarrow> \<not> fst r) \<longrightarrow> contents (store m') = contents (store m))"
proof -
  have k: "0 < kMaxFailuresWithoutSuccess" by (simp add: kMaxFailuresWithoutSuccess_def)
  obtain s' b' success where r: "send_loop ops send (store m) (backend m) True 0 = Some (s', b', success)" "inv s'" "binv b'"
    "image_mset image (contents (store m)) + delivered (backend m) \<subseteq># image_mset image (contents s') + delivered b'"
    "success \<longrightarrow> (\<exists>t. inv t \<and> take_next t = (None, s'))"
    "(\<forall>h s b r. send h s b = Some r \<longrightarrow> \<not> fst r) \<longrightarrow> contents s' = contents (store m)"
    using send_loop_result [OF ops inv k, of True] by blast
  define m' where "m' = InvokeSendCallbacksLockHeld success (m\<lparr>store := s', backend := b'\<rparr>)"
  have "SendAllEnvelopes ops send m = Some m'" using enabled r(1) by (simp add: SendAllEnvelopes_def m'_def)
  then show ?thesis using r(2-) by (intro exI [of _ m'] exI [of _ success]) (simp add: m'_def InvokeSendCallbacksLockHeld_def)
qed

end

text \<open>With a store that gives out all it holds, a send that reports success has emptied the store.\<close>

locale reliable_shipping = shipping + reliable_observation_store
begin

lemma SendAllEnvelopes_empties:
  assumes "inv t" and "take_next t = (None, s)"
  shows "contents s = {#}"
  using take_none [OF assms] take_none_empty [OF assms] by simp

end

section \<open>Callbacks\<close>

lemma SendAllEnvelopes_callbacks:
  "SendAllEnvelopes ops send m = Some m' \<Longrightarrow>
     mset (send_callback_queue m') + mset (map fst (invoked_callbacks m')) =
     mset (send_callback_queue m) + mset (map fst (invoked_callbacks m))"
  by (auto simp: SendAllEnvelopes_def InvokeSendCallbacksLockHeld_def multiset.map_comp comp_def
      split: if_splits option.splits)

lemma worker_step_callbacks:
  assumes "worker_step ops send x y"
  shows "mset (send_callback_queue (snd y)) + mset (map fst (invoked_callbacks (snd y))) =
    mset (send_callback_queue (snd x)) + mset (map fst (invoked_callbacks (snd x)))"
  using assms
proof cases
  case (send_all m m' now)
  then show ?thesis
    by (auto simp: finish_send_def Let_def split: prod.splits dest!: SendAllEnvelopes_callbacks)
qed (auto simp: after_sleep_def InvokeSendCallbacksLockHeld_def multiset.map_comp comp_def)

lemma client_step_callbacks:
  "client_step ops m m' \<Longrightarrow> send_callback_queue m' = send_callback_queue m \<and> invoked_callbacks m' = invoked_callbacks m"
  by (induction rule: client_step.induct)
    (auto simp: NotifyObservationsAdded_def RequestSendSoonLockHeld_def RequestSendSoon_def ShippingManager_Disable_def
      ShutDown_def Let_def)

text \<open>C15. Every callback that was passed to \<open>RequestSendSoon\<close> is either waiting in the queue or has been invoked, once for
  each time it was passed, in every reachable state of the manager, its worker and its clients.\<close>

theorem callbacks_exactly_once:
  assumes "reach ops send req (w, m)"
  shows "mset req = mset (send_callback_queue m) + mset (map fst (invoked_callbacks m))"
proof -
  have "reach ops send req x \<Longrightarrow>
    mset req = mset (send_callback_queue (snd x)) + mset (map fst (invoked_callbacks (snd x)))" for x
  proof (induction rule: reach.induct)
    case (start scheduler s b now)
    then show ?case by (simp add: Start_def ShippingManager_ctor_def split: prod.splits)
  next
    case (work req x y)
    then show ?case using worker_step_callbacks by metis
  next
    case (client req w m m')
    then show ?case using client_step_callbacks [OF client(2)] by simp
  next
    case (request req w m cb)
    then show ?case by (simp add: RequestSendSoon_def RequestSendSoonLockHeld_def Let_def)
  qed
  from this [OF assms] show ?thesis by simp
qed

text \<open>An example: a store without observations and a backend that accepts everything.\<close>

definition empty_ops :: "(nat, nat) store_ops" where
  "empty_ops = \<lparr>TakeNextEnvelopeHolder = \<lambda>s. (None, s), ReturnEnvelopeHolder = \<lambda>h s. s, destroy = \<lambda>h s. s,
     Empty = \<lambda>s. True, almost_full = \<lambda>s. False\<rparr>"

theorem callbacks_exactly_once_witness:
  "mset [7] = mset (send_callback_queue (RequestSendSoon empty_ops (Some (7 :: nat)) (Start (ShippingManager_ctor
       \<lparr>current_interval = 1, target_interval = 1, min_interval = 0\<rparr> (0 :: nat) () 0)))) +
     mset (map fst (invoked_callbacks (RequestSendSoon empty_ops (Some 7) (Start (ShippingManager_ctor
       \<lparr>current_interval = 1, target_interval = 1, min_interval = 0\<rparr> (0 :: nat) () 0)))))"
  by (rule callbacks_exactly_once [where send = "\<lambda>h s b. Some (True, h, s, b)"]) (rule reach.request [OF reach.start])



text \<open>Starting from a positive initial interval, the interval doubles with every call up to the target and never
  exceeds it.\<close>

theorem Interval_doubles_to_target:
  assumes "UploadScheduler_ctor target minimum initial = Some u" and "0 < initial"
  shows "fst (Interval (after_intervals n u)) = min target (2 ^ n * initial)"
  using assms after_intervals_current [of u n]
  by (auto simp: UploadScheduler_ctor_def Interval_def split: if_splits)

theorem Interval_doubles_to_target_witness:
  "fst (Interval (after_intervals 3 \<lparr>current_interval = 10, target_interval = 60, min_interval = 5\<rparr>)) = 60"
  using Interval_doubles_to_target [of 60 5 10 "\<lparr>current_interval = 10, target_interval = 60, min_interval = 5\<rparr>" 3]
  by (simp add: UploadScheduler_ctor_def kMaxSeconds_def)

end
