(* ===== verification/Clearcut_Uploader.thy ===== *)
theory Clearcut_Uploader
  imports File_System
begin

text \<open>
  The upload of a request with retries: \<^verbatim>\<open>src/src/lib/clearcut/uploader.cc\<close>. Times and durations are integers in
  milliseconds. The clock advances by the next entry of \<open>ticks\<close> whenever it is read and by the duration of every
  sleep. The HTTP client is a list of outcomes, one for each \<open>PostSync\<close>; a response carries its code and, when its
  body can be parsed, \<open>next_request_wait_millis\<close>. The retry loop is a partial function, \<open>None\<close> when it does not end.
\<close>

section \<open>Operations\<close>

datatype PostOutcome = PostError StatusCode | Response int "int option"

datatype BytesUploadedStatus = UploadAttempted | UploadSucceeded

record 'r ClearcutUploader =
  upload_timeout :: int
  initial_backoff :: int
  clock :: int
  ticks :: "nat list"
  pause_uploads_until :: int
  outcomes :: "PostOutcome list"
  posts :: "('r \<times> PostOutcome) list"
  slept :: "int list"
  bytes_uploaded_metrics :: "(BytesUploadedStatus \<times> nat) list"

definition steady_now :: "'r ClearcutUploader \<Rightarrow> int \<times> 'r ClearcutUploader" where
  "steady_now u =
     (case ticks u of
        [] \<Rightarrow> (clock u, u)
      | t # ts \<Rightarrow> (clock u + int t, u\<lparr>clock := clock u + int t, ticks := ts\<rparr>))"

definition sleep_for :: "int \<Rightarrow> 'r ClearcutUploader \<Rightarrow> 'r ClearcutUploader" where
  "sleep_for d u = u\<lparr>clock := clock u + max 0 d, slept := d # slept u\<rparr>"

definition PostSync :: "'r \<Rightarrow> 'r ClearcutUploader \<Rightarrow> PostOutcome \<times> 'r ClearcutUploader" where
  "PostSync request u =
     (let (o', os) = (case outcomes u of [] \<Rightarrow> (PostError UNAVAILABLE, []) | x # xs \<Rightarrow> (x, xs))
      in (o', u\<lparr>outcomes := os, posts := (request, o') # posts u\<rparr>))"

definition http_status :: "int \<Rightarrow> StatusCode" where
  "http_status http_code =
     (if http_code = 400 then INVALID_ARGUMENT
      else if http_code = 401 \<or> http_code = 403 then PERMISSION_DENIED
      else if http_code = 404 then NOT_FOUND
      else if http_code = 503 then RESOURCE_EXHAUSTED
      else UNKNOWN)"

definition TryUploadEvents :: "('r \<Rightarrow> bytes option) \<Rightarrow> 'r \<Rightarrow> 'r ClearcutUploader \<Rightarrow> StatusCode \<times> 'r ClearcutUploader" where
  "TryUploadEvents ser log_request u =
     (let (now, u) = steady_now u
      in if now < pause_uploads_until u then (RESOURCE_EXHAUSTED, u)
         else
           case ser log_request of
             None \<Rightarrow> (INVALID_ARGUMENT, u)
           | Some body \<Rightarrow>
               let u = u\<lparr>bytes_uploaded_metrics := (UploadAttempted, length body) # bytes_uploaded_metrics u\<rparr>;
                   (response, u) = PostSync log_request u
               in case response of
                    PostError status \<Rightarrow> (status, u)
                  | Response http_code wait_millis \<Rightarrow>
                      if http_code \<noteq> 200 then (http_status http_code, u)
                      else
                        let u = u\<lparr>bytes_uploaded_metrics := (UploadSucceeded, length body) # bytes_uploaded_metrics u\<rparr>
                        in case wait_millis of
                             None \<Rightarrow> (OK, u)
                           | Some w \<Rightarrow>
                               if w \<ge> 0 then let (now, u) = steady_now u in (OK, u\<lparr>pause_uploads_until := now + w\<rparr>)
                               else (OK, u))"

definition permanent_error :: "StatusCode \<Rightarrow> bool" where
  "permanent_error c \<longleftrightarrow> c \<in> {INVALID_ARGUMENT, NOT_FOUND, PERMISSION_DENIED}"

text \<open>The waiting between two tries.\<close>

definition back_off :: "int \<Rightarrow> 'r ClearcutUploader \<Rightarrow> 'r ClearcutUploader" where
  "back_off backoff u =
     (let (now, u) = steady_now u; time_until_pause_end = pause_uploads_until u - now
      in if time_until_pause_end > backoff then sleep_for time_until_pause_end u else sleep_for backoff u)"

text \<open>The deadline is \<open>None\<close> for \<open>time_point::max()\<close>.\<close>

partial_function (option) upload_loop ::
  "('r \<Rightarrow> bytes option) \<Rightarrow> 'r \<Rightarrow> int \<Rightarrow> int option \<Rightarrow> int \<Rightarrow> int \<Rightarrow> 'r ClearcutUploader \<Rightarrow> (StatusCode \<times> 'r ClearcutUploader) option" where
  "upload_loop ser log_request max_retries deadline i backoff u =
     (case TryUploadEvents ser log_request u of
        (response, u) \<Rightarrow>
          if response = OK \<or> i + 1 = max_retries then Some (response, u)
          else if permanent_error response then Some (response, u)
          else
            (case steady_now u of
               (now, u) \<Rightarrow>
                 if (case deadline of None \<Rightarrow> False | Some d \<Rightarrow> now > d) then Some (DEADLINE_EXCEEDED, u)
                 else upload_loop ser log_request max_retries deadline (i + 1) (backoff * 2) (back_off backoff u)))"

definition UploadEvents :: "('r \<Rightarrow> bytes option) \<Rightarrow> 'r \<Rightarrow> int \<Rightarrow> 'r ClearcutUploader \<Rightarrow> (StatusCode \<times> 'r ClearcutUploader) option" where
  "UploadEvents ser log_request max_retries u =
     (let (deadline, u) =
        (if upload_timeout u > 0 then let (now, u) = steady_now u in (Some (now + upload_timeout u), u) else (None, u))
      in upload_loop ser log_request max_retries deadline 0 (initial_backoff u) u)"

section \<open>Facts\<close>

definition real_outcome :: "PostOutcome \<Rightarrow> bool" where
  "real_outcome p \<longleftrightarrow> p \<noteq> PostError OK"

lemma steady_now_sel:
  assumes "steady_now u = (t, u')"
  shows "posts u' = posts u" "outcomes u' = outcomes u" "slept u' = slept u" "pause_uploads_until u' = pause_uploads_until u"
    "upload_timeout u' = upload_timeout u" "initial_backoff u' = initial_backoff u"
  using assms by (auto simp: steady_now_def split: list.splits)

lemma http_status_OK [simp]: "http_status c \<noteq> OK"
  by (simp add: http_status_def)

text \<open>A try posts the request at most once, and reports success only for a response with code 200.\<close>

lemma TryUploadEvents_posts:
  assumes "TryUploadEvents ser req u = (st, u')" and real: "\<forall>x \<in> set (outcomes u). real_outcome x"
  shows "\<exists>ps. posts u' = ps @ posts u \<and> length ps \<le> 1 \<and> (\<forall>p \<in> set ps. fst p = req) \<and>
      (st = OK \<longrightarrow> (\<exists>w. (req, Response 200 w) \<in> set ps))"
    and "\<forall>x \<in> set (outcomes u'). real_outcome x" and "slept u' = slept u" and "upload_timeout u' = upload_timeout u"
    and "initial_backoff u' = initial_backoff u"
proof -
  obtain t u1 where t: "steady_now u = (t, u1)" by force
  note s = steady_now_sel [OF t]
  define out where "out = (case outcomes u1 of [] \<Rightarrow> PostError UNAVAILABLE | x # xs \<Rightarrow> x)"
  have ro: "real_outcome out" "\<forall>x \<in> set (tl (outcomes u1)). real_outcome x"
    using real by (cases "outcomes u1"; auto simp: out_def real_outcome_def s)+
  have ps: "PostSync req v = (out, v\<lparr>outcomes := tl (outcomes u1), posts := (req, out) # posts v\<rparr>)"
    if "outcomes v = outcomes u1" for v
    using that by (auto simp: PostSync_def out_def split: list.splits)
  have "(\<exists>ps. posts u' = ps @ posts u \<and> length ps \<le> 1 \<and> (\<forall>p \<in> set ps. fst p = req) \<and>
      (st = OK \<longrightarrow> (\<exists>w. (req, Response 200 w) \<in> set ps))) \<and> (\<forall>x \<in> set (outcomes u'). real_outcome x) \<and>
      slept u' = slept u \<and> upload_timeout u' = upload_timeout u \<and> initial_backoff u' = initial_backoff u"
  proof (cases "t < pause_uploads_until u1 \<or> ser req = None")
    case True
    with assms(1) t have "u' = u1" "st \<noteq> OK" by (auto simp: TryUploadEvents_def split: if_splits option.splits)
    with s real show ?thesis by auto
  next
    case False
    then obtain body where body: "ser req = Some body" by auto
    have "posts u' = (req, out) # posts u1 \<and> outcomes u' = tl (outcomes u1) \<and> slept u' = slept u1 \<and>
      upload_timeout u' = upload_timeout u1 \<and> initial_backoff u' = initial_backoff u1 \<and>
      (st = OK \<longrightarrow> (\<exists>w. out = Response 200 w))"
      using assms(1) t False body ro(1)
      by (auto simp: TryUploadEvents_def ps real_outcome_def Let_def steady_now_def
          split: PostOutcome.splits if_splits option.splits list.splits)
    with s ro(2) show ?thesis by auto
  qed
  then show "\<exists>ps. posts u' = ps @ posts u \<and> length ps \<le> 1 \<and> (\<forall>p \<in> set ps. fst p = req) \<and>
      (st = OK \<longrightarrow> (\<exists>w. (req, Response 200 w) \<in> set ps))"
    "\<forall>x \<in> set (outcomes u'). real_outcome x" "slept u' = slept u" "upload_timeout u' = upload_timeout u"
    "initial_backoff u' = initial_backoff u" by blast+
qed


lemma back_off_sel:
  "posts (back_off d u) = posts u" "outcomes (back_off d u) = outcomes u" "upload_timeout (back_off d u) = upload_timeout u"
  "initial_backoff (back_off d u) = initial_backoff u" "\<exists>e. slept (back_off d u) = e # slept u \<and> d \<le> e"
  using steady_now_sel [of u "fst (steady_now u)" "snd (steady_now u)"]
  by (auto simp: back_off_def sleep_for_def Let_def split: prod.splits)

lemma upload_loop_result:
  assumes "i < max_retries" and "\<forall>x \<in> set (outcomes u). real_outcome x"
  shows "\<exists>st u' ps ds. upload_loop ser req max_retries deadline i backoff u = Some (st, u') \<and>
    posts u' = ps @ posts u \<and> int (length ps) \<le> max_retries - i \<and> (\<forall>p \<in> set ps. fst p = req) \<and>
    (st = OK \<longrightarrow> (\<exists>w. (req, Response 200 w) \<in> set ps)) \<and> (\<forall>x \<in> set (outcomes u'). real_outcome x) \<and>
    slept u' = rev ds @ slept u \<and> int (length ds) < max_retries - i \<and> (\<forall>k < length ds. backoff * 2 ^ k \<le> ds ! k)"
  using assms
proof (induction "nat (max_retries - i)" arbitrary: i backoff u)
  case 0
  then show ?case by simp
next
  case (Suc n)
  obtain st u1 where t: "TryUploadEvents ser req u = (st, u1)" by force
  note t1 = TryUploadEvents_posts [OF t Suc.prems(2)]
  from t1(1) obtain ps where ps: "posts u1 = ps @ posts u" "length ps \<le> 1" "\<forall>p \<in> set ps. fst p = req"
    "st = OK \<longrightarrow> (\<exists>w. (req, Response 200 w) \<in> set ps)" by blast
  obtain now u2 where nw: "steady_now u1 = (now, u2)" by force
  note n1 = steady_now_sel [OF nw]
  have unf: "upload_loop ser req max_retries deadline i backoff u =
    (if st = OK \<or> i + 1 = max_retries then Some (st, u1)
     else if permanent_error st then Some (st, u1)
     else if (case deadline of None \<Rightarrow> False | Some d \<Rightarrow> now > d) then Some (DEADLINE_EXCEEDED, u2)
     else upload_loop ser req max_retries deadline (i + 1) (backoff * 2) (back_off backoff u2))"
    by (subst upload_loop.simps) (simp add: t nw)
  show ?case
  proof (cases "st = OK \<or> i + 1 = max_retries \<or> permanent_error st \<or> (case deadline of None \<Rightarrow> False | Some d \<Rightarrow> now > d)")
    case True
    then have "\<exists>st' u'. upload_loop ser req max_retries deadline i backoff u = Some (st', u') \<and> posts u' = posts u1 \<and>
      outcomes u' = outcomes u1 \<and> slept u' = slept u1 \<and> (st' = OK \<longrightarrow> st = OK)"
      unfolding unf using n1 by auto
    with ps t1(2,3) Suc.prems(1) show ?thesis
      by (auto intro!: exI [of _ ps] exI [of _ "[]"])
  next
    case False
    define v where "v = back_off backoff u2"
    have v: "posts v = posts u1" "outcomes v = outcomes u1"
      using back_off_sel(1,2) [of backoff u2] n1 by (simp_all add: v_def)
    obtain e where e: "slept v = e # slept u" "backoff \<le> e"
      using back_off_sel(5) [of backoff u2] n1 t1(3) by (auto simp: v_def)
    have "n = nat (max_retries - (i + 1))" "i + 1 < max_retries" using Suc.hyps(2) Suc.prems(1) False by auto
    from Suc.hyps(1) [OF this, of v "backoff * 2"] t1(2) v(2) obtain st' u' qs ds where r:
      "upload_loop ser req max_retries deadline (i + 1) (backoff * 2) v = Some (st', u')"
      "posts u' = qs @ posts v" "int (length qs) \<le> max_retries - (i + 1)" "\<forall>p \<in> set qs. fst p = req"
      "st' = OK \<longrightarrow> (\<exists>w. (req, Response 200 w) \<in> set qs)" "\<forall>x \<in> set (outcomes u'). real_outcome x"
      "slept u' = rev ds @ slept v" "int (length ds) < max_retries - (i + 1)" "\<forall>k < length ds. backoff * 2 * 2 ^ k \<le> ds ! k"
      by metis
    have "\<forall>k < length (e # ds). backoff * 2 ^ k \<le> (e # ds) ! k"
      using r(9) e(2) by (auto simp: less_Suc_eq_0_disj mult.assoc)
    moreover have "upload_loop ser req max_retries deadline i backoff u = Some (st', u')"
      unfolding unf using False r(1) by (simp add: v_def)
    ultimately show ?thesis
      using r ps v e(1) by (intro exI [of _ st'] exI [of _ u'] exI [of _ "qs @ ps"] exI [of _ "e # ds"]) auto
  qed
qed

lemma UploadEvents_result:
  assumes "1 \<le> max_retries" and "\<forall>x \<in> set (outcomes u). real_outcome x"
  shows "\<exists>st u' ps ds. UploadEvents ser req max_retries u = Some (st, u') \<and>
    posts u' = ps @ posts u \<and> int (length ps) \<le> max_retries \<and> (\<forall>p \<in> set ps. fst p = req) \<and>
    (st = OK \<longrightarrow> (\<exists>w. (req, Response 200 w) \<in> set ps)) \<and> (\<forall>x \<in> set (outcomes u'). real_outcome x) \<and>
    slept u' = rev ds @ slept u \<and> int (length ds) < max_retries \<and> (\<forall>k < length ds. initial_backoff u * 2 ^ k \<le> ds ! k)"
proof -
  define p where "p = (if upload_timeout u > 0 then let (now, u) = steady_now u in (Some (now + upload_timeout u), u) else (None, u))"
  have p: "posts (snd p) = posts u" "outcomes (snd p) = outcomes u" "slept (snd p) = slept u"
    "initial_backoff (snd p) = initial_backoff u"
    using steady_now_sel [of u "fst (steady_now u)" "snd (steady_now u)"] by (auto simp: p_def split: prod.splits)
  have "UploadEvents ser req max_retries u = upload_loop ser req max_retries (fst p) 0 (initial_backoff u) (snd p)"
    using p by (simp add: UploadEvents_def p_def [symmetric] split_def Let_def)
  with upload_loop_result [of 0 max_retries "snd p" ser req "fst p" "initial_backoff u"] assms p show ?thesis by auto
qed

section \<open>Properties\<close>



text \<open>A permanent error (invalid argument, not found, permission denied) ends the upload after the try that met it.\<close>

theorem permanent_error_not_retried:
  assumes "TryUploadEvents ser req u = (st, u')" and "permanent_error st"
  shows "upload_loop ser req max_retries deadline i backoff u = Some (st, u')"
  using assms by (subst upload_loop.simps) (simp add: permanent_error_def)

theorem permanent_error_not_retried_witness:
  "\<exists>u'. upload_loop (\<lambda>r. None) (5 :: nat) 8 None 0 250 \<lparr>upload_timeout = 0, initial_backoff = 250, clock = 0, ticks = [],
     pause_uploads_until = 0, outcomes = [], posts = [], slept = [], bytes_uploaded_metrics = []\<rparr> = Some (INVALID_ARGUMENT, u')"
  using permanent_error_not_retried [of "\<lambda>r. None" "5 :: nat" "\<lparr>upload_timeout = 0, initial_backoff = 250, clock = 0, ticks = [],
     pause_uploads_until = 0, outcomes = [], posts = [], slept = [], bytes_uploaded_metrics = []\<rparr>" INVALID_ARGUMENT]
  by (auto simp: TryUploadEvents_def steady_now_def permanent_error_def)

end
