(* ===== verification/Envelope_Maker.thy ===== *)
theory Envelope_Maker
  imports Observation_Store
begin

text \<open>
  The in-memory envelope: \<^verbatim>\<open>src/src/observation_store/envelope_maker.cc\<close> and \<^verbatim>\<open>.h\<close>. The serialised size
  of an observation (\<open>ByteSizeLong\<close>) and the serialisation of the metadata (\<open>SerializeToString\<close>) are
  protobuf code: the parameters \<open>size_of\<close> and \<open>ser\<close>. The \<open>unordered_map\<close> of batches is an association list
  in its iteration order. The member \<open>envelope_\<close> only holds the last result of \<open>GetEnvelope\<close>, which clears
  it first, and is not part of the state. Sizes are natural numbers: the sum of the sizes of objects in
  memory does not exceed \<open>size_t\<close>.
\<close>

section \<open>Operations\<close>

type_synonym 'o batch_map = "(u8 list \<times> 'o StoredObservationBatch) list"

record 'o EnvelopeMaker =
  batch_map :: "'o batch_map"
  num_bytes :: nat
  max_bytes_each_observation :: nat
  max_num_bytes :: nat

definition EnvelopeMaker_ctor :: "nat \<Rightarrow> nat \<Rightarrow> 'o EnvelopeMaker" where
  "EnvelopeMaker_ctor per_observation per_envelope =
     \<lparr>batch_map = [], num_bytes = 0, max_bytes_each_observation = per_observation, max_num_bytes = per_envelope\<rparr>"

definition CanAddObservation :: "('o StoredObservation \<Rightarrow> nat) \<Rightarrow> 'o StoredObservation \<Rightarrow> 'o EnvelopeMaker \<Rightarrow> StoreStatus" where
  "CanAddObservation size_of obs e =
     (let obs_size = size_of obs
      in if obs_size > max_bytes_each_observation e then kObservationTooBig
         else let new_num_bytes = num_bytes e + obs_size
              in if new_num_bytes > max_num_bytes e then kStoreFull else kOk)"

text \<open>\<open>GetBatch\<close> creates the batch when the metadata is new; \<open>add_observation\<close> then appends to it.\<close>

definition GetBatch :: "(ObservationMetadata \<Rightarrow> u8 list) \<Rightarrow> ObservationMetadata \<Rightarrow> 'o batch_map \<Rightarrow> 'o batch_map \<times> 'o StoredObservationBatch" where
  "GetBatch ser metadata m =
     (case map_of m (ser metadata) of
        Some b \<Rightarrow> (m, b)
      | None \<Rightarrow> (let b = \<lparr>meta_data = metadata, observation = []\<rparr> in (map_set (ser metadata) b m, b)))"

definition EnvelopeMaker_StoreObservation ::
  "('o StoredObservation \<Rightarrow> nat) \<Rightarrow> (ObservationMetadata \<Rightarrow> u8 list) \<Rightarrow> 'o StoredObservation \<Rightarrow> ObservationMetadata \<Rightarrow> 'o EnvelopeMaker \<Rightarrow> StoreStatus \<times> 'o EnvelopeMaker" where
  "EnvelopeMaker_StoreObservation size_of ser obs metadata e =
     (let status = CanAddObservation size_of obs e
      in if status \<noteq> kOk then (status, e)
         else let (m, b) = GetBatch ser metadata (batch_map e)
              in (kOk, e\<lparr>num_bytes := num_bytes e + size_of obs,
                          batch_map := map_set (ser metadata) (b\<lparr>observation := observation b @ [obs]\<rparr>) m\<rparr>))"

text \<open>The batches of the envelope are filled from the last to the first.\<close>

definition EnvelopeMaker_GetEnvelope :: "('o \<Rightarrow> EncryptedMessage option) \<Rightarrow> 'o EnvelopeMaker \<Rightarrow> Envelope" where
  "EnvelopeMaker_GetEnvelope Encrypt e =
     \<lparr>batch = rev (map (\<lambda>(k, b). \<lparr>batch_meta_data = meta_data b,
                                   encrypted_observation = map (encrypt_on_read Encrypt) (observation b)\<rparr>) (batch_map e)),
      api_key = []\<rparr>"

text \<open>One round of the loop of \<open>MergeWith\<close>: the messages of the other batch are released from its end.\<close>

definition merge_batch :: "'o batch_map \<Rightarrow> u8 list \<times> 'o StoredObservationBatch \<Rightarrow> 'o batch_map" where
  "merge_batch m other_pair =
     (case map_of m (fst other_pair) of
        Some b \<Rightarrow> map_set (fst other_pair) (b\<lparr>observation := observation b @ rev (observation (snd other_pair))\<rparr>) m
      | None \<Rightarrow> map_set (fst other_pair) (snd other_pair) m)"

definition MergeWith :: "'o EnvelopeMaker \<Rightarrow> 'o EnvelopeMaker \<Rightarrow> 'o EnvelopeMaker" where
  "MergeWith e other_envelope =
     e\<lparr>batch_map := foldl merge_batch (batch_map e) (batch_map other_envelope),
       num_bytes := num_bytes e + num_bytes other_envelope\<rparr>"

definition EnvelopeMaker_Empty :: "'o EnvelopeMaker \<Rightarrow> bool" where
  "EnvelopeMaker_Empty e \<longleftrightarrow> batch_map e = []"

definition EnvelopeMaker_Clear :: "'o EnvelopeMaker \<Rightarrow> 'o EnvelopeMaker" where
  "EnvelopeMaker_Clear e = e\<lparr>batch_map := [], num_bytes := 0\<rparr>"

definition EnvelopeMaker_Size :: "'o EnvelopeMaker \<Rightarrow> nat" where
  "EnvelopeMaker_Size e = num_bytes e"

section \<open>The observations in an envelope\<close>

text \<open>The observations of a batch map, each with the serialised metadata of its batch.\<close>

definition batch_items :: "u8 list \<Rightarrow> 'o StoredObservationBatch \<Rightarrow> (u8 list \<times> 'o StoredObservation) multiset" where
  "batch_items k b = image_mset (Pair k) (mset (observation b))"

definition items :: "'o batch_map \<Rightarrow> (u8 list \<times> 'o StoredObservation) multiset" where
  "items m = (\<Sum>(k, b) \<leftarrow> m. batch_items k b)"

definition bytes_of :: "('o StoredObservation \<Rightarrow> nat) \<Rightarrow> (u8 list \<times> 'o StoredObservation) multiset \<Rightarrow> nat" where
  "bytes_of size_of M = (\<Sum>x \<in># M. size_of (snd x))"

definition maker_inv :: "('o StoredObservation \<Rightarrow> nat) \<Rightarrow> (ObservationMetadata \<Rightarrow> u8 list) \<Rightarrow> 'o EnvelopeMaker \<Rightarrow> bool" where
  "maker_inv size_of ser e \<longleftrightarrow>
     distinct_keys (batch_map e) \<and> (\<forall>(k, b) \<in> set (batch_map e). k = ser (meta_data b)) \<and>
     num_bytes e = bytes_of size_of (items (batch_map e))"

lemma items_simps [simp]: "items [] = {#}" "items ((k, b) # m) = batch_items k b + items m"
  by (simp_all add: items_def)

lemma bytes_of_simps [simp]:
  "bytes_of size_of {#} = 0" "bytes_of size_of (M + N) = bytes_of size_of M + bytes_of size_of N"
  "bytes_of size_of (add_mset x M) = size_of (snd x) + bytes_of size_of M"
  by (simp_all add: bytes_of_def)

lemma bytes_of_0: "(\<And>x. x \<in># M \<Longrightarrow> 0 < size_of (snd x)) \<Longrightarrow> bytes_of size_of M = 0 \<longleftrightarrow> M = {#}"
  by (induction M) auto

lemma items_map_set_None: "map_of m k = None \<Longrightarrow> items (map_set k b m) = items m + batch_items k b"
  by (induction m) (auto split: if_splits)

lemma items_map_set_Some:
  "map_of m k = Some b \<Longrightarrow> distinct_keys m \<Longrightarrow>
     items (map_set k b' m) + batch_items k b = items m + batch_items k b'"
  by (induction m) (auto split: if_splits simp: ac_simps)

lemma set_map_set_subset: "set (map_set k b m) \<subseteq> insert (k, b) (set m)"
  by (induction m) auto

lemma merge_batch_items:
  assumes "distinct_keys m"
  shows "items (merge_batch m (k, b)) = items m + batch_items k b"
proof (cases "map_of m k")
  case None
  then show ?thesis by (simp add: merge_batch_def items_map_set_None)
next
  case (Some c)
  from items_map_set_Some [OF this assms, of "c\<lparr>observation := observation c @ rev (observation b)\<rparr>"] Some
  show ?thesis by (simp add: merge_batch_def batch_items_def)
qed

lemma merge_batch_keys:
  assumes "distinct_keys m" and "\<forall>(k, b) \<in> set m. k = ser (meta_data b)" and "k = ser (meta_data b)"
  shows "distinct_keys (merge_batch m (k, b)) \<and> (\<forall>(k, b) \<in> set (merge_batch m (k, b)). k = ser (meta_data b))"
  using assms set_map_set_subset
  by (fastforce simp: merge_batch_def distinct_keys_map_set split: option.splits dest: map_of_SomeD)

lemma foldl_merge_batch:
  assumes "distinct_keys m" and "\<forall>(k, b) \<in> set m. k = ser (meta_data b)"
    and "\<forall>(k, b) \<in> set n. k = ser (meta_data b)"
  shows "distinct_keys (foldl merge_batch m n) \<and> (\<forall>(k, b) \<in> set (foldl merge_batch m n). k = ser (meta_data b)) \<and>
    items (foldl merge_batch m n) = items m + items n"
  using assms
proof (induction n arbitrary: m)
  case (Cons x n)
  obtain k b where x: "x = (k, b)" by force
  with Cons.prems merge_batch_keys [of m ser k b] merge_batch_items [of m k b] Cons.IH [of "merge_batch m x"]
  show ?case by (auto simp: ac_simps)
qed simp

lemma MergeWith_inv:
  assumes "maker_inv size_of ser e" and "maker_inv size_of ser e'"
  shows "maker_inv size_of ser (MergeWith e e') \<and>
    items (batch_map (MergeWith e e')) = items (batch_map e) + items (batch_map e')"
  using assms foldl_merge_batch [of "batch_map e" ser "batch_map e'"]
  by (simp add: maker_inv_def MergeWith_def)

lemma MergeWith_sel [simp]:
  "num_bytes (MergeWith e e') = num_bytes e + num_bytes e'"
  "max_bytes_each_observation (MergeWith e e') = max_bytes_each_observation e"
  "max_num_bytes (MergeWith e e') = max_num_bytes e"
  by (simp_all add: MergeWith_def)

lemma EnvelopeMaker_ctor_inv [simp]:
  "maker_inv size_of ser (EnvelopeMaker_ctor a b)" "items (batch_map (EnvelopeMaker_ctor a b)) = {#}"
  "num_bytes (EnvelopeMaker_ctor a b) = 0" "max_bytes_each_observation (EnvelopeMaker_ctor a b) = a"
  "max_num_bytes (EnvelopeMaker_ctor a b) = b"
  by (simp_all add: maker_inv_def EnvelopeMaker_ctor_def)

lemma GetBatch_result:
  assumes "GetBatch ser metadata m = (m', b)" and "distinct_keys m" and "\<forall>(k, b) \<in> set m. k = ser (meta_data b)"
  shows "distinct_keys m'" and "map_of m' (ser metadata) = Some b" and "ser (meta_data b) = ser metadata"
    and "items m' = items m" and "\<forall>(k, b) \<in> set m'. k = ser (meta_data b)"
proof -
  have "distinct_keys m' \<and> map_of m' (ser metadata) = Some b \<and> ser (meta_data b) = ser metadata \<and>
    items m' = items m \<and> (\<forall>(k, b) \<in> set m'. k = ser (meta_data b))"
  proof (cases "map_of m (ser metadata)")
    case None
    then have "m' = map_set (ser metadata) b m" "b = \<lparr>meta_data = metadata, observation = []\<rparr>"
      using assms(1) by (auto simp: GetBatch_def Let_def)
    then show ?thesis
      using None assms(2,3) set_map_set_subset [of "ser metadata" b m]
      by (auto simp: distinct_keys_map_set items_map_set_None batch_items_def)
  next
    case (Some c)
    with assms show ?thesis by (auto simp: GetBatch_def dest: map_of_SomeD)
  qed
  then show "distinct_keys m'" "map_of m' (ser metadata) = Some b" "ser (meta_data b) = ser metadata"
    "items m' = items m" "\<forall>(k, b) \<in> set m'. k = ser (meta_data b)" by simp_all
qed

lemma EnvelopeMaker_StoreObservation_inv:
  assumes inv: "maker_inv size_of ser e" and "EnvelopeMaker_StoreObservation size_of ser obs metadata e = (kOk, e')"
  shows "maker_inv size_of ser e'"
    and "items (batch_map e') = add_mset (ser metadata, obs) (items (batch_map e))"
    and "num_bytes e' = num_bytes e + size_of obs" and "num_bytes e' \<le> max_num_bytes e"
    and "size_of obs \<le> max_bytes_each_observation e"
    and "max_num_bytes e' = max_num_bytes e" and "max_bytes_each_observation e' = max_bytes_each_observation e"
proof -
  obtain m b where mb: "GetBatch ser metadata (batch_map e) = (m, b)" by force
  let ?b = "b\<lparr>observation := observation b @ [obs]\<rparr>"
  have can: "CanAddObservation size_of obs e = kOk"
    using assms(2) by (auto simp: EnvelopeMaker_StoreObservation_def Let_def split: if_splits)
  have e': "e' = e\<lparr>num_bytes := num_bytes e + size_of obs, batch_map := map_set (ser metadata) ?b m\<rparr>"
    using assms(2) can mb by (simp add: EnvelopeMaker_StoreObservation_def)
  have k: "distinct_keys (batch_map e)" "\<forall>(k, b) \<in> set (batch_map e). k = ser (meta_data b)"
    using inv by (simp_all add: maker_inv_def)
  note m = GetBatch_result [OF mb k]
  have "items (map_set (ser metadata) ?b m) + batch_items (ser metadata) b = items m + batch_items (ser metadata) ?b"
    by (rule items_map_set_Some [OF m(2,1)])
  then show it: "items (batch_map e') = add_mset (ser metadata, obs) (items (batch_map e))"
    using m by (simp add: e' batch_items_def)
  have "\<forall>(k, b) \<in> set (map_set (ser metadata) ?b m). k = ser (meta_data b)"
    using m(3,5) set_map_set_subset [of "ser metadata" ?b m] by auto
  moreover have "num_bytes e' = bytes_of size_of (items (batch_map e'))"
    unfolding it using inv by (simp add: e' maker_inv_def)
  ultimately show "maker_inv size_of ser e'"
    using distinct_keys_map_set [OF m(1)] by (simp add: maker_inv_def e')
  show "num_bytes e' = num_bytes e + size_of obs" "num_bytes e' \<le> max_num_bytes e"
    "size_of obs \<le> max_bytes_each_observation e"
    "max_num_bytes e' = max_num_bytes e" "max_bytes_each_observation e' = max_bytes_each_observation e"
    using can by (simp_all add: e' CanAddObservation_def Let_def split: if_splits)
qed

lemma EnvelopeMaker_StoreObservation_error:
  assumes "EnvelopeMaker_StoreObservation size_of ser obs metadata e = (status, e')" and "status \<noteq> kOk"
  shows "e' = e" and "status = CanAddObservation size_of obs e"
  using assms by (auto simp: EnvelopeMaker_StoreObservation_def Let_def split: if_splits prod.splits)

text \<open>The messages of an envelope with their serialised metadata.\<close>

definition envelope_items :: "(ObservationMetadata \<Rightarrow> u8 list) \<Rightarrow> Envelope \<Rightarrow> (u8 list \<times> EncryptedMessage) multiset" where
  "envelope_items ser env =
     (\<Sum>b \<leftarrow> batch env. image_mset (Pair (ser (batch_meta_data b))) (mset (encrypted_observation b)))"

lemma GetEnvelope_items:
  assumes "maker_inv size_of ser e"
  shows "envelope_items ser (EnvelopeMaker_GetEnvelope Encrypt e) =
    image_mset (\<lambda>(k, obs). (k, encrypt_on_read Encrypt obs)) (items (batch_map e))"
proof -
  have "\<forall>(k, b) \<in> set m. k = ser (meta_data b) \<Longrightarrow>
    (\<Sum>(k, b) \<leftarrow> m. image_mset (Pair (ser (meta_data b))) (mset (map (encrypt_on_read Encrypt) (observation b)))) =
    image_mset (\<lambda>(k, obs). (k, encrypt_on_read Encrypt obs)) (items m)" for m
    by (induction m) (auto simp: batch_items_def multiset.map_comp comp_def)
  with assms show ?thesis
    by (simp add: envelope_items_def EnvelopeMaker_GetEnvelope_def maker_inv_def rev_map [symmetric] sum_list_rev
        comp_def split_def)
qed

section \<open>Properties\<close>

text \<open>An observation that \<open>StoreObservation\<close> accepts is delivered by \<open>GetEnvelope\<close>, encrypted and under its
  metadata, together with everything that was delivered before; the size grows by the size of the
  observation and stays within the maximum.\<close>

theorem stored_observation_is_delivered:
  assumes "maker_inv size_of ser e"
    and "EnvelopeMaker_StoreObservation size_of ser obs metadata e = (kOk, e')"
  shows "envelope_items ser (EnvelopeMaker_GetEnvelope Encrypt e') =
      add_mset (ser metadata, encrypt_on_read Encrypt obs) (envelope_items ser (EnvelopeMaker_GetEnvelope Encrypt e)) \<and>
    EnvelopeMaker_Size e' = EnvelopeMaker_Size e + size_of obs \<and> EnvelopeMaker_Size e' \<le> max_num_bytes e"
  using EnvelopeMaker_StoreObservation_inv [OF assms] assms
  by (simp add: GetEnvelope_items EnvelopeMaker_Size_def)

theorem stored_observation_is_delivered_witness:
  "EnvelopeMaker_Size (snd (EnvelopeMaker_StoreObservation (\<lambda>_. 7) (\<lambda>_. [9]) (unencrypted True) example_metadata
    (EnvelopeMaker_ctor 10 20))) = 7"
  using stored_observation_is_delivered [of "\<lambda>_. 7" "\<lambda>_. [9]" "EnvelopeMaker_ctor 10 20" "unencrypted True" example_metadata]
  by (simp add: EnvelopeMaker_StoreObservation_def CanAddObservation_def GetBatch_def EnvelopeMaker_Size_def split: prod.splits option.splits)

end
