(* ===== verification/Memory_Observation_Store.thy ===== *)
theory Memory_Observation_Store
  imports Envelope_Maker
begin

text \<open>
  The store that keeps its observations in memory: \<^verbatim>\<open>src/src/observation_store/memory_observation_store.cc\<close>
  and \<^verbatim>\<open>.h\<close>. The operations run under the store's mutex, so each is one step on the state. The theory
  interprets the contract of \<open>Observation_Store\<close>: no observation is lost or duplicated between the store and
  the holders taken from it.
\<close>

section \<open>Operations\<close>

record 'o MemoryObservationStore = ObservationStore +
  envelope_send_threshold_size :: nat
  current_envelope :: "'o EnvelopeMaker"
  finalized_envelopes :: "'o EnvelopeMaker list"
  finalized_envelopes_size :: nat

definition NewEnvelopeMaker :: "'o MemoryObservationStore \<Rightarrow> 'o EnvelopeMaker" where
  "NewEnvelopeMaker s = EnvelopeMaker_ctor (max_bytes_per_observation s) (max_bytes_per_envelope s)"

definition MemoryObservationStore_ctor :: "nat \<Rightarrow> nat \<Rightarrow> nat \<Rightarrow> 'o MemoryObservationStore option" where
  "MemoryObservationStore_ctor per_observation per_envelope bytes_total =
     map_option (\<lambda>base. ObservationStore.extend base
        (MemoryObservationStore.fields (percent60 per_envelope) (EnvelopeMaker_ctor per_observation per_envelope) [] 0))
       (ObservationStore_ctor per_observation per_envelope bytes_total)"

definition SizeLocked :: "'o MemoryObservationStore \<Rightarrow> nat" where
  "SizeLocked s = EnvelopeMaker_Size (current_envelope s) + finalized_envelopes_size s"

definition AddEnvelopeToSend :: "'o EnvelopeMaker \<Rightarrow> bool \<Rightarrow> 'o MemoryObservationStore \<Rightarrow> 'o MemoryObservationStore" where
  "AddEnvelopeToSend holder back s =
     s\<lparr>finalized_envelopes_size := finalized_envelopes_size s + EnvelopeMaker_Size holder,
       finalized_envelopes := (if back then finalized_envelopes s @ [holder] else holder # finalized_envelopes s)\<rparr>"

definition Memory_StoreObservation ::
  "('o StoredObservation \<Rightarrow> nat) \<Rightarrow> (ObservationMetadata \<Rightarrow> u8 list) \<Rightarrow> 'o StoredObservation \<Rightarrow> ObservationMetadata \<Rightarrow> 'o MemoryObservationStore \<Rightarrow> StoreStatus \<times> 'o MemoryObservationStore" where
  "Memory_StoreObservation size_of ser obs metadata s =
     (if is_disabled s then (kOk, s)
      else
        let s = BytesStored Attempted (SizeLocked s) metadata s
        in if SizeLocked s > max_bytes_total s then (kStoreFull, s)
           else
             let status_peek = CanAddObservation size_of obs (current_envelope s);
                 s = (if status_peek = kStoreFull
                      then (AddEnvelopeToSend (current_envelope s) True s)\<lparr>current_envelope := NewEnvelopeMaker s\<rparr>
                      else s);
                 (status, e) = EnvelopeMaker_StoreObservation size_of ser obs metadata (current_envelope s);
                 s = s\<lparr>current_envelope := e\<rparr>
             in if status = kOk
                then (status, let s = count_observation (report_id metadata) s
                              in BytesStored Succeeded (SizeLocked s) metadata s)
                else (status, s))"

text \<open>The front of the deque exists whenever the function is called; the first argument is its value.\<close>

definition TakeOldestEnvelopeHolderLocked :: "'o MemoryObservationStore \<Rightarrow> ('o EnvelopeMaker \<times> 'o MemoryObservationStore) option" where
  "TakeOldestEnvelopeHolderLocked s =
     (case finalized_envelopes s of
        [] \<Rightarrow> None
      | retval # rest \<Rightarrow>
          Some (retval,
            s\<lparr>finalized_envelopes := rest,
              finalized_envelopes_size :=
                (if EnvelopeMaker_Size retval > finalized_envelopes_size s then 0
                 else finalized_envelopes_size s - EnvelopeMaker_Size retval)\<rparr>))"

function take_finalized :: "'o EnvelopeMaker \<Rightarrow> nat \<Rightarrow> 'o MemoryObservationStore \<Rightarrow> 'o EnvelopeMaker \<times> nat \<times> 'o MemoryObservationStore" where
  "take_finalized retval retval_size s =
     (case finalized_envelopes s of
        [] \<Rightarrow> (retval, retval_size, s)
      | front # _ \<Rightarrow>
          if retval_size = 0 \<or> retval_size + EnvelopeMaker_Size front \<le> max_bytes_per_envelope s
          then (case TakeOldestEnvelopeHolderLocked s of
                  Some (oldest, s') \<Rightarrow>
                    let retval = MergeWith retval oldest in take_finalized retval (EnvelopeMaker_Size retval) s'
                | None \<Rightarrow> (retval, retval_size, s))
          else (retval, retval_size, s))"
  by pat_completeness auto
termination
  by (relation "measure (\<lambda>(r, n, s). length (finalized_envelopes s))")
    (auto simp: TakeOldestEnvelopeHolderLocked_def)

declare take_finalized.simps [simp del]

definition Memory_TakeNextEnvelopeHolder :: "'o MemoryObservationStore \<Rightarrow> 'o EnvelopeMaker option \<times> 'o MemoryObservationStore" where
  "Memory_TakeNextEnvelopeHolder s =
     (let (retval, retval_size, s) = take_finalized (NewEnvelopeMaker s) 0 s;
          (retval, s) =
            (if retval_size + EnvelopeMaker_Size (current_envelope s) \<le> max_bytes_per_envelope s
             then (MergeWith retval (current_envelope s), s\<lparr>current_envelope := NewEnvelopeMaker s\<rparr>)
             else (retval, s))
      in if EnvelopeMaker_Size retval = 0 then (None, s) else (Some retval, s))"

definition Memory_ReturnEnvelopeHolder :: "'o EnvelopeMaker \<Rightarrow> 'o MemoryObservationStore \<Rightarrow> 'o MemoryObservationStore" where
  "Memory_ReturnEnvelopeHolder envelope s = AddEnvelopeToSend envelope True s"

definition Memory_Size :: "'o MemoryObservationStore \<Rightarrow> nat" where
  "Memory_Size s = SizeLocked s"

definition Memory_Empty :: "'o MemoryObservationStore \<Rightarrow> bool" where
  "Memory_Empty s \<longleftrightarrow> EnvelopeMaker_Empty (current_envelope s) \<and> finalized_envelopes s = []"

definition Memory_DeleteData :: "'o MemoryObservationStore \<Rightarrow> 'o MemoryObservationStore" where
  "Memory_DeleteData s =
     s\<lparr>current_envelope := NewEnvelopeMaker s, finalized_envelopes := [], finalized_envelopes_size := 0\<rparr>"

text \<open>Destroying an in-memory holder frees it and leaves the store alone.\<close>

definition Memory_destroy :: "'o EnvelopeMaker \<Rightarrow> 'o MemoryObservationStore \<Rightarrow> 'o MemoryObservationStore" where
  "Memory_destroy h s = s"

section \<open>Invariant and contents\<close>

definition maker_ok :: "('o StoredObservation \<Rightarrow> nat) \<Rightarrow> (ObservationMetadata \<Rightarrow> u8 list) \<Rightarrow> 'o EnvelopeMaker \<Rightarrow> bool" where
  "maker_ok size_of ser e \<longleftrightarrow>
     maker_inv size_of ser e \<and> (\<forall>x \<in># items (batch_map e). 0 < size_of (snd x))"

definition memory_inv :: "('o StoredObservation \<Rightarrow> nat) \<Rightarrow> (ObservationMetadata \<Rightarrow> u8 list) \<Rightarrow> 'o MemoryObservationStore \<Rightarrow> bool" where
  "memory_inv size_of ser s \<longleftrightarrow>
     max_bytes_per_observation s \<le> max_bytes_per_envelope s \<and>
     maker_ok size_of ser (current_envelope s) \<and>
     max_bytes_each_observation (current_envelope s) = max_bytes_per_observation s \<and>
     max_num_bytes (current_envelope s) = max_bytes_per_envelope s \<and>
     num_bytes (current_envelope s) \<le> max_bytes_per_envelope s \<and>
     (\<forall>e \<in> set (finalized_envelopes s). maker_ok size_of ser e \<and> 0 < num_bytes e) \<and>
     finalized_envelopes_size s = (\<Sum>e \<leftarrow> finalized_envelopes s. num_bytes e)"

definition finalized_items :: "'o EnvelopeMaker list \<Rightarrow> (u8 list \<times> 'o StoredObservation) multiset" where
  "finalized_items es = (\<Sum>e \<leftarrow> es. items (batch_map e))"

definition memory_contents :: "'o MemoryObservationStore \<Rightarrow> (u8 list \<times> 'o StoredObservation) multiset" where
  "memory_contents s = items (batch_map (current_envelope s)) + finalized_items (finalized_envelopes s)"

definition memory_held :: "'o MemoryObservationStore \<Rightarrow> 'o EnvelopeMaker \<Rightarrow> (u8 list \<times> 'o StoredObservation) multiset" where
  "memory_held s h = items (batch_map h)"

definition memory_owned :: "('o StoredObservation \<Rightarrow> nat) \<Rightarrow> (ObservationMetadata \<Rightarrow> u8 list) \<Rightarrow> 'o MemoryObservationStore \<Rightarrow> 'o EnvelopeMaker \<Rightarrow> bool" where
  "memory_owned size_of ser s h \<longleftrightarrow> maker_ok size_of ser h \<and> 0 < num_bytes h"

definition memory_rank :: "'o MemoryObservationStore \<Rightarrow> nat" where
  "memory_rank s = length (finalized_envelopes s) + (if 0 < num_bytes (current_envelope s) then 1 else 0)"

lemma finalized_items_simps [simp]:
  "finalized_items [] = {#}" "finalized_items (e # es) = items (batch_map e) + finalized_items es"
  "finalized_items (es @ es') = finalized_items es + finalized_items es'"
  by (simp_all add: finalized_items_def)

lemma maker_ok_ctor [simp]: "maker_ok size_of ser (EnvelopeMaker_ctor a b)"
  by (simp add: maker_ok_def)

lemma maker_ok_merge:
  "maker_ok size_of ser e \<Longrightarrow> maker_ok size_of ser e' \<Longrightarrow>
     maker_ok size_of ser (MergeWith e e') \<and>
     items (batch_map (MergeWith e e')) = items (batch_map e) + items (batch_map e')"
  using MergeWith_inv [of size_of ser e e'] by (auto simp: maker_ok_def)

lemma maker_ok_empty: "maker_ok size_of ser e \<Longrightarrow> num_bytes e = 0 \<longleftrightarrow> items (batch_map e) = {#}"
  using bytes_of_0 [of "items (batch_map e)" size_of] by (auto simp: maker_ok_def maker_inv_def)

lemma Memory_destroy_inv: "memory_inv size_of ser s \<Longrightarrow> memory_inv size_of ser (Memory_destroy h s)"
  by (simp add: Memory_destroy_def)

lemma AddEnvelopeToSend_inv:
  assumes "memory_inv size_of ser s" and "maker_ok size_of ser h" and "0 < num_bytes h"
  shows "memory_inv size_of ser (AddEnvelopeToSend h b s) \<and>
    memory_contents (AddEnvelopeToSend h b s) = memory_contents s + items (batch_map h) \<and>
    memory_rank (AddEnvelopeToSend h b s) = Suc (memory_rank s)"
  using assms
  by (auto simp: memory_inv_def AddEnvelopeToSend_def EnvelopeMaker_Size_def memory_contents_def memory_rank_def)

text \<open>The loop that merges finalized envelopes.\<close>

lemma take_finalized_result:
  assumes "take_finalized r n s = (r', n', s')" and "maker_ok size_of ser r" and "n = num_bytes r"
    and "memory_inv size_of ser s"
  shows "maker_ok size_of ser r' \<and> n' = num_bytes r' \<and> memory_inv size_of ser s' \<and>
    current_envelope s' = current_envelope s \<and> ObservationStore.truncate s' = ObservationStore.truncate s \<and>
    items (batch_map r') + finalized_items (finalized_envelopes s') =
      items (batch_map r) + finalized_items (finalized_envelopes s) \<and>
    length (finalized_envelopes s') \<le> length (finalized_envelopes s) \<and> num_bytes r \<le> num_bytes r' \<and>
    (finalized_envelopes s \<noteq> [] \<and> num_bytes r = 0 \<longrightarrow>
       0 < num_bytes r' \<and> length (finalized_envelopes s') < length (finalized_envelopes s)) \<and>
    (finalized_envelopes s = [] \<longrightarrow> num_bytes r' = num_bytes r)"
  using assms
proof (induction r n s rule: take_finalized.induct)
  case (1 r n s)
  show ?case
  proof (cases "finalized_envelopes s")
    case Nil
    with 1(2-) show ?thesis by (auto simp: take_finalized.simps [of r _ s])
  next
    case (Cons f fs)
    show ?thesis
    proof (cases "n = 0 \<or> n + EnvelopeMaker_Size f \<le> max_bytes_per_envelope s")
      case False
      with 1(2-) Cons show ?thesis by (auto simp: take_finalized.simps [of r _ s])
    next
      case True
      define s1 where "s1 = s\<lparr>finalized_envelopes := fs, finalized_envelopes_size := finalized_envelopes_size s - num_bytes f\<rparr>"
      have f: "maker_ok size_of ser f" "0 < num_bytes f" "num_bytes f \<le> finalized_envelopes_size s"
        using 1(5) Cons by (auto simp: memory_inv_def)
      have t: "TakeOldestEnvelopeHolderLocked s = Some (f, s1)"
        using f Cons by (auto simp: TakeOldestEnvelopeHolderLocked_def EnvelopeMaker_Size_def s1_def)
      have s1: "memory_inv size_of ser s1" using 1(5) Cons by (auto simp: memory_inv_def s1_def)
      note m = maker_ok_merge [OF 1(3) f(1)]
      have tf: "take_finalized (MergeWith r f) (num_bytes r + num_bytes f) s1 = (r', n', s')"
        using 1(2) True Cons t by (simp add: take_finalized.simps [of r n s] EnvelopeMaker_Size_def)
      have "maker_ok size_of ser r' \<and> n' = num_bytes r' \<and> memory_inv size_of ser s' \<and>
        current_envelope s' = current_envelope s1 \<and> ObservationStore.truncate s' = ObservationStore.truncate s1 \<and>
        items (batch_map r') + finalized_items (finalized_envelopes s') =
          items (batch_map (MergeWith r f)) + finalized_items (finalized_envelopes s1) \<and>
        length (finalized_envelopes s') \<le> length (finalized_envelopes s1) \<and> num_bytes (MergeWith r f) \<le> num_bytes r'"
        using 1(1) [OF Cons True t refl refl] m s1 tf by (simp add: EnvelopeMaker_Size_def)
      then show ?thesis
        using f Cons m by (auto simp: s1_def ObservationStore.truncate_def ac_simps)
    qed
  qed
qed

lemma Memory_Take_result:
  assumes "memory_inv size_of ser s" and "Memory_TakeNextEnvelopeHolder s = (h, s')"
  shows "memory_inv size_of ser s' \<and>
    (case h of
       None \<Rightarrow> memory_contents s = {#} \<and> memory_contents s' = {#}
     | Some e \<Rightarrow> memory_owned size_of ser s' e \<and> memory_contents s = memory_contents s' + items (batch_map e) \<and>
                memory_rank s' < memory_rank s)"
proof -
  obtain r n s1 where t: "take_finalized (NewEnvelopeMaker s) 0 s = (r, n, s1)" by (metis prod_cases3)
  have new: "maker_ok size_of ser (NewEnvelopeMaker s)" "num_bytes (NewEnvelopeMaker s) = 0"
    "items (batch_map (NewEnvelopeMaker s)) = {#}" for s :: "'a MemoryObservationStore"
    by (simp_all add: NewEnvelopeMaker_def)
  note r = take_finalized_result [OF t new(1) new(2) [symmetric] assms(1), unfolded new, simplified]
  have s1: "max_bytes_per_envelope s1 = max_bytes_per_envelope s"
    "max_bytes_per_observation s1 = max_bytes_per_observation s"
    using r by (auto simp: ObservationStore.truncate_def)
  have inv1: "memory_inv size_of ser s1" and cur: "current_envelope s1 = current_envelope s" using r by auto
  have c: "maker_ok size_of ser (current_envelope s)" "num_bytes (current_envelope s) \<le> max_bytes_per_envelope s"
    using assms(1) by (simp_all add: memory_inv_def)
  show ?thesis
  proof (cases "n + num_bytes (current_envelope s) \<le> max_bytes_per_envelope s")
    case True
    define e where "e = MergeWith r (current_envelope s)"
    define s2 where "s2 = s1\<lparr>current_envelope := NewEnvelopeMaker s1\<rparr>"
    have h: "h = (if num_bytes e = 0 then None else Some e)" "s' = s2"
      using assms(2) t True by (auto simp: Memory_TakeNextEnvelopeHolder_def EnvelopeMaker_Size_def cur s1 e_def s2_def split: if_splits)
    have e: "maker_ok size_of ser e" "items (batch_map e) = items (batch_map r) + items (batch_map (current_envelope s))"
      "num_bytes e = n + num_bytes (current_envelope s)"
      using maker_ok_merge r c(1) by (auto simp: e_def)
    have inv2: "memory_inv size_of ser s2" using inv1 by (simp add: memory_inv_def s2_def NewEnvelopeMaker_def)
    have con: "memory_contents s = memory_contents s2 + items (batch_map e)"
      using r e(2) by (simp add: memory_contents_def s2_def NewEnvelopeMaker_def ac_simps)
    have "num_bytes e \<noteq> 0 \<Longrightarrow> memory_rank s2 < memory_rank s"
      using r e(3) by (auto simp: memory_rank_def s2_def NewEnvelopeMaker_def)
    moreover have "memory_contents s2 = {#}" if "num_bytes e = 0"
      using that r e(3) by (auto simp: memory_contents_def s2_def NewEnvelopeMaker_def)
    ultimately show ?thesis
      using inv2 con maker_ok_empty [OF e(1)] e(1) by (auto simp: h memory_owned_def)
  next
    case False
    then have "0 < num_bytes r" using c(2) r by simp
    then have h: "h = Some r" "s' = s1"
      using assms(2) t False by (auto simp: Memory_TakeNextEnvelopeHolder_def EnvelopeMaker_Size_def cur s1)
    moreover have "memory_contents s = memory_contents s1 + items (batch_map r)"
      using r by (simp add: memory_contents_def ac_simps)
    moreover have "memory_rank s1 < memory_rank s"
      using r \<open>0 < num_bytes r\<close> by (cases "finalized_envelopes s = []") (auto simp: memory_rank_def)
    ultimately show ?thesis using inv1 r \<open>0 < num_bytes r\<close> by (simp add: memory_owned_def)
  qed
qed

interpretation memory: reliable_observation_store
  Memory_TakeNextEnvelopeHolder Memory_ReturnEnvelopeHolder Memory_destroy
  "memory_inv size_of ser" "memory_owned size_of ser" memory_contents memory_held memory_rank
  for size_of :: "'o StoredObservation \<Rightarrow> nat" and ser
proof unfold_locales
  fix s s' :: "'o MemoryObservationStore" and h
  assume inv: "memory_inv size_of ser s"
  {
    assume "Memory_TakeNextEnvelopeHolder s = (None, s')"
    with Memory_Take_result [OF inv this]
    show "memory_inv size_of ser s' \<and> memory_contents s' = memory_contents s" "memory_contents s = {#}" by auto
  next
    assume "Memory_TakeNextEnvelopeHolder s = (Some h, s')"
    with Memory_Take_result [OF inv this]
    show "memory_inv size_of ser s' \<and> memory_owned size_of ser s' h \<and>
      memory_contents s = memory_contents s' + memory_held s' h \<and> memory_rank s' < memory_rank s"
      by (auto simp: memory_held_def)
  next
    assume "memory_owned size_of ser s h"
    with AddEnvelopeToSend_inv [OF inv, of h True] inv
    show "memory_inv size_of ser (Memory_ReturnEnvelopeHolder h s) \<and>
        memory_contents (Memory_ReturnEnvelopeHolder h s) = memory_contents s + memory_held s h \<and>
        memory_rank (Memory_ReturnEnvelopeHolder h s) \<le> Suc (memory_rank s)"
      "memory_inv size_of ser (Memory_destroy h s) \<and> memory_contents (Memory_destroy h s) = memory_contents s \<and>
        memory_rank (Memory_destroy h s) \<le> memory_rank s"
      by (simp_all add: memory_owned_def memory_held_def Memory_ReturnEnvelopeHolder_def Memory_destroy_def)
  }
qed

section \<open>Properties\<close>

lemma memory_Size:
  assumes "memory_inv size_of ser s"
  shows "Memory_Size s = bytes_of size_of (memory_contents s)"
proof -
  have "(\<forall>e \<in> set es. maker_ok size_of ser e) \<Longrightarrow>
    (\<Sum>e \<leftarrow> es. num_bytes e) = bytes_of size_of (finalized_items es)" for es
    by (induction es) (auto simp: maker_ok_def maker_inv_def)
  with assms show ?thesis
    by (auto simp: Memory_Size_def SizeLocked_def memory_inv_def memory_contents_def EnvelopeMaker_Size_def
        maker_ok_def maker_inv_def)
qed


text \<open>A too big observation is rejected by the new envelope as well, so the current envelope is only swapped
  out when it holds something.\<close>

lemma CanAdd_full_nonempty:
  assumes "memory_inv size_of ser s" and "CanAddObservation size_of obs (current_envelope s) = kStoreFull"
  shows "0 < num_bytes (current_envelope s)"
  using assms by (auto simp: CanAddObservation_def memory_inv_def Let_def split: if_splits)

lemma swap_out_inv:
  fixes obs :: "'o StoredObservation"
  assumes inv: "memory_inv size_of ser s"
  defines "s1 \<equiv> (if CanAddObservation size_of obs (current_envelope s) = kStoreFull
    then (AddEnvelopeToSend (current_envelope s) True s)\<lparr>current_envelope := NewEnvelopeMaker s\<rparr> else s)"
  shows "memory_inv size_of ser s1 \<and> memory_contents s1 = memory_contents s \<and>
    ObservationStore.truncate s1 = ObservationStore.truncate s"
proof (cases "CanAddObservation size_of obs (current_envelope s) = kStoreFull")
  case True
  have "maker_ok size_of ser (current_envelope s)" using inv by (simp add: memory_inv_def)
  then have "memory_inv size_of ser (AddEnvelopeToSend (current_envelope s) True s)"
    using AddEnvelopeToSend_inv [OF inv _ CanAdd_full_nonempty [OF inv True]] by blast
  with True show ?thesis
    by (simp add: s1_def memory_inv_def NewEnvelopeMaker_def AddEnvelopeToSend_def memory_contents_def
        ObservationStore.truncate_def)
qed (simp add: s1_def inv)

lemma Memory_StoreObservation_result:
  assumes inv: "memory_inv size_of ser s" and pos: "0 < size_of obs" and enabled: "\<not> is_disabled s"
    and run: "Memory_StoreObservation size_of ser obs metadata s = (status, s')"
  shows "memory_inv size_of ser s' \<and>
    memory_contents s' = (if status = kOk then add_mset (ser metadata, obs) (memory_contents s) else memory_contents s) \<and>
    (status = kOk \<longrightarrow> Memory_Size s \<le> max_bytes_total s \<and> size_of obs \<le> max_bytes_per_observation s) \<and>
    max_bytes_total s' = max_bytes_total s"
proof -
  define s0 where "s0 = BytesStored Attempted (SizeLocked s) metadata s"
  have same: "memory_inv size_of ser (BytesStored st n metadata t) = memory_inv size_of ser t"
    "memory_contents (BytesStored st n metadata t) = memory_contents t"
    "memory_inv size_of ser (count_observation r t) = memory_inv size_of ser t"
    "memory_contents (count_observation r t) = memory_contents t"
    for st n r and t :: "'a MemoryObservationStore"
    by (simp_all add: BytesStored_def count_observation_def memory_inv_def memory_contents_def)
  have s0: "memory_inv size_of ser s0" "memory_contents s0 = memory_contents s" "SizeLocked s0 = SizeLocked s"
    "max_bytes_total s0 = max_bytes_total s" "max_bytes_per_observation s0 = max_bytes_per_observation s"
    using inv unfolding s0_def same by (simp_all add: SizeLocked_def BytesStored_def)
  show ?thesis
  proof (cases "SizeLocked s0 > max_bytes_total s0")
    case True
    then have "status = kStoreFull" "s' = s0"
      using run enabled by (simp_all add: Memory_StoreObservation_def s0_def [symmetric])
    with s0 show ?thesis by simp
  next
    case False
    define s1 where "s1 = (if CanAddObservation size_of obs (current_envelope s0) = kStoreFull
      then (AddEnvelopeToSend (current_envelope s0) True s0)\<lparr>current_envelope := NewEnvelopeMaker s0\<rparr> else s0)"
    have s1: "memory_inv size_of ser s1" "memory_contents s1 = memory_contents s" "max_bytes_total s1 = max_bytes_total s"
      "max_bytes_per_observation s1 = max_bytes_per_observation s"
      using swap_out_inv [OF s0(1), of obs] s0 by (auto simp: s1_def ObservationStore.truncate_def)
    obtain st e where e: "EnvelopeMaker_StoreObservation size_of ser obs metadata (current_envelope s1) = (st, e)" by force
    have st: "status = st" "s' = (let t = s1\<lparr>current_envelope := e\<rparr>
        in if st = kOk then let t = count_observation (report_id metadata) t in BytesStored Succeeded (SizeLocked t) metadata t
           else t)"
      using run enabled False e unfolding Memory_StoreObservation_def
      by (simp_all add: s0_def [symmetric] s1_def [symmetric] Let_def split: if_splits)
    show ?thesis
    proof (cases "st = kOk")
      case True
      have c: "maker_inv size_of ser (current_envelope s1)" using s1(1) by (simp add: memory_inv_def maker_ok_def)
      note st_inv = EnvelopeMaker_StoreObservation_inv [OF c e [unfolded True]]
      have "memory_inv size_of ser (s1\<lparr>current_envelope := e\<rparr>)"
        using s1(1) st_inv pos by (auto simp: memory_inv_def maker_ok_def)
      moreover have "memory_contents (s1\<lparr>current_envelope := e\<rparr>) = add_mset (ser metadata, obs) (memory_contents s)"
        using st_inv s1(2) by (simp add: memory_contents_def)
      moreover have "size_of obs \<le> max_bytes_per_observation s" using st_inv(5) s1 by (simp add: memory_inv_def)
      ultimately show ?thesis
        using True False st s0 s1(3) by (simp add: Let_def same Memory_Size_def)
    next
      case False
      have "e = current_envelope s1" using EnvelopeMaker_StoreObservation_error(1) [OF e False] .
      with False st s1 show ?thesis by simp
    qed
  qed
qed

text \<open>C23. An enabled \<open>MemoryObservationStore\<close> adds exactly the given observation when it answers \<open>kOk\<close> and
  nothing otherwise; its invariant is kept, and after an accepted observation the reported size is the size
  before plus the size of the observation, at most one observation above \<open>max_bytes_total\<close>.\<close>

theorem Memory_StoreObservation_spec:
  assumes "memory_inv size_of ser s" and "0 < size_of obs" and "\<not> is_disabled s"
    and "Memory_StoreObservation size_of ser obs metadata s = (status, s')"
  shows "memory_inv size_of ser s' \<and>
    memory_contents s' = (if status = kOk then add_mset (ser metadata, obs) (memory_contents s) else memory_contents s) \<and>
    Memory_Size s' = (if status = kOk then Memory_Size s + size_of obs else Memory_Size s) \<and>
    (status = kOk \<longrightarrow> Memory_Size s' \<le> max_bytes_total s + max_bytes_per_observation s)"
  using Memory_StoreObservation_result [OF assms] assms(1) by (auto simp: memory_Size)

theorem Memory_StoreObservation_spec_witness:
  "case MemoryObservationStore_ctor 10 20 30 of
     Some s \<Rightarrow> Memory_Size (snd (Memory_StoreObservation (\<lambda>_. 7) (\<lambda>_. [9]) (unencrypted True) example_metadata s)) = 7
   | None \<Rightarrow> False"
proof -
  obtain s :: "bool MemoryObservationStore" where s: "MemoryObservationStore_ctor 10 20 30 = Some s"
    by (simp add: MemoryObservationStore_ctor_def ObservationStore_ctor_def)
  have "memory_inv (\<lambda>_. 7) (\<lambda>_. [9]) s" "\<not> is_disabled s" "Memory_Size s = 0"
    "fst (Memory_StoreObservation (\<lambda>_. 7) (\<lambda>_. [9]) (unencrypted True) example_metadata s) = kOk"
    using s by (auto simp: MemoryObservationStore_ctor_def ObservationStore_ctor_def memory_inv_def
        ObservationStore.extend_def MemoryObservationStore.fields_def Memory_Size_def SizeLocked_def
        EnvelopeMaker_Size_def Memory_StoreObservation_def BytesStored_def CanAddObservation_def
        EnvelopeMaker_StoreObservation_def GetBatch_def EnvelopeMaker_ctor_def maker_ok_def maker_inv_def split: prod.splits)
  then show ?thesis
    using Memory_StoreObservation_spec [of "\<lambda>_. 7" "\<lambda>_. [9]" s "unencrypted True" example_metadata] s
    by (cases "Memory_StoreObservation (\<lambda>_. 7) (\<lambda>_. [9]) (unencrypted True) example_metadata s") simp
qed

lemma MemoryObservationStore_ctor_inv:
  "MemoryObservationStore_ctor a b c = Some s \<Longrightarrow> memory_inv size_of ser s \<and> memory_contents s = {#}"
  by (auto simp: MemoryObservationStore_ctor_def ObservationStore_ctor_def memory_inv_def memory_contents_def
      ObservationStore.extend_def MemoryObservationStore.fields_def split: if_splits)

text \<open>Taking envelopes conserves observations: a taken holder carries exactly the observations that left the
  store, returning it restores the contents, and no holder is given out only when the store is empty.\<close>

theorem Memory_take_conserves:
  assumes "memory_inv size_of ser s" and "Memory_TakeNextEnvelopeHolder s = (holder, s')"
  shows "case holder of
      None \<Rightarrow> memory_contents s = {#}
    | Some h \<Rightarrow> memory_contents s = memory_contents s' + items (batch_map h) \<and>
        memory_contents (Memory_ReturnEnvelopeHolder h s') = memory_contents s"
  using assms memory.take_none_empty [of size_of ser s s'] memory.take_some [of size_of ser s _ s']
    memory.take_return [of size_of ser s _ s']
  by (auto simp: memory_held_def split: option.splits)

theorem Memory_take_conserves_witness:
  "case MemoryObservationStore_ctor 10 20 30 of
     Some s \<Rightarrow> memory_contents (s :: bool MemoryObservationStore) = {#}
   | None \<Rightarrow> False"
proof -
  obtain s :: "bool MemoryObservationStore" where s: "MemoryObservationStore_ctor 10 20 30 = Some s"
    by (simp add: MemoryObservationStore_ctor_def ObservationStore_ctor_def)
  from MemoryObservationStore_ctor_inv [OF this] have "memory_inv (\<lambda>_. 7) (\<lambda>_. [9]) s" by blast
  from Memory_take_conserves [OF this prod.collapse [symmetric]] s
  have "fst (Memory_TakeNextEnvelopeHolder s) = None \<longrightarrow> memory_contents s = {#}" by auto
  moreover have "fst (Memory_TakeNextEnvelopeHolder s) = None"
    using s by (auto simp: MemoryObservationStore_ctor_def ObservationStore_ctor_def ObservationStore.extend_def
        MemoryObservationStore.fields_def Memory_TakeNextEnvelopeHolder_def take_finalized.simps
        EnvelopeMaker_Size_def NewEnvelopeMaker_def)
  ultimately show ?thesis using s by simp
qed

text \<open>The limit on the total size is checked before the observation is added: a store with a limit of 10 bytes
  accepts a second observation of 7 bytes and then holds 14 bytes.\<close>

theorem Memory_store_exceeds_total:
  "\<exists>s. MemoryObservationStore_ctor 10 10 10 = Some (s :: bool MemoryObservationStore) \<and>
     (let store = Memory_StoreObservation (\<lambda>_. 7) (\<lambda>_. [9]) (unencrypted True) example_metadata;
          (status1, s1) = store s; (status2, s2) = store s1
      in status1 = kOk \<and> status2 = kOk \<and> Memory_Size s2 = 14)"
  by (simp add: MemoryObservationStore_ctor_def ObservationStore_ctor_def ObservationStore.extend_def
      MemoryObservationStore.fields_def Memory_StoreObservation_def BytesStored_def CanAddObservation_def
      EnvelopeMaker_StoreObservation_def GetBatch_def EnvelopeMaker_ctor_def SizeLocked_def Memory_Size_def
      EnvelopeMaker_Size_def count_observation_def AddEnvelopeToSend_def NewEnvelopeMaker_def Let_def)

end
