(* ===== verification/File_Observation_Store.thy ===== *)
theory File_Observation_Store
  imports Envelope_Maker File_System
begin

text \<open>
  The store that keeps its observations in files: \<^verbatim>\<open>src/src/observation_store/file_observation_store.cc\<close>
  and \<^verbatim>\<open>.h\<close>. The state holds the \<open>Disk\<close> of \<open>File_System\<close>, so every operation is defined under every
  pattern of failing system calls. Parameters for protobuf code: \<open>size_of\<close> (\<open>ByteSizeLong\<close>), \<open>ser\<close>
  (serialisation of the metadata), \<open>ser_rec\<close> (\<open>SerializeDelimitedToZeroCopyStream\<close>) and \<open>parse_rec\<close>
  (\<open>ParseDelimitedFromZeroCopyStream\<close>, with the rest of the stream). The clock and the random numbers of the
  file name generator are a list of pairs, consumed from the front. \<open>finalized_bytes\<close> is a 64-bit word: the
  destructor of a holder subtracts from it without a check.

  The main results: the contract of \<open>Observation_Store\<close> holds under every pattern of failing calls, and
  stored observations come back from \<open>GetEnvelope\<close>.
\<close>

section \<open>File names\<close>

definition kActiveFileName :: string where "kActiveFileName = ''in_progress.data''"
definition kTimestampWidth :: nat where "kTimestampWidth = 13"
definition kMinRandomNumber :: nat where "kMinRandomNumber = 1000000000"
definition kMaxRandomNumber :: nat where "kMaxRandomNumber = 9999999999"

definition is_digit :: "char \<Rightarrow> bool" where
  "is_digit c \<longleftrightarrow> 48 \<le> (of_char c :: nat) \<and> (of_char c :: nat) \<le> 57"

text \<open>\<open>regex_match(file, \d{13}-\d{10}.data)\<close>; the dot matches any character but a line terminator.\<close>

definition kFinalizedFileRegex :: "string \<Rightarrow> bool" where
  "kFinalizedFileRegex s \<longleftrightarrow>
     length s = 29 \<and> list_all is_digit (take 13 s) \<and> s ! 13 = CHR ''-'' \<and>
     list_all is_digit (take 10 (drop 14 s)) \<and> s ! 24 \<notin> {CHR 0x0A, CHR 0x0D} \<and> drop 25 s = ''data''"

text \<open>\<open>GenerateFilename\<close> with the milliseconds \<open>now\<close> and the random number; \<open>setw\<close> pads on the left.\<close>

definition GenerateFilename :: "int \<times> nat \<Rightarrow> string" where
  "GenerateFilename p =
     (let t = decimal_int (fst p); date = replicate (kTimestampWidth - length t) (CHR ''0'') @ t
      in take kTimestampWidth date @ ''-'' @ decimal (snd p) @ ''.data'')"

fun strcmp_less :: "string \<Rightarrow> string \<Rightarrow> bool" where
  "strcmp_less [] [] = False"
| "strcmp_less [] (c # cs) = True"
| "strcmp_less (c # cs) [] = False"
| "strcmp_less (c # cs) (c' # cs') =
     (if (of_char c :: nat) = of_char c' then strcmp_less cs cs' else (of_char c :: nat) < of_char c')"

section \<open>The store\<close>

datatype 'o FileObservationStoreRecord =
    rec_meta_data ObservationMetadata
  | rec_encrypted_observation EncryptedMessage
  | rec_unencrypted_observation 'o
  | CONTENTS_NOT_SET

record FileObservationStore = ObservationStore +
  disk :: Disk
  root_directory :: string
  filename_supply :: "(int \<times> nat) list"
  metadata_written :: bool
  last_written_metadata :: "u8 list"
  active_file :: "OutputStream option"
  files_taken :: "string set"
  finalized_bytes :: u64

definition FullPath :: "FileObservationStore \<Rightarrow> string \<Rightarrow> string" where
  "FullPath s filename = root_directory s @ ''/'' @ filename"

lemma FullPath_update [simp]:
  "FullPath (s\<lparr>disk := d\<rparr>) n = FullPath s n" "FullPath (s\<lparr>filename_supply := ps\<rparr>) n = FullPath s n"
  "FullPath (s\<lparr>metadata_written := b\<rparr>) n = FullPath s n" "FullPath (s\<lparr>last_written_metadata := k\<rparr>) n = FullPath s n"
  "FullPath (s\<lparr>active_file := st\<rparr>) n = FullPath s n" "FullPath (s\<lparr>files_taken := ns\<rparr>) n = FullPath s n"
  "FullPath (s\<lparr>finalized_bytes := w\<rparr>) n = FullPath s n"
  by (simp_all add: FullPath_def)

abbreviation active_file_name :: "FileObservationStore \<Rightarrow> string" where
  "active_file_name s \<equiv> FullPath s kActiveFileName"

text \<open>Running a call of the file system on the disk of the store.\<close>

definition on_disk :: "(Disk \<Rightarrow> 'a \<times> Disk) \<Rightarrow> FileObservationStore \<Rightarrow> 'a \<times> FileObservationStore" where
  "on_disk f s = (let (r, d) = f (disk s) in (r, s\<lparr>disk := d\<rparr>))"

definition next_filename :: "FileObservationStore \<Rightarrow> string \<times> FileObservationStore" where
  "next_filename s =
     (case filename_supply s of
        p # ps \<Rightarrow> (GenerateFilename p, s\<lparr>filename_supply := ps\<rparr>)
      | [] \<Rightarrow> (GenerateFilename (0, kMinRandomNumber), s))"

text \<open>\<open>FileSize(...).ConsumeValueOr(0)\<close>.\<close>

definition size_or_0 :: "string \<Rightarrow> FileObservationStore \<Rightarrow> u64 \<times> FileObservationStore" where
  "size_or_0 path s = (case on_disk (FileSize path) s of (Inl c, s) \<Rightarrow> (0, s) | (Inr n, s) \<Rightarrow> (of_nat n, s))"

text \<open>The end of \<open>FinalizeActiveFile\<close>, for an active file that is not empty.\<close>

definition rename_active_file :: "FileObservationStore \<Rightarrow> bool \<times> FileObservationStore" where
  "rename_active_file s =
     (let (name, s) = next_filename s;
          new_name = FullPath s name;
          (ok, s) = on_disk (Rename (active_file_name s) new_name) s
      in if \<not> ok then (False, s)
         else let (n, s) = size_or_0 new_name s in (True, s\<lparr>finalized_bytes := finalized_bytes s + n\<rparr>))"

definition FinalizeActiveFile :: "FileObservationStore \<Rightarrow> bool \<times> FileObservationStore" where
  "FinalizeActiveFile s =
     (let s = s\<lparr>active_file := None, metadata_written := False\<rparr>
      in case on_disk (FileSize (active_file_name s)) s of
           (Inl c, s) \<Rightarrow> (False, s)
         | (Inr filesize, s) \<Rightarrow>
             if filesize = 0 then (False, snd (on_disk (Delete (active_file_name s)) s))
             else rename_active_file s)"

definition GetActiveFile :: "FileObservationStore \<Rightarrow> OutputStream option \<times> FileObservationStore" where
  "GetActiveFile s =
     (case active_file s of
        Some st \<Rightarrow> (Some st, s)
      | None \<Rightarrow>
          (case on_disk (NewProtoOutputStream (active_file_name s) False) s of
             (Inl c, s) \<Rightarrow> (None, s)
           | (Inr st, s) \<Rightarrow> (Some st, s\<lparr>active_file := Some st\<rparr>)))"

definition ListFinalizedFiles :: "FileObservationStore \<Rightarrow> string list \<times> FileObservationStore" where
  "ListFinalizedFiles s =
     (case on_disk (ListFiles (root_directory s)) s of
        (Inl c, s) \<Rightarrow> ([], s)
      | (Inr fs, s) \<Rightarrow> (filter kFinalizedFileRegex fs, s))"

text \<open>Writing one record to the active stream, whose position advances with it.\<close>

definition write_record :: "('o FileObservationStoreRecord \<Rightarrow> bytes) \<Rightarrow> 'o FileObservationStoreRecord \<Rightarrow> OutputStream \<Rightarrow> FileObservationStore \<Rightarrow> bool \<times> OutputStream \<times> FileObservationStore" where
  "write_record ser_rec r st s =
     (case stream_write st (ser_rec r) (disk s) of
        (ok, st, d) \<Rightarrow> (ok, st, s\<lparr>disk := d, active_file := Some st\<rparr>))"

definition record_of :: "'o StoredObservation \<Rightarrow> 'o FileObservationStoreRecord option" where
  "record_of obs =
     (case obs of
        encrypted e \<Rightarrow> Some (rec_encrypted_observation e)
      | unencrypted u \<Rightarrow> Some (rec_unencrypted_observation u)
      | OBSERVATION_NOT_SET \<Rightarrow> None)"

text \<open>The part of \<open>StoreObservation\<close> after the metadata has been written.\<close>

definition store_message :: "('o FileObservationStoreRecord \<Rightarrow> bytes) \<Rightarrow> nat \<Rightarrow> 'o StoredObservation \<Rightarrow> ObservationMetadata \<Rightarrow> OutputStream \<Rightarrow> FileObservationStore \<Rightarrow> StoreStatus \<times> FileObservationStore" where
  "store_message ser_rec obs_size obs metadata st s =
     (case record_of obs of
        None \<Rightarrow> (kWriteFailed, s)
      | Some r \<Rightarrow>
          (case write_record ser_rec r st s of
             (ok, st, s) \<Rightarrow>
               if \<not> ok then (kWriteFailed, s)
               else
                 let (ok, s) = (if ByteCount st \<ge> max_bytes_per_envelope s then FinalizeActiveFile s else (True, s))
                 in if \<not> ok then (kWriteFailed, s)
                    else (kOk, BytesStored Succeeded obs_size metadata (count_observation (report_id metadata) s))))"

definition File_StoreObservation ::
  "('o StoredObservation \<Rightarrow> nat) \<Rightarrow> (ObservationMetadata \<Rightarrow> u8 list) \<Rightarrow> ('o FileObservationStoreRecord \<Rightarrow> bytes) \<Rightarrow>
   'o StoredObservation \<Rightarrow> ObservationMetadata \<Rightarrow> FileObservationStore \<Rightarrow> StoreStatus \<times> FileObservationStore" where
  "File_StoreObservation size_of ser ser_rec obs metadata s =
     (if is_disabled s then (kOk, s)
      else
        let obs_size = size_of obs;
            s = BytesStored Attempted obs_size metadata s
        in case GetActiveFile s of
             (None, s) \<Rightarrow> (kWriteFailed, s)
           | (Some st, s) \<Rightarrow>
               let metadata_str = ser metadata
               in if obs_size > max_bytes_per_observation s then (kObservationTooBig, s)
                  else
                    let estimated_new_byte_count = finalized_bytes s + of_nat (ByteCount st) + of_nat obs_size
                    in if estimated_new_byte_count > of_nat (max_bytes_total s) then (kStoreFull, s)
                       else if \<not> metadata_written s \<or> metadata_str \<noteq> last_written_metadata s
                       then (case write_record ser_rec (rec_meta_data metadata) st s of
                               (ok, st, s) \<Rightarrow>
                                 if \<not> ok then (kWriteFailed, s)
                                 else store_message ser_rec obs_size obs metadata st
                                        (s\<lparr>metadata_written := True, last_written_metadata := metadata_str\<rparr>))
                       else store_message ser_rec obs_size obs metadata st s)"

text \<open>\<open>GetOldestFinalizedFile\<close>: the empty name stands for no file found yet.\<close>

definition oldest_step :: "string set \<Rightarrow> string \<Rightarrow> string \<Rightarrow> string" where
  "oldest_step taken found_file_name file =
     (if file \<in> taken then found_file_name
      else if found_file_name = [] then file
      else if strcmp_less file found_file_name then file else found_file_name)"

definition GetOldestFinalizedFile :: "FileObservationStore \<Rightarrow> (StatusCode + string) \<times> FileObservationStore" where
  "GetOldestFinalizedFile s =
     (let (fs, s) = ListFinalizedFiles s;
          found_file_name = foldl (oldest_step (files_taken s)) [] fs
      in (if found_file_name = [] then Inl NOT_FOUND else Inr found_file_name, s))"

record FileEnvelopeHolder =
  file_names :: "string list"
  envelope_read :: bool
  envelope :: Envelope
  cached_file_size :: u64

definition FileEnvelopeHolder_ctor :: "string \<Rightarrow> FileEnvelopeHolder" where
  "FileEnvelopeHolder_ctor file_name =
     \<lparr>file_names = [file_name], envelope_read = False, envelope = \<lparr>batch = [], api_key = []\<rparr>, cached_file_size = 0\<rparr>"

definition take_file :: "string \<Rightarrow> FileObservationStore \<Rightarrow> FileEnvelopeHolder option \<times> FileObservationStore" where
  "take_file name s = (Some (FileEnvelopeHolder_ctor name), s\<lparr>files_taken := insert name (files_taken s)\<rparr>)"

definition File_TakeNextEnvelopeHolder :: "FileObservationStore \<Rightarrow> FileEnvelopeHolder option \<times> FileObservationStore" where
  "File_TakeNextEnvelopeHolder s =
     (case GetOldestFinalizedFile s of
        (Inr name, s) \<Rightarrow> take_file name s
      | (Inl c, s) \<Rightarrow>
          (case active_file s of
             None \<Rightarrow> (None, s)
           | Some st \<Rightarrow>
               if ByteCount st = 0 then (None, s)
               else (case FinalizeActiveFile s of
                       (False, s) \<Rightarrow> (None, s)
                     | (True, s) \<Rightarrow>
                         (case GetOldestFinalizedFile s of
                            (Inr name, s) \<Rightarrow> take_file name s
                          | (Inl c, s) \<Rightarrow> (None, s)))))"

text \<open>The holder is emptied by \<open>clear()\<close> before it is destroyed, so no file is deleted.\<close>

definition File_ReturnEnvelopeHolder :: "FileEnvelopeHolder \<Rightarrow> FileObservationStore \<Rightarrow> FileObservationStore" where
  "File_ReturnEnvelopeHolder env s = s\<lparr>files_taken := files_taken s - set (file_names env)\<rparr>"

definition File_Size :: "FileObservationStore \<Rightarrow> u64" where
  "File_Size s = finalized_bytes s + (case active_file s of None \<Rightarrow> 0 | Some st \<Rightarrow> of_nat (ByteCount st))"

definition File_Empty :: "FileObservationStore \<Rightarrow> bool" where
  "File_Empty s \<longleftrightarrow> File_Size s = 0"

text \<open>\<open>~FileEnvelopeHolder\<close>.\<close>

definition destroy_file :: "FileObservationStore \<Rightarrow> string \<Rightarrow> FileObservationStore" where
  "destroy_file s file_name =
     (let (n, s) = size_or_0 (FullPath s file_name) s;
          s = s\<lparr>finalized_bytes := finalized_bytes s - n\<rparr>
      in snd (on_disk (Delete (FullPath s file_name)) s))"

definition File_destroy :: "FileEnvelopeHolder \<Rightarrow> FileObservationStore \<Rightarrow> FileObservationStore" where
  "File_destroy h s = foldl destroy_file s (file_names h)"

text \<open>\<open>std::set::insert\<close> keeps the names sorted.\<close>

fun insert_name :: "string \<Rightarrow> string list \<Rightarrow> string list" where
  "insert_name x [] = [x]"
| "insert_name x (y # ys) = (if x = y then y # ys else if strcmp_less x y then x # y # ys else y # insert_name x ys)"

definition FileEnvelopeHolder_MergeWith :: "FileEnvelopeHolder \<Rightarrow> FileEnvelopeHolder \<Rightarrow> FileEnvelopeHolder" where
  "FileEnvelopeHolder_MergeWith h container =
     h\<lparr>file_names := foldl (\<lambda>ns n. insert_name n ns) (file_names h) (file_names container),
       envelope := \<lparr>batch = [], api_key = []\<rparr>, cached_file_size := 0, envelope_read := False\<rparr>"

section \<open>Reading an envelope\<close>

text \<open>The state of the reader: the batches so far, the index of the batch of each serialised metadata, and the
  pointer \<open>current_batch\<close>, which is not initialised (\<open>None\<close>) before the first metadata record. Using it then
  is undefined behaviour: the reader has no value.\<close>

record reader =
  batches :: "ObservationBatch list"
  batch_index :: "(bytes \<times> nat) list"
  current_batch :: "nat option"

definition add_message :: "EncryptedMessage \<Rightarrow> reader \<Rightarrow> reader option" where
  "add_message e r =
     (case current_batch r of
        None \<Rightarrow> None
      | Some i \<Rightarrow> Some (r\<lparr>batches := (batches r)[i := (batches r ! i)\<lparr>encrypted_observation := encrypted_observation (batches r ! i) @ [e]\<rparr>]\<rparr>))"

definition set_metadata :: "(ObservationMetadata \<Rightarrow> bytes) \<Rightarrow> ObservationMetadata \<Rightarrow> reader \<Rightarrow> reader" where
  "set_metadata ser m r =
     (case map_of (batch_index r) (ser m) of
        Some i \<Rightarrow> r\<lparr>current_batch := Some i\<rparr>
      | None \<Rightarrow>
          r\<lparr>batches := batches r @ [\<lparr>batch_meta_data = m, encrypted_observation = []\<rparr>],
            batch_index := map_set (ser m) (length (batches r)) (batch_index r),
            current_batch := Some (length (batches r))\<rparr>)"

text \<open>The inner loop on the rest of a file. The second component tells whether the end was clean. The fuel is
  the number of bytes left: a delimited message takes at least one byte.\<close>

fun read_records ::
  "(ObservationMetadata \<Rightarrow> bytes) \<Rightarrow> (bytes \<Rightarrow> ('o FileObservationStoreRecord \<times> bytes) option) \<Rightarrow> ('o \<Rightarrow> EncryptedMessage option) \<Rightarrow>
   nat \<Rightarrow> bytes \<Rightarrow> reader \<Rightarrow> (reader \<times> bool) option" where
  "read_records ser parse_rec Encrypt 0 bs r = Some (r, bs = [])"
| "read_records ser parse_rec Encrypt (Suc fuel) bs r =
     (case parse_rec bs of
        None \<Rightarrow> Some (r, bs = [])
      | Some (stored, rest) \<Rightarrow>
          (case stored of
             rec_meta_data m \<Rightarrow> read_records ser parse_rec Encrypt fuel rest (set_metadata ser m r)
           | rec_encrypted_observation e \<Rightarrow>
               Option.bind (add_message e r) (read_records ser parse_rec Encrypt fuel rest)
           | rec_unencrypted_observation u \<Rightarrow>
               Option.bind (add_message (encrypt_on_read Encrypt (unencrypted u)) r)
                 (read_records ser parse_rec Encrypt fuel rest)
           | CONTENTS_NOT_SET \<Rightarrow> Some (r, False)))"

text \<open>The loop over the files.\<close>

fun read_files ::
  "(ObservationMetadata \<Rightarrow> bytes) \<Rightarrow> (bytes \<Rightarrow> ('o FileObservationStoreRecord \<times> bytes) option) \<Rightarrow> ('o \<Rightarrow> EncryptedMessage option) \<Rightarrow>
   string list \<Rightarrow> FileObservationStore \<Rightarrow> reader \<Rightarrow> (reader \<times> FileObservationStore) option" where
  "read_files ser parse_rec Encrypt [] s r = Some (r, s)"
| "read_files ser parse_rec Encrypt (name # names) s r =
     (case on_disk (NewProtoInputStream (FullPath s name)) s of
        (Inl c, s) \<Rightarrow> read_files ser parse_rec Encrypt names s r
      | (Inr bs, s) \<Rightarrow>
          (case read_records ser parse_rec Encrypt (length bs) bs r of
             None \<Rightarrow> None
           | Some (r, clean_eof) \<Rightarrow>
               if clean_eof then read_files ser parse_rec Encrypt names s r else Some (r, s)))"

definition FileEnvelopeHolder_GetEnvelope ::
  "(ObservationMetadata \<Rightarrow> bytes) \<Rightarrow> (bytes \<Rightarrow> ('o FileObservationStoreRecord \<times> bytes) option) \<Rightarrow> ('o \<Rightarrow> EncryptedMessage option) \<Rightarrow>
   FileEnvelopeHolder \<Rightarrow> FileObservationStore \<Rightarrow> (Envelope \<times> FileEnvelopeHolder \<times> FileObservationStore) option" where
  "FileEnvelopeHolder_GetEnvelope ser parse_rec Encrypt h s =
     (if envelope_read h then Some (envelope h, h, s)
      else
        map_option (\<lambda>(r, s). let env = (envelope h)\<lparr>batch := batches r\<rparr>
                              in (env, h\<lparr>envelope := env, envelope_read := True\<rparr>, s))
          (read_files ser parse_rec Encrypt (file_names h) s
             \<lparr>batches = batch (envelope h), batch_index = [], current_batch = None\<rparr>))"

definition add_file_size :: "u64 \<times> FileObservationStore \<Rightarrow> string \<Rightarrow> u64 \<times> FileObservationStore" where
  "add_file_size p name = (let (n, s) = size_or_0 (FullPath (snd p) name) (snd p) in (fst p + n, s))"

definition FileEnvelopeHolder_Size :: "FileEnvelopeHolder \<Rightarrow> FileObservationStore \<Rightarrow> u64 \<times> FileEnvelopeHolder \<times> FileObservationStore" where
  "FileEnvelopeHolder_Size h s =
     (if cached_file_size h \<noteq> 0 then (cached_file_size h, h, s)
      else let (n, s) = foldl add_file_size (0, s) (file_names h) in (n, h\<lparr>cached_file_size := n\<rparr>, s))"

section \<open>Creation and deletion\<close>

definition delete_file :: "FileObservationStore \<Rightarrow> string \<Rightarrow> FileObservationStore" where
  "delete_file s file = snd (on_disk (Delete (FullPath s file)) s)"

definition File_DeleteData :: "FileObservationStore \<Rightarrow> FileObservationStore" where
  "File_DeleteData s =
     (let s = snd (FinalizeActiveFile s);
          s = s\<lparr>metadata_written := False, last_written_metadata := [], active_file := None, files_taken := {},
                finalized_bytes := 0\<rparr>
      in case on_disk (ListFiles (root_directory s)) s of
           (Inl c, s) \<Rightarrow> s
         | (Inr fs, s) \<Rightarrow> foldl delete_file s fs)"

text \<open>The constructor; \<open>None\<close> when a \<open>CHECK\<close> fails.\<close>

definition FileObservationStore_ctor :: "nat \<Rightarrow> nat \<Rightarrow> nat \<Rightarrow> Disk \<Rightarrow> string \<Rightarrow> (int \<times> nat) list \<Rightarrow> FileObservationStore option" where
  "FileObservationStore_ctor per_observation per_envelope bytes_total d root supply =
     Option.bind (ObservationStore_ctor per_observation per_envelope bytes_total) (\<lambda>base.
       let s = ObservationStore.extend base
                 (FileObservationStore.fields d root supply False [] None {} 0);
           (listing, s) = on_disk (ListFiles root) s;
           (ok, s) = (case listing of Inr _ \<Rightarrow> (True, s) | Inl _ \<Rightarrow> on_disk (MakeDirectory root) s)
       in if \<not> ok then None
          else let (fs, s) = ListFinalizedFiles s;
                   (n, s) = foldl add_file_size (0, s) fs;
                   s = s\<lparr>finalized_bytes := n\<rparr>
               in Some (snd (FinalizeActiveFile s)))"

section \<open>The observations in a file\<close>

fun decode :: "(bytes \<Rightarrow> ('o FileObservationStoreRecord \<times> bytes) option) \<Rightarrow> nat \<Rightarrow> bytes \<Rightarrow> 'o FileObservationStoreRecord list" where
  "decode parse_rec 0 bs = []"
| "decode parse_rec (Suc fuel) bs =
     (case parse_rec bs of None \<Rightarrow> [] | Some (r, rest) \<Rightarrow> r # decode parse_rec fuel rest)"

text \<open>The observations of a sequence of records, each with the serialised metadata in force.\<close>

fun obs_items :: "(ObservationMetadata \<Rightarrow> bytes) \<Rightarrow> bytes option \<Rightarrow> 'o FileObservationStoreRecord list \<Rightarrow> (bytes \<times> 'o StoredObservation) multiset" where
  "obs_items ser k [] = {#}"
| "obs_items ser k (rec_meta_data m # rs) = obs_items ser (Some (ser m)) rs"
| "obs_items ser k (rec_encrypted_observation e # rs) =
     (case k of None \<Rightarrow> {#} | Some k' \<Rightarrow> {#(k', encrypted e)#}) + obs_items ser k rs"
| "obs_items ser k (rec_unencrypted_observation u # rs) =
     (case k of None \<Rightarrow> {#} | Some k' \<Rightarrow> {#(k', unencrypted u)#}) + obs_items ser k rs"
| "obs_items ser k (CONTENTS_NOT_SET # rs) = {#}"

definition file_items :: "(ObservationMetadata \<Rightarrow> bytes) \<Rightarrow> (bytes \<Rightarrow> ('o FileObservationStoreRecord \<times> bytes) option) \<Rightarrow> bytes \<Rightarrow> (bytes \<times> 'o StoredObservation) multiset" where
  "file_items ser parse_rec bs = obs_items ser None (decode parse_rec (length bs) bs)"

lemma file_items_Nil [simp]: "file_items ser parse_rec [] = {#}"
  by (simp add: file_items_def)

section \<open>Contents and invariant of the store\<close>

text \<open>A finalized file that has not been taken.\<close>

definition waiting :: "FileObservationStore \<Rightarrow> string \<Rightarrow> bool" where
  "waiting s path \<longleftrightarrow>
     (case entry_in (root_directory s) path of None \<Rightarrow> False | Some n \<Rightarrow> kFinalizedFileRegex n \<and> n \<notin> files_taken s)"

definition file_contents :: "(ObservationMetadata \<Rightarrow> bytes) \<Rightarrow> (bytes \<Rightarrow> ('o FileObservationStoreRecord \<times> bytes) option) \<Rightarrow> FileObservationStore \<Rightarrow> (bytes \<times> 'o StoredObservation) multiset" where
  "file_contents ser parse_rec s =
     files_sum (\<lambda>p b. if waiting s p \<or> p = active_file_name s then file_items ser parse_rec b else {#}) (files (disk s))"

definition file_held :: "(ObservationMetadata \<Rightarrow> bytes) \<Rightarrow> (bytes \<Rightarrow> ('o FileObservationStoreRecord \<times> bytes) option) \<Rightarrow> FileObservationStore \<Rightarrow> FileEnvelopeHolder \<Rightarrow> (bytes \<times> 'o StoredObservation) multiset" where
  "file_held ser parse_rec s h =
     (\<Sum>n \<leftarrow> file_names h. case file_of (disk s) (FullPath s n) of None \<Rightarrow> {#} | Some b \<Rightarrow> file_items ser parse_rec b)"

definition file_rank :: "FileObservationStore \<Rightarrow> nat" where
  "file_rank s =
     files_sum (\<lambda>p b. if waiting s p then 1 else 0) (files (disk s)) +
     (case active_file s of None \<Rightarrow> 0 | Some st \<Rightarrow> if ByteCount st = 0 then 0 else 1)"

text \<open>The names the generator will deliver are well formed, new and different.\<close>

definition supply_ok :: "FileObservationStore \<Rightarrow> bool" where
  "supply_ok s \<longleftrightarrow>
     distinct (map GenerateFilename (filename_supply s)) \<and>
     (\<forall>p \<in> set (filename_supply s).
        kFinalizedFileRegex (GenerateFilename p) \<and> CHR ''/'' \<notin> set (GenerateFilename p) \<and>
        GenerateFilename p \<notin> files_taken s \<and> file_of (disk s) (FullPath s (GenerateFilename p)) = None)"

definition file_inv :: "FileObservationStore \<Rightarrow> bool" where
  "file_inv s \<longleftrightarrow>
     distinct_keys (files (disk s)) \<and> supply_ok s \<and>
     ((\<exists>st. active_file s = Some st \<and> ByteCount st \<noteq> 0) \<longrightarrow> filename_supply s \<noteq> [])"

definition file_owned :: "FileObservationStore \<Rightarrow> FileEnvelopeHolder \<Rightarrow> bool" where
  "file_owned s h \<longleftrightarrow>
     (\<exists>n. file_names h = [n] \<and> n \<in> files_taken s \<and> kFinalizedFileRegex n \<and> CHR ''/'' \<notin> set n \<and>
          file_of (disk s) (FullPath s n) \<noteq> None)"

lemma FullPath_inj [simp]: "FullPath s m = FullPath s n \<longleftrightarrow> m = n"
  by (simp add: FullPath_def)

lemma active_not_finalized [simp]: "\<not> kFinalizedFileRegex kActiveFileName"
  by (simp add: kActiveFileName_def kFinalizedFileRegex_def)

lemma finalized_not_skipped: "kFinalizedFileRegex n \<Longrightarrow> \<not> skipped_entry n \<and> n \<noteq> []"
proof -
  assume r: "kFinalizedFileRegex n"
  then have "n \<noteq> []" by (auto simp: kFinalizedFileRegex_def)
  then obtain c cs where n: "n = c # cs" by (cases n) auto
  have "is_digit c" using r by (simp add: kFinalizedFileRegex_def n take_Cons')
  then have "c \<noteq> CHR ''.''" by (auto simp: is_digit_def)
  with n show ?thesis by (simp add: skipped_entry_def)
qed

lemma waiting_FullPath: "waiting s (FullPath s n) \<longleftrightarrow> CHR ''/'' \<notin> set n \<and> kFinalizedFileRegex n \<and> n \<notin> files_taken s"
proof (cases "CHR ''/'' \<in> set n")
  case True
  then have "entry_in (root_directory s) (FullPath s n) \<noteq> Some m" for m
    unfolding entry_in_iff by (auto simp: FullPath_def)
  then have "entry_in (root_directory s) (FullPath s n) = None" by blast
  with True show ?thesis by (simp add: waiting_def)
next
  case False
  then have "entry_in (root_directory s) (FullPath s n) = Some n" by (simp add: entry_in_iff FullPath_def)
  with False show ?thesis by (simp add: waiting_def)
qed

lemma waiting_active [simp]: "\<not> waiting s (active_file_name s)"
  by (simp add: waiting_FullPath)

lemma waiting_cong: "root_directory s' = root_directory s \<Longrightarrow> files_taken s' = files_taken s \<Longrightarrow> waiting s' = waiting s"
  by (simp add: waiting_def fun_eq_iff split: option.splits)

lemma FullPath_cong: "root_directory s' = root_directory s \<Longrightarrow> FullPath s' = FullPath s"
  by (simp add: FullPath_def fun_eq_iff)

text \<open>Two states that agree on what the contents depend on.\<close>

definition same_store :: "FileObservationStore \<Rightarrow> FileObservationStore \<Rightarrow> bool" where
  "same_store s s' \<longleftrightarrow>
     files (disk s') = files (disk s) \<and> root_directory s' = root_directory s \<and> files_taken s' = files_taken s \<and>
     directories (disk s') = directories (disk s)"

lemma same_store_contents:
  "same_store s s' \<Longrightarrow> file_contents ser parse_rec s' = file_contents ser parse_rec s"
  "same_store s s' \<Longrightarrow> file_held ser parse_rec s' h = file_held ser parse_rec s h"
  "same_store s s' \<Longrightarrow> active_file s' = active_file s \<Longrightarrow> file_rank s' = file_rank s"
  "same_store s s' \<Longrightarrow> file_owned s' h = file_owned s h"
  using waiting_cong [of s' s] FullPath_cong [of s' s]
  by (simp_all add: same_store_def file_contents_def file_held_def file_rank_def file_owned_def)

lemma same_store_inv:
  "same_store s s' \<Longrightarrow> active_file s' = active_file s \<Longrightarrow> filename_supply s' = filename_supply s \<Longrightarrow> file_inv s' = file_inv s"
  using FullPath_cong [of s' s] by (simp add: same_store_def file_inv_def supply_ok_def)

lemma ListFinalizedFiles_result:
  assumes "ListFinalizedFiles s = (ns, s')"
  shows "same_store s s'" and "active_file s' = active_file s" and "filename_supply s' = filename_supply s"
    and "n \<in> set ns \<Longrightarrow> kFinalizedFileRegex n \<and> CHR ''/'' \<notin> set n \<and> file_of (disk s) (FullPath s n) \<noteq> None"
proof -
  obtain r d where l: "ListFiles (root_directory s) (disk s) = (r, d)" by force
  note ls = ListFiles_state [OF l]
  have s': "s' = s\<lparr>disk := d\<rparr>" "ns = (case r of Inl _ \<Rightarrow> [] | Inr fs \<Rightarrow> filter kFinalizedFileRegex fs)"
    using assms l by (auto simp: ListFinalizedFiles_def on_disk_def split: sum.splits)
  with ls show "same_store s s'" "active_file s' = active_file s" "filename_supply s' = filename_supply s"
    by (simp_all add: same_store_def)
  assume "n \<in> set ns"
  then have "kFinalizedFileRegex n" "n \<in> set (readdir (root_directory s) (disk s))"
    using s' ls(3) by (auto split: sum.splits)
  moreover from this obtain p where "p \<in> set (map fst (files (disk s)))" "entry_in (root_directory s) p = Some n"
    by (auto simp: readdir_def List.map_filter_def kFinalizedFileRegex_def image_iff) force
  ultimately show "kFinalizedFileRegex n \<and> CHR ''/'' \<notin> set n \<and> file_of (disk s) (FullPath s n) \<noteq> None"
    by (auto simp: entry_in_iff FullPath_def map_of_eq_None_iff)
qed

lemma foldl_oldest_step:
  assumes "foldl (oldest_step taken) a ns = f" and "f \<noteq> a"
  shows "f \<in> set ns \<and> f \<notin> taken"
  using assms
proof (induction ns arbitrary: a)
  case (Cons x ns)
  show ?case
  proof (cases "f = oldest_step taken a x")
    case True
    with Cons.prems(2) show ?thesis by (auto simp: oldest_step_def split: if_splits)
  next
    case False
    with Cons show ?thesis by auto
  qed
qed simp

lemma GetOldest_result:
  assumes "GetOldestFinalizedFile s = (r, s')"
  shows "same_store s s'" and "active_file s' = active_file s" and "filename_supply s' = filename_supply s"
    and "r = Inr n \<Longrightarrow> kFinalizedFileRegex n \<and> CHR ''/'' \<notin> set n \<and> n \<notin> files_taken s \<and> file_of (disk s) (FullPath s n) \<noteq> None"
proof -
  obtain ns s1 where l: "ListFinalizedFiles s = (ns, s1)" by force
  note ls = ListFinalizedFiles_result [OF l]
  have s': "s' = s1" "r = (if foldl (oldest_step (files_taken s1)) [] ns = [] then Inl NOT_FOUND
      else Inr (foldl (oldest_step (files_taken s1)) [] ns))"
    using assms l by (auto simp: GetOldestFinalizedFile_def Let_def)
  with ls show "same_store s s'" "active_file s' = active_file s" "filename_supply s' = filename_supply s" by simp_all
  assume "r = Inr n"
  then have "foldl (oldest_step (files_taken s)) [] ns = n" "n \<noteq> []"
    using s' ls(1) by (auto simp: same_store_def split: if_splits)
  from foldl_oldest_step [OF this] ls(4) [of n]
  show "kFinalizedFileRegex n \<and> CHR ''/'' \<notin> set n \<and> n \<notin> files_taken s \<and> file_of (disk s) (FullPath s n) \<noteq> None"
    by blast
qed

lemma next_filename_result:
  assumes "next_filename s = (name, s')" and "supply_ok s" and "filename_supply s \<noteq> []"
  shows "disk s' = disk s" "root_directory s' = root_directory s" "files_taken s' = files_taken s"
    "active_file s' = active_file s" "finalized_bytes s' = finalized_bytes s"
    "kFinalizedFileRegex name" "CHR ''/'' \<notin> set name" "name \<notin> files_taken s" "file_of (disk s) (FullPath s name) = None"
    "distinct (name # map GenerateFilename (filename_supply s'))" "set (filename_supply s') \<subseteq> set (filename_supply s)"
  using assms by (auto simp: next_filename_def supply_ok_def split: list.splits)

text \<open>What the operations keep: the invariant, the contents and the names; \<open>waiting_files\<close> counts.\<close>

definition waiting_files :: "FileObservationStore \<Rightarrow> nat" where
  "waiting_files s = files_sum (\<lambda>p b. if waiting s p then 1 else 0) (files (disk s))"

lemma file_rank_alt:
  "file_rank s = waiting_files s + (case active_file s of None \<Rightarrow> 0 | Some st \<Rightarrow> if ByteCount st = 0 then 0 else 1)"
  by (simp add: file_rank_def waiting_files_def)

lemma same_store_waiting: "same_store s s' \<Longrightarrow> waiting_files s' = waiting_files s"
  using waiting_cong [of s' s] by (simp add: same_store_def waiting_files_def)

lemma size_or_0_result:
  assumes "size_or_0 path s = (n, s')"
  shows "same_store s s'" "active_file s' = active_file s" "filename_supply s' = filename_supply s"
    "finalized_bytes s' = finalized_bytes s"
proof -
  obtain r d where f: "FileSize path (disk s) = (r, d)" by force
  have "s' = s\<lparr>disk := d\<rparr>" using assms f by (auto simp: size_or_0_def on_disk_def split: sum.splits)
  with FileSize_state [OF f] show "same_store s s'" "active_file s' = active_file s"
    "filename_supply s' = filename_supply s" "finalized_bytes s' = finalized_bytes s"
    by (simp_all add: same_store_def)
qed

text \<open>Moving the active file to a new name moves its observations to a waiting file.\<close>

lemma move_active:
  assumes inv: "file_inv s" and c: "file_of (disk s) (active_file_name s) = Some c"
    and name: "kFinalizedFileRegex name" "CHR ''/'' \<notin> set name" "name \<notin> files_taken s"
      "file_of (disk s) (FullPath s name) = None"
    and s': "files (disk s') = map_set (FullPath s name) c (AList.delete (active_file_name s) (files (disk s)))"
      "root_directory s' = root_directory s" "files_taken s' = files_taken s"
  shows "file_contents ser parse_rec s' = file_contents ser parse_rec s" and "waiting_files s' = Suc (waiting_files s)"
proof -
  note cong = waiting_cong [OF s'(2,3)] FullPath_cong [OF s'(2)]
  let ?w = "\<lambda>p b. if waiting s p \<or> p = active_file_name s then file_items ser parse_rec b else {#}"
  let ?fs = "AList.delete (active_file_name s) (files (disk s))"
  have d: "distinct_keys (files (disk s))" using inv by (simp add: file_inv_def)
  have new: "map_of ?fs (FullPath s name) = None" "waiting s (FullPath s name)"
    using name by (auto simp: waiting_FullPath)
  have "files_sum ?w (files (disk s')) = files_sum ?w ?fs + file_items ser parse_rec c"
    unfolding s' by (subst files_sum_map_set [OF new(1)]) (simp add: new(2))
  also have "\<dots> = files_sum ?w (files (disk s))"
    by (subst files_sum_delete [OF d c, of ?w]) simp
  finally show "file_contents ser parse_rec s' = file_contents ser parse_rec s"
    by (simp add: file_contents_def cong)
  show "waiting_files s' = Suc (waiting_files s)"
    unfolding waiting_files_def s' cong
    by (subst files_sum_map_set [OF new(1)], subst files_sum_delete [OF d c]) (simp add: new(2))
qed

lemma rename_active_file_result:
  assumes inv: "file_inv s" and ne: "filename_supply s \<noteq> []" and a: "active_file s = None"
    and run: "rename_active_file s = (ok, s')"
  shows "file_inv s'" and "file_contents ser parse_rec s' = file_contents ser parse_rec s" and "active_file s' = None"
    and "root_directory s' = root_directory s" and "files_taken s' = files_taken s"
    and "waiting_files s' = waiting_files s + (if ok then 1 else 0)"
proof -
  obtain name s1 where n: "next_filename s = (name, s1)" by force
  have sup: "supply_ok s" "distinct_keys (files (disk s))" using inv by (simp_all add: file_inv_def)
  note n1 = next_filename_result [OF n sup(1) ne]
  note fp = FullPath_cong [OF n1(2)]
  obtain ok' d where r: "Rename (active_file_name s) (FullPath s name) (disk s) = (ok', d)" by force
  define s2 where "s2 = s1\<lparr>disk := d\<rparr>"
  obtain m s3 where z: "size_or_0 (FullPath s name) s2 = (m, s3)" by force
  note z' = size_or_0_result [OF z]
  have s': "ok = ok'" "s' = (if ok then s3\<lparr>finalized_bytes := finalized_bytes s3 + m\<rparr> else s2)"
    using run n r z n1(1) by (auto simp: rename_active_file_def on_disk_def Let_def fp s2_def split: if_splits)
  have eq: "root_directory s' = root_directory s" "files_taken s' = files_taken s" "active_file s' = None"
    "filename_supply s' = filename_supply s1" "files (disk s') = files d"
    using s' z' n1 a by (auto simp: s2_def same_store_def)
  then show "active_file s' = None" "root_directory s' = root_directory s" "files_taken s' = files_taken s" by auto
  have "supply_ok s' \<and> distinct_keys (files (disk s')) \<and> file_contents ser parse_rec s' = file_contents ser parse_rec s \<and>
    waiting_files s' = waiting_files s + (if ok then 1 else 0)"
  proof (cases rule: Rename_cases [OF r])
    case 1
    then have f: "files (disk s') = files (disk s)" using eq by simp
    have "waiting s' = waiting s" "FullPath s' = FullPath s" using eq by (auto intro: waiting_cong FullPath_cong)
    with f eq sup n1(10,11) 1 s'(1) show ?thesis
      by (auto simp: supply_ok_def file_contents_def waiting_files_def)
  next
    case (2 c)
    then have f: "files (disk s') = map_set (FullPath s name) c (AList.delete (active_file_name s) (files (disk s)))"
      using eq by simp
    note mv = move_active [OF inv 2(2) n1(6-9) f eq(1,2)]
    have "FullPath s' = FullPath s" using eq by (auto intro: FullPath_cong)
    then have "supply_ok s'"
      unfolding supply_ok_def f map_of_map_set map_of_delete using eq(2,4) sup(1) n1(10,11)
      by (auto simp: supply_ok_def) (metis active_not_finalized subsetD)
    moreover have "distinct_keys (files (disk s'))"
      unfolding f by (intro distinct_keys_map_set distinct_delete sup(2))
    ultimately show ?thesis using mv 2 s'(1) by simp
  qed
  with eq show "file_inv s'" "file_contents ser parse_rec s' = file_contents ser parse_rec s"
    "waiting_files s' = waiting_files s + (if ok then 1 else 0)" by (auto simp: file_inv_def)
qed


lemma FinalizeActiveFile_result:
  assumes inv: "file_inv s" and ne: "filename_supply s \<noteq> []" and run: "FinalizeActiveFile s = (ok, s')"
  shows "file_inv s'" and "file_contents ser parse_rec s' = file_contents ser parse_rec s" and "active_file s' = None"
    and "root_directory s' = root_directory s" and "files_taken s' = files_taken s"
    and "waiting_files s' = waiting_files s + (if ok then 1 else 0)"
proof -
  obtain r d1 where fs: "FileSize (active_file_name s) (disk s) = (r, d1)" by force
  note fs' = FileSize_state [OF fs]
  define s1 where "s1 = s\<lparr>active_file := None, metadata_written := False, disk := d1\<rparr>"
  have same: "same_store s s1" and s1: "active_file s1 = None" "filename_supply s1 = filename_supply s"
    using fs' by (simp_all add: s1_def same_store_def)
  note eq = same_store_contents(1) [OF same] same_store_waiting [OF same]
  have w1: "waiting s1 = waiting s" "FullPath s1 = FullPath s" "files (disk s1) = files (disk s)"
    "root_directory s1 = root_directory s" "files_taken s1 = files_taken s"
    using same by (auto simp: same_store_def intro: waiting_cong FullPath_cong)
  have inv1: "file_inv s1" using inv s1 w1 by (simp add: file_inv_def supply_ok_def)
  have run1: "(ok, s') = (case r of Inl c \<Rightarrow> (False, s1)
      | Inr filesize \<Rightarrow> if filesize = 0 then (False, snd (on_disk (Delete (active_file_name s)) s1)) else rename_active_file s1)"
  proof -
    define s0 where "s0 = s\<lparr>active_file := None, metadata_written := False\<rparr>"
    have fp: "FullPath s0 = FullPath s" by (rule FullPath_cong) (simp add: s0_def)
    have "on_disk (FileSize (active_file_name s0)) s0 = (r, s1)"
      unfolding fp using fs by (simp add: on_disk_def s1_def s0_def)
    then show ?thesis
      unfolding run [symmetric] FinalizeActiveFile_def
      by (simp only: s0_def [symmetric] Let_def prod.case w1)
  qed
  have "file_inv s' \<and> file_contents ser parse_rec s' = file_contents ser parse_rec s \<and> active_file s' = None \<and>
    root_directory s' = root_directory s \<and> files_taken s' = files_taken s \<and>
    waiting_files s' = waiting_files s + (if ok then 1 else 0)"
  proof (cases "\<exists>n. r = Inr n \<and> n \<noteq> 0")
    case True
    then have "rename_active_file s1 = (ok, s')" using run1 by auto
    note rn = rename_active_file_result [OF inv1 _ s1(1) this]
    from rn(1,3-6) rn(2) [of ser parse_rec] ne s1 w1 eq show ?thesis by simp
  next
    case False
    show ?thesis
    proof (cases r)
      case (Inl c)
      with run1 inv1 s1 w1 eq show ?thesis by simp
    next
      case (Inr n)
      with False fs'(3) have c: "file_of (disk s1) (active_file_name s1) = Some []" by (auto simp: w1)
      obtain ok' d where dl: "Delete (active_file_name s) (disk s1) = (ok', d)" by force
      have s': "ok = False" "s' = s1\<lparr>disk := d\<rparr>" using run1 Inr False dl by (auto simp: on_disk_def)
      show ?thesis
      proof (cases rule: Delete_cases [OF dl])
        case 1
        then have "same_store s1 s'" using s' by (simp add: same_store_def)
        then have "file_contents ser parse_rec s' = file_contents ser parse_rec s1"
          "waiting_files s' = waiting_files s1" "file_inv s'"
          using s' inv1 same_store_contents(1) same_store_waiting by (auto simp: same_store_inv)
        with s' s1 w1 eq show ?thesis by simp
      next
        case 2
        have d: "distinct_keys (files (disk s1))" using inv1 by (simp add: file_inv_def)
        have c': "waiting s' = waiting s1" "FullPath s' = FullPath s1" using s' by (auto intro: waiting_cong FullPath_cong)
        have f: "files (disk s') = AList.delete (active_file_name s1) (files (disk s1))" using 2 s' w1 by simp
        have "file_contents ser parse_rec s' = file_contents ser parse_rec s1"
          unfolding file_contents_def f c' by (subst files_sum_delete [OF d c]) simp
        moreover have "waiting_files s' = waiting_files s1"
          unfolding waiting_files_def f c' by (subst files_sum_delete [OF d c]) simp
        moreover have "file_inv s'"
          using inv1 s1 s' f c' by (auto simp: file_inv_def supply_ok_def distinct_delete)
        ultimately show ?thesis using s' s1 w1 eq by simp
      qed
    qed
  qed
  then show "file_inv s'" "file_contents ser parse_rec s' = file_contents ser parse_rec s" "active_file s' = None"
    "root_directory s' = root_directory s" "files_taken s' = files_taken s"
    "waiting_files s' = waiting_files s + (if ok then 1 else 0)" by simp_all
qed

text \<open>Taking a finalized file out of the waiting ones.\<close>

lemma take_file_result:
  assumes inv: "file_inv s" and n: "kFinalizedFileRegex n" "CHR ''/'' \<notin> set n" "n \<notin> files_taken s"
    "file_of (disk s) (FullPath s n) \<noteq> None"
    and run: "take_file n s = (h, s')"
  shows "\<exists>e. h = Some e \<and> file_inv s' \<and> file_owned s' e \<and>
    file_contents ser parse_rec s = file_contents ser parse_rec s' + file_held ser parse_rec s' e \<and>
    Suc (waiting_files s') = waiting_files s \<and> active_file s' = active_file s"
proof -
  define e where "e = FileEnvelopeHolder_ctor n"
  have s': "h = Some e" "s' = s\<lparr>files_taken := insert n (files_taken s)\<rparr>" using run by (simp_all add: take_file_def e_def)
  obtain b where b: "file_of (disk s) (FullPath s n) = Some b" using n(4) by blast
  have d: "distinct_keys (files (disk s))" using inv by (simp add: file_inv_def)
  have fp: "FullPath s' = FullPath s" using s' by (auto intro: FullPath_cong)
  have w: "waiting s' p \<longleftrightarrow> waiting s p \<and> p \<noteq> FullPath s n" for p
  proof (cases "entry_in (root_directory s) p")
    case None
    with s' show ?thesis by (simp add: waiting_def)
  next
    case (Some m)
    then have "p = FullPath s m" by (simp add: entry_in_iff FullPath_def)
    with Some s' show ?thesis by (auto simp: waiting_def)
  qed
  have act: "FullPath s n \<noteq> active_file_name s" using n(1) by auto
  have wn: "waiting s (FullPath s n)" using n by (simp add: waiting_FullPath)
  have "file_held ser parse_rec s' e = file_items ser parse_rec b"
    using b unfolding file_held_def fp by (simp add: s'(2) e_def FileEnvelopeHolder_ctor_def)
  then have "file_contents ser parse_rec s = file_contents ser parse_rec s' + file_held ser parse_rec s' e"
    unfolding file_contents_def fp
    by (subst files_sum_change [OF d b, where g' = "\<lambda>p b. if waiting s' p \<or> p = active_file_name s then file_items ser parse_rec b else {#}"])
      (use act wn w in \<open>auto simp: s'(2)\<close>)
  moreover have "Suc (waiting_files s') = waiting_files s"
    unfolding waiting_files_def
    by (subst files_sum_change [OF d b, where g' = "\<lambda>p b. if waiting s' p then 1 else 0"])
      (use wn w in \<open>auto simp: s'(2)\<close>)
  moreover have "file_owned s' e" using n s' b by (simp add: file_owned_def e_def FileEnvelopeHolder_ctor_def fp)
  moreover have "file_inv s'"
    using inv s' n(4) by (auto simp: file_inv_def supply_ok_def fp)
  ultimately show ?thesis using s' by simp
qed


lemma File_Take_result:
  assumes inv: "file_inv s" and run: "File_TakeNextEnvelopeHolder s = (h, s')"
  shows "file_inv s' \<and>
    (case h of
       None \<Rightarrow> file_contents ser parse_rec s' = file_contents ser parse_rec s
     | Some e \<Rightarrow> file_owned s' e \<and>
         file_contents ser parse_rec s = file_contents ser parse_rec s' + file_held ser parse_rec s' e \<and>
         file_rank s' < file_rank s)"
proof -
  obtain r s1 where g: "GetOldestFinalizedFile s = (r, s1)" by force
  note g1 = GetOldest_result [OF g]
  have inv1: "file_inv s1" using inv g1 by (simp add: same_store_inv)
  have c1: "file_contents ser parse_rec s1 = file_contents ser parse_rec s" "waiting_files s1 = waiting_files s"
    using g1(1) by (simp_all add: same_store_contents same_store_waiting)
  have pre1: "file_of (disk s1) (FullPath s1 n) = file_of (disk s) (FullPath s n) \<and> files_taken s1 = files_taken s" for n
    using g1(1) FullPath_cong [of s1 s] by (simp add: same_store_def)
  show ?thesis
  proof (cases r)
    case (Inr n)
    from g1(4) [OF this] pre1
    have "kFinalizedFileRegex n" "CHR ''/'' \<notin> set n" "n \<notin> files_taken s1" "file_of (disk s1) (FullPath s1 n) \<noteq> None"
      by simp_all
    moreover have "take_file n s1 = (h, s')" using run g Inr by (simp add: File_TakeNextEnvelopeHolder_def)
    ultimately show ?thesis
      using take_file_result [OF inv1, of n h s' ser parse_rec] c1 g1(2) by (auto simp: file_rank_alt)
  next
    case (Inl c)
    show ?thesis
    proof (cases "\<exists>st. active_file s1 = Some st \<and> ByteCount st \<noteq> 0")
      case False
      then have "h = None" "s' = s1"
        using run g Inl by (auto simp: File_TakeNextEnvelopeHolder_def split: option.splits)
      with inv1 c1 show ?thesis by simp
    next
      case True
      then obtain st where st: "active_file s1 = Some st" "ByteCount st \<noteq> 0" by blast
      have ne: "filename_supply s1 \<noteq> []" using inv1 True by (simp add: file_inv_def)
      obtain ok s2 where f: "FinalizeActiveFile s1 = (ok, s2)" by force
      note f1 = FinalizeActiveFile_result(1,3-6) [OF inv1 ne f] FinalizeActiveFile_result(2) [OF inv1 ne f, of ser parse_rec]
      show ?thesis
      proof (cases ok)
        case False
        then have "h = None" "s' = s2"
          using run g Inl st f by (auto simp: File_TakeNextEnvelopeHolder_def)
        with f1 c1 show ?thesis by simp
      next
        case True
        obtain r2 s3 where g2: "GetOldestFinalizedFile s2 = (r2, s3)" by force
        note g3 = GetOldest_result [OF g2]
        have inv3: "file_inv s3" using f1(1) g3 by (simp add: same_store_inv)
        have c3: "file_contents ser parse_rec s3 = file_contents ser parse_rec s" "waiting_files s3 = Suc (waiting_files s)"
          "active_file s3 = None"
          using g3(1,2) f1 c1 True by (simp_all add: same_store_contents same_store_waiting)
        show ?thesis
        proof (cases r2)
          case (Inl c')
          then have "h = None" "s' = s3"
            using run g \<open>r = Inl c\<close> st f True g2 by (auto simp: File_TakeNextEnvelopeHolder_def)
          with inv3 c3 show ?thesis by simp
        next
          case (Inr n)
          have pre3: "file_of (disk s3) (FullPath s3 n) = file_of (disk s2) (FullPath s2 n) \<and> files_taken s3 = files_taken s2"
            using g3(1) FullPath_cong [of s3 s2] by (simp add: same_store_def)
          from g3(4) [OF Inr] pre3
          have "kFinalizedFileRegex n" "CHR ''/'' \<notin> set n" "n \<notin> files_taken s3" "file_of (disk s3) (FullPath s3 n) \<noteq> None"
            by simp_all
          moreover have "take_file n s3 = (h, s')"
            using run g \<open>r = Inl c\<close> st f True g2 Inr by (simp add: File_TakeNextEnvelopeHolder_def)
          ultimately show ?thesis
            using take_file_result [OF inv3, of n h s' ser parse_rec] c3 c1 st g1(2) by (auto simp: file_rank_alt)
        qed
      qed
    qed
  qed
qed

lemma File_Return_result:
  assumes inv: "file_inv s" and own: "file_owned s h"
  shows "file_inv (File_ReturnEnvelopeHolder h s) \<and>
    file_contents ser parse_rec (File_ReturnEnvelopeHolder h s) = file_contents ser parse_rec s + file_held ser parse_rec s h \<and>
    file_rank (File_ReturnEnvelopeHolder h s) \<le> Suc (file_rank s)"
proof -
  obtain n where n: "file_names h = [n]" "n \<in> files_taken s" "kFinalizedFileRegex n" "CHR ''/'' \<notin> set n"
    "file_of (disk s) (FullPath s n) \<noteq> None" using own by (auto simp: file_owned_def)
  define s' where "s' = File_ReturnEnvelopeHolder h s"
  have s': "s' = s\<lparr>files_taken := files_taken s - {n}\<rparr>" using n by (simp add: s'_def File_ReturnEnvelopeHolder_def)
  have fp: "FullPath s' = FullPath s" by (rule FullPath_cong) (simp add: s')
  have "supply_ok s'" using inv n(5) unfolding file_inv_def supply_ok_def fp by (auto simp: s')
  then have inv': "file_inv s'" using inv by (simp add: file_inv_def s')
  have take: "take_file n s' = (Some (FileEnvelopeHolder_ctor n), s)"
    using n(2) by (simp add: take_file_def s' insert_absorb)
  have "n \<notin> files_taken s'" "file_of (disk s') (FullPath s' n) \<noteq> None" using n(5) unfolding fp by (simp_all add: s')
  from take_file_result [OF inv' n(3,4) this take, of ser parse_rec]
  have "file_contents ser parse_rec s' = file_contents ser parse_rec s + file_held ser parse_rec s (FileEnvelopeHolder_ctor n)"
    "Suc (waiting_files s) = waiting_files s'"
    by simp_all
  then show ?thesis
    using inv' n(1) unfolding s'_def [symmetric]
    by (simp add: file_held_def FileEnvelopeHolder_ctor_def file_rank_alt s')
qed

lemma File_destroy_result:
  assumes inv: "file_inv s" and own: "file_owned s h"
  shows "file_inv (File_destroy h s) \<and> file_contents ser parse_rec (File_destroy h s) = file_contents ser parse_rec s \<and>
    file_rank (File_destroy h s) \<le> file_rank s"
proof -
  obtain n where n: "file_names h = [n]" "n \<in> files_taken s" "kFinalizedFileRegex n" "CHR ''/'' \<notin> set n"
    "file_of (disk s) (FullPath s n) \<noteq> None" using own by (auto simp: file_owned_def)
  obtain m s1 where z: "size_or_0 (FullPath s n) s = (m, s1)" by force
  note z1 = size_or_0_result [OF z]
  define s2 where "s2 = s1\<lparr>finalized_bytes := finalized_bytes s1 - m\<rparr>"
  have same: "same_store s s2" "active_file s2 = active_file s" "filename_supply s2 = filename_supply s"
    using z1 by (simp_all add: s2_def same_store_def)
  have inv2: "file_inv s2" using same inv by (simp add: same_store_inv)
  have fp: "FullPath s2 = FullPath s" using same(1) by (intro FullPath_cong) (simp add: same_store_def)
  obtain ok d where dl: "Delete (FullPath s n) (disk s2) = (ok, d)" by force
  define s' where "s' = s2\<lparr>disk := d\<rparr>"
  have run: "File_destroy h s = s'"
    using n(1) z dl FullPath_cong [of s1 s] z1(1)
    by (simp add: File_destroy_def destroy_file_def on_disk_def s'_def same_store_def s2_def)
  have fp': "FullPath s' = FullPath s2" "waiting s' = waiting s2"
    by (auto simp: s'_def intro: FullPath_cong waiting_cong)
  have nw: "\<not> waiting s2 (FullPath s2 n)" "FullPath s2 n \<noteq> active_file_name s2"
    using n same(1) by (auto simp: waiting_FullPath same_store_def)
  have "file_inv s' \<and> file_contents ser parse_rec s' = file_contents ser parse_rec s2 \<and> waiting_files s' = waiting_files s2"
  proof (cases rule: Delete_cases [OF dl])
    case 1
    then have "same_store s2 s'" by (simp add: s'_def same_store_def)
    with inv2 show ?thesis by (simp add: same_store_inv same_store_contents same_store_waiting s'_def)
  next
    case 2
    have dk: "distinct_keys (files (disk s2))" using inv2 by (simp add: file_inv_def)
    obtain b where b: "file_of (disk s2) (FullPath s2 n) = Some b" using n(5) same(1) fp by (auto simp: same_store_def)
    have f: "files (disk s') = AList.delete (FullPath s2 n) (files (disk s2))" using 2 fp by (simp add: s'_def)
    have "file_contents ser parse_rec s' = file_contents ser parse_rec s2"
      unfolding file_contents_def f fp' by (subst files_sum_delete [OF dk b]) (use nw in simp)
    moreover have "waiting_files s' = waiting_files s2"
      unfolding waiting_files_def f fp' by (subst files_sum_delete [OF dk b]) (use nw in simp)
    moreover have "file_inv s'"
      using inv2 f fp' by (auto simp: file_inv_def supply_ok_def distinct_delete s'_def)
    ultimately show ?thesis by blast
  qed
  with same show ?thesis
    unfolding run by (simp add: same_store_contents file_rank_alt same_store_waiting s'_def)
qed

interpretation file_store: observation_store
  File_TakeNextEnvelopeHolder File_ReturnEnvelopeHolder File_destroy file_inv file_owned
  "file_contents ser parse_rec" "file_held ser parse_rec" file_rank
  for ser and parse_rec :: "bytes \<Rightarrow> ('o FileObservationStoreRecord \<times> bytes) option"
proof unfold_locales
  fix s s' h assume inv: "file_inv s"
  { assume "File_TakeNextEnvelopeHolder s = (None, s')"
    from File_Take_result [OF inv this]
    show "file_inv s' \<and> file_contents ser parse_rec s' = file_contents ser parse_rec s" by simp }
  { assume "File_TakeNextEnvelopeHolder s = (Some h, s')"
    from File_Take_result [OF inv this]
    show "file_inv s' \<and> file_owned s' h \<and>
      file_contents ser parse_rec s = file_contents ser parse_rec s' + file_held ser parse_rec s' h \<and> file_rank s' < file_rank s"
      by simp }
  { assume own: "file_owned s h"
    show "file_inv (File_ReturnEnvelopeHolder h s) \<and>
      file_contents ser parse_rec (File_ReturnEnvelopeHolder h s) = file_contents ser parse_rec s + file_held ser parse_rec s h \<and>
      file_rank (File_ReturnEnvelopeHolder h s) \<le> Suc (file_rank s)"
      by (rule File_Return_result [OF inv own])
    show "file_inv (File_destroy h s) \<and> file_contents ser parse_rec (File_destroy h s) = file_contents ser parse_rec s \<and>
      file_rank (File_destroy h s) \<le> file_rank s"
      by (rule File_destroy_result [OF inv own]) }
qed

section \<open>Storing and reading without failing calls\<close>

definition record_codec :: "('o FileObservationStoreRecord \<Rightarrow> bytes) \<Rightarrow> (bytes \<Rightarrow> ('o FileObservationStoreRecord \<times> bytes) option) \<Rightarrow> bool" where
  "record_codec ser_rec parse_rec \<longleftrightarrow>
     (\<forall>r rest. parse_rec (ser_rec r @ rest) = Some (r, rest)) \<and> parse_rec [] = None"

text \<open>The serialised metadata in force after a sequence of records.\<close>

fun final_key :: "(ObservationMetadata \<Rightarrow> bytes) \<Rightarrow> bytes option \<Rightarrow> 'o FileObservationStoreRecord list \<Rightarrow> bytes option" where
  "final_key ser k [] = k"
| "final_key ser k (rec_meta_data m # rs) = final_key ser (Some (ser m)) rs"
| "final_key ser k (_ # rs) = final_key ser k rs"

definition record_items :: "bytes option \<Rightarrow> 'o FileObservationStoreRecord \<Rightarrow> (bytes \<times> 'o StoredObservation) multiset" where
  "record_items k r =
     (case (k, r) of
        (Some k', rec_encrypted_observation e) \<Rightarrow> {#(k', encrypted e)#}
      | (Some k', rec_unencrypted_observation u) \<Rightarrow> {#(k', unencrypted u)#}
      | _ \<Rightarrow> {#})"

lemma obs_items_append:
  "CONTENTS_NOT_SET \<notin> set rs \<Longrightarrow> obs_items ser k (rs @ [r]) = obs_items ser k rs + record_items (final_key ser k rs) r"
proof (induction rs arbitrary: k)
  case Nil
  then show ?case by (cases r) (auto simp: record_items_def split: option.splits)
next
  case (Cons x rs)
  then show ?case by (cases x) (auto split: option.splits)
qed

lemma final_key_append: "final_key ser k (rs @ [r]) = final_key ser (final_key ser k rs) [r]"
proof (induction rs arbitrary: k)
  case (Cons x rs)
  then show ?case by (cases x) auto
qed simp

lemma codec_ser_nonempty: "record_codec ser_rec parse_rec \<Longrightarrow> 0 < length (ser_rec r)"
  by (cases "ser_rec r") (auto simp: record_codec_def dest: spec [of _ r] spec [of _ "[]"])

lemma decode_concat:
  assumes "record_codec ser_rec parse_rec" and "length (concat (map ser_rec rs)) \<le> fuel"
  shows "decode parse_rec fuel (concat (map ser_rec rs)) = rs"
  using assms(2)
proof (induction rs arbitrary: fuel)
  case Nil
  then show ?case using assms(1) by (cases fuel) (simp_all add: record_codec_def)
next
  case (Cons r rs)
  have pos: "0 < length (ser_rec r)" using codec_ser_nonempty [OF assms(1)] .
  have le: "length (ser_rec r) + length (concat (map ser_rec rs)) \<le> fuel" using Cons.prems by simp
  then obtain f where f: "fuel = Suc f" using pos by (cases fuel) auto
  have "length (concat (map ser_rec rs)) \<le> f" using pos le f by linarith
  from Cons.IH [OF this] f assms(1) show ?case by (simp add: record_codec_def)
qed

lemma file_items_concat:
  "record_codec ser_rec parse_rec \<Longrightarrow> file_items ser parse_rec (concat (map ser_rec rs)) = obs_items ser None rs"
  by (simp add: file_items_def decode_concat)

text \<open>A sequence of records that starts with metadata and has no empty record.\<close>

definition valid_records :: "'o FileObservationStoreRecord list \<Rightarrow> bool" where
  "valid_records rs \<longleftrightarrow>
     CONTENTS_NOT_SET \<notin> set rs \<and> (case rs of [] \<Rightarrow> True | r # _ \<Rightarrow> (case r of rec_meta_data m \<Rightarrow> True | _ \<Rightarrow> False))"

lemma valid_records_append: "valid_records rs \<Longrightarrow> r \<noteq> CONTENTS_NOT_SET \<Longrightarrow>
    rs \<noteq> [] \<or> (\<exists>m. r = rec_meta_data m) \<Longrightarrow> valid_records (rs @ [r])"
  by (cases rs) (auto simp: valid_records_def)

definition finalized_ok :: "('o FileObservationStoreRecord \<Rightarrow> bytes) \<Rightarrow> FileObservationStore \<Rightarrow> bool" where
  "finalized_ok ser_rec s \<longleftrightarrow>
     (\<forall>n b. kFinalizedFileRegex n \<longrightarrow> file_of (disk s) (FullPath s n) = Some b \<longrightarrow>
        (\<exists>rs. b = concat (map ser_rec rs) \<and> valid_records rs))"

text \<open>The active file holds whole records, and the stream and the remembered metadata agree with it.\<close>

definition active_ok :: "(ObservationMetadata \<Rightarrow> bytes) \<Rightarrow> ('o FileObservationStoreRecord \<Rightarrow> bytes) \<Rightarrow> 'o FileObservationStoreRecord list \<Rightarrow> FileObservationStore \<Rightarrow> bool" where
  "active_ok ser ser_rec rs s \<longleftrightarrow>
     (case active_file s of
        None \<Rightarrow> file_of (disk s) (active_file_name s) = None \<and> \<not> metadata_written s \<and> rs = []
      | Some st \<Rightarrow>
          stream_path st = active_file_name s \<and> \<not> stream_append st \<and>
          file_of (disk s) (active_file_name s) = Some (concat (map ser_rec rs)) \<and>
          ByteCount st = length (concat (map ser_rec rs)) \<and> valid_records rs \<and>
          (if metadata_written s then final_key ser None rs = Some (last_written_metadata s) else rs = []))"

definition file_ok :: "(ObservationMetadata \<Rightarrow> bytes) \<Rightarrow> ('o FileObservationStoreRecord \<Rightarrow> bytes) \<Rightarrow> FileObservationStore \<Rightarrow> bool" where
  "file_ok ser ser_rec s \<longleftrightarrow>
     file_inv s \<and> faults (disk s) = [] \<and> root_directory s \<in> set (directories (disk s)) \<and>
     finalized_ok ser_rec s \<and> (\<exists>rs. active_ok ser ser_rec rs s)"

lemma file_ok_cong:
  assumes "FileObservationStore.disk s' = disk s" "root_directory s' = root_directory s" "filename_supply s' = filename_supply s"
    "metadata_written s' = metadata_written s" "last_written_metadata s' = last_written_metadata s"
    "active_file s' = active_file s" "files_taken s' = files_taken s"
  shows "file_ok ser ser_rec s' = file_ok ser ser_rec s"
    and "file_contents ser parse_rec s' = file_contents ser parse_rec s"
    and "active_ok ser ser_rec rs s' = active_ok ser ser_rec rs s"
proof -
  show a: "active_ok ser ser_rec rs s' = active_ok ser ser_rec rs s" for rs
    using assms FullPath_cong [of s' s] by (simp add: active_ok_def split: option.splits)
  have "same_store s s'" using assms by (simp add: same_store_def)
  with assms a show "file_ok ser ser_rec s' = file_ok ser ser_rec s"
    "file_contents ser parse_rec s' = file_contents ser parse_rec s"
    by (simp_all add: file_ok_def same_store_inv same_store_contents finalized_ok_def FullPath_cong [of s' s])
qed

lemma GetActiveFile_ok:
  assumes ok: "file_ok ser ser_rec s" and sup: "filename_supply s \<noteq> []" and run: "GetActiveFile s = (r, s')"
  shows "\<exists>st rs. r = Some st \<and> active_file s' = Some st \<and> file_ok ser ser_rec s' \<and> active_ok ser ser_rec rs s' \<and>
    file_contents ser parse_rec s' = file_contents ser parse_rec s \<and>
    ObservationStore.truncate s' = ObservationStore.truncate s \<and> filename_supply s' = filename_supply s \<and>
    finalized_bytes s' = finalized_bytes s \<and> metadata_written s' = metadata_written s \<and>
    last_written_metadata s' = last_written_metadata s"
proof (cases "active_file s")
  case (Some st)
  then have "r = Some st" "s' = s" using run by (simp_all add: GetActiveFile_def)
  with ok Some show ?thesis by (auto simp: file_ok_def)
next
  case None
  define st where "st = \<lparr>stream_path = active_file_name s, stream_append = False, ByteCount = 0\<rparr>"
  define d where "d = commit (map_set (active_file_name s) [] (files (disk s))) (disk s)"
  have nf: "faults (disk s) = []" and inv: "file_inv s" using ok by (simp_all add: file_ok_def)
  have a: "file_of (disk s) (active_file_name s) = None" "\<not> metadata_written s"
    using ok None by (auto simp: file_ok_def active_ok_def)
  have r: "r = Some st" "s' = s\<lparr>disk := d, active_file := Some st\<rparr>"
    using run None a nf by (auto simp: GetActiveFile_def on_disk_def NewProtoOutputStream_def next_fault_Nil st_def d_def)
  have w: "waiting s' = waiting s" by (rule waiting_cong) (simp_all add: r)
  have c: "file_contents ser parse_rec s' = file_contents ser parse_rec s"
    unfolding file_contents_def w using a by (simp add: r d_def files_sum_map_set)
  have act: "active_ok ser ser_rec [] s'" using a by (simp add: active_ok_def r st_def d_def valid_records_def)
  have fin: "finalized_ok ser_rec s'" using ok by (auto simp: file_ok_def finalized_ok_def r d_def)
  have "supply_ok s" using inv by (simp add: file_inv_def)
  then have "supply_ok s'" by (auto simp: supply_ok_def r d_def)
  then have "file_ok ser ser_rec s'"
    using ok inv sup act fin by (auto simp: file_ok_def file_inv_def r d_def distinct_keys_map_set)
  with c act show ?thesis
    by (auto simp: r ObservationStore.truncate_def intro!: exI [of _ st] exI [of _ "[]"])
qed

text \<open>Appending a record to the active file.\<close>

lemma write_record_ok:
  assumes codec: "record_codec ser_rec parse_rec" and ok: "file_ok ser ser_rec s" and sup: "filename_supply s \<noteq> []"
    and act: "active_file s = Some st" "active_ok ser ser_rec rs s" and r: "r \<noteq> CONTENTS_NOT_SET"
    and run: "write_record ser_rec r st s = (b, st', s')"
  shows "b \<and> active_file s' = Some st' \<and>
    file_of (disk s') (active_file_name s') = Some (concat (map ser_rec (rs @ [r]))) \<and>
    file_inv s' \<and> faults (disk s') = [] \<and> directories (disk s') = directories (disk s) \<and>
    stream_path st' = active_file_name s' \<and> \<not> stream_append st' \<and> ByteCount st' = length (concat (map ser_rec (rs @ [r]))) \<and>
    file_contents ser parse_rec s' = file_contents ser parse_rec s + record_items (final_key ser None rs) r \<and>
    finalized_ok ser_rec s' \<and>
    filename_supply s' = filename_supply s \<and> root_directory s' = root_directory s \<and> files_taken s' = files_taken s \<and>
    finalized_bytes s' = finalized_bytes s \<and> metadata_written s' = metadata_written s \<and>
    last_written_metadata s' = last_written_metadata s \<and> ObservationStore.truncate s' = ObservationStore.truncate s"
proof -
  let ?a = "active_file_name s" and ?old = "concat (map ser_rec rs)"
  have nf: "faults (disk s) = []" and inv: "file_inv s" using ok by (simp_all add: file_ok_def)
  have st: "stream_path st = ?a" "\<not> stream_append st" "file_of (disk s) ?a = Some ?old" "ByteCount st = length ?old"
    "CONTENTS_NOT_SET \<notin> set rs"
    using act by (auto simp: active_ok_def valid_records_def)
  obtain d' where d': "stream_write st (ser_rec r) (disk s) = (True, st\<lparr>ByteCount := length (?old @ ser_rec r)\<rparr>, d')"
    "files d' = map_set ?a (?old @ ser_rec r) (files (disk s))" "faults d' = []" "directories d' = directories (disk s)"
    using stream_write_no_fault [OF nf _ st(2,4), of "ser_rec r"] st(1,3) by auto
  have s': "b" "st' = st\<lparr>ByteCount := length (?old @ ser_rec r)\<rparr>" "s' = s\<lparr>disk := d', active_file := Some st'\<rparr>"
    using run d'(1) by (auto simp: write_record_def)
  have w: "waiting s' = waiting s" by (rule waiting_cong) (simp_all add: s')
  have dk: "distinct_keys (files (disk s))" using inv by (simp add: file_inv_def)
  have "file_contents ser parse_rec s' + file_items ser parse_rec ?old =
      file_contents ser parse_rec s + file_items ser parse_rec (?old @ ser_rec r)"
    unfolding file_contents_def w
    using files_sum_update [OF dk st(3), where b' = "?old @ ser_rec r" and
      w = "\<lambda>p b. if waiting s p \<or> p = ?a then file_items ser parse_rec b else {#}"]
    by (simp add: s' d')
  moreover have "file_items ser parse_rec (?old @ ser_rec r) = file_items ser parse_rec ?old + record_items (final_key ser None rs) r"
    using file_items_concat [OF codec, of ser "rs @ [r]"] file_items_concat [OF codec, of ser rs] st(5)
    by (simp add: obs_items_append)
  ultimately have "file_contents ser parse_rec s' = file_contents ser parse_rec s + record_items (final_key ser None rs) r"
    by (simp add: ac_simps)
  moreover have "file_inv s'"
  proof -
    have "supply_ok s" using inv by (simp add: file_inv_def)
    then have "supply_ok s'" by (auto simp: supply_ok_def s' d')
    with dk sup show ?thesis by (auto simp: file_inv_def s' d' distinct_keys_map_set)
  qed
  moreover have "finalized_ok ser_rec s'" using ok by (auto simp: file_ok_def finalized_ok_def s' d')
  ultimately show ?thesis using s' d' st by (simp add: ObservationStore.truncate_def)
qed


text \<open>Finalizing a non-empty active file without failing calls.\<close>

lemma FinalizeActiveFile_ok:
  assumes ok: "file_inv s" "faults (disk s) = []" and sup: "filename_supply s \<noteq> []"
    and c: "file_of (disk s) (active_file_name s) = Some c" "c \<noteq> []"
  shows "\<exists>s' name. FinalizeActiveFile s = (True, s') \<and> faults (disk s') = [] \<and>
    directories (disk s') = directories (disk s) \<and> file_of (disk s') (active_file_name s') = None \<and>
    \<not> metadata_written s' \<and> ObservationStore.truncate s' = ObservationStore.truncate s \<and>
    finalized_bytes s' = finalized_bytes s + of_nat (length c) \<and>
    (\<forall>n. file_of (disk s') (FullPath s' n) =
       (if n = name then Some c else if n = kActiveFileName then None else file_of (disk s) (FullPath s n))) \<and>
    kFinalizedFileRegex name \<and> CHR ''/'' \<notin> set name \<and> name \<notin> files_taken s'"
proof -
  define s1 where "s1 = s\<lparr>active_file := None, metadata_written := False\<rparr>"
  obtain name s2 where n: "next_filename s1 = (name, s2)" by force
  have "supply_ok s1" "filename_supply s1 \<noteq> []" using ok sup by (simp_all add: file_inv_def supply_ok_def s1_def)
  note n1 = next_filename_result [OF n this]
  have tr: "ObservationStore.truncate s2 = ObservationStore.truncate s" "metadata_written s2 = False"
    using n by (auto simp: next_filename_def s1_def ObservationStore.truncate_def split: list.splits)
  have d2: "disk s2 = disk s" "root_directory s2 = root_directory s" "files_taken s2 = files_taken s"
    "finalized_bytes s2 = finalized_bytes s"
    using n1(1-5) by (simp_all add: s1_def)
  have fp: "FullPath s2 = FullPath s" by (rule FullPath_cong) (simp add: d2)
  define d where "d = commit (map_set (FullPath s name) c (AList.delete (active_file_name s) (files (disk s)))) (disk s)"
  have ne: "name \<noteq> kActiveFileName" using n1(6) by auto
  have "rename_active_file s1 = (True, s2\<lparr>disk := d, finalized_bytes := finalized_bytes s2 + of_nat (length c)\<rparr>)"
    using c(1) ok(2) n d2(1)
    by (simp add: rename_active_file_def on_disk_def no_faults fp size_or_0_def d_def)
  moreover have "FinalizeActiveFile s = rename_active_file s1"
    using c ok(2) by (simp add: FinalizeActiveFile_def on_disk_def no_faults s1_def)
  ultimately show ?thesis
    using n1(6-8) tr d2 fp ok(2) ne
    by (intro exI [of _ "s2\<lparr>disk := d, finalized_bytes := finalized_bytes s2 + of_nat (length c)\<rparr>"] exI [of _ name])
      (auto simp: d_def ObservationStore.truncate_def s1_def)
qed

lemma FinalizeActiveFile_keeps:
  assumes inv: "file_inv s" "faults (disk s) = []" "filename_supply s \<noteq> []"
    and c: "file_of (disk s) (active_file_name s) = Some (concat (map ser_rec rs))" "concat (map ser_rec rs) \<noteq> []"
    and fin: "finalized_ok ser_rec s" and v: "valid_records rs"
  shows "\<exists>s'. FinalizeActiveFile s = (True, s') \<and> faults (disk s') = [] \<and> directories (disk s') = directories (disk s) \<and>
    active_ok ser ser_rec [] s' \<and> finalized_ok ser_rec s' \<and>
    (\<exists>n. kFinalizedFileRegex n \<and> CHR ''/'' \<notin> set n \<and> n \<notin> files_taken s' \<and> file_of (disk s') (FullPath s' n) \<noteq> None)"
proof -
  from FinalizeActiveFile_ok [OF inv c] obtain s' name where f: "FinalizeActiveFile s = (True, s')" "faults (disk s') = []"
      "directories (disk s') = directories (disk s)" "file_of (disk s') (active_file_name s') = None" "\<not> metadata_written s'"
      "\<And>n. file_of (disk s') (FullPath s' n) = (if n = name then Some (concat (map ser_rec rs))
         else if n = kActiveFileName then None else file_of (disk s) (FullPath s n))"
      "kFinalizedFileRegex name" "CHR ''/'' \<notin> set name" "name \<notin> files_taken s'"
    by blast
  have "active_file s' = None" using FinalizeActiveFile_result(3) [OF inv(1,3) f(1)] .
  then have "active_ok ser ser_rec [] s'" using f(4,5) by (simp add: active_ok_def)
  moreover have "finalized_ok ser_rec s'"
    unfolding finalized_ok_def f(6) using fin v by (auto simp: finalized_ok_def split: if_splits)
  moreover have "file_of (disk s') (FullPath s' name) \<noteq> None" using f(6) by simp
  ultimately show ?thesis using f by blast
qed

lemma store_message_ok:
  assumes codec: "record_codec ser_rec parse_rec" and ok: "file_ok ser ser_rec s" and sup: "filename_supply s \<noteq> []"
    and act: "active_file s = Some st" "active_ok ser ser_rec rs s" and mw: "metadata_written s"
    and obs: "obs \<noteq> OBSERVATION_NOT_SET"
    and run: "store_message ser_rec n obs metadata st s = (status, s')"
  shows "status = kOk \<and> file_ok ser ser_rec s' \<and>
    file_contents ser parse_rec s' = add_mset (last_written_metadata s, obs) (file_contents ser parse_rec s)"
proof -
  obtain r where r: "record_of obs = Some r" "r \<noteq> CONTENTS_NOT_SET" "\<And>k. record_items (Some k) r = {#(k, obs)#}"
    "final_key ser (Some (last_written_metadata s)) [r] = Some (last_written_metadata s)"
    using obs by (cases obs) (auto simp: record_of_def record_items_def)
  obtain b st1 s1 where w: "write_record ser_rec r st s = (b, st1, s1)" by (metis prod_cases3)
  note w1 = write_record_ok [OF codec ok sup act r(2) w]
  have key: "final_key ser None rs = Some (last_written_metadata s)" "valid_records rs"
    using act mw by (simp_all add: active_ok_def)
  have vr: "valid_records (rs @ [r])" using key r(2) by (intro valid_records_append) auto
  have c1: "file_contents ser parse_rec s1 = add_mset (last_written_metadata s, obs) (file_contents ser parse_rec s)"
    using w1 key r(3) by simp
  have s1: "filename_supply s1 = filename_supply s" "root_directory s1 = root_directory s" "metadata_written s1"
    "last_written_metadata s1 = last_written_metadata s"
    using w1 mw by simp_all
  define ns where "ns = rs @ [r]"
  have act1: "active_ok ser ser_rec ns s1"
    using w1 key r s1(3,4) vr by (simp add: active_ok_def final_key_append ns_def)
  define fin where "fin = (if ByteCount st1 \<ge> max_bytes_per_envelope s1 then FinalizeActiveFile s1 else (True, s1))"
  have "fst fin \<and> file_ok ser ser_rec (snd fin) \<and> file_contents ser parse_rec (snd fin) = file_contents ser parse_rec s1"
  proof (cases "ByteCount st1 \<ge> max_bytes_per_envelope s1")
    case False
    with w1 act1 ok s1 show ?thesis by (auto simp: fin_def file_ok_def)
  next
    case True
    have ne: "concat (map ser_rec ns) \<noteq> []" using codec_ser_nonempty [OF codec, of r] by (simp add: ns_def)
    have inv1: "file_inv s1" "faults (disk s1) = []" "filename_supply s1 \<noteq> []" using w1 s1 sup by simp_all
    have "file_of (disk s1) (active_file_name s1) = Some (concat (map ser_rec ns))" using w1 by (simp add: ns_def)
    from FinalizeActiveFile_keeps [OF inv1 this ne _ vr [folded ns_def]] w1
    obtain s2 where f: "FinalizeActiveFile s1 = (True, s2)" "faults (disk s2) = []"
      "directories (disk s2) = directories (disk s1)" "active_ok ser ser_rec [] s2" "finalized_ok ser_rec s2"
      by blast
    note f1 = FinalizeActiveFile_result(1,3-6) [OF inv1(1,3) f(1)] FinalizeActiveFile_result(2) [OF inv1(1,3) f(1), of ser parse_rec]
    have "file_ok ser ser_rec s2" using f f1 s1 w1 ok by (auto simp: file_ok_def)
    with True f f1 show ?thesis by (simp add: fin_def)
  qed
  moreover have "file_ok ser ser_rec (BytesStored Succeeded n metadata (count_observation q t)) = file_ok ser ser_rec t"
    "file_contents ser parse_rec (BytesStored Succeeded n metadata (count_observation q t)) = file_contents ser parse_rec t" for q t
    by (rule file_ok_cong; simp add: BytesStored_def count_observation_def)+
  moreover have "(status, s') = (kOk, BytesStored Succeeded n metadata (count_observation (report_id metadata) (snd fin)))"
    using run calculation(1) w w1 r(1) unfolding store_message_def fin_def [symmetric]
    by (auto simp: fin_def split: prod.splits if_splits)
  ultimately show ?thesis using c1 by simp
qed

lemma File_StoreObservation_result:
  assumes codec: "record_codec ser_rec parse_rec" and ok: "file_ok ser ser_rec s" and sup: "filename_supply s \<noteq> []"
    and enabled: "\<not> is_disabled s" and obs: "obs \<noteq> OBSERVATION_NOT_SET"
    and run: "File_StoreObservation size_of ser ser_rec obs metadata s = (status, s')"
  shows "file_ok ser ser_rec s' \<and>
    status = (if size_of obs > max_bytes_per_observation s then kObservationTooBig
              else if File_Size s + of_nat (size_of obs) > of_nat (max_bytes_total s) then kStoreFull else kOk) \<and>
    file_contents ser parse_rec s' =
      (if status = kOk then add_mset (ser metadata, obs) (file_contents ser parse_rec s) else file_contents ser parse_rec s)"
proof -
  define s0 where "s0 = BytesStored Attempted (size_of obs) metadata s"
  have s0: "file_ok ser ser_rec s0" "file_contents ser parse_rec s0 = file_contents ser parse_rec s"
    using ok by (subst file_ok_cong [of s0 s]; simp add: s0_def BytesStored_def)+
  have sel0: "filename_supply s0 = filename_supply s" "finalized_bytes s0 = finalized_bytes s" "active_file s0 = active_file s"
    "ObservationStore.truncate s0 = ObservationStore.truncate s\<lparr>bytes_stored_metrics := bytes_stored_metrics s0\<rparr>"
    by (simp_all add: s0_def BytesStored_def ObservationStore.truncate_def)
  obtain r s1 where g: "GetActiveFile s0 = (r, s1)" by force
  obtain st rs where g1: "r = Some st" "active_file s1 = Some st" "file_ok ser ser_rec s1" "active_ok ser ser_rec rs s1"
    "file_contents ser parse_rec s1 = file_contents ser parse_rec s" "filename_supply s1 = filename_supply s"
    "ObservationStore.truncate s1 = ObservationStore.truncate s0" "finalized_bytes s1 = finalized_bytes s"
    using GetActiveFile_ok [OF s0(1) _ g, of parse_rec] sup sel0 s0(2) by auto
  have size: "File_Size s = finalized_bytes s1 + of_nat (ByteCount st)"
  proof (cases "active_file s")
    case None
    then have "ByteCount st = 0"
      using g g1(1) sel0(3) s0(1)
      by (auto simp: GetActiveFile_def on_disk_def NewProtoOutputStream_def next_fault_Nil file_ok_def split: if_splits)
    with None g1 show ?thesis by (simp add: File_Size_def)
  next
    case (Some st')
    then have "st = st'" using g g1(1) sel0(3) by (auto simp: GetActiveFile_def)
    with Some g1 show ?thesis by (simp add: File_Size_def)
  qed
  have lim: "max_bytes_per_observation s1 = max_bytes_per_observation s" "max_bytes_total s1 = max_bytes_total s"
    using g1(7) sel0(4) by (simp_all add: ObservationStore.truncate_def)
  have run1: "(status, s') = (if size_of obs > max_bytes_per_observation s then (kObservationTooBig, s1)
     else if File_Size s + of_nat (size_of obs) > of_nat (max_bytes_total s) then (kStoreFull, s1)
     else if \<not> metadata_written s1 \<or> ser metadata \<noteq> last_written_metadata s1
     then (case write_record ser_rec (rec_meta_data metadata) st s1 of
             (ok, st, s) \<Rightarrow> if \<not> ok then (kWriteFailed, s)
               else store_message ser_rec (size_of obs) obs metadata st (s\<lparr>metadata_written := True, last_written_metadata := ser metadata\<rparr>))
     else store_message ser_rec (size_of obs) obs metadata st s1)"
    unfolding run [symmetric] File_StoreObservation_def size lim [symmetric] Let_def s0_def [symmetric]
    by (simp add: enabled g g1(1) split del: if_split)
  show ?thesis
  proof (cases "size_of obs > max_bytes_per_observation s \<or> File_Size s + of_nat (size_of obs) > of_nat (max_bytes_total s)")
    case True
    with run1 g1 show ?thesis by (auto split: if_splits)
  next
    case fits: False
    show ?thesis
    proof (cases "\<not> metadata_written s1 \<or> ser metadata \<noteq> last_written_metadata s1")
      case False
      then have "store_message ser_rec (size_of obs) obs metadata st s1 = (status, s')" using run1 fits by simp
      from store_message_ok [OF codec g1(3) _ g1(2,4) _ obs this] False g1 sup fits show ?thesis by auto
    next
      case True
      obtain b st2 s2 where w: "write_record ser_rec (rec_meta_data metadata) st s1 = (b, st2, s2)" by (metis prod_cases3)
      have "filename_supply s1 \<noteq> []" using g1 sup by simp
      note w1 = write_record_ok [OF codec g1(3) this g1(2,4) _ w, simplified]
      define s3 where "s3 = s2\<lparr>metadata_written := True, last_written_metadata := ser metadata\<rparr>"
      have "store_message ser_rec (size_of obs) obs metadata st2 s3 = (status, s')" using run1 fits True w w1 by (simp add: s3_def)
      moreover have "valid_records (rs @ [rec_meta_data metadata])"
        using g1(2,4) by (intro valid_records_append) (auto simp: active_ok_def)
      then have act3: "active_file s3 = Some st2" "active_ok ser ser_rec (rs @ [rec_meta_data metadata]) s3"
        using w1 by (simp_all add: s3_def active_ok_def final_key_append)
      moreover have ok3: "file_ok ser ser_rec s3"
        using w1 act3 g1(3) by (auto simp: file_ok_def file_inv_def supply_ok_def finalized_ok_def s3_def)
      moreover have "file_contents ser parse_rec s3 = file_contents ser parse_rec s"
      proof -
        have "same_store s2 s3" by (simp add: s3_def same_store_def)
        then show ?thesis using w1 g1(5) by (simp add: same_store_contents record_items_def split: option.splits)
      qed
      moreover have "filename_supply s3 \<noteq> []" using w1 g1 sup by (simp add: s3_def)
      ultimately show ?thesis
        using store_message_ok [OF codec ok3 _ act3, of obs "size_of obs" metadata status s'] obs fits
        by (simp add: s3_def)
    qed
  qed
qed


section \<open>Reading back\<close>

definition reader_items :: "(ObservationMetadata \<Rightarrow> bytes) \<Rightarrow> reader \<Rightarrow> (bytes \<times> EncryptedMessage) multiset" where
  "reader_items ser r =
     (\<Sum>b \<leftarrow> batches r. image_mset (Pair (ser (batch_meta_data b))) (mset (encrypted_observation b)))"

text \<open>The index and the current batch point to batches with the right metadata; \<open>k\<close> is the metadata in force.\<close>

definition reader_inv :: "(ObservationMetadata \<Rightarrow> bytes) \<Rightarrow> bytes option \<Rightarrow> reader \<Rightarrow> bool" where
  "reader_inv ser k r \<longleftrightarrow>
     (case current_batch r of
        None \<Rightarrow> k = None
      | Some i \<Rightarrow> i < length (batches r) \<and> k = Some (ser (batch_meta_data (batches r ! i)))) \<and>
     (\<forall>q i. map_of (batch_index r) q = Some i \<longrightarrow>
        i < length (batches r) \<and> ser (batch_meta_data (batches r ! i)) = q)"

lemma sum_list_update_mset:
  fixes f :: "'a \<Rightarrow> 'b multiset"
  shows "i < length xs \<Longrightarrow> f y = f (xs ! i) + d \<Longrightarrow> (\<Sum>x \<leftarrow> xs[i := y]. f x) = (\<Sum>x \<leftarrow> xs. f x) + d"
  by (induction xs arbitrary: i) (auto split: nat.splits simp: ac_simps)

lemma set_metadata_inv:
  assumes "reader_inv ser k r"
  shows "reader_inv ser (Some (ser m)) (set_metadata ser m r) \<and> reader_items ser (set_metadata ser m r) = reader_items ser r"
proof (cases "map_of (batch_index r) (ser m)")
  case None
  with assms show ?thesis
    by (auto simp: reader_inv_def set_metadata_def reader_items_def nth_append intro: less_SucI)
next
  case (Some i)
  with assms show ?thesis by (auto simp: reader_inv_def set_metadata_def reader_items_def)
qed

lemma add_message_inv:
  assumes "reader_inv ser (Some k) r"
  shows "\<exists>r'. add_message e r = Some r' \<and> reader_inv ser (Some k) r' \<and> reader_items ser r' = add_mset (k, e) (reader_items ser r)"
proof -
  obtain i where i: "current_batch r = Some i" "i < length (batches r)" "k = ser (batch_meta_data (batches r ! i))"
    using assms by (auto simp: reader_inv_def split: option.splits)
  define b where "b = (batches r ! i)\<lparr>encrypted_observation := encrypted_observation (batches r ! i) @ [e]\<rparr>"
  have meta: "batch_meta_data ((batches r)[i := b] ! j) = batch_meta_data (batches r ! j)" if "j < length (batches r)" for j
    using that by (cases "j = i") (simp_all add: b_def)
  let ?r = "r\<lparr>batches := (batches r)[i := b]\<rparr>"
  have "add_message e r = Some ?r" using i by (simp add: add_message_def b_def)
  moreover have "reader_inv ser (Some k) ?r" using assms i meta by (auto simp: reader_inv_def b_def)
  moreover have "reader_items ser ?r = reader_items ser r + {#(k, e)#}"
  proof -
    let ?f = "\<lambda>b. image_mset (Pair (ser (batch_meta_data b))) (mset (encrypted_observation b))"
    have "?f b = ?f (batches r ! i) + {#(k, e)#}" by (simp add: b_def i(3))
    from sum_list_update_mset [of i "batches r" ?f b, OF i(2) this] show ?thesis by (simp add: reader_items_def)
  qed
  ultimately show ?thesis by simp
qed

lemma read_records_concat:
  fixes Encrypt :: "'o \<Rightarrow> EncryptedMessage option"
  assumes codec: "record_codec ser_rec parse_rec" and "length (concat (map ser_rec rs)) \<le> fuel"
    and "CONTENTS_NOT_SET \<notin> set rs" and "reader_inv ser k r" and "k \<noteq> None \<or> valid_records rs"
  shows "\<exists>r'. read_records ser parse_rec Encrypt fuel (concat (map ser_rec rs)) r = Some (r', True) \<and>
    reader_inv ser (final_key ser k rs) r' \<and>
    reader_items ser r' = reader_items ser r + image_mset (\<lambda>(q, obs). (q, encrypt_on_read Encrypt obs)) (obs_items ser k rs)"
  using assms(2-)
proof (induction rs arbitrary: fuel k r)
  case Nil
  then show ?case using codec by (cases fuel) (simp_all add: record_codec_def)
next
  case (Cons x rs)
  have pos: "0 < length (ser_rec x)" using codec_ser_nonempty [OF codec] .
  have le: "length (ser_rec x) + length (concat (map ser_rec rs)) \<le> fuel" using Cons.prems by simp
  then obtain f where f: "fuel = Suc f" using pos by (cases fuel) auto
  have lf: "length (concat (map ser_rec rs)) \<le> f" using pos le f by linarith
  have p: "parse_rec (ser_rec x @ concat (map ser_rec rs)) = Some (x, concat (map ser_rec rs))"
    using codec by (simp add: record_codec_def)
  have ns: "CONTENTS_NOT_SET \<notin> set rs" using Cons.prems by simp
  consider m where "x = rec_meta_data m" | e q where "x = rec_encrypted_observation e" "k = Some q"
    | u q where "x = rec_unencrypted_observation u" "k = Some q"
    using Cons.prems(2,4) by (cases x; cases k) (auto simp: valid_records_def)
  then show ?case
  proof cases
    case 1
    note si = set_metadata_inv [OF Cons.prems(3), of m]
    from Cons.IH [OF lf ns conjunct1 [OF si]] si 1 p f show ?thesis by auto
  next
    case 2
    obtain r1 where r1: "add_message e r = Some r1" "reader_inv ser (Some q) r1" "reader_items ser r1 = add_mset (q, e) (reader_items ser r)"
      using add_message_inv [of ser q r e] Cons.prems(3) 2 by auto
    from Cons.IH [OF lf ns r1(2)] r1 2 p f show ?thesis by (auto simp: encrypt_on_read_def)
  next
    case 3
    let ?e = "encrypt_on_read Encrypt (unencrypted u)"
    obtain r1 where r1: "add_message ?e r = Some r1" "reader_inv ser (Some q) r1" "reader_items ser r1 = add_mset (q, ?e) (reader_items ser r)"
      using add_message_inv [of ser q r ?e] Cons.prems(3) 3 by auto
    from Cons.IH [OF lf ns r1(2)] r1 3 p f show ?thesis by auto
  qed
qed

lemma GetEnvelope_result:
  assumes codec: "record_codec ser_rec parse_rec" and ok: "file_ok ser ser_rec s" and own: "file_owned s h"
    and fresh: "\<not> envelope_read h" "batch (envelope h) = []"
  shows "\<exists>env h'. FileEnvelopeHolder_GetEnvelope ser parse_rec Encrypt h s = Some (env, h', s) \<and>
    envelope_items ser env = image_mset (\<lambda>(q, obs). (q, encrypt_on_read Encrypt obs)) (file_held ser parse_rec s h)"
proof -
  obtain n b where n: "file_names h = [n]" "kFinalizedFileRegex n" "file_of (disk s) (FullPath s n) = Some b"
    using own by (auto simp: file_owned_def)
  then obtain rs where rs: "b = concat (map ser_rec rs)" "valid_records rs"
    using ok by (auto simp: file_ok_def finalized_ok_def)
  let ?r0 = "\<lparr>batches = [], batch_index = [], current_batch = None\<rparr>"
  obtain r' where r': "read_records ser parse_rec Encrypt (length b) b ?r0 = Some (r', True)"
    "reader_items ser r' = image_mset (\<lambda>(q, obs). (q, encrypt_on_read Encrypt obs)) (obs_items ser None rs)"
    using read_records_concat [OF codec, of rs "length b" ser None ?r0 Encrypt] rs
    by (auto simp: reader_inv_def reader_items_def valid_records_def)
  have nf: "faults (disk s) = []" using ok by (simp add: file_ok_def)
  have "read_files ser parse_rec Encrypt [n] s ?r0 = Some (r', s)"
    using n(3) nf r'(1) by (simp add: on_disk_def no_faults)
  moreover have "file_held ser parse_rec s h = obs_items ser None rs"
    using n rs codec by (simp add: file_held_def file_items_concat)
  ultimately show ?thesis
    using fresh n(1) r'(2)
    by (auto simp: FileEnvelopeHolder_GetEnvelope_def envelope_items_def reader_items_def Let_def)
qed


section \<open>The store without failing calls gives out what it holds\<close>

text \<open>A waiting file is found by \<open>GetOldestFinalizedFile\<close>.\<close>

lemma foldl_oldest_nonempty:
  "a \<noteq> [] \<or> (\<exists>n \<in> set ns. n \<notin> taken) \<Longrightarrow> [] \<notin> set ns \<Longrightarrow> foldl (oldest_step taken) a ns \<noteq> []"
  by (induction ns arbitrary: a) (auto simp: oldest_step_def)

lemma GetOldest_found:
  assumes "faults (disk s) = []" and "root_directory s \<in> set (directories (disk s))"
    and n: "kFinalizedFileRegex n" "CHR ''/'' \<notin> set n" "n \<notin> files_taken s" "file_of (disk s) (FullPath s n) \<noteq> None"
  shows "\<exists>m. GetOldestFinalizedFile s = (Inr m, s)"
proof -
  define ns where "ns = filter kFinalizedFileRegex (filter (\<lambda>n. \<not> skipped_entry n) (readdir (root_directory s) (disk s)))"
  have l: "ListFinalizedFiles s = (ns, s)"
    using assms(1,2) by (simp add: ListFinalizedFiles_def on_disk_def no_faults ns_def)
  have "FullPath s n \<in> fst ` set (files (disk s))" using n(4) by (simp add: map_of_eq_None_iff)
  moreover have "entry_in (root_directory s) (FullPath s n) = Some n" using n(2) by (simp add: entry_in_iff FullPath_def)
  ultimately have "n \<in> set (readdir (root_directory s) (disk s))"
    by (force simp: readdir_def List.map_filter_def)
  then have "n \<in> set ns" using n(1) finalized_not_skipped by (simp add: ns_def)
  then have "foldl (oldest_step (files_taken s)) [] ns \<noteq> []"
    using n(3) finalized_not_skipped by (intro foldl_oldest_nonempty) (auto simp: ns_def)
  with l show ?thesis by (simp add: GetOldestFinalizedFile_def Let_def)
qed

lemma GetOldest_no_faults:
  assumes "faults (disk s) = []" and "root_directory s \<in> set (directories (disk s))"
  shows "snd (GetOldestFinalizedFile s) = s"
  using assms by (simp add: GetOldestFinalizedFile_def ListFinalizedFiles_def on_disk_def no_faults Let_def)

lemma no_waiting_contents:
  assumes "\<And>p b. (p, b) \<in> set (files (disk s)) \<Longrightarrow> \<not> waiting s p"
    and "file_of (disk s) (active_file_name s) \<in> {None, Some []}" and "distinct_keys (files (disk s))"
  shows "file_contents ser parse_rec s = {#}"
proof -
  have "files_sum (\<lambda>p b. if waiting s p \<or> p = active_file_name s then file_items ser parse_rec b else {#}) (files (disk s)) =
    files_sum (\<lambda>p b. {#}) (files (disk s))"
  proof (rule files_sum_cong)
    fix p b assume pb: "(p, b) \<in> set (files (disk s))"
    then have "file_of (disk s) p = Some b" using assms(3) by simp
    with assms(1) [OF pb] assms(2)
    show "(if waiting s p \<or> p = active_file_name s then file_items ser parse_rec b else {#}) = {#}" by auto
  qed
  also have "\<dots> = {#}" by (induction "files (disk s)") (auto simp: files_sum_def split_def)
  finally show ?thesis by (simp add: file_contents_def)
qed

lemma GetOldest_not_found:
  assumes ok: "faults (disk s) = []" "root_directory s \<in> set (directories (disk s))"
    and "GetOldestFinalizedFile s = (Inl c, s')" and "(p, b) \<in> set (files (disk s))"
  shows "\<not> waiting s p"
proof
  assume "waiting s p"
  then obtain n where n: "p = FullPath s n" "CHR ''/'' \<notin> set n" "kFinalizedFileRegex n" "n \<notin> files_taken s"
    by (auto simp: waiting_def entry_in_iff FullPath_def split: option.splits)
  moreover have "file_of (disk s) (FullPath s n) \<noteq> None" 
    using assms(4) n(1) weak_map_of_SomeI [of "FullPath s n" b] by auto
  ultimately show False using GetOldest_found [OF ok] assms(3) by fastforce
qed

lemma take_file_ok: "file_ok ser ser_rec s \<Longrightarrow> file_inv s' \<Longrightarrow> take_file n s = (h, s') \<Longrightarrow> file_ok ser ser_rec s'"
  by (auto simp: take_file_def file_ok_def active_ok_def finalized_ok_def split: option.splits)

lemma File_Take_ok:
  assumes codec: "record_codec ser_rec parse_rec" and ok: "file_ok ser ser_rec s"
    and run: "File_TakeNextEnvelopeHolder s = (h, s')"
  shows "file_ok ser ser_rec s' \<and> (h = None \<longrightarrow> file_contents ser parse_rec s = {#})"
proof -
  have inv: "file_inv s" "faults (disk s) = []" "root_directory s \<in> set (directories (disk s))" "finalized_ok ser_rec s"
    using ok by (simp_all add: file_ok_def)
  obtain rs where act: "active_ok ser ser_rec rs s" using ok by (auto simp: file_ok_def)
  have inv': "file_inv s'" using File_Take_result [OF inv(1) run, of ser parse_rec] by simp
  obtain r where g: "GetOldestFinalizedFile s = (r, s)"
    using GetOldest_no_faults [OF inv(2,3)] by (metis prod.collapse)
  show ?thesis
  proof (cases r)
    case (Inr n)
    then have "take_file n s = (h, s')" using run g by (simp add: File_TakeNextEnvelopeHolder_def)
    with take_file_ok [OF ok inv' this] show ?thesis by (auto simp: take_file_def)
  next
    case (Inl c)
    show ?thesis
    proof (cases "\<exists>st. active_file s = Some st \<and> ByteCount st \<noteq> 0")
      case False
      then have "h = None" "s' = s"
        using run g Inl by (auto simp: File_TakeNextEnvelopeHolder_def split: option.splits)
      moreover have "file_of (disk s) (active_file_name s) \<in> {None, Some []}"
        using act False by (auto simp: active_ok_def split: option.splits)
      moreover have "distinct_keys (files (disk s))" using inv(1) by (simp add: file_inv_def)
      ultimately show ?thesis
        using GetOldest_not_found [OF inv(2,3) g [unfolded Inl]] ok by (simp add: no_waiting_contents)
    next
      case True
      then obtain st where st: "active_file s = Some st" "ByteCount st \<noteq> 0" by blast
      have c: "file_of (disk s) (active_file_name s) = Some (concat (map ser_rec rs))" "concat (map ser_rec rs) \<noteq> []"
        "valid_records rs"
        using act st by (auto simp: active_ok_def)
      have ne: "filename_supply s \<noteq> []" using inv(1) True by (simp add: file_inv_def)
      obtain s2 n where f: "FinalizeActiveFile s = (True, s2)" "faults (disk s2) = []"
        "directories (disk s2) = directories (disk s)" "active_ok ser ser_rec [] s2" "finalized_ok ser_rec s2"
        "kFinalizedFileRegex n" "CHR ''/'' \<notin> set n" "n \<notin> files_taken s2" "file_of (disk s2) (FullPath s2 n) \<noteq> None"
        using FinalizeActiveFile_keeps [OF inv(1,2) ne c(1,2) inv(4) c(3)] by blast
      note f1 = FinalizeActiveFile_result(1,4) [OF inv(1) ne f(1)]
      have ok2: "file_ok ser ser_rec s2" using f f1 inv(3) by (auto simp: file_ok_def)
      obtain m where "GetOldestFinalizedFile s2 = (Inr m, s2)"
        using GetOldest_found [OF f(2) _ f(6-9)] ok2 by (auto simp: file_ok_def)
      then have t: "take_file m s2 = (h, s')"
        using run g Inl st f(1) by (simp add: File_TakeNextEnvelopeHolder_def)
      with take_file_ok [OF ok2 inv' this] show ?thesis by (auto simp: take_file_def)
    qed
  qed
qed

lemma File_Return_ok:
  fixes ser_rec :: "'o FileObservationStoreRecord \<Rightarrow> bytes"
  assumes "file_ok ser ser_rec s" and "file_owned s h"
  shows "file_ok ser ser_rec (File_ReturnEnvelopeHolder h s)"
proof -
  have "file_inv (File_ReturnEnvelopeHolder h s)"
    using File_Return_result [OF _ assms(2), of ser "\<lambda>_. None :: ('o FileObservationStoreRecord \<times> bytes) option"] assms(1) by (simp add: file_ok_def)
  with assms(1) show ?thesis
    by (auto simp: file_ok_def File_ReturnEnvelopeHolder_def active_ok_def finalized_ok_def split: option.splits)
qed

lemma File_destroy_ok:
  fixes ser_rec :: "'o FileObservationStoreRecord \<Rightarrow> bytes"
  assumes ok: "file_ok ser ser_rec s" and own: "file_owned s h"
  shows "file_ok ser ser_rec (File_destroy h s)"
proof -
  have nf: "faults (disk s) = []" and inv: "file_inv (File_destroy h s)"
    using File_destroy_result [OF _ own, of ser "\<lambda>_. None :: ('o FileObservationStoreRecord \<times> bytes) option"] ok by (simp_all add: file_ok_def)
  obtain n b where n: "file_names h = [n]" "kFinalizedFileRegex n" "file_of (disk s) (FullPath s n) = Some b"
    using own by (auto simp: file_owned_def)
  have d: "File_destroy h s = s\<lparr>finalized_bytes := finalized_bytes s - of_nat (length b),
      disk := commit (AList.delete (FullPath s n) (files (disk s))) (disk s)\<rparr>"
    using n nf by (simp add: File_destroy_def destroy_file_def size_or_0_def on_disk_def no_faults)
  have "n \<noteq> kActiveFileName" using n(2) by auto
  then show ?thesis
    using inv ok unfolding d by (auto simp: file_ok_def active_ok_def finalized_ok_def split: option.splits)
qed

interpretation file_store_no_faults: reliable_observation_store
  File_TakeNextEnvelopeHolder File_ReturnEnvelopeHolder File_destroy
  "\<lambda>s. record_codec ser_rec parse_rec \<and> file_ok ser ser_rec s" file_owned
  "file_contents ser parse_rec" "file_held ser parse_rec" file_rank
  for ser ser_rec and parse_rec :: "bytes \<Rightarrow> ('o FileObservationStoreRecord \<times> bytes) option"
proof unfold_locales
  fix s s' h assume inv: "record_codec ser_rec parse_rec \<and> file_ok ser ser_rec s"
  then have fi: "file_inv s" by (simp add: file_ok_def)
  { assume "File_TakeNextEnvelopeHolder s = (None, s')"
    from File_Take_ok [OF _ _ this, of ser_rec parse_rec ser] File_Take_result [OF fi this, of ser parse_rec] inv
    show "(record_codec ser_rec parse_rec \<and> file_ok ser ser_rec s') \<and> file_contents ser parse_rec s' = file_contents ser parse_rec s"
      "file_contents ser parse_rec s = {#}" by auto }
  { assume "File_TakeNextEnvelopeHolder s = (Some h, s')"
    from File_Take_ok [OF _ _ this, of ser_rec parse_rec ser] File_Take_result [OF fi this, of ser parse_rec] inv
    show "(record_codec ser_rec parse_rec \<and> file_ok ser ser_rec s') \<and> file_owned s' h \<and>
      file_contents ser parse_rec s = file_contents ser parse_rec s' + file_held ser parse_rec s' h \<and> file_rank s' < file_rank s"
      by auto }
  { assume own: "file_owned s h"
    from File_Return_result [OF fi own] File_Return_ok [OF _ own] inv
    show "(record_codec ser_rec parse_rec \<and> file_ok ser ser_rec (File_ReturnEnvelopeHolder h s)) \<and>
      file_contents ser parse_rec (File_ReturnEnvelopeHolder h s) = file_contents ser parse_rec s + file_held ser parse_rec s h \<and>
      file_rank (File_ReturnEnvelopeHolder h s) \<le> Suc (file_rank s)" by blast
    from File_destroy_result [OF fi own] File_destroy_ok [OF _ own] inv
    show "(record_codec ser_rec parse_rec \<and> file_ok ser ser_rec (File_destroy h s)) \<and>
      file_contents ser parse_rec (File_destroy h s) = file_contents ser parse_rec s \<and>
      file_rank (File_destroy h s) \<le> file_rank s" by blast }
qed

section \<open>File names of the generator\<close>

lemma length_decimal: "10 ^ k \<le> n \<Longrightarrow> n < 10 ^ Suc k \<Longrightarrow> length (decimal n) = Suc k"
proof (induction k arbitrary: n)
  case 0
  then show ?case by (simp add: decimal.simps [of n])
next
  case (Suc k)
  have "(10 :: nat) \<le> 10 * 10 ^ k" by simp
  then have "\<not> n < 10" using Suc.prems(1) unfolding power_Suc by linarith
  moreover have "10 ^ k \<le> n div 10" "n div 10 < 10 ^ Suc k"
    using Suc.prems by (simp_all add: less_eq_div_iff_mult_less_eq div_less_iff_less_mult ac_simps)
  ultimately show ?case using Suc.IH by (simp add: decimal.simps [of n])
qed

lemma length_decimal_le: "n < 10 ^ Suc k \<Longrightarrow> length (decimal n) \<le> Suc k"
proof (induction k arbitrary: n)
  case 0
  then show ?case by (simp add: decimal.simps [of n])
next
  case (Suc k)
  show ?case
  proof (cases "n < 10")
    case False
    have "n div 10 < 10 ^ Suc k" using Suc.prems by (simp add: div_less_iff_less_mult ac_simps)
    with False Suc.IH show ?thesis by (simp add: decimal.simps [of n])
  qed (simp add: decimal.simps [of n])
qed

lemma decimal_digits: "list_all is_digit (decimal n)"
proof (induction n rule: decimal.induct)
  case (1 n)
  have "is_digit (digit m)" if "m < 10" for m using that by (simp add: is_digit_def digit_def)
  with 1 show ?case by (simp add: decimal.simps [of n])
qed

text \<open>The names the generator makes for a clock between 1970 and 2286 and a random number in its range are
  accepted by the pattern of finalized files, so that \<open>ListFinalizedFiles\<close> finds every finalized file.\<close>

theorem GenerateFilename_is_finalized:
  assumes "0 \<le> now" and "now < 10 ^ 13" and "kMinRandomNumber \<le> rnd" and "rnd \<le> kMaxRandomNumber"
  shows "kFinalizedFileRegex (GenerateFilename (now, rnd)) \<and> CHR ''/'' \<notin> set (GenerateFilename (now, rnd))"
proof -
  let ?t = "decimal (nat now)"
  define pad where "pad = replicate (13 - length ?t) (CHR ''0'') @ ?t"
  have "nat now < 10 ^ Suc 12" using assms(1,2) by (simp add: nat_less_iff)
  then have "length ?t \<le> 13" using length_decimal_le [of "nat now" 12] by simp
  then have lp: "length pad = 13" by (simp add: pad_def)
  have lr: "length (decimal rnd) = 10"
    using length_decimal [of 9 rnd] assms(3,4) by (simp add: kMinRandomNumber_def kMaxRandomNumber_def)
  have dp: "list_all is_digit pad"
    using decimal_digits [of "nat now"] by (auto simp: pad_def list_all_iff is_digit_def)
  have g: "GenerateFilename (now, rnd) = pad @ ''-'' @ decimal rnd @ ''.data''"
    using assms(1) lp by (simp add: GenerateFilename_def decimal_int_def kTimestampWidth_def pad_def Let_def)
  have nd: "(pad @ ''-'' @ decimal rnd @ ''.data'') ! 24 = CHR ''.''"
    using lp lr by (simp add: nth_append)
  have "\<not> is_digit (CHR ''/'')" by (simp add: is_digit_def)
  then have "CHR ''/'' \<notin> set pad" "CHR ''/'' \<notin> set (decimal rnd)"
    using dp decimal_digits [of rnd] by (auto simp: list_all_iff)
  then show ?thesis
    unfolding g kFinalizedFileRegex_def using lp lr dp decimal_digits [of rnd] nd by (simp add: nth_append)
qed

theorem GenerateFilename_is_finalized_witness:
  "kFinalizedFileRegex (GenerateFilename (1577836800000, 1234567890))"
  using GenerateFilename_is_finalized [of 1577836800000 1234567890]
  by (simp add: kMinRandomNumber_def kMaxRandomNumber_def)

section \<open>A codec\<close>

text \<open>A codec for records, which shows that the hypothesis on the protobuf functions can hold.\<close>

instance EncryptionScheme :: countable
  by countable_datatype

instance EncryptedMessage_ext :: (countable) countable
  by (rule countable_classI [of "\<lambda>r. to_nat (scheme r, key_index r, public_key_fingerprint r, ciphertext r, EncryptedMessage.more r)"]) simp

instance SystemProfile_ext :: (countable) countable
  by (rule countable_classI [of "\<lambda>r. to_nat (os r, arch r, board_name r, product_name r, system_version r, channel r, realm r,
    experiments r, SystemProfile.more r)"]) simp

instance ObservationMetadata_ext :: (countable) countable
  by (rule countable_classI [of "\<lambda>r. to_nat (customer_id r, project_id r, metric_id r, report_id r, day_index r,
    system_profile r, ObservationMetadata.more r)"]) simp

instance FileObservationStoreRecord :: (countable) countable
  by countable_datatype

lemma unary_codec: "record_codec unary_ser (unary_parse :: bytes \<Rightarrow> ('o :: countable FileObservationStoreRecord \<times> bytes) option)"
  by (auto simp: record_codec_def unary_ser_def unary_parse_def dropWhile_append takeWhile_append)

section \<open>Properties of the file store\<close>

text \<open>A store with its root directory in place, for the examples: no files, a supply of two names.\<close>

definition example_file_store :: FileObservationStore where
  "example_file_store =
     ObservationStore.extend
       \<lparr>max_bytes_per_observation = 10, max_bytes_per_envelope = 20, max_bytes_total = 30, almost_full_threshold = 18,
        num_obs_per_report = [], is_disabled = False, bytes_stored_metrics = []\<rparr>
       (FileObservationStore.fields \<lparr>files = [], directories = [''d''], faults = [], history = []\<rparr> ''d''
          [(1577836800000, 1234567890), (1577836800001, 1234567890)] False [] None {} 0)"

lemma example_supply:
  "GenerateFilename (1577836800000, 1234567890) = ''1577836800000-1234567890.data''"
  "GenerateFilename (1577836800001, 1234567890) = ''1577836800001-1234567890.data''"
  by (simp_all add: GenerateFilename_def decimal_int_def decimal.simps digit_simps kTimestampWidth_def Let_def)

lemma example_names:
  "kFinalizedFileRegex ''1577836800000-1234567890.data''" "kFinalizedFileRegex ''1577836800001-1234567890.data''"
  by (simp_all add: kFinalizedFileRegex_def is_digit_def)

lemma example_store_sel [simp]:
  "files (disk example_file_store) = []" "faults (disk example_file_store) = []" "root_directory example_file_store = ''d''"
  "directories (disk example_file_store) = [''d'']" "active_file example_file_store = None"
  "metadata_written example_file_store = False" "files_taken example_file_store = {}"
  "filename_supply example_file_store = [(1577836800000, 1234567890), (1577836800001, 1234567890)]"
  "is_disabled example_file_store = False" "finalized_bytes example_file_store = 0"
  "max_bytes_per_observation example_file_store = 10" "max_bytes_total example_file_store = 30"
  by (simp_all add: example_file_store_def ObservationStore.extend_def FileObservationStore.fields_def)

lemma example_file_ok: "file_ok ser ser_rec example_file_store"
  by (simp add: file_ok_def file_inv_def supply_ok_def active_ok_def finalized_ok_def example_names example_supply)



text \<open>C18. Without failing calls the file store accepts an observation exactly when it is not too big and fits under
  the total limit; then it holds the observation under its metadata, and otherwise its contents are unchanged.\<close>

theorem File_StoreObservation_spec:
  assumes "record_codec ser_rec parse_rec" and "file_ok ser ser_rec s" and "filename_supply s \<noteq> []"
    and "\<not> is_disabled s" and "obs \<noteq> OBSERVATION_NOT_SET"
    and "File_StoreObservation size_of ser ser_rec obs metadata s = (status, s')"
  shows "file_ok ser ser_rec s' \<and>
    status = (if size_of obs > max_bytes_per_observation s then kObservationTooBig
              else if File_Size s + of_nat (size_of obs) > of_nat (max_bytes_total s) then kStoreFull else kOk) \<and>
    file_contents ser parse_rec s' =
      (if status = kOk then add_mset (ser metadata, obs) (file_contents ser parse_rec s) else file_contents ser parse_rec s)"
  by (rule File_StoreObservation_result [OF assms])

theorem File_StoreObservation_spec_witness:
  "fst (File_StoreObservation (\<lambda>_. 7) (\<lambda>_. []) unary_ser (unencrypted True) example_metadata example_file_store) = kOk"
proof -
  have "File_Size example_file_store = 0" by (simp add: File_Size_def)
  with File_StoreObservation_spec [OF unary_codec example_file_ok, of "unencrypted True" "\<lambda>_. 7" "\<lambda>_. []" example_metadata,
      OF _ _ _ prod.collapse [symmetric]]
  show ?thesis by simp
qed

text \<open>C20. Reading a holder that was taken from a store without failing calls delivers exactly the observations of its
  file, each encrypted and under its metadata, without undefined behaviour.\<close>

theorem File_GetEnvelope_delivers:
  assumes "record_codec ser_rec parse_rec" and "file_ok ser ser_rec s"
    and "File_TakeNextEnvelopeHolder s = (Some h, s')"
  shows "\<exists>env h'. FileEnvelopeHolder_GetEnvelope ser parse_rec Encrypt h s' = Some (env, h', s') \<and>
    envelope_items ser env = image_mset (\<lambda>(k, obs). (k, encrypt_on_read Encrypt obs)) (file_held ser parse_rec s' h) \<and>
    file_contents ser parse_rec s = file_contents ser parse_rec s' + file_held ser parse_rec s' h"
proof -
  have t: "file_ok ser ser_rec s'" "file_owned s' h"
    "file_contents ser parse_rec s = file_contents ser parse_rec s' + file_held ser parse_rec s' h"
    using file_store_no_faults.take_some [of ser_rec parse_rec ser s h s'] assms by simp_all
  have "\<not> envelope_read h" "batch (envelope h) = []"
    using assms(3) by (auto simp: File_TakeNextEnvelopeHolder_def take_file_def FileEnvelopeHolder_ctor_def
        split: prod.splits sum.splits option.splits if_splits bool.splits)
  from GetEnvelope_result [OF assms(1) t(1,2) this] t(3) show ?thesis by blast
qed

definition example_full_store :: "(bool FileObservationStoreRecord \<Rightarrow> bytes) \<Rightarrow> FileObservationStore" where
  "example_full_store ser_rec =
     example_file_store\<lparr>disk := \<lparr>files = [(''d/1577836800002-1234567890.data'', concat (map ser_rec
        [rec_meta_data example_metadata, rec_unencrypted_observation True]))],
        directories = [''d''], faults = [], history = []\<rparr>\<rparr>"

lemma example_full_ok: "file_ok ser ser_rec (example_full_store ser_rec)"
proof -
  let ?rs = "[rec_meta_data example_metadata, rec_unencrypted_observation True]"
  have "valid_records ?rs" by (simp add: valid_records_def)
  then have "finalized_ok ser_rec (example_full_store ser_rec)"
    by (auto simp: finalized_ok_def example_full_store_def split: if_splits intro!: exI [of _ ?rs])
  moreover have "file_inv (example_full_store ser_rec)"
    by (simp add: file_inv_def supply_ok_def example_full_store_def example_names example_supply FullPath_def)
  moreover have "active_ok ser ser_rec [] (example_full_store ser_rec)"
    by (simp add: active_ok_def example_full_store_def FullPath_def kActiveFileName_def)
  ultimately show ?thesis by (auto simp: file_ok_def example_full_store_def)
qed

theorem File_GetEnvelope_delivers_witness:
  "\<exists>h s' env h'. File_TakeNextEnvelopeHolder (example_full_store unary_ser) = (Some h, s') \<and>
     FileEnvelopeHolder_GetEnvelope (\<lambda>_. []) (unary_parse :: bytes \<Rightarrow> (bool FileObservationStoreRecord \<times> bytes) option)
       (\<lambda>_. None) h s' = Some (env, h', s')"
proof -
  have "\<exists>h s'. File_TakeNextEnvelopeHolder (example_full_store unary_ser) = (Some h, s')"
    by (simp add: File_TakeNextEnvelopeHolder_def GetOldestFinalizedFile_def ListFinalizedFiles_def on_disk_def
        ListFiles_def next_fault_def example_full_store_def example_file_store_def ObservationStore.extend_def
        FileObservationStore.fields_def readdir_def skipped_entry_def Let_def List.map_filter_def entry_in_def
        kFinalizedFileRegex_def is_digit_def oldest_step_def take_file_def)
  then obtain h s' where t: "File_TakeNextEnvelopeHolder (example_full_store unary_ser) = (Some h, s')" by blast
  from File_GetEnvelope_delivers [OF unary_codec example_full_ok this, of "\<lambda>_. []" "\<lambda>_. None"] t
  show ?thesis by blast
qed

text \<open>An active file that could not be finalized is not appended to when it is opened again: the next record is
  written over its beginning.\<close>

theorem File_reopen_overwrites:
  assumes "active_file s = None" and "file_of (disk s) (active_file_name s) = Some c" and "faults (disk s) = []"
  shows "case GetActiveFile s of
      (Some st, s1) \<Rightarrow> (case write_record ser_rec r st s1 of
         (ok, _, s2) \<Rightarrow> ok \<and> file_of (disk s2) (active_file_name s2) = Some (ser_rec r @ drop (length (ser_rec r)) c))
    | (None, s1) \<Rightarrow> False"
  using assms
  by (simp add: GetActiveFile_def on_disk_def NewProtoOutputStream_def next_fault_Nil write_record_def stream_write_def
      written_def overlay_def Let_def)

theorem File_reopen_overwrites_witness:
  "case GetActiveFile (example_file_store\<lparr>disk := \<lparr>files = [(''d/in_progress.data'', [1, 2, 3])], directories = [''d''],
       faults = [], history = []\<rparr>\<rparr>) of
      (Some st, s1) \<Rightarrow> (case write_record (\<lambda>_ :: bool FileObservationStoreRecord. [9]) CONTENTS_NOT_SET st s1 of
         (ok, _, s2) \<Rightarrow> ok \<and> file_of (disk s2) (active_file_name s2) = Some [9, 2, 3])
    | (None, s1) \<Rightarrow> False"
  using File_reopen_overwrites [of "example_file_store\<lparr>disk := \<lparr>files = [(''d/in_progress.data'', [1, 2, 3])], directories = [''d''],
       faults = [], history = []\<rparr>\<rparr>" "[1, 2, 3]" "\<lambda>_ :: bool FileObservationStoreRecord. [9]" CONTENTS_NOT_SET]
  by (auto simp: FullPath_def kActiveFileName_def
      split: prod.splits option.splits)

end
