(* ===== verification/Shipping_Backends.thy ===== *)
theory Shipping_Backends
  imports Shipping_Manager Clearcut_Uploader Memory_Observation_Store File_Observation_Store
begin

text \<open>
  The two subclasses of the shipping manager, \<open>ClearcutV1ShippingManager\<close> and \<open>LocalShippingManager\<close> of
  \<^verbatim>\<open>src/src/uploader/shipping_manager.cc\<close>, and the interpretation of the locale \<open>shipping\<close> on the Clearcut
  subclass with each of the two stores. Parameters for code that is not part of the sources: the serialiser of
  the request, the size of a batch, and the two encrypters (functions in the state of the backend). The results
  are the end-to-end properties of the upload: no observation is lost between the store and the server.
\<close>

section \<open>ClearcutV1ShippingManager\<close>

text \<open>A request is the log source with the encrypted envelope.\<close>

type_synonym request = "int \<times> EncryptedMessage"

record 'o Clearcut = SendStats +
  encrypt_to_analyzer :: "'o \<Rightarrow> EncryptedMessage option"
  encrypt_to_shuffler :: "Envelope \<Rightarrow> EncryptedMessage option"
  clearcut :: "request ClearcutUploader"
  max_attempts_per_upload :: int
  backend_api_key :: string
  log_source_id :: int
  ser_request :: "request \<Rightarrow> bytes option"
  batch_size :: "ObservationBatch \<Rightarrow> nat"
  project_bytes_uploaded :: "(BytesUploadedStatus \<times> nat \<times> u32 \<times> u32) list"

definition batch_metrics :: "BytesUploadedStatus \<Rightarrow> Envelope \<Rightarrow> 'o Clearcut \<Rightarrow> 'o Clearcut" where
  "batch_metrics status env b =
     b\<lparr>project_bytes_uploaded :=
         rev (map (\<lambda>x. (status, batch_size b x, customer_id (batch_meta_data x), project_id (batch_meta_data x))) (batch env))
         @ project_bytes_uploaded b\<rparr>"

definition SendEnvelopeToClearcutDestination :: "Envelope \<Rightarrow> 'o Clearcut \<Rightarrow> (StatusCode \<times> 'o Clearcut) option" where
  "SendEnvelopeToClearcutDestination env b =
     (case encrypt_to_shuffler b env of
        None \<Rightarrow> Some (OK, b)
      | Some msg \<Rightarrow>
          let b = batch_metrics UploadAttempted env b
          in case UploadEvents (ser_request b) (log_source_id b, msg) (max_attempts_per_upload b) (clearcut b) of
               None \<Rightarrow> None
             | Some (status, u) \<Rightarrow>
                 let b = count_send status (b\<lparr>clearcut := u\<rparr>)
                 in Some (status, if status = OK then batch_metrics UploadSucceeded env b else b))"

text \<open>\<open>GetEnvelope\<close> and \<open>Size\<close> are the virtual methods of the holder; the size is only logged.\<close>

definition Clearcut_SendEnvelopeToBackend ::
  "(('o \<Rightarrow> EncryptedMessage option) \<Rightarrow> 'h \<Rightarrow> 's \<Rightarrow> (Envelope \<times> 'h \<times> 's) option) \<Rightarrow> ('h \<Rightarrow> 's \<Rightarrow> 'n \<times> 'h \<times> 's) \<Rightarrow> ('s, 'h, 'o Clearcut) send_fun" where
  "Clearcut_SendEnvelopeToBackend GetEnvelope Size envelope_to_send s b =
     (case GetEnvelope (encrypt_to_analyzer b) envelope_to_send s of
        None \<Rightarrow> None
      | Some (env, envelope_to_send, s) \<Rightarrow>
          let (_, envelope_to_send, s) = Size envelope_to_send s
          in case SendEnvelopeToClearcutDestination (env\<lparr>api_key := backend_api_key b\<rparr>) b of
               None \<Rightarrow> None
             | Some (status, b) \<Rightarrow> Some (status = OK, envelope_to_send, s, b))"

text \<open>The methods of the holders of the two stores.\<close>

definition Memory_GetEnvelope :: "('o \<Rightarrow> EncryptedMessage option) \<Rightarrow> 'o EnvelopeMaker \<Rightarrow> 's \<Rightarrow> (Envelope \<times> 'o EnvelopeMaker \<times> 's) option" where
  "Memory_GetEnvelope Encrypt h s = Some (EnvelopeMaker_GetEnvelope Encrypt h, h, s)"

definition Memory_holder_Size :: "'o EnvelopeMaker \<Rightarrow> 's \<Rightarrow> nat \<times> 'o EnvelopeMaker \<times> 's" where
  "Memory_holder_Size h s = (EnvelopeMaker_Size h, h, s)"

definition Memory_ops :: "('o MemoryObservationStore, 'o EnvelopeMaker) store_ops" where
  "Memory_ops =
     \<lparr>TakeNextEnvelopeHolder = Memory_TakeNextEnvelopeHolder, ReturnEnvelopeHolder = Memory_ReturnEnvelopeHolder,
      destroy = Memory_destroy, Empty = Memory_Empty, almost_full = \<lambda>s. IsAlmostFull (Memory_Size s) s\<rparr>"

definition File_ops :: "(FileObservationStore, FileEnvelopeHolder) store_ops" where
  "File_ops =
     \<lparr>TakeNextEnvelopeHolder = File_TakeNextEnvelopeHolder, ReturnEnvelopeHolder = File_ReturnEnvelopeHolder,
      destroy = File_destroy, Empty = File_Empty, almost_full = \<lambda>s. IsAlmostFull (unat (File_Size s)) s\<rparr>"

section \<open>LocalShippingManager\<close>

record 'o Local = SendStats +
  local_encrypt_to_analyzer :: "'o \<Rightarrow> EncryptedMessage option"
  output_file_path :: string
  local_disk :: Disk
  ser_envelope :: "Envelope \<Rightarrow> bytes"

definition Local_SendEnvelopeToBackend ::
  "(('o \<Rightarrow> EncryptedMessage option) \<Rightarrow> 'h \<Rightarrow> 's \<Rightarrow> (Envelope \<times> 'h \<times> 's) option) \<Rightarrow> ('h \<Rightarrow> 's \<Rightarrow> 'n \<times> 'h \<times> 's) \<Rightarrow> ('s, 'h, 'o Local) send_fun" where
  "Local_SendEnvelopeToBackend GetEnvelope Size envelope_to_send s b =
     (case GetEnvelope (local_encrypt_to_analyzer b) envelope_to_send s of
        None \<Rightarrow> None
      | Some (env, envelope_to_send, s) \<Rightarrow>
          let (_, envelope_to_send, s) = Size envelope_to_send s;
              status = OK;
              d = (case NewProtoOutputStream (output_file_path b) True (local_disk b) of
                     (Inl c, d) \<Rightarrow> d
                   | (Inr st, d) \<Rightarrow> (case stream_write st (ser_envelope b env) d of (ok, _, d) \<Rightarrow> d));
              b = count_send status (b\<lparr>local_disk := d\<rparr>)
          in Some (status = OK, envelope_to_send, s, b))"

section \<open>Delivery\<close>

text \<open>What the server has accepted: the envelopes of the requests it answered with code 200. The function \<open>opened\<close> stands
  for the decryption by the shuffler.\<close>

definition accepted :: "(ObservationMetadata \<Rightarrow> bytes) \<Rightarrow> (EncryptedMessage \<Rightarrow> Envelope) \<Rightarrow> (request \<times> PostOutcome) list \<Rightarrow> (bytes \<times> EncryptedMessage) multiset" where
  "accepted ser opened ps =
     (\<Sum>(req, out) \<leftarrow> ps. case out of
        Response c w \<Rightarrow> if c = 200 then envelope_items ser (opened (snd req)) else {#}
      | PostError e \<Rightarrow> {#})"

definition clearcut_delivered :: "(ObservationMetadata \<Rightarrow> bytes) \<Rightarrow> (EncryptedMessage \<Rightarrow> Envelope) \<Rightarrow> 'o Clearcut \<Rightarrow> (bytes \<times> EncryptedMessage) multiset" where
  "clearcut_delivered ser opened b = accepted ser opened (posts (clearcut b))"

text \<open>The encrypters work and the shuffler can decrypt, at least one try is allowed, and a failing post has an error code.\<close>

definition clearcut_inv :: "('o \<Rightarrow> EncryptedMessage option) \<Rightarrow> (EncryptedMessage \<Rightarrow> Envelope) \<Rightarrow> 'o Clearcut \<Rightarrow> bool" where
  "clearcut_inv Encrypt opened b \<longleftrightarrow>
     encrypt_to_analyzer b = Encrypt \<and> (\<forall>e. \<exists>c. encrypt_to_shuffler b e = Some c \<and> opened c = e) \<and>
     1 \<le> max_attempts_per_upload b \<and> (\<forall>x \<in> set (outcomes (clearcut b)). real_outcome x)"

lemma accepted_append: "accepted ser opened (ps @ qs) = accepted ser opened ps + accepted ser opened qs"
  by (simp add: accepted_def)

lemma accepted_member:
  "(req, Response 200 w) \<in> set ps \<Longrightarrow> envelope_items ser (opened (snd req)) \<subseteq># accepted ser opened ps"
  by (induction ps) (auto simp: accepted_def intro: subset_mset.add_increasing subset_mset.add_increasing2)

lemma clearcut_inv_cong:
  "encrypt_to_analyzer b' = encrypt_to_analyzer b \<Longrightarrow> encrypt_to_shuffler b' = encrypt_to_shuffler b \<Longrightarrow>
   max_attempts_per_upload b' = max_attempts_per_upload b \<Longrightarrow> outcomes (clearcut b') = outcomes (clearcut b) \<Longrightarrow>
   clearcut_inv E opened b' = clearcut_inv E opened b"
  by (simp add: clearcut_inv_def)

lemma SendEnvelopeToClearcutDestination_result:
  assumes inv: "clearcut_inv E opened b"
  shows "\<exists>status b'. SendEnvelopeToClearcutDestination env b = Some (status, b') \<and> clearcut_inv E opened b' \<and>
    clearcut_delivered ser opened b \<subseteq># clearcut_delivered ser opened b' \<and>
    (status = OK \<longrightarrow> clearcut_delivered ser opened b + envelope_items ser env \<subseteq># clearcut_delivered ser opened b')"
proof -
  obtain msg where msg: "encrypt_to_shuffler b env = Some msg" "opened msg = env" using inv by (auto simp: clearcut_inv_def)
  define b1 where "b1 = batch_metrics UploadAttempted env b"
  have b1: "encrypt_to_analyzer b1 = encrypt_to_analyzer b" "encrypt_to_shuffler b1 = encrypt_to_shuffler b"
    "max_attempts_per_upload b1 = max_attempts_per_upload b" "clearcut b1 = clearcut b"
    by (simp_all add: b1_def batch_metrics_def)
  have pre: "1 \<le> max_attempts_per_upload b1" "\<forall>x \<in> set (outcomes (clearcut b1)). real_outcome x"
    using inv b1 by (simp_all add: clearcut_inv_def)
  obtain st u' ps where u: "UploadEvents (ser_request b1) (log_source_id b1, msg) (max_attempts_per_upload b1) (clearcut b1) = Some (st, u')"
    "posts u' = ps @ posts (clearcut b1)" "st = OK \<longrightarrow> (\<exists>w. ((log_source_id b1, msg), Response 200 w) \<in> set ps)"
    "\<forall>x \<in> set (outcomes u'). real_outcome x"
    using UploadEvents_result [OF pre, of "ser_request b1" "(log_source_id b1, msg)"] by blast
  define b2 where "b2 = count_send st (b1\<lparr>clearcut := u'\<rparr>)"
  define b' where "b' = (if st = OK then batch_metrics UploadSucceeded env b2 else b2)"
  have b': "encrypt_to_analyzer b' = encrypt_to_analyzer b" "encrypt_to_shuffler b' = encrypt_to_shuffler b"
    "max_attempts_per_upload b' = max_attempts_per_upload b" "clearcut b' = u'"
    using b1 by (simp_all add: b'_def b2_def count_send_def batch_metrics_def)
  have "SendEnvelopeToClearcutDestination env b = Some (st, b')"
    using msg u(1) by (simp add: SendEnvelopeToClearcutDestination_def b1_def [symmetric] b'_def b2_def)
  moreover have "clearcut_inv E opened b'" using inv b' u(4) by (simp add: clearcut_inv_def)
  moreover have d: "clearcut_delivered ser opened b' = clearcut_delivered ser opened b + accepted ser opened ps"
    using u(2) b' b1 by (simp add: clearcut_delivered_def accepted_append add.commute)
  moreover have "st = OK \<longrightarrow> envelope_items ser env \<subseteq># accepted ser opened ps"
    using u(3) accepted_member [of "(log_source_id b1, msg)" _ ps ser opened] msg(2) by auto
  ultimately show ?thesis by (intro exI [of _ st] exI [of _ b']) auto
qed

lemma envelope_items_api_key [simp]: "envelope_items ser (env\<lparr>api_key := k\<rparr>) = envelope_items ser env"
  by (simp add: envelope_items_def)

text \<open>Sending a holder whose envelope holds the items \<open>M\<close>.\<close>

lemma Clearcut_send_result:
  assumes inv: "clearcut_inv E opened b" and g: "GetEnvelope E h s = Some (env, h1, s1)" and z: "Size h1 s1 = (n, h2, s2)"
  shows "\<exists>ok b'. Clearcut_SendEnvelopeToBackend GetEnvelope Size h s b = Some (ok, h2, s2, b') \<and> clearcut_inv E opened b' \<and>
    clearcut_delivered ser opened b \<subseteq># clearcut_delivered ser opened b' \<and>
    (ok \<longrightarrow> clearcut_delivered ser opened b + envelope_items ser env \<subseteq># clearcut_delivered ser opened b')"
proof -
  have E: "encrypt_to_analyzer b = E" using inv by (simp add: clearcut_inv_def)
  from SendEnvelopeToClearcutDestination_result [OF inv, of "env\<lparr>api_key := backend_api_key b\<rparr>" ser]
  obtain status b' where r: "SendEnvelopeToClearcutDestination (env\<lparr>api_key := backend_api_key b\<rparr>) b = Some (status, b')"
    "clearcut_inv E opened b'" "clearcut_delivered ser opened b \<subseteq># clearcut_delivered ser opened b'"
    "status = OK \<longrightarrow> clearcut_delivered ser opened b + envelope_items ser env \<subseteq># clearcut_delivered ser opened b'"
    by auto
  show ?thesis
    using r by (intro exI [of _ "status = OK"] exI [of _ b']) (simp add: Clearcut_SendEnvelopeToBackend_def E g z)
qed

section \<open>The two stores with the Clearcut backend\<close>

interpretation memory_clearcut: reliable_shipping
  Memory_TakeNextEnvelopeHolder Memory_ReturnEnvelopeHolder Memory_destroy
  "memory_inv size_of ser" "memory_owned size_of ser" memory_contents memory_held memory_rank
  "Clearcut_SendEnvelopeToBackend Memory_GetEnvelope Memory_holder_Size" "clearcut_inv E opened"
  "\<lambda>(k, obs). (k, encrypt_on_read E obs)" "clearcut_delivered ser opened"
  for size_of :: "'o StoredObservation \<Rightarrow> nat" and ser E opened
proof unfold_locales
  fix s :: "'o MemoryObservationStore" and h and b :: "'o Clearcut"
  assume inv: "memory_inv size_of ser s" and own: "memory_owned size_of ser s h" and b: "clearcut_inv E opened b"
  have g: "Memory_GetEnvelope E h s = Some (EnvelopeMaker_GetEnvelope E h, h, s)" "Memory_holder_Size h s = (EnvelopeMaker_Size h, h, s)"
    by (simp_all add: Memory_GetEnvelope_def Memory_holder_Size_def)
  have it: "envelope_items ser (EnvelopeMaker_GetEnvelope E h) = image_mset (\<lambda>(k, obs). (k, encrypt_on_read E obs)) (memory_held s h)"
    using own GetEnvelope_items [of size_of ser h E] by (simp add: memory_owned_def maker_ok_def memory_held_def)
  note r = Clearcut_send_result [where GetEnvelope = Memory_GetEnvelope and Size = Memory_holder_Size, OF b g, of ser, unfolded it]
  then show "Clearcut_SendEnvelopeToBackend Memory_GetEnvelope Memory_holder_Size h s b \<noteq> None" by auto
  fix ok h' s' b'
  assume run: "Clearcut_SendEnvelopeToBackend Memory_GetEnvelope Memory_holder_Size h s b = Some (ok, h', s', b')"
  from r run inv own show "memory_inv size_of ser s' \<and> memory_owned size_of ser s' h' \<and> memory_contents s' = memory_contents s \<and>
      memory_held s' h' = memory_held s h \<and> memory_rank s' = memory_rank s" by auto
  from r run show "clearcut_inv E opened b' \<and> clearcut_delivered ser opened b \<subseteq># clearcut_delivered ser opened b' \<and>
      (ok \<longrightarrow> clearcut_delivered ser opened b + image_mset (\<lambda>(k, obs). (k, encrypt_on_read E obs)) (memory_held s h)
         \<subseteq># clearcut_delivered ser opened b')" by auto
qed

text \<open>A file holder together with the envelope it may have read already.\<close>

definition file_holder_ok ::
  "(ObservationMetadata \<Rightarrow> bytes) \<Rightarrow> (bytes \<Rightarrow> ('o FileObservationStoreRecord \<times> bytes) option) \<Rightarrow> ('o \<Rightarrow> EncryptedMessage option) \<Rightarrow>
   FileObservationStore \<Rightarrow> FileEnvelopeHolder \<Rightarrow> bool" where
  "file_holder_ok ser parse_rec E s h \<longleftrightarrow>
     file_owned s h \<and>
     (if envelope_read h
      then envelope_items ser (envelope h) = image_mset (\<lambda>(k, obs). (k, encrypt_on_read E obs)) (file_held ser parse_rec s h)
      else batch (envelope h) = [])"

lemma file_holder_GetEnvelope:
  assumes codec: "record_codec ser_rec parse_rec" and ok: "file_ok ser ser_rec s" and own: "file_holder_ok ser parse_rec E s h"
  shows "\<exists>env h'. FileEnvelopeHolder_GetEnvelope ser parse_rec E h s = Some (env, h', s) \<and>
    envelope_items ser env = image_mset (\<lambda>(k, obs). (k, encrypt_on_read E obs)) (file_held ser parse_rec s h) \<and>
    envelope_read h' \<and> envelope h' = env \<and> file_names h' = file_names h"
proof (cases "envelope_read h")
  case True
  with own show ?thesis by (auto simp: file_holder_ok_def FileEnvelopeHolder_GetEnvelope_def)
next
  case False
  with own have "file_owned s h" "batch (envelope h) = []" by (simp_all add: file_holder_ok_def)
  from GetEnvelope_result [OF codec ok this(1) False this(2), of E] obtain env h' where
    g: "FileEnvelopeHolder_GetEnvelope ser parse_rec E h s = Some (env, h', s)"
    "envelope_items ser env = image_mset (\<lambda>(q, obs). (q, encrypt_on_read E obs)) (file_held ser parse_rec s h)" by blast
  moreover have "envelope_read h' \<and> envelope h' = env \<and> file_names h' = file_names h"
    using g(1) False by (auto simp: FileEnvelopeHolder_GetEnvelope_def Let_def)
  ultimately show ?thesis by blast
qed

lemma file_holder_Size:
  assumes "faults (disk s) = []"
  shows "\<exists>n h'. FileEnvelopeHolder_Size h s = (n, h', s) \<and> file_names h' = file_names h \<and> envelope_read h' = envelope_read h \<and>
    envelope h' = envelope h"
proof -
  have "snd (foldl add_file_size (a, s) ns) = s" for a ns
    using assms by (induction ns arbitrary: a) (simp_all add: add_file_size_def size_or_0_def on_disk_def no_faults Let_def split: option.splits)
  then show ?thesis by (auto simp: FileEnvelopeHolder_Size_def split: prod.splits) (metis snd_conv)
qed

interpretation file_clearcut: reliable_shipping
  File_TakeNextEnvelopeHolder File_ReturnEnvelopeHolder File_destroy
  "\<lambda>s. record_codec ser_rec parse_rec \<and> file_ok ser ser_rec s" "file_holder_ok ser parse_rec E"
  "file_contents ser parse_rec" "file_held ser parse_rec" file_rank
  "Clearcut_SendEnvelopeToBackend (FileEnvelopeHolder_GetEnvelope ser parse_rec) FileEnvelopeHolder_Size" "clearcut_inv E opened"
  "\<lambda>(k, obs). (k, encrypt_on_read E obs)" "clearcut_delivered ser opened"
  for ser ser_rec and parse_rec :: "bytes \<Rightarrow> ('o FileObservationStoreRecord \<times> bytes) option" and E opened
proof unfold_locales
  fix s assume inv: "record_codec ser_rec parse_rec \<and> file_ok ser ser_rec s"
  { fix s' assume t: "File_TakeNextEnvelopeHolder s = (None, s')"
    from file_store_no_faults.take_none [OF inv t] file_store_no_faults.take_none_empty [OF inv t]
    show "(record_codec ser_rec parse_rec \<and> file_ok ser ser_rec s') \<and> file_contents ser parse_rec s' = file_contents ser parse_rec s"
      "file_contents ser parse_rec s = {#}" by blast+ }
  { fix s' h assume t: "File_TakeNextEnvelopeHolder s = (Some h, s')"
    have "\<not> envelope_read h" "batch (envelope h) = []"
      using t by (auto simp: File_TakeNextEnvelopeHolder_def take_file_def FileEnvelopeHolder_ctor_def
          split: prod.splits sum.splits option.splits if_splits bool.splits)
    with file_store_no_faults.take_some [OF inv t]
    show "(record_codec ser_rec parse_rec \<and> file_ok ser ser_rec s') \<and> file_holder_ok ser parse_rec E s' h \<and>
      file_contents ser parse_rec s = file_contents ser parse_rec s' + file_held ser parse_rec s' h \<and> file_rank s' < file_rank s"
      by (simp add: file_holder_ok_def) }
  { fix h assume "file_holder_ok ser parse_rec E s h"
    then have own: "file_owned s h" by (simp add: file_holder_ok_def)
    from file_store_no_faults.return [OF inv own]
    show "(record_codec ser_rec parse_rec \<and> file_ok ser ser_rec (File_ReturnEnvelopeHolder h s)) \<and>
      file_contents ser parse_rec (File_ReturnEnvelopeHolder h s) = file_contents ser parse_rec s + file_held ser parse_rec s h \<and>
      file_rank (File_ReturnEnvelopeHolder h s) \<le> Suc (file_rank s)" .
    from file_store_no_faults.destroy [OF inv own]
    show "(record_codec ser_rec parse_rec \<and> file_ok ser ser_rec (File_destroy h s)) \<and>
      file_contents ser parse_rec (File_destroy h s) = file_contents ser parse_rec s \<and>
      file_rank (File_destroy h s) \<le> file_rank s" . }
  fix h and b :: "'o Clearcut"
  assume own: "file_holder_ok ser parse_rec E s h" and b: "clearcut_inv E opened b"
  obtain env h1 where g: "FileEnvelopeHolder_GetEnvelope ser parse_rec E h s = Some (env, h1, s)"
    and it: "envelope_items ser env = image_mset (\<lambda>(k, obs). (k, encrypt_on_read E obs)) (file_held ser parse_rec s h)"
    and h1: "envelope_read h1" "envelope h1 = env" "file_names h1 = file_names h"
    using file_holder_GetEnvelope [OF _ _ own] inv by blast
  obtain n h2 where z: "FileEnvelopeHolder_Size h1 s = (n, h2, s)" "file_names h2 = file_names h1" "envelope_read h2" "envelope h2 = env"
    using file_holder_Size [of s h1] inv h1 by (auto simp: file_ok_def)
  note r = Clearcut_send_result [where GetEnvelope = "FileEnvelopeHolder_GetEnvelope ser parse_rec" and Size = FileEnvelopeHolder_Size,
    OF b g z(1), of ser, unfolded it]
  then show "Clearcut_SendEnvelopeToBackend (FileEnvelopeHolder_GetEnvelope ser parse_rec) FileEnvelopeHolder_Size h s b \<noteq> None" by auto
  fix ok h' s' b'
  assume run: "Clearcut_SendEnvelopeToBackend (FileEnvelopeHolder_GetEnvelope ser parse_rec) FileEnvelopeHolder_Size h s b = Some (ok, h', s', b')"
  with r have eq: "h' = h2" "s' = s" by auto
  have held: "file_held ser parse_rec s h2 = file_held ser parse_rec s h" using z(2) h1(3) by (simp add: file_held_def)
  have "file_holder_ok ser parse_rec E s h2"
    using own z h1 it held by (auto simp: file_holder_ok_def file_owned_def)
  with inv held eq show "(record_codec ser_rec parse_rec \<and> file_ok ser ser_rec s') \<and> file_holder_ok ser parse_rec E s' h' \<and>
      file_contents ser parse_rec s' = file_contents ser parse_rec s \<and> file_held ser parse_rec s' h' = file_held ser parse_rec s h \<and>
      file_rank s' = file_rank s" by simp
  from r run show "clearcut_inv E opened b' \<and> clearcut_delivered ser opened b \<subseteq># clearcut_delivered ser opened b' \<and>
      (ok \<longrightarrow> clearcut_delivered ser opened b + image_mset (\<lambda>(k, obs). (k, encrypt_on_read E obs)) (file_held ser parse_rec s h)
         \<subseteq># clearcut_delivered ser opened b')" by auto
qed

section \<open>Properties\<close>


text \<open>An example backend: the envelope is encoded by its number, in unary, so that \<open>opened\<close> can decode it.\<close>

instance ObservationBatch_ext :: (countable) countable
  by (rule countable_classI [of "\<lambda>r. to_nat (batch_meta_data r, encrypted_observation r, ObservationBatch.more r)"]) simp

instance Envelope_ext :: (countable) countable
  by (rule countable_classI [of "\<lambda>r. to_nat (batch r, api_key r, Envelope.more r)"]) simp

definition example_opened :: "EncryptedMessage \<Rightarrow> Envelope" where
  "example_opened c = from_nat (length (ciphertext c))"

definition example_backend :: "bool Clearcut" where
  "example_backend =
     \<lparr>num_send_attempts = 0, num_failed_attempts = 0, last_send_status = OK,
      encrypt_to_analyzer = \<lambda>_. None,
      encrypt_to_shuffler = \<lambda>e. Some (default_EncryptedMessage\<lparr>ciphertext := replicate (to_nat e) 0\<rparr>),
      clearcut = \<lparr>upload_timeout = 0, initial_backoff = 250, clock = 0, ticks = [], pause_uploads_until = 0,
        outcomes = [Response 200 None], posts = [], slept = [], bytes_uploaded_metrics = []\<rparr>,
      max_attempts_per_upload = 8, backend_api_key = [], log_source_id = 1, ser_request = \<lambda>_. Some [], batch_size = \<lambda>_. 0,
      project_bytes_uploaded = []\<rparr>"

lemma example_backend_inv: "clearcut_inv (\<lambda>_. None) example_opened example_backend"
  by (simp add: clearcut_inv_def example_backend_def example_opened_def real_outcome_def)

definition example_scheduler :: UploadScheduler where
  "example_scheduler = \<lparr>current_interval = 1, target_interval = 1, min_interval = 0\<rparr>"

lemma ShippingManager_ctor_sel [simp]:
  "store (ShippingManager_ctor u s b now) = s" "backend (ShippingManager_ctor u s b now) = b"
  "\<not> sm_is_disabled (ShippingManager_ctor u s b now)" "send_callback_queue (ShippingManager_ctor u s b now) = []"
  by (simp_all add: ShippingManager_ctor_def Let_def split: prod.splits)




text \<open>The local shipping manager never reports a failed send: whether or not the output file can be opened and
  written, the send counts as a success, so that the holder is destroyed.\<close>

theorem Local_send_never_fails:
  assumes "Local_SendEnvelopeToBackend GetEnvelope Size h s b = Some (ok, h', s', b')"
  shows "ok \<and> num_failed_attempts b' = num_failed_attempts b \<and> last_send_status b' = OK"
  using assms by (auto simp: Local_SendEnvelopeToBackend_def count_send_def Let_def split: option.splits prod.splits)

theorem Local_send_never_fails_witness:
  "case Local_SendEnvelopeToBackend Memory_GetEnvelope Memory_holder_Size (EnvelopeMaker_ctor 10 20) ()
     \<lparr>num_send_attempts = 0, num_failed_attempts = 0, last_send_status = OK, local_encrypt_to_analyzer = \<lambda>_ :: bool. None,
      output_file_path = ''f'', local_disk = \<lparr>files = [], directories = [], faults = [Fails EACCES], history = []\<rparr>,
      ser_envelope = \<lambda>_. [1]\<rparr> of
     Some (ok, h', s', b') \<Rightarrow> ok \<and> files (local_disk b') = [] | None \<Rightarrow> False"
  using Local_send_never_fails [of Memory_GetEnvelope Memory_holder_Size "EnvelopeMaker_ctor 10 20" "()"
     "\<lparr>num_send_attempts = 0, num_failed_attempts = 0, last_send_status = OK, local_encrypt_to_analyzer = \<lambda>_ :: bool. None,
      output_file_path = ''f'', local_disk = \<lparr>files = [], directories = [], faults = [Fails EACCES], history = []\<rparr>,
      ser_envelope = \<lambda>_. [1]\<rparr>"]
  by (auto simp: Local_SendEnvelopeToBackend_def Memory_GetEnvelope_def Memory_holder_Size_def NewProtoOutputStream_def
      next_fault_def count_send_def Let_def)

text \<open>A file that cannot be opened is left out of the envelope without an error: the holder delivers an empty
  envelope, which the Clearcut backend then sends as if it were complete.\<close>

theorem unreadable_file_gives_empty_envelope:
  assumes "faults (disk s) = Fails e # fs" and "e \<noteq> ENone" and "h = FileEnvelopeHolder_ctor n"
  shows "\<exists>h' s'. FileEnvelopeHolder_GetEnvelope ser parse_rec Encrypt h s = Some (\<lparr>batch = [], api_key = []\<rparr>, h', s')"
  using assms by (simp add: FileEnvelopeHolder_GetEnvelope_def FileEnvelopeHolder_ctor_def on_disk_def
      NewProtoInputStream_def next_fault_def Let_def)

theorem unreadable_file_gives_empty_envelope_witness:
  "\<exists>h' s'. FileEnvelopeHolder_GetEnvelope (\<lambda>_. []) (\<lambda>_. None :: (bool FileObservationStoreRecord \<times> bytes) option) (\<lambda>_. None)
     (FileEnvelopeHolder_ctor ''1577836800002-1234567890.data'')
     (example_full_store (\<lambda>_. [7])\<lparr>disk := \<lparr>files = [(''d/1577836800002-1234567890.data'', [7, 7])],
        directories = [''d''], faults = [Fails EMFILE], history = []\<rparr>\<rparr>) = Some (\<lparr>batch = [], api_key = []\<rparr>, h', s')"
  by (rule unreadable_file_gives_empty_envelope [where e = EMFILE and fs = "[]"]) simp_all

end
