(* ===== verification/Observation_Sinks.thy ===== *)
theory Observation_Sinks
  imports Observation_Encoder Shipping_Backends
begin

text \<open>
  Where observations go after they are encoded. \<open>manager_writer\<close> connects an \<open>ObservationWriter\<close>
  (\<^verbatim>\<open>src/src/logger/observation_writer.cc\<close>) with an observation store and the shipping manager that sends from it.
  The locale \<open>observation_sink\<close> states what the code that writes observations relies on: a write that answers \<open>kOK\<close>
  adds exactly the given observation and any other write adds nothing. It is interpreted on the memory store behind the
  shipping manager; \<open>Aggregate_Correctness\<close> proves its results inside it.
\<close>

definition manager_writer ::
    "(Observation2 StoredObservation \<Rightarrow> ObservationMetadata \<Rightarrow> 's \<Rightarrow> StoreStatus \<times> 's) \<Rightarrow> ('s, 'h) store_ops \<Rightarrow>
     (Observation2 \<Rightarrow> EncryptedMessage option) option \<Rightarrow> ('s, 'b, 'cb) ShippingManager ObservationWriter" where
  "manager_writer store_fn ops encrypter =
     \<lparr>store_observation = (\<lambda>ob md m. case store_fn ob md (store m) of (st, t) \<Rightarrow> (st, m\<lparr>store := t\<rparr>)),
      notify_observations_added = NotifyObservationsAdded ops, observation_encrypter = encrypter\<rparr>"

text \<open>What the store holds for an observation that was written.\<close>

definition stored_form :: "(Observation2 \<Rightarrow> EncryptedMessage option) option \<Rightarrow> Observation2 \<Rightarrow> Observation2 StoredObservation" where
  "stored_form encrypter ob = (case encrypter of None \<Rightarrow> unencrypted ob | Some Encrypt \<Rightarrow> encrypted (the (Encrypt ob)))"

locale observation_sink =
  fixes emit :: "Observation2 \<Rightarrow> ObservationMetadata \<Rightarrow> 's \<Rightarrow> Status \<times> 's"
    and inv :: "'s \<Rightarrow> bool"
    and contents :: "'s \<Rightarrow> 'c multiset"
    and item :: "Observation2 \<Rightarrow> ObservationMetadata \<Rightarrow> 'c"
  assumes write_result: "inv t \<Longrightarrow> emit ob md t = (st, t') \<Longrightarrow>
    inv t' \<and> contents t' = contents t + (if st = kOK then {#item ob md#} else {#})"
begin

lemma write_ok: "inv t \<Longrightarrow> emit ob md t = (kOK, t') \<Longrightarrow> inv t' \<and> contents t' = contents t + {#item ob md#}"
  using write_result [of t ob md kOK t'] by simp

lemma write_failed: "inv t \<Longrightarrow> emit ob md t = (st, t') \<Longrightarrow> st \<noteq> kOK \<Longrightarrow> inv t' \<and> contents t' = contents t"
  using write_result [of t ob md st t'] by simp

end

lemma NotifyObservationsAdded_store [simp]: "store (NotifyObservationsAdded ops m) = store m"
  by (simp add: NotifyObservationsAdded_def RequestSendSoonLockHeld_def Let_def)

lemma WriteObservation_manager:
  assumes inv: "I (store m)"
    and fn: "\<And>ob s st s'. I s \<Longrightarrow> store_fn ob md s = (st, s') \<Longrightarrow>
      I s' \<and> C s' = (if st = kOk then add_mset (ser md, ob) (C s) else C s)"
    and run: "WriteObservation (manager_writer store_fn ops encrypter) ob md m = (st, m')"
  shows "I (store m') \<and> C (store m') = C (store m) + (if st = kOK then {#(ser md, stored_form encrypter ob)#} else {#})"
proof (cases "case encrypter of None \<Rightarrow> Some (unencrypted ob) | Some Encrypt \<Rightarrow> map_option encrypted (Encrypt ob)")
  case None
  with run inv show ?thesis by (auto simp: WriteObservation_def manager_writer_def split: option.splits)
next
  case (Some x)
  then have x: "x = stored_form encrypter ob" by (auto simp: stored_form_def split: option.splits)
  obtain st1 s1 where s1: "store_fn x md (store m) = (st1, s1)" by force
  have "(st, m') = (if st1 \<noteq> kOk then (kOther, m\<lparr>store := s1\<rparr>) else (kOK, NotifyObservationsAdded ops (m\<lparr>store := s1\<rparr>)))"
    using run Some s1 by (auto simp: WriteObservation_def manager_writer_def Let_def split: option.splits)
  with fn [OF inv s1] x show ?thesis by (auto split: if_splits)
qed

lemma Memory_StoreObservation_keeps_enabled:
  "Memory_StoreObservation size_of ser obs metadata s = (st, s') \<Longrightarrow> is_disabled s' = is_disabled s"
  by (auto simp: Memory_StoreObservation_def AddEnvelopeToSend_def Let_def split: if_splits prod.splits)

interpretation memory_sink: observation_sink
  "WriteObservation (manager_writer (Memory_StoreObservation size_of ser) ops encrypter)"
  "\<lambda>m. (\<forall>x. 0 < size_of x) \<and> memory_inv size_of ser (store m) \<and> \<not> is_disabled (store m)"
  "\<lambda>m. memory_contents (store m)" "\<lambda>ob md. (ser md, stored_form encrypter ob)"
  for size_of ser ops encrypter
proof unfold_locales
  fix t ob md st t'
  assume inv: "(\<forall>x. 0 < size_of x) \<and> memory_inv size_of ser (store t) \<and> \<not> is_disabled (store t)"
    and run: "WriteObservation (manager_writer (Memory_StoreObservation size_of ser) ops encrypter) ob md t = (st, t')"
  have fn: "((\<forall>x. 0 < size_of x) \<and> memory_inv size_of ser s' \<and> \<not> is_disabled s') \<and>
      memory_contents s' = (if st = kOk then add_mset (ser md, x) (memory_contents s) else memory_contents s)"
    if "(\<forall>x. 0 < size_of x) \<and> memory_inv size_of ser s \<and> \<not> is_disabled s"
      and "Memory_StoreObservation size_of ser x md s = (st, s')" for x s st s'
    using Memory_StoreObservation_result [of size_of ser s x md st s'] Memory_StoreObservation_keeps_enabled [OF that(2)] that
    by auto
  from WriteObservation_manager [where I = "\<lambda>s. (\<forall>x. 0 < size_of x) \<and> memory_inv size_of ser s \<and> \<not> is_disabled s"
      and C = memory_contents and store_fn = "Memory_StoreObservation size_of ser" and ser = ser and md = md, OF inv fn run]
  show "((\<forall>x. 0 < size_of x) \<and> memory_inv size_of ser (store t') \<and> \<not> is_disabled (store t')) \<and>
    memory_contents (store t') = memory_contents (store t) + (if st = kOK then {#(ser md, stored_form encrypter ob)#} else {#})" .
qed

end
