(* ===== verification/Aggregate_Correctness.thy ===== *)
theory Aggregate_Correctness
  imports Aggregate_Generation Observation_Sinks
begin

text \<open>
  Correctness of the generation of observations and of the aggregate store as a whole. The two optimised loops of
  \<^verbatim>\<open>aggregate_store.cc\<close> are shown to compute what a definition that looks at every day of every window computes: the loop
  over days that caches the last active day, and the loop over windows that grows one aggregate. Inside the locale
  \<open>observation_sink\<close> the observations that reach the store are counted, whatever writes fail. The step relation \<open>agg_step\<close>
  has one rule per method of the store; the invariant of \<open>Aggregate_Store\<close> holds in every reachable state.
\<close>

section \<open>Ranges of days\<close>

lemma set_day_range: "d \<in> set (day_range a b) \<longleftrightarrow> a \<le> d \<and> d \<le> b"
proof -
  have "d \<in> set (day_range a b) \<longleftrightarrow> (\<exists>k. d = of_nat k \<and> unat a \<le> k \<and> k < Suc (unat b))"
    by (auto simp: day_range_def)
  also have "\<dots> \<longleftrightarrow> unat a \<le> unat d \<and> unat d \<le> unat b"
  proof
    assume "\<exists>k. d = of_nat k \<and> unat a \<le> k \<and> k < Suc (unat b)"
    then obtain k where k: "d = of_nat k" "unat a \<le> k" "k \<le> unat b" by auto
    moreover have "unat b < 2 ^ 32" using unsigned_less [of b] by simp
    ultimately have "unat d = k" by (simp add: unat_of_nat)
    with k show "unat a \<le> unat d \<and> unat d \<le> unat b" by simp
  qed (auto intro!: exI [of _ "unat d"])
  finally show ?thesis by (simp add: word_le_nat_alt)
qed

lemma day_range_empty: "b < a \<Longrightarrow> day_range a b = []"
  by (simp add: day_range_def word_less_nat_alt)

lemma unat_Suc_word: "a < - 1 \<Longrightarrow> unat (a + 1 :: 'a :: len word) = Suc (unat a)"
  using unat_plus1 [of a "- 1"] by simp

lemma day_range_Cons:
  assumes "a \<le> b" and "b < - 1"
  shows "day_range a b = a # day_range (a + 1) b"
proof -
  have "a < - 1" using assms by (rule le_less_trans)
  then show ?thesis using assms(1) by (simp add: day_range_def unat_Suc_word upt_conv_Cons word_le_nat_alt del: upt_Suc)
qed

lemma day_range_append:
  assumes "a \<le> b + 1" and "b \<le> c" and "b < - 1"
  shows "day_range a c = day_range a b @ day_range (b + 1) c"
proof -
  have "unat a \<le> Suc (unat b)" "unat b \<le> unat c" "unat (b + 1) = Suc (unat b)"
    using assms unat_Suc_word [OF assms(3)] by (simp_all add: word_le_nat_alt)
  moreover from this have "[unat a..<Suc (unat c)] = [unat a..<Suc (unat b)] @ [Suc (unat b)..<Suc (unat c)]"
    using upt_add_eq_append [of "unat a" "Suc (unat b)" "unat c - unat b"] by simp
  ultimately show ?thesis by (simp only: day_range_def map_append)
qed

section \<open>Activity in a window\<close>

text \<open>The reference: the event occurred on one of the last \<open>n\<close> days up to \<open>obs_day\<close>.\<close>

definition active_on :: "DailyAggregates \<Rightarrow> u32 \<Rightarrow> bool" where
  "active_on by_day d = (case map_of by_day d of Some a \<Rightarrow> active_indicator a | None \<Rightarrow> False)"

definition active_in_window :: "DailyAggregates option \<Rightarrow> u32 \<Rightarrow> u32 \<Rightarrow> bool" where
  "active_in_window daily obs_day n =
     (case daily of None \<Rightarrow> False | Some by_day \<Rightarrow> list_ex (active_on by_day) (day_range (obs_day - n + 1) obs_day))"

lemma first_active_cases:
  "(first_active by_day ds \<in> set ds \<and> active_on by_day (first_active by_day ds)) \<or>
   (first_active by_day ds = 0 \<and> \<not> list_ex (active_on by_day) ds)"
  by (induction ds) (auto simp: active_on_def split: option.splits)

lemma IsActivityInWindow_range:
  assumes "0 < n" and "n \<le> obs_day"
  shows "IsActivityInWindow a obs_day n \<longleftrightarrow> a \<in> set (day_range (obs_day - n + 1) obs_day)"
proof -
  have "unat (obs_day - n) = unat obs_day - unat n" using assms(2) by (rule unat_minus)
  moreover have "0 < unat n" "unat n \<le> unat obs_day" using assms by (simp_all add: word_less_nat_alt word_le_nat_alt)
  moreover have "unat (obs_day - n + 1) = Suc (unat obs_day - unat n)"
    using calculation unat_plus1 [of "obs_day - n" obs_day] by (simp add: word_less_nat_alt)
  ultimately show ?thesis by (auto simp: IsActivityInWindow_def set_day_range word_le_nat_alt word_less_nat_alt)
qed

lemma zero_not_in_window: "\<not> IsActivityInWindow 0 obs_day n"
  by (simp add: IsActivityInWindow_def)

text \<open>The cached day is a day of activity, or nothing is known.\<close>

lemma cached_search:
  assumes "0 < n" and "n \<le> obs_day" and cache: "active_day = 0 \<or> active_on by_day active_day"
  defines "first_day \<equiv> FirstActiveDayIndexInWindow by_day obs_day n"
  shows "IsActivityInWindow active_day obs_day n \<Longrightarrow> active_in_window (Some by_day) obs_day n"
    and "IsActivityInWindow first_day obs_day n = active_in_window (Some by_day) obs_day n"
    and "first_day = 0 \<or> active_on by_day first_day"
proof -
  let ?w = "day_range (obs_day - n + 1) obs_day"
  note in_w = IsActivityInWindow_range [OF assms(1,2)]
  have f: "(first_day \<in> set ?w \<and> active_on by_day first_day) \<or> (first_day = 0 \<and> \<not> list_ex (active_on by_day) ?w)"
    unfolding first_day_def FirstActiveDayIndexInWindow_def by (rule first_active_cases)
  show "active_in_window (Some by_day) obs_day n" if "IsActivityInWindow active_day obs_day n"
    using that cache zero_not_in_window [of obs_day n] by (auto simp: in_w active_in_window_def list_ex_iff)
  show "IsActivityInWindow first_day obs_day n = active_in_window (Some by_day) obs_day n"
    using f zero_not_in_window [of obs_day n] by (auto simp: in_w active_in_window_def list_ex_iff)
  show "first_day = 0 \<or> active_on by_day first_day" using f by blast
qed

section \<open>The loop without its cache\<close>

definition unique_actives_day_ref ::
    "MetricRef \<Rightarrow> ReportDefinition \<Rightarrow> string \<Rightarrow> DailyAggregates option \<Rightarrow> u32 \<Rightarrow> u32 \<Rightarrow> u32 \<Rightarrow>
     's AggregateStore \<Rightarrow> Status \<times> 's AggregateStore" where
  "unique_actives_day_ref metric report key daily event_code n obs_day s =
     (case GenerateSingleUniqueActivesObservation metric report obs_day event_code (kDays n) (active_in_window daily obs_day n) s of
        (stat, s) \<Rightarrow> (stat, if stat \<noteq> kOK then s
           else s\<lparr>obs_history := SetUniqueActivesLastGeneratedDayIndex key event_code n obs_day (obs_history s)\<rparr>))"

lemma for_each_simulation:
  assumes "\<And>x c s. x \<in> set xs \<Longrightarrow> I c \<Longrightarrow> \<exists>c'. f x (c, s) = (fst (g x s), c', snd (g x s)) \<and> I c'" and "I c"
  shows "\<exists>c'. for_each f xs (c, s) = (fst (for_each g xs s), c', snd (for_each g xs s)) \<and> I c'"
  using assms
proof (induction xs arbitrary: c s)
  case (Cons x xs)
  obtain c1 where c1: "f x (c, s) = (fst (g x s), c1, snd (g x s))" "I c1" using Cons.prems by force
  obtain c2 where "for_each f xs (c1, snd (g x s)) = (fst (for_each g xs (snd (g x s))), c2, snd (for_each g xs (snd (g x s))))" "I c2"
    using Cons.IH [OF _ c1(2), of "snd (g x s)"] Cons.prems(1) by force
  with c1 show ?case by (auto split: prod.splits)
qed auto

lemma unique_actives_day_eq:
  assumes "0 < n" and "n \<le> obs_day" and "case daily of None \<Rightarrow> True | Some by_day \<Rightarrow> c = 0 \<or> active_on by_day c"
  shows "\<exists>c'. unique_actives_day metric report key daily event_code (kDays n) obs_day (c, s) =
      (fst (unique_actives_day_ref metric report key daily event_code n obs_day s), c',
       snd (unique_actives_day_ref metric report key daily event_code n obs_day s)) \<and>
    (case daily of None \<Rightarrow> True | Some by_day \<Rightarrow> c' = 0 \<or> active_on by_day c')"
proof (cases daily)
  case None
  then show ?thesis
    by (simp add: unique_actives_day_def unique_actives_day_ref_def active_in_window_def Let_def split: prod.split)
next
  case (Some by_day)
  note cs = cached_search [OF assms(1,2), of c by_day]
  show ?thesis
  proof (cases "IsActivityInWindow c obs_day n")
    case True
    with cs(1) assms(3) Some have "active_in_window daily obs_day n" by simp
    with True assms(3) Some show ?thesis
      by (simp add: unique_actives_day_def unique_actives_day_ref_def Let_def split: prod.split)
  next
    case False
    with cs(2,3) assms(3) Some show ?thesis
      by (simp add: unique_actives_day_def unique_actives_day_ref_def Let_def split: prod.split)
  qed
qed

lemma unique_actives_window_eq:
  assumes "0 < n" and "n \<le> kMaxAllowedAggregationDays" and "n \<le> backfill_period_start"
  shows "unique_actives_window metric report key backfill_period_start final_day daily event_code (kDays n) s =
    for_each (unique_actives_day_ref metric report key daily event_code n)
      (day_range (first_day_to_generate (GetUniqueActivesLastGeneratedDayIndex key event_code n (obs_history s)) backfill_period_start) final_day) s"
proof -
  let ?I = "\<lambda>c. case daily of None \<Rightarrow> True | Some by_day \<Rightarrow> c = 0 \<or> active_on by_day c"
  let ?xs = "day_range (first_day_to_generate (GetUniqueActivesLastGeneratedDayIndex key event_code n (obs_history s)) backfill_period_start) final_day"
  have "\<exists>c'. for_each (unique_actives_day metric report key daily event_code (kDays n)) ?xs (0, s) =
      (fst (for_each (unique_actives_day_ref metric report key daily event_code n) ?xs s), c',
       snd (for_each (unique_actives_day_ref metric report key daily event_code n) ?xs s)) \<and> ?I c'"
  proof (rule for_each_simulation)
    fix x c and s :: "'a AggregateStore" assume x: "x \<in> set ?xs" and c: "?I c"
    then have "n \<le> x" using assms(3) by (auto simp: set_day_range first_day_to_generate_def)
    from unique_actives_day_eq [OF assms(1) this c]
    show "\<exists>c'. unique_actives_day metric report key daily event_code (kDays n) x (c, s) =
      (fst (unique_actives_day_ref metric report key daily event_code n x s), c',
       snd (unique_actives_day_ref metric report key daily event_code n x s)) \<and> ?I c'" .
  qed (simp split: option.split)
  moreover have "\<not> n > kMaxAllowedAggregationDays" using assms(2) by simp
  ultimately show ?thesis by (auto simp: unique_actives_window_def Let_def)
qed

lemma day_range_nonempty: "day_range a b = [] \<longleftrightarrow> b < a"
  by (simp add: day_range_def word_less_nat_alt del: upt_Suc) linarith

lemma length_day_range: "length (day_range a b) = Suc (unat b) - unat a"
  by (simp add: day_range_def del: upt_Suc)

lemma take_day_range:
  assumes "j < length (day_range a b)"
  shows "take (Suc j) (day_range a b) = day_range a (day_range a b ! j)"
proof -
  have j: "j < Suc (unat b) - unat a" using assms by (simp add: length_day_range)
  have b: "unat b < 2 ^ 32" using unsigned_less [of b] by simp
  have nth: "day_range a b ! j = of_nat (unat a + j)" using j by (simp add: day_range_def del: upt_Suc)
  have "unat (of_nat (unat a + j) :: u32) = unat a + j" using b j unat_of_nat [of "unat a + j", where ?'a = 32] by (simp del: of_nat_add)
  moreover have "take (Suc j) [unat a..<Suc (unat b)] = [unat a..<Suc (unat a + j)]" using j by (simp add: take_upt del: upt_Suc)
  ultimately show ?thesis unfolding nth by (simp only: day_range_def take_map)
qed

lemma last_day_range: "a \<le> b \<Longrightarrow> last (day_range a b) = b"
  by (simp add: day_range_def word_le_nat_alt last_map)

section \<open>The history\<close>

lemma GetUniqueActives_Set [simp]:
  "GetUniqueActivesLastGeneratedDayIndex key' c' n' (SetUniqueActivesLastGeneratedDayIndex key c n d h) =
     (if key' = key \<and> c' = c \<and> n' = n then d else GetUniqueActivesLastGeneratedDayIndex key' c' n' h)"
  by (auto simp: GetUniqueActivesLastGeneratedDayIndex_def SetUniqueActivesLastGeneratedDayIndex_def Let_def
      unique_actives_history_of_def map_get_def default_history_def split: option.splits HistoryType.splits)

lemma ucast_ucast_u32: "ucast (ucast (c :: u32) :: u64) = c"
  by (rule bit_word_eqI) (simp add: bit_simps)

lemma GetPerDeviceNumeric_Set [simp]:
  "GetPerDeviceNumericLastGeneratedDayIndex key' k' c' n' (SetPerDeviceNumericLastGeneratedDayIndex key k c n d h) =
     (if key' = key \<and> k' = k \<and> c' = c \<and> n' = n then d else GetPerDeviceNumericLastGeneratedDayIndex key' k' c' n' h)"
proof -
  have "(ucast c' :: u64) = ucast c \<longleftrightarrow> c' = c"
    by (metis ucast_ucast_u32)
  then show ?thesis
  by (auto simp: GetPerDeviceNumericLastGeneratedDayIndex_def SetPerDeviceNumericLastGeneratedDayIndex_def Let_def
      numeric_history_of_def map_get_def default_history_def split: option.splits HistoryType.splits)
qed

lemma GetReportParticipation_Set [simp]:
  "GetReportParticipationLastGeneratedDayIndex key' (SetReportParticipationLastGeneratedDayIndex key d h) =
     (if key' = key then d else GetReportParticipationLastGeneratedDayIndex key' h)"
  by (auto simp: GetReportParticipationLastGeneratedDayIndex_def SetReportParticipationLastGeneratedDayIndex_def)

section \<open>One observation per day\<close>

text \<open>An observation of unique actives for one day, with its metadata.\<close>

definition actives_observation ::
    "Encoder \<Rightarrow> MetricRef \<Rightarrow> ReportDefinition \<Rightarrow> u32 \<Rightarrow> u32 \<Rightarrow> u32 \<Rightarrow> bool \<Rightarrow> Observation2 \<times> ObservationMetadata \<Rightarrow> bool" where
  "actives_observation e metric report code n d active x \<longleftrightarrow> snd x = make_metadata e metric report d \<and>
     (\<exists>data. observation_type (fst x) = unique_actives data (kDays n) (ucast code) \<and> length data = 1 \<and>
        (local_privacy_noise_level report = NO_NOISE \<longrightarrow> data = [if active then 1 else 0]))"

context observation_sink
begin

lemma write_result_produces:
  assumes "WriteObservation (agg_writer s) = emit" and "inv (observations s)"
    and "produces e metric report day ty (fst res)" and "Aggregate_Generation.write_result res s = (st, s')"
  shows "\<exists>r t ob. s' = s\<lparr>random := r, observations := t\<rparr> \<and> inv t \<and> observation_type ob = ty \<and>
    contents t = contents (observations s) + (if st = kOK then {#item ob (make_metadata e metric report day)#} else {#})"
proof -
  obtain x r where res: "res = (x, r)" by force
  obtain rid where p: "status x = kOK" "result_observation x = Some \<lparr>observation_type = ty, random_id = rid\<rparr>"
    "result_metadata x = Some (make_metadata e metric report day)"
    using assms(3) by (auto simp: produces_def res)
  obtain st1 t where e: "emit \<lparr>observation_type = ty, random_id = rid\<rparr> (make_metadata e metric report day) (observations s) = (st1, t)"
    by force
  have "s' = s\<lparr>random := r, observations := t\<rparr>" "st = st1"
    using assms(1,4) p e by (simp_all add: Aggregate_Generation.write_result_def res Let_def)
  with write_result [OF assms(2) e] show ?thesis
    by (intro exI [of _ r] exI [of _ t] exI [of _ "\<lparr>observation_type = ty, random_id = rid\<rparr>"]) auto
qed

lemma write_result_failed: "status (fst res) \<noteq> kOK \<Longrightarrow> Aggregate_Generation.write_result res s = (status (fst res), s\<lparr>random := snd res\<rparr>)"
  by (simp add: Aggregate_Generation.write_result_def Let_def case_prod_unfold)

lemma GenerateSingleUniqueActives_emits:
  assumes "WriteObservation (agg_writer s) = emit" and "inv (observations s)" and "inj (SerializeValuePart (agg_encoder s))"
    and "GenerateSingleUniqueActivesObservation metric report day code (kDays n) active s = (st, s')"
  shows "\<exists>r t. s' = s\<lparr>random := r, observations := t\<rparr> \<and> inv t \<and>
    (if st = kOK then \<exists>x. actives_observation (agg_encoder s) metric report code n day active x \<and>
         contents t = contents (observations s) + {#item (fst x) (snd x)#}
     else contents t = contents (observations s))"
proof -
  obtain res r where enc: "EncodeUniqueActivesObservation (agg_encoder s) metric report day code active (kDays n) (random s) = (res, r)" by force
  have run: "Aggregate_Generation.write_result (res, r) s = (st, s')"
    using assms(4) enc by (simp add: GenerateSingleUniqueActivesObservation_def)
  note spec = EncodeUniqueActivesObservation_spec [OF assms(3), of metric report day code active "kDays n" "random s", unfolded enc Let_def prod.case]
  show ?thesis
  proof (cases "secret_valid (client_secret (agg_encoder s)) \<and> local_privacy_noise_level report \<noteq> NOISE_LEVEL_UNSET")
    case False
    then have "status res = kInvalidConfig" using spec by (simp split: if_splits)
    with write_result_failed [of "(res, r)" s] run assms(2)
    have "s' = s\<lparr>random := r, observations := observations s\<rparr>" "st \<noteq> kOK" by auto
    with assms(2) show ?thesis by (intro exI [of _ r] exI [of _ "observations s"]) simp
  next
    case True
    with spec obtain data where d: "produces (agg_encoder s) metric report day (unique_actives data (kDays n) (ucast code)) (fst (res, r))"
      "length data = 1" "local_privacy_noise_level report = NO_NOISE \<longrightarrow> data = [if active then 1 else 0]"
      by auto
    obtain r' t ob where t: "s' = s\<lparr>random := r', observations := t\<rparr>" "inv t" "observation_type ob = unique_actives data (kDays n) (ucast code)"
      "contents t = contents (observations s) + (if st = kOK then {#item ob (make_metadata (agg_encoder s) metric report day)#} else {#})"
      using write_result_produces [OF assms(1,2) d(1) run] by blast
    have "actives_observation (agg_encoder s) metric report code n day active (ob, make_metadata (agg_encoder s) metric report day)"
      using t(3) d(2,3) by (simp add: actives_observation_def)
    with t(1,2,4) show ?thesis by (cases "st = kOK") fastforce+
  qed
qed

lemma unique_actives_days:
  assumes "WriteObservation (agg_writer s) = emit" and "inv (observations s)" and "inj (SerializeValuePart (agg_encoder s))"
    and "for_each (unique_actives_day_ref metric report key daily code n) ds s = (st, s')"
  shows "\<exists>k xs r t h. k \<le> length ds \<and> (st = kOK \<longleftrightarrow> k = length ds) \<and> s' = s\<lparr>random := r, observations := t, obs_history := h\<rparr> \<and> inv t \<and>
    list_all2 (\<lambda>d. actives_observation (agg_encoder s) metric report code n d (active_in_window daily d n)) (take k ds) xs \<and>
    contents t = contents (observations s) + mset (map (\<lambda>x. item (fst x) (snd x)) xs) \<and>
    (\<forall>key' c' n'. GetUniqueActivesLastGeneratedDayIndex key' c' n' h =
       (if key' = key \<and> c' = code \<and> n' = n \<and> 0 < k then ds ! (k - 1) else GetUniqueActivesLastGeneratedDayIndex key' c' n' (obs_history s)))"
  using assms
proof (induction ds arbitrary: s)
  case Nil
  then have "st = kOK" "s' = s\<lparr>random := random s, observations := observations s, obs_history := obs_history s\<rparr>" by simp_all
  with Nil.prems(2) show ?case
    by (intro exI [of _ 0] exI [of _ "[]"] exI [of _ "random s"] exI [of _ "observations s"] exI [of _ "obs_history s"]) simp
next
  case (Cons d ds)
  obtain st1 s1 where g: "GenerateSingleUniqueActivesObservation metric report d code (kDays n) (active_in_window daily d n) s = (st1, s1)"
    by force
  obtain r1 t1 where s1: "s1 = s\<lparr>random := r1, observations := t1\<rparr>" "inv t1"
    and c1: "if st1 = kOK then \<exists>x. actives_observation (agg_encoder s) metric report code n d (active_in_window daily d n) x \<and>
         contents t1 = contents (observations s) + {#item (fst x) (snd x)#}
     else contents t1 = contents (observations s)"
    using GenerateSingleUniqueActives_emits [OF Cons.prems(1-3) g] by blast
  show ?case
  proof (cases "st1 = kOK")
    case False
    with Cons.prems(4) g have r: "st = st1" "s' = s\<lparr>random := r1, observations := t1, obs_history := obs_history s\<rparr>"
      by (auto simp: unique_actives_day_ref_def s1(1))
    with False c1 s1(2) show ?thesis
      by (intro exI [of _ 0] exI [of _ "[]"] exI [of _ r1] exI [of _ t1] exI [of _ "obs_history s"]) simp
  next
    case True
    define s2 where "s2 = s1\<lparr>obs_history := SetUniqueActivesLastGeneratedDayIndex key code n d (obs_history s1)\<rparr>"
    have run: "for_each (unique_actives_day_ref metric report key daily code n) ds s2 = (st, s')"
      using Cons.prems(4) g True by (simp add: unique_actives_day_ref_def [of _ _ _ _ _ _ d] s2_def)
    have s2: "agg_writer s2 = agg_writer s" "observations s2 = t1" "agg_encoder s2 = agg_encoder s"
      "obs_history s2 = SetUniqueActivesLastGeneratedDayIndex key code n d (obs_history s)"
      by (simp_all add: s2_def s1(1))
    obtain x where x: "actives_observation (agg_encoder s) metric report code n d (active_in_window daily d n) x"
      "contents t1 = contents (observations s) + {#item (fst x) (snd x)#}" using c1 True by auto
    obtain k xs r t h where IH: "k \<le> length ds" "st = kOK \<longleftrightarrow> k = length ds" "s' = s2\<lparr>random := r, observations := t, obs_history := h\<rparr>" "inv t"
      "list_all2 (\<lambda>d. actives_observation (agg_encoder s) metric report code n d (active_in_window daily d n)) (take k ds) xs"
      "contents t = contents t1 + mset (map (\<lambda>x. item (fst x) (snd x)) xs)"
      "\<And>key' c' n'. GetUniqueActivesLastGeneratedDayIndex key' c' n' h =
         (if key' = key \<and> c' = code \<and> n' = n \<and> 0 < k then ds ! (k - 1) else GetUniqueActivesLastGeneratedDayIndex key' c' n' (obs_history s2))"
      using Cons.IH [of s2, unfolded s2(1-3), OF Cons.prems(1) s1(2) Cons.prems(3) run] by blast
    have s': "s' = s\<lparr>random := r, observations := t, obs_history := h\<rparr>" using IH(3) by (simp add: s2_def s1(1))
    have h: "GetUniqueActivesLastGeneratedDayIndex key' c' n' h =
       (if key' = key \<and> c' = code \<and> n' = n then (d # ds) ! k else GetUniqueActivesLastGeneratedDayIndex key' c' n' (obs_history s))" for key' c' n'
      unfolding IH(7) s2(4) by (cases k) auto
    show ?thesis
      using IH(1,2,4,5,6) x s' by (intro exI [of _ "Suc k"] exI [of _ "x # xs"] exI [of _ r] exI [of _ t] exI [of _ h]) (simp add: h)
  qed
qed


lemma unique_actives_window_emits:
  assumes "WriteObservation (agg_writer s) = emit" and "inv (observations s)" and "inj (SerializeValuePart (agg_encoder s))"
    and n: "0 < n" "n \<le> kMaxAllowedAggregationDays" "n \<le> start" and "final_day < - 1"
    and run: "unique_actives_window metric report key start final_day daily code (kDays n) s = (st, s')"
  defines "last_gen \<equiv> \<lambda>s. GetUniqueActivesLastGeneratedDayIndex key code n (obs_history s)"
  defines "first_day \<equiv> first_day_to_generate (last_gen s) start"
  shows "inv (observations s') \<and> (\<exists>xs. contents (observations s') = contents (observations s) + mset (map (\<lambda>x. item (fst x) (snd x)) xs) \<and>
    (if xs = [] then last_gen s' = last_gen s
     else last_gen s' \<le> final_day \<and>
       list_all2 (\<lambda>d. actives_observation (agg_encoder s) metric report code n d (active_in_window daily d n)) (day_range first_day (last_gen s')) xs)) \<and>
    (st = kOK \<and> first_day \<le> final_day \<longrightarrow> last_gen s' = final_day)"
proof -
  let ?ds = "day_range first_day final_day"
  have "for_each (unique_actives_day_ref metric report key daily code n) ?ds s = (st, s')"
    using run unfolding unique_actives_window_eq [OF n] first_day_def last_gen_def .
  from unique_actives_days [OF assms(1-3) this] obtain k xs r t h where
    k: "k \<le> length ?ds" "st = kOK \<longleftrightarrow> k = length ?ds" "s' = s\<lparr>random := r, observations := t, obs_history := h\<rparr>" "inv t"
    "list_all2 (\<lambda>d. actives_observation (agg_encoder s) metric report code n d (active_in_window daily d n)) (take k ?ds) xs"
    "contents t = contents (observations s) + mset (map (\<lambda>x. item (fst x) (snd x)) xs)"
    and h: "\<And>key' c' n'. GetUniqueActivesLastGeneratedDayIndex key' c' n' h =
       (if key' = key \<and> c' = code \<and> n' = n \<and> 0 < k then ?ds ! (k - 1) else GetUniqueActivesLastGeneratedDayIndex key' c' n' (obs_history s))"
    by blast
  have lg: "last_gen s' = (if 0 < k then ?ds ! (k - 1) else last_gen s)" unfolding last_gen_def k(3) by (simp add: h)
  have len: "length xs = k" using list_all2_lengthD [OF k(5)] k(1) by simp
  have o: "observations s' = t" using k(3) by simp
  have 1: "if xs = [] then last_gen s' = last_gen s
     else last_gen s' \<le> final_day \<and>
       list_all2 (\<lambda>d. actives_observation (agg_encoder s) metric report code n d (active_in_window daily d n)) (day_range first_day (last_gen s')) xs"
  proof (cases k)
    case 0
    then show ?thesis using len lg by simp
  next
    case (Suc j)
    then have j: "j < length ?ds" using k(1) by simp
    have "last_gen s' \<in> set ?ds" using lg Suc j by simp
    then have "last_gen s' \<le> final_day" by (simp add: set_day_range)
    moreover have "take k ?ds = day_range first_day (last_gen s')" using take_day_range [OF j] lg Suc by simp
    moreover have "xs \<noteq> []" using len Suc by auto
    ultimately show ?thesis using k(5) by simp
  qed
  have 2: "last_gen s' = final_day" if "st = kOK" "first_day \<le> final_day"
  proof -
    have ne: "?ds \<noteq> []" using that(2) by (simp add: day_range_nonempty)
    then have "0 < k" using k(2) that(1) by simp
    then have "last_gen s' = ?ds ! (length ?ds - 1)" using lg that(1) k(2) by simp
    with ne last_day_range [OF that(2)] show ?thesis by (metis last_conv_nth)
  qed
  show ?thesis unfolding o by (intro conjI exI [of _ xs] impI k(4) k(6) 1) (auto intro: 2)
qed

end

definition day_windows :: "OnDeviceAggregationWindow list \<Rightarrow> u32 list" where
  "day_windows ws = List.map_filter (\<lambda>w. case w of kDays n \<Rightarrow> Some n | _ \<Rightarrow> None) ws"

lemma set_day_windows: "n \<in> set (day_windows ws) \<longleftrightarrow> kDays n \<in> set ws"
  by (force simp: day_windows_def map_filter_def split: OnDeviceAggregationWindow.splits)

lemma for_each_day_windows:
  assumes "\<And>n s. kDays n \<in> set ws \<Longrightarrow> f (kDays n) s = g n s"
    and "\<And>w s. (\<forall>n. w \<noteq> kDays n) \<Longrightarrow> f w s = (kOK, s)"
  shows "for_each f ws s = for_each g (day_windows ws) s"
  using assms(1)
proof (induction ws arbitrary: s)
  case (Cons w ws)
  then show ?case by (cases w) (auto simp: day_windows_def map_filter_simps assms(2) split: prod.split)
qed (simp add: day_windows_def map_filter_simps)

lemma window_in_backfill:
  assumes "windows_ok ws" and "kDays n \<in> set ws" and "check_day b final_day"
  shows "0 < n" "n \<le> kMaxAllowedAggregationDays" "n \<le> final_day - of_nat b"
proof -
  note w = windows_ok_max [OF assms(1,2)]
  show "0 < n" "n \<le> kMaxAllowedAggregationDays" using w by auto
  then have "unat n \<le> 365" by (simp add: aggregate_consts word_le_nat_alt)
  moreover have c: "365 + b \<le> unat final_day" using assms(3) by (simp add: check_day_def aggregate_consts)
  have "unat final_day < 2 ^ 32" using unsigned_less [of final_day] by simp
  then have ob: "unat (of_nat b :: u32) = b" using c by (simp add: unat_of_nat)
  then have "unat (final_day - of_nat b) = unat final_day - b" using c by (subst unat_minus) (simp_all add: word_le_nat_alt)
  ultimately show "n \<le> final_day - of_nat b" using c by (simp add: word_le_nat_alt)
qed

section \<open>Properties of unique actives\<close>

text \<open>C7. The search for activity that \<open>GenerateUniqueActivesObservations\<close> makes once per run of active days, keeping the
  day it found in \<open>active_day_index\<close>, gives on every day and for every window what looking at all days of the window
  gives: for every event code, every daily window and every day from the first one not yet generated to the final one, an
  observation is generated that says whether the event occurred on one of the days of the window. Hourly windows are
  skipped.\<close>

theorem GenerateUniqueActivesObservations_reference:
  assumes "windows_ok (config_aggregation_window (aggregation_config a))" and "check_day (backfill_days s) final_day"
  shows "GenerateUniqueActivesObservations metric key a num_event_codes final_day s =
    for_each (\<lambda>code. for_each (\<lambda>n t.
        for_each (unique_actives_day_ref metric (config_report (aggregation_config a)) key (map_of (unique_actives_of a) code) code n)
          (day_range (first_day_to_generate (GetUniqueActivesLastGeneratedDayIndex key code n (obs_history t))
             (final_day - of_nat (backfill_days s))) final_day) t)
      (day_windows (config_aggregation_window (aggregation_config a))))
    (map of_nat [0..<unat num_event_codes]) s"
  unfolding GenerateUniqueActivesObservations_def Let_def
proof (rule for_each_cong [OF refl refl], rule for_each_day_windows)
  fix code n and t :: "'a AggregateStore" assume "kDays n \<in> set (config_aggregation_window (aggregation_config a))"
  from unique_actives_window_eq [OF window_in_backfill [OF assms(1) this assms(2)]]
  show "unique_actives_window metric (config_report (aggregation_config a)) key (final_day - word_of_nat (backfill_days s)) final_day
      (map_of (unique_actives_of a) code) code (kDays n) t =
    for_each (unique_actives_day_ref metric (config_report (aggregation_config a)) key (map_of (unique_actives_of a) code) code n)
      (day_range (first_day_to_generate (GetUniqueActivesLastGeneratedDayIndex key code n (obs_history t))
        (final_day - word_of_nat (backfill_days s))) final_day) t" .
qed (simp add: unique_actives_window_def split: OnDeviceAggregationWindow.split)

text \<open>C3. Observations of unique actives are generated exactly once: whatever writes fail, one pass over the days of a window
  adds to the memory store behind the shipping manager one observation for each day from the first day not generated before
  to the day the history then records, in this order, and nothing else; each carries the metadata of the report and its
  day, and without noise its bit says whether the event occurred in the window that ends on that day. When every write
  succeeds the history records the final day.\<close>

theorem unique_actives_exactly_once:
  assumes "agg_writer s = manager_writer (Memory_StoreObservation size_of ser) ops encrypter" and "\<And>x. 0 < size_of x"
    and "memory_inv size_of ser (store (observations s))" and "\<not> is_disabled (store (observations s))"
    and "inj (SerializeValuePart (agg_encoder s))"
    and "0 < n" and "n \<le> kMaxAllowedAggregationDays" and "n \<le> start" and "final_day < - 1"
    and "unique_actives_window metric report key start final_day daily code (kDays n) s = (st, s')"
  defines "last_gen \<equiv> \<lambda>s. GetUniqueActivesLastGeneratedDayIndex key code n (obs_history s)"
  shows "(\<exists>xs. memory_contents (store (observations s')) =
        memory_contents (store (observations s)) + mset (map (\<lambda>(ob, md). (ser md, stored_form encrypter ob)) xs) \<and>
      (if xs = [] then last_gen s' = last_gen s
       else last_gen s' \<le> final_day \<and>
         list_all2 (\<lambda>d. actives_observation (agg_encoder s) metric report code n d (active_in_window daily d n))
           (day_range (first_day_to_generate (last_gen s) start) (last_gen s')) xs)) \<and>
    (st = kOK \<and> first_day_to_generate (last_gen s) start \<le> final_day \<longrightarrow> last_gen s' = final_day)"
proof -
  have "WriteObservation (agg_writer s) = WriteObservation (manager_writer (Memory_StoreObservation size_of ser) ops encrypter)"
    by (simp add: assms(1))
  moreover have "(\<forall>x. 0 < size_of x) \<and> memory_inv size_of ser (store (observations s)) \<and> \<not> is_disabled (store (observations s))"
    using assms(2-4) by blast
  ultimately show ?thesis
    using memory_sink.unique_actives_window_emits [OF _ _ assms(5-10)] unfolding last_gen_def case_prod_unfold by (elim conjE) blast
qed

section \<open>Numeric aggregates of a window\<close>

text \<open>The reference: the values of the days of the window, the latest first, and their aggregate computed from scratch.\<close>

definition day_value :: "DailyAggregates \<Rightarrow> u32 \<Rightarrow> nat \<Rightarrow> i64 option" where
  "day_value by_day obs_day i = map_option (\<lambda>a. numeric_value (Some a)) (map_of by_day (obs_day - of_nat i))"

definition window_values :: "DailyAggregates \<Rightarrow> u32 \<Rightarrow> nat \<Rightarrow> i64 list" where
  "window_values by_day obs_day n = List.map_filter (day_value by_day obs_day) [0..<n]"

definition window_aggregate_ref :: "OnDeviceAggregationType \<Rightarrow> i64 list \<Rightarrow> i64" where
  "window_aggregate_ref ty vs =
     (case ty of
        SUM_TYPE \<Rightarrow> sum_list vs
      | MAX_TYPE \<Rightarrow> foldl signed_max 0 vs
      | MIN_TYPE \<Rightarrow> (case vs of [] \<Rightarrow> 0 | v # vs \<Rightarrow> foldl signed_min v vs)
      | UNKNOWN_AGGREGATION_TYPE \<Rightarrow> 0)"

lemma window_values_Suc:
  "window_values by_day obs_day (Suc i) =
     window_values by_day obs_day i @ (case day_value by_day obs_day i of None \<Rightarrow> [] | Some v \<Rightarrow> [v])"
  by (simp add: window_values_def map_filter_def split: option.split)

lemma aggregate_day_ref:
  assumes "ty \<noteq> UNKNOWN_AGGREGATION_TYPE"
  shows "aggregate_day ty (map_of by_day (obs_day - of_nat i))
      (window_values by_day obs_day i \<noteq> [], window_aggregate_ref ty (window_values by_day obs_day i)) =
    Some (window_values by_day obs_day (Suc i) \<noteq> [], window_aggregate_ref ty (window_values by_day obs_day (Suc i)))"
  using assms
  by (cases ty; cases "map_of by_day (obs_day - of_nat i)"; cases "window_values by_day obs_day i")
    (simp_all add: aggregate_day_def window_values_Suc day_value_def window_aggregate_ref_def Let_def)

lemma window_loop_ref:
  assumes "ty \<noteq> UNKNOWN_AGGREGATION_TYPE" and "unat num_days \<le> unat n"
  shows "window_loop ty by_day obs_day n
      (window_values by_day obs_day (unat num_days) \<noteq> [], window_aggregate_ref ty (window_values by_day obs_day (unat num_days))) num_days =
    Some ((window_values by_day obs_day (unat n) \<noteq> [], window_aggregate_ref ty (window_values by_day obs_day (unat n))), n)"
  using assms(2)
proof (induction "unat n - unat num_days" arbitrary: num_days)
  case 0
  then have "num_days = n" by (simp add: word_unat_eq_iff)
  then show ?case by (simp add: window_loop.simps)
next
  case (Suc k)
  then have lt: "num_days < n" by (simp add: word_less_nat_alt)
  then have u: "unat (num_days + 1) = Suc (unat num_days)" by (simp add: unat_plus1)
  have "aggregate_day ty (map_of by_day (obs_day - num_days))
      (window_values by_day obs_day (unat num_days) \<noteq> [], window_aggregate_ref ty (window_values by_day obs_day (unat num_days))) =
    Some (window_values by_day obs_day (unat (num_days + 1)) \<noteq> [], window_aggregate_ref ty (window_values by_day obs_day (unat (num_days + 1))))"
    using aggregate_day_ref [OF assms(1), of by_day obs_day "unat num_days"] u by simp
  moreover have "k = unat n - unat (num_days + 1)" "unat (num_days + 1) \<le> unat n" using Suc(2) lt u by (simp_all add: word_less_nat_alt)
  ultimately show ?case using Suc(1) [of "num_days + 1"] lt by (subst window_loop.simps) simp
qed

definition numeric_window_ref ::
    "MetricRef \<Rightarrow> ReportDefinition \<Rightarrow> string \<Rightarrow> string \<Rightarrow> u64 \<Rightarrow> DailyAggregates \<Rightarrow> u32 \<Rightarrow> u32 \<Rightarrow> 's AggregateStore \<Rightarrow> Status \<times> 's AggregateStore" where
  "numeric_window_ref metric report key component event_code by_day obs_day n s =
     (let vs = window_values by_day obs_day (unat n);
          (stat, s) = (if vs = [] then (kOK, s)
                       else generate_numeric metric report obs_day component event_code (kDays n)
                              (window_aggregate_ref (aggregation_type report) vs) s)
      in (stat, if stat \<noteq> kOK then s
                else s\<lparr>obs_history := SetPerDeviceNumericLastGeneratedDayIndex key component (ucast event_code) n obs_day (obs_history s)\<rparr>))"

lemma numeric_windows_ref:
  assumes "aggregation_type report \<noteq> UNKNOWN_AGGREGATION_TYPE" and "sorted ns" and "\<forall>n \<in> set ns. num_days \<le> n"
  shows "\<exists>c. for_each (numeric_window metric report key component event_code by_day obs_day) (map kDays ns)
      (((window_values by_day obs_day (unat num_days) \<noteq> [],
         window_aggregate_ref (aggregation_type report) (window_values by_day obs_day (unat num_days))), num_days), s) =
    (fst (for_each (numeric_window_ref metric report key component event_code by_day obs_day) ns s), c,
     snd (for_each (numeric_window_ref metric report key component event_code by_day obs_day) ns s))"
  using assms(2,3)
proof (induction ns arbitrary: num_days s)
  case (Cons n ns)
  let ?acc = "\<lambda>n. (window_values by_day obs_day (unat n) \<noteq> [], window_aggregate_ref (aggregation_type report) (window_values by_day obs_day (unat n)))"
  have "unat num_days \<le> unat n" using Cons.prems by (simp add: word_le_nat_alt)
  note loop = window_loop_ref [OF assms(1) this, of by_day obs_day]
  obtain st s1 where r: "numeric_window_ref metric report key component event_code by_day obs_day n s = (st, s1)" by force
  have step: "numeric_window metric report key component event_code by_day obs_day (kDays n) ((?acc num_days, num_days), s) = (st, (?acc n, n), s1)"
    using r by (auto simp: numeric_window_def numeric_window_ref_def loop Let_def split: prod.splits if_splits)
  have "sorted ns" "\<forall>m \<in> set ns. n \<le> m" using Cons.prems by simp_all
  from Cons.IH [OF this, of s1] obtain c where "for_each (numeric_window metric report key component event_code by_day obs_day) (map kDays ns)
      ((?acc n, n), s1) = (fst (for_each (numeric_window_ref metric report key component event_code by_day obs_day) ns s1), c,
     snd (for_each (numeric_window_ref metric report key component event_code by_day obs_day) ns s1))" by blast
  with step r show ?case by (intro exI [of _ "if st = kOK then c else (?acc n, n)"]) simp
qed auto

section \<open>The helper map\<close>

lemma fold_push_window:
  "distinct ds \<Longrightarrow> map_get [] (fold (\<lambda>d m. map_set d (map_get [] m d @ [w]) m) ds m) d = map_get [] m d @ (if d \<in> set ds then [w] else [])"
  by (induction ds arbitrary: m) auto

lemma distinct_day_range: "distinct (day_range a b)"
proof -
  have "inj_on (of_nat :: nat \<Rightarrow> u32) {unat a..<Suc (unat b)}"
  proof (rule inj_onI)
    fix x y assume xy: "x \<in> {unat a..<Suc (unat b)}" "y \<in> {unat a..<Suc (unat b)}" "(of_nat x :: u32) = of_nat y"
    have "unat b < 2 ^ 32" using unsigned_less [of b] by simp
    then have "unat (of_nat z :: u32) = z" if "z \<in> {unat a..<Suc (unat b)}" for z using that by (simp add: unat_of_nat)
    from this [OF xy(1)] this [OF xy(2)] have "unat (of_nat x :: u32) = x" "unat (of_nat y :: u32) = y" by blast+
    with xy(3) show "x = y" by metis
  qed
  then show ?thesis by (simp add: day_range_def distinct_map del: upt_Suc)
qed

lemma windows_by_obs_day_get:
  fixes h component key start and event_code :: u64
  defines "first_day \<equiv> \<lambda>n. first_day_to_generate (GetPerDeviceNumericLastGeneratedDayIndex key component (ucast event_code) n h) start"
  shows "map_get [] (windows_by_obs_day key component event_code start final_day h ws) d =
    map kDays (filter (\<lambda>n. first_day n \<le> d \<and> d \<le> final_day) (day_windows ws))"
proof -
  have "map_get [] (fold (add_window_days key component event_code start final_day h) ws m) d =
    map_get [] m d @ map kDays (filter (\<lambda>n. first_day n \<le> d \<and> d \<le> final_day) (day_windows ws))" for m
  proof (induction ws arbitrary: m)
    case (Cons w ws)
    have "map_get [] (add_window_days key component event_code start final_day h w m) d =
        map_get [] m d @ map kDays (filter (\<lambda>n. first_day n \<le> d \<and> d \<le> final_day) (day_windows [w]))"
      by (cases w) (simp_all add: add_window_days_def Let_def fold_push_window [OF distinct_day_range] set_day_range
          day_windows_def map_filter_simps first_day_def)
    moreover have "day_windows (w # ws) = day_windows [w] @ day_windows ws" by (simp add: day_windows_def map_filter_def)
    ultimately show ?case using Cons.IH by simp
  qed (simp add: day_windows_def map_filter_simps)
  from this [of "[]"] show ?thesis by (simp add: windows_by_obs_day_def)
qed

lemma day_windows_sorted:
  assumes "windows_ok ws"
  shows "sorted (day_windows ws)"
proof -
  obtain hs ds where "ws = map kHours hs @ map kDays ds" "sorted ds" using assms by (auto simp: windows_ok_def)
  moreover have "day_windows (map kHours hs @ map kDays ds) = ds"
    by (simp add: day_windows_def map_filter_def filter_empty_conv comp_def)
  ultimately show ?thesis by simp
qed

lemma sorted_filter_u32: "sorted (ns :: u32 list) \<Longrightarrow> sorted (filter P ns)"
  by (simp add: sorted_filter [where f = id, simplified])

text \<open>The aggregate of a window as the values of its days determine it.\<close>

lemma foldl_signed_max: "foldl signed_max v vs \<in> set (v # vs) \<and> (\<forall>w \<in> set (v # vs). w \<le>s foldl signed_max v vs)"
  by (induction vs rule: rev_induct) (auto simp: signed_max_def word_sle_eq word_sless_alt intro: order_trans)

lemma foldl_signed_min: "foldl signed_min v vs \<in> set (v # vs) \<and> (\<forall>w \<in> set (v # vs). foldl signed_min v vs \<le>s w)"
  by (induction vs rule: rev_induct) (auto simp: signed_min_def word_sle_eq word_sless_alt intro: order_trans)

lemma window_aggregate_ref_is_aggregate:
  assumes "ty \<noteq> UNKNOWN_AGGREGATION_TYPE" and "vs \<noteq> []"
  shows "is_aggregate ty (if ty = MAX_TYPE then 0 # vs else vs) (window_aggregate_ref ty vs)"
proof (cases ty)
  case MAX_TYPE
  with foldl_signed_max [of 0 vs] show ?thesis by (simp add: is_aggregate_def window_aggregate_ref_def)
next
  case MIN_TYPE
  obtain v us where "vs = v # us" using assms(2) by (cases vs) auto
  with MIN_TYPE foldl_signed_min [of v us] show ?thesis by (simp add: is_aggregate_def window_aggregate_ref_def)
qed (use assms in \<open>simp_all add: is_aggregate_def window_aggregate_ref_def\<close>)


lemma numeric_event_code_ref:
  assumes "windows_ok windows" and "aggregation_type report \<noteq> UNKNOWN_AGGREGATION_TYPE"
  shows "numeric_event_code metric report key windows start final_day component (event_code, by_day) s =
    for_each (\<lambda>d. for_each (numeric_window_ref metric report key component event_code by_day d)
        (filter (\<lambda>n. first_day_to_generate
           (GetPerDeviceNumericLastGeneratedDayIndex key component (ucast event_code) n (obs_history s)) start \<le> d) (day_windows windows)))
      (day_range start final_day) s"
  unfolding numeric_event_code_def Let_def prod.case
proof (rule for_each_cong [OF refl refl])
  let ?m = "windows_by_obs_day key component event_code start final_day (obs_history s) windows"
  let ?ns = "\<lambda>d. filter (\<lambda>n. first_day_to_generate
     (GetPerDeviceNumericLastGeneratedDayIndex key component (ucast event_code) n (obs_history s)) start \<le> d) (day_windows windows)"
  fix d and t :: "'a AggregateStore" assume "d \<in> set (day_range start final_day)"
  then have ws: "map_get [] ?m d = map kDays (?ns d)" by (simp add: windows_by_obs_day_get set_day_range)
  have "sorted (?ns d)" by (rule sorted_filter_u32 [OF day_windows_sorted [OF assms(1)]])
  from numeric_windows_ref [OF assms(2) this, of 0 metric key component event_code by_day d t]
  obtain c where c: "for_each (numeric_window metric report key component event_code by_day d) (map kDays (?ns d)) (((False, 0), 0), t) =
    (fst (for_each (numeric_window_ref metric report key component event_code by_day d) (?ns d) t), c,
     snd (for_each (numeric_window_ref metric report key component event_code by_day d) (?ns d) t))"
    by (auto simp: window_values_def map_filter_simps window_aggregate_ref_def split: OnDeviceAggregationType.splits)
  show "numeric_day metric report key component event_code by_day ?m d t =
    for_each (numeric_window_ref metric report key component event_code by_day d) (?ns d) t"
  proof (cases "map_of ?m d")
    case None
    with ws have "?ns d = []" by (simp add: map_get_None)
    with None show ?thesis by (simp add: numeric_day_def)
  next
    case (Some w)
    with ws have "w = map kDays (?ns d)" by (simp add: map_get_Some)
    with Some c show ?thesis by (simp add: numeric_day_def)
  qed
qed

section \<open>Properties of numeric aggregates\<close>

text \<open>C6. The generation of numeric observations, which collects the windows to generate in a map by day and grows one aggregate
  from window to window, does what its specification says: for each day of the backfill period and each daily window that has
  not been generated for that day, the values of the days of the window are aggregated from scratch and, when there are any,
  one observation of the aggregate is generated. The aggregate of a window is the sum or the minimum of the values of its
  days, or the maximum of these values and zero.\<close>

theorem numeric_event_code_reference:
  assumes "windows_ok windows" and "aggregation_type report \<noteq> UNKNOWN_AGGREGATION_TYPE"
  shows "numeric_event_code metric report key windows start final_day component (event_code, by_day) s =
      for_each (\<lambda>d. for_each (numeric_window_ref metric report key component event_code by_day d)
          (filter (\<lambda>n. first_day_to_generate
             (GetPerDeviceNumericLastGeneratedDayIndex key component (ucast event_code) n (obs_history s)) start \<le> d) (day_windows windows)))
        (day_range start final_day) s \<and>
    (\<forall>vs. vs \<noteq> [] \<longrightarrow> is_aggregate (aggregation_type report)
       (if aggregation_type report = MAX_TYPE then 0 # vs else vs) (window_aggregate_ref (aggregation_type report) vs))"
  using numeric_event_code_ref [OF assms] window_aggregate_ref_is_aggregate [OF assms(2)] by blast

lemma for_each_skip: "for_each (\<lambda>x t. (kOK, t)) xs s = (kOK, s)"
  by (induction xs) auto

lemma for_each_ok: "(\<And>x t. x \<in> set xs \<Longrightarrow> fst (f x t) = kOK) \<Longrightarrow> fst (for_each f xs s) = kOK"
  by (induction xs arbitrary: s) (simp_all add: case_prod_unfold)

section \<open>What has been generated is not generated again\<close>

lemma write_result_history [simp]: "obs_history (snd (Aggregate_Generation.write_result res s)) = obs_history s"
  by (auto simp: Aggregate_Generation.write_result_def Let_def split: prod.splits option.splits if_splits)

lemma generate_numeric_history [simp]:
  "obs_history (snd (generate_numeric metric report d component code w v s)) = obs_history s"
  by (auto simp: generate_numeric_def GenerateSinglePerDeviceNumericObservation_def GenerateSinglePerDeviceHistogramObservation_def
      split: ReportType.split)

lemma numeric_window_ref_history:
  assumes "numeric_window_ref metric report key component code by_day d n s = (st, s')"
  shows "obs_history s' = (if st = kOK then SetPerDeviceNumericLastGeneratedDayIndex key component (ucast code) n d (obs_history s) else obs_history s)"
proof -
  let ?vs = "window_values by_day d (unat n)"
  obtain st1 s1 where g: "(if ?vs = [] then (kOK, s) else generate_numeric metric report d component code (kDays n)
      (window_aggregate_ref (aggregation_type report) ?vs) s) = (st1, s1)" by force
  then have "obs_history s1 = obs_history s" by (metis generate_numeric_history snd_conv)
  with assms g show ?thesis by (auto simp: numeric_window_ref_def Let_def split: if_splits)
qed

definition numeric_last_gen :: "string \<Rightarrow> string \<Rightarrow> u64 \<Rightarrow> u32 \<Rightarrow> 's AggregateStore \<Rightarrow> u32" where
  "numeric_last_gen key component code n s = GetPerDeviceNumericLastGeneratedDayIndex key component (ucast code) n (obs_history s)"

lemma numeric_windows_history:
  "for_each (numeric_window_ref metric report key component code by_day d) ns s = (kOK, s') \<Longrightarrow>
   numeric_last_gen key component code n s' = (if n \<in> set ns then d else numeric_last_gen key component code n s)"
proof (induction ns arbitrary: s)
  case (Cons m ns)
  obtain st s1 where r: "numeric_window_ref metric report key component code by_day d m s = (st, s1)" by force
  with Cons.prems have 1: "st = kOK" "for_each (numeric_window_ref metric report key component code by_day d) ns s1 = (kOK, s')"
    by (auto split: if_splits)
  show ?case using Cons.IH [OF 1(2)] numeric_window_ref_history [OF r] 1(1) by (simp add: numeric_last_gen_def)
qed simp

lemma numeric_days_history:
  assumes "for_each (\<lambda>d. for_each (numeric_window_ref metric report key component code by_day d) (filter (\<lambda>n. first_day n \<le> d) ns)) ds s = (kOK, s')"
    and "n \<in> set ns"
  shows "numeric_last_gen key component code n s' =
    (if filter (\<lambda>d. first_day n \<le> d) ds = [] then numeric_last_gen key component code n s else last (filter (\<lambda>d. first_day n \<le> d) ds))"
  using assms(1)
proof (induction ds arbitrary: s' rule: rev_induct)
  case (snoc d ds)
  let ?f = "\<lambda>d. for_each (numeric_window_ref metric report key component code by_day d) (filter (\<lambda>n. first_day n \<le> d) ns)"
  obtain s1 where s1: "for_each ?f ds s = (kOK, s1)" "?f d s1 = (kOK, s')"
    using snoc.prems by (auto simp: for_each_append split: prod.splits if_splits)
  show ?case using snoc.IH [OF s1(1)] numeric_windows_history [OF s1(2), of n] assms(2)
    by auto
qed simp

lemma last_filter_day_range:
  assumes "start \<le> f" and "f \<le> final_day" and "final_day < - 1"
  shows "filter (\<lambda>d. f \<le> d) (day_range start final_day) = day_range f final_day"
proof -
  have "day_range start final_day = filter (\<lambda>d. \<not> f \<le> d) (day_range start final_day) @ day_range f final_day"
  proof (cases "start = f")
    case True
    then show ?thesis by (simp add: filter_empty_conv set_day_range)
  next
    case False
    then have lt: "start < f" using assms(1) by simp
    define g where "g = f - 1"
    have f0: "0 < f" using lt by (rule le_less_trans [OF word_zero_le])
    then have "1 \<le> f" by (simp add: word_le_nat_alt word_less_nat_alt Suc_leI)
    then have ug: "unat g = unat f - 1" unfolding g_def by (subst unat_minus) simp_all
    have g: "g + 1 = f" "start \<le> g + 1" "g \<le> final_day"
      using assms(1,2) ug by (simp_all add: g_def word_le_nat_alt)
    have g1: "g < - 1" using g(3) assms(3) by (rule le_less_trans)
    have "filter (\<lambda>d. \<not> f \<le> d) (day_range start g) = day_range start g"
      using ug f0 by (auto simp: filter_id_conv set_day_range word_le_nat_alt word_less_nat_alt)
    moreover have "filter (\<lambda>d. \<not> f \<le> d) (day_range f final_day) = []" by (simp add: filter_empty_conv set_day_range)
    ultimately show ?thesis using day_range_append [OF g(2,3) g1] g(1) by simp
  qed
  then have "filter (\<lambda>d. f \<le> d) (day_range start final_day) =
    filter (\<lambda>d. f \<le> d) (filter (\<lambda>d. \<not> f \<le> d) (day_range start final_day) @ day_range f final_day)" by simp
  also have "\<dots> = day_range f final_day" by (simp add: filter_id_conv set_day_range)
  finally show ?thesis .
qed



section \<open>Examples\<close>

definition example_manager :: "(Observation2 MemoryObservationStore, unit, unit) ShippingManager" where
  "example_manager = ShippingManager_ctor example_scheduler (the (MemoryObservationStore_ctor 100 1000 10000)) () 0"

definition example_manager_store :: "ReportAggregates \<Rightarrow> (Observation2 MemoryObservationStore, unit, unit) ShippingManager AggregateStore" where
  "example_manager_store a =
     \<lparr>agg_encoder = example_encoder, agg_writer = manager_writer (Memory_StoreObservation (\<lambda>_. 7) (\<lambda>_. [])) Memory_ops None,
      SerializeKey = example_SerializeKey, backfill_days = 2, agg_disabled = False,
      local_aggregate_store = \<lparr>store_version = 1, by_report_key = [(map char_of [1, 2, 3, 4 :: nat], a)]\<rparr>,
      empty_local_aggregate_store = \<lparr>store_version = 1, by_report_key = []\<rparr>,
      obs_history = MakeNewObservationHistoryStore 0, random = (\<lambda>i. 0), observations = example_manager\<rparr>"

definition example_days :: DailyAggregates where
  "example_days = [(17999, activity_daily_aggregate True)]"

lemma example_manager_inv:
  "memory_inv size_of ser (store example_manager)" "\<not> is_disabled (store example_manager)" "memory_contents (store example_manager) = {#}"
proof -
  obtain s :: "Observation2 MemoryObservationStore" where s: "MemoryObservationStore_ctor 100 1000 10000 = Some s"
    by (simp add: MemoryObservationStore_ctor_def ObservationStore_ctor_def)
  have st: "store example_manager = s"
    by (simp add: example_manager_def ShippingManager_ctor_def s split: prod.split)
  show "memory_inv size_of ser (store example_manager)" "memory_contents (store example_manager) = {#}"
    using MemoryObservationStore_ctor_inv [OF s] by (simp_all add: st)
  show "\<not> is_disabled (store example_manager)"
    using s by (auto simp: st MemoryObservationStore_ctor_def ObservationStore_ctor_def ObservationStore.extend_def)
qed

theorem GenerateUniqueActivesObservations_reference_witness:
  "GenerateUniqueActivesObservations example_ref ''k'' (example_aggregates UNIQUE_N_DAY_ACTIVES (unique_actives_aggregates [])) 0 18000
     (example_store example_counts) = (kOK, example_store example_counts)"
proof -
  have "windows_ok (config_aggregation_window (aggregation_config (example_aggregates UNIQUE_N_DAY_ACTIVES (unique_actives_aggregates []))))"
    by (simp add: example_aggregates_def example_windows_ok)
  moreover have "check_day (backfill_days (example_store example_counts)) 18000"
    by (simp add: check_day_def example_store_def aggregate_consts)
  ultimately show ?thesis by (simp add: GenerateUniqueActivesObservations_reference)
qed

theorem unique_actives_exactly_once_witness:
  "\<exists>st s' xs. unique_actives_window example_ref example_report ''k'' 17998 18000 (Some example_days) 0 (kDays 7)
      (example_manager_store example_counts) = (st, s') \<and>
    memory_contents (store (observations s')) = mset (map (\<lambda>(ob, md). ([], stored_form None ob)) xs) \<and>
    (xs \<noteq> [] \<longrightarrow> list_all2 (\<lambda>d. actives_observation example_encoder example_ref example_report 0 7 d (active_in_window (Some example_days) d 7))
       (day_range 17998 (GetUniqueActivesLastGeneratedDayIndex ''k'' 0 7 (obs_history s'))) xs)"
proof -
  let ?s = "example_manager_store example_counts"
  obtain st s' where run: "unique_actives_window example_ref example_report ''k'' 17998 18000 (Some example_days) 0 (kDays 7) ?s = (st, s')"
    by force
  have s: "agg_writer ?s = manager_writer (Memory_StoreObservation (\<lambda>_. 7) (\<lambda>_. [])) Memory_ops None" "observations ?s = example_manager"
    "agg_encoder ?s = example_encoder" "inj (SerializeValuePart (agg_encoder ?s))"
    "GetUniqueActivesLastGeneratedDayIndex ''k'' 0 7 (obs_history ?s) = 0"
    by (simp_all add: example_manager_store_def example_encoder_def inj_unary_ser GetUniqueActivesLastGeneratedDayIndex_def
        MakeNewObservationHistoryStore_def)
  have b: "(0 :: u32) < 7" "(7 :: u32) \<le> kMaxAllowedAggregationDays" "(7 :: u32) \<le> 17998" "(18000 :: u32) < - 1"
    by (simp_all add: aggregate_consts)
  have f: "first_day_to_generate 0 17998 = 17998" by (simp add: first_day_to_generate_def max_def)
  from unique_actives_exactly_once [OF s(1) _ _ _ s(4) b run, unfolded s(2,3,5) f] example_manager_inv
  show ?thesis using run by (auto split: if_splits)
qed

definition example_sums :: DailyAggregates where
  "example_sums = [(17998, numeric_daily_aggregate 5), (18000, numeric_daily_aggregate 6)]"

theorem numeric_event_code_reference_witness:
  "numeric_event_code example_ref (example_report\<lparr>report_type := PER_DEVICE_NUMERIC_STATS\<rparr>) ''k'' [kDays 1, kDays 7] 18000 18000 ''x''
      (0, example_sums) (example_store example_counts) =
    for_each (numeric_window_ref example_ref (example_report\<lparr>report_type := PER_DEVICE_NUMERIC_STATS\<rparr>) ''k'' ''x'' 0 example_sums 18000)
      [1, 7] (example_store example_counts)"
proof -
  let ?r = "example_report\<lparr>report_type := PER_DEVICE_NUMERIC_STATS\<rparr>" and ?s = "example_store example_counts"
  have ty: "aggregation_type ?r \<noteq> UNKNOWN_AGGREGATION_TYPE" by (simp add: example_report_def)
  have g: "GetPerDeviceNumericLastGeneratedDayIndex ''k'' ''x'' (ucast (0 :: u64)) n (obs_history ?s) = 0" for n
    by (simp add: example_store_def GetPerDeviceNumericLastGeneratedDayIndex_def MakeNewObservationHistoryStore_def)
  have f: "filter (\<lambda>n. first_day_to_generate 0 18000 \<le> (18000 :: u32)) (day_windows [kDays 1, kDays 7]) = [1, 7]"
    by (simp add: first_day_to_generate_def max_def day_windows_def map_filter_simps)
  have d: "day_range 18000 18000 = [18000]" by (simp add: day_range_def)
  have e: "for_each f [x] s = f x s" for f :: "u32 \<Rightarrow> 'z \<Rightarrow> Status \<times> 'z" and x s by (auto split: prod.split)
  from numeric_event_code_reference [OF example_windows_ok ty, of example_ref "''k''" 18000 18000 "''x''" 0 example_sums ?s]
  show ?thesis unfolding g d e f by (rule conjunct1)
qed


section \<open>All operations of the store\<close>

text \<open>Generation changes only the history, the random source and the observations.\<close>

lemma for_each_invariant:
  "(\<And>x s. x \<in> set xs \<Longrightarrow> P s \<Longrightarrow> P (snd (f x s))) \<Longrightarrow> P s \<Longrightarrow> P (snd (for_each f xs s))"
  by (induction xs arbitrary: s) (simp_all add: case_prod_unfold)

definition aggregates_kept :: "'s AggregateStore \<Rightarrow> 's AggregateStore \<Rightarrow> bool" where
  "aggregates_kept s s' \<longleftrightarrow> local_aggregate_store s' = local_aggregate_store s \<and>
     empty_local_aggregate_store s' = empty_local_aggregate_store s \<and> agg_encoder s' = agg_encoder s \<and> agg_writer s' = agg_writer s \<and>
     SerializeKey s' = SerializeKey s \<and> backfill_days s' = backfill_days s \<and> agg_disabled s' = agg_disabled s"

lemma aggregates_kept_refl [simp]: "aggregates_kept s s"
  by (simp add: aggregates_kept_def)

lemma aggregates_kept_trans: "aggregates_kept s s1 \<Longrightarrow> aggregates_kept s1 s2 \<Longrightarrow> aggregates_kept s s2"
  by (simp add: aggregates_kept_def)

lemma aggregates_kept_history [simp]: "aggregates_kept s (s1\<lparr>obs_history := h\<rparr>) = aggregates_kept s s1"
  by (simp add: aggregates_kept_def)

lemma aggregates_kept_write_result [simp]: "aggregates_kept s (snd (Aggregate_Generation.write_result res s))"
  by (auto simp: Aggregate_Generation.write_result_def aggregates_kept_def Let_def case_prod_unfold split: option.split)

lemmas generate_defs = GenerateSingleUniqueActivesObservation_def GenerateSinglePerDeviceNumericObservation_def
  GenerateSinglePerDeviceHistogramObservation_def GenerateSingleReportParticipationObservation_def

lemma aggregates_kept_for_each:
  "(\<And>x t. aggregates_kept t (snd (f x t))) \<Longrightarrow> aggregates_kept s (snd (for_each f xs s))"
  by (rule for_each_invariant [where P = "aggregates_kept s"]) (blast intro: aggregates_kept_trans, simp)

lemma aggregates_kept_for_each_pair:
  "(\<And>x c t. aggregates_kept t (snd (snd (f x (c, t))))) \<Longrightarrow> aggregates_kept s (snd (snd (for_each f xs (c, s))))"
  using for_each_invariant [where P = "\<lambda>p. aggregates_kept s (snd p)" and s = "(c, s)" and f = f and xs = xs]
  by (metis aggregates_kept_refl aggregates_kept_trans prod.collapse snd_conv)

lemma unique_actives_window_kept: "aggregates_kept s (snd (unique_actives_window metric report key start final_day daily code w s))"
proof -
  have day: "aggregates_kept t (snd (snd (unique_actives_day metric report key daily code w d (c, t))))" for d c t
    by (simp add: unique_actives_day_def generate_defs Let_def case_prod_unfold)
  show ?thesis
    using aggregates_kept_for_each_pair [OF day]
    by (auto simp: unique_actives_window_def Let_def case_prod_unfold split: OnDeviceAggregationWindow.split)
qed

lemma GenerateUniqueActives_kept: "aggregates_kept s (snd (GenerateUniqueActivesObservations metric key a n final_day s))"
  unfolding GenerateUniqueActivesObservations_def Let_def by (intro aggregates_kept_for_each unique_actives_window_kept)

lemma numeric_window_kept:
  "aggregates_kept t (snd (snd (numeric_window metric report key component code by_day d w (c, t))))"
proof -
  have "aggregates_kept t (snd (generate_numeric metric report d component code w v t))" for v
    by (simp add: generate_numeric_def generate_defs split: ReportType.split)
  then show ?thesis
    by (simp add: numeric_window_def Let_def case_prod_unfold split: option.split)
qed

lemma numeric_event_code_kept:
  "aggregates_kept s (snd (numeric_event_code metric report key windows start final_day component x s))"
proof -
  have "aggregates_kept t (snd (numeric_day metric report key component code by_day m d t))" for code by_day m d t
    using aggregates_kept_for_each_pair [OF numeric_window_kept]
    by (auto simp: numeric_day_def case_prod_unfold split: option.split)
  then show ?thesis unfolding numeric_event_code_def Let_def case_prod_unfold by (intro aggregates_kept_for_each)
qed

lemma GenerateObsFromNumericAggregates_kept: "aggregates_kept s (snd (GenerateObsFromNumericAggregates metric key a final_day s))"
proof -
  have p: "aggregates_kept t (snd (participation_day metric report key d t))" for report d t
    by (simp add: participation_day_def generate_defs Let_def case_prod_unfold)
  have "aggregates_kept s (snd (for_each (\<lambda>(component, by_code). for_each (numeric_event_code metric report key ws start final_day component) by_code) m s))"
    for report ws start m
    by (intro aggregates_kept_for_each) (auto simp: case_prod_unfold intro: aggregates_kept_for_each numeric_event_code_kept)
  note loop = this
  show ?thesis unfolding GenerateObsFromNumericAggregates_def Let_def
    by (simp add: case_prod_unfold loop [unfolded case_prod_unfold] aggregates_kept_trans [OF loop [unfolded case_prod_unfold] aggregates_kept_for_each [OF p]])
qed

lemma generate_report_kept: "aggregates_kept t (snd (generate_report u l x t))"
  using GenerateUniqueActives_kept GenerateObsFromNumericAggregates_kept
  by (auto simp: generate_report_def Let_def case_prod_unfold split: option.split)

lemma GenerateObservations_kept: "GenerateObservations u l s = Some (st, s') \<Longrightarrow> aggregates_kept s s'"
proof -
  assume "GenerateObservations u l s = Some (st, s')"
  then have "for_each (generate_report u (if l = 0 then u else l)) (by_report_key (CopyLocalAggregateStore s)) s = (st, s')"
    by (simp add: GenerateObservations_def Let_def split: if_splits)
  then show ?thesis using aggregates_kept_for_each [of "generate_report u (if l = 0 then u else l)"] generate_report_kept by (metis snd_conv)
qed

text \<open>One call of a method of the store.\<close>

inductive agg_step :: "'s AggregateStore \<Rightarrow> 's AggregateStore \<Rightarrow> bool" where
  insert: "MaybeInsertReportConfig ctx metric report s = Some (st, s') \<Longrightarrow> agg_step s s'"
| active: "agg_step s (snd (SetActive cid pid mid rid code day s))"
| numeric: "agg_step s (snd (UpdateNumericAggregate cid pid mid rid component code day v s))"
| collect: "GarbageCollect u l s = Some (st, s') \<Longrightarrow> agg_step s s'"
| generate: "GenerateObservations u l s = Some (st, s') \<Longrightarrow> agg_step s s'"
| delete: "agg_step s (AggregateStore_DeleteData s)"
| disable: "agg_step s (AggregateStore_Disable b s)"

lemma aggregates_kept_inv: "aggregates_kept s s' \<Longrightarrow> agg_inv s' = agg_inv s"
  by (auto simp: aggregates_kept_def agg_inv_def)

lemma agg_step_inv: "agg_step s s' \<Longrightarrow> agg_inv s \<Longrightarrow> agg_inv s'"
  by (induction rule: agg_step.induct)
    (auto intro: MaybeInsertReportConfig_inv SetActive_inv UpdateNumericAggregate_inv GarbageCollect_inv DeleteData_inv Disable_inv
      dest: GenerateObservations_kept aggregates_kept_inv)

lemma set_aggregates_empty_store: "empty_local_aggregate_store (set_aggregates key t s) = empty_local_aggregate_store s"
  by simp

lemma SetActive_empty_store [simp]:
  "empty_local_aggregate_store (snd (SetActive cid pid mid rid code day s)) = empty_local_aggregate_store s"
  by (simp add: SetActive_def Let_def split: option.split AggregatesType.split)

lemma UpdateNumeric_empty_store [simp]:
  "empty_local_aggregate_store (snd (UpdateNumericAggregate cid pid mid rid component code day v s)) = empty_local_aggregate_store s"
  by (simp add: UpdateNumericAggregate_def Let_def split: option.split AggregatesType.split prod.split)

definition registered_keys :: "'s AggregateStore \<Rightarrow> string set" where
  "registered_keys s = fst ` set (by_report_key (empty_local_aggregate_store s))"

lemma insert_missing_keys:
  "insert_missing ctx metric report key las = Some (Some las') \<Longrightarrow> fst ` set (by_report_key las') = insert key (fst ` set (by_report_key las))"
proof (cases "map_of (by_report_key las) key")
  case None
  assume "insert_missing ctx metric report key las = Some (Some las')"
  with None obtain a where "las' = las\<lparr>by_report_key := map_set key a (by_report_key las)\<rparr>"
    by (auto simp: insert_missing_def split: option.splits)
  then show ?thesis by (simp add: dom_update)
next
  case (Some x)
  assume "insert_missing ctx metric report key las = Some (Some las')"
  moreover from Some have "key \<in> fst ` set (by_report_key las)" by (force dest: map_of_SomeD)
  ultimately show ?thesis using Some by (simp add: insert_missing_def insert_absorb)
qed

lemma MaybeInsert_keys:
  assumes "MaybeInsertReportConfig ctx metric report s = Some (st, s')"
  shows "registered_keys s \<subseteq> registered_keys s'"
    and "st = kOK \<Longrightarrow> PopulateReportKey s (project_customer_id (project ctx)) (project_project_id (project ctx)) (metric_def_id metric)
      (report_def_id report) = Some key \<Longrightarrow> key \<in> registered_keys s'"
  using assms
  by (cases rule: MaybeInsertReportConfig_cases; simp add: registered_keys_def insert_missing_keys subset_insertI)+

lemma agg_step_keys: "agg_step s s' \<Longrightarrow> registered_keys s \<subseteq> registered_keys s'"
proof (induction rule: agg_step.induct)
  case (insert ctx metric report s st s')
  then show ?case by (rule MaybeInsert_keys(1))
next
  case (collect u l s st s')
  then show ?case by (auto simp: GarbageCollect_def Let_def registered_keys_def split: if_splits)
next
  case (generate u l s st s')
  from GenerateObservations_kept [OF this] show ?case by (auto simp: aggregates_kept_def registered_keys_def)
qed (simp_all add: registered_keys_def AggregateStore_DeleteData_def AggregateStore_Disable_def)

lemma agg_steps_inv: "agg_step\<^sup>*\<^sup>* s s' \<Longrightarrow> agg_inv s \<Longrightarrow> agg_inv s'"
  by (induction rule: rtranclp_induct) (auto intro: agg_step_inv)

lemma agg_steps_keys: "agg_step\<^sup>*\<^sup>* s s' \<Longrightarrow> registered_keys s \<subseteq> registered_keys s'"
  by (induction rule: rtranclp_induct) (auto dest: agg_step_keys)

text \<open>C16. The invariant of the aggregate store: in every state that is reached from the construction of the store by calls of its
  methods, in any order and with any results, the two stores have one entry per report key, every entry has sorted windows of
  allowed size and aggregates of the kind its report asks for with one aggregate per component, event code and day, the
  empty store holds no data, and every report it knows is known to the store itself.\<close>

theorem aggregate_store_invariant:
  assumes "AggregateStore_ctor parse_las parse_hist las_path hist_path enc w sk days_back r obs d = Some (s0, d')"
    and "store_ok (restore_aggregates (fst (Read parse_las las_path d)))" and "agg_step\<^sup>*\<^sup>* s0 s"
  shows "agg_inv s"
proof (rule agg_steps_inv [OF assms(3)])
  show "agg_inv s0" using assms(1,2)
    by (auto simp: AggregateStore_ctor_def agg_inv_def store_ok_def MakeNewLocalAggregateStore_def case_prod_unfold Let_def split: if_splits)
qed

text \<open>Deleting the data of an aggregate store: for a report that was registered with \<open>kOK\<close> at any time before, \<open>DeleteData\<close>
  leaves no daily aggregate and no day in the history, while the report stays registered, so that later events are accepted.\<close>

theorem DeleteData_spec:
  assumes "agg_inv s" and "MaybeInsertReportConfig ctx metric report s = Some (kOK, s1)"
    and "PopulateReportKey s (project_customer_id (project ctx)) (project_project_id (project ctx)) (metric_def_id metric)
      (report_def_id report) = Some key"
    and "agg_step\<^sup>*\<^sup>* s1 s2"
  shows "\<exists>a. report_of (AggregateStore_DeleteData s2) key = Some a \<and> report_ok a \<and> (\<forall>k c d. report_cell a k c d = None) \<and>
    (\<forall>k c n. GetUniqueActivesLastGeneratedDayIndex key c n (obs_history (AggregateStore_DeleteData s2)) = 0 \<and>
       GetPerDeviceNumericLastGeneratedDayIndex key k c n (obs_history (AggregateStore_DeleteData s2)) = 0)"
proof -
  have inv: "agg_inv (AggregateStore_DeleteData s2)"
    by (rule DeleteData_inv [OF agg_steps_inv [OF assms(4) MaybeInsertReportConfig_inv [OF assms(1,2)]]])
  have "key \<in> registered_keys s2" using MaybeInsert_keys(2) [OF assms(2) refl assms(3)] agg_steps_keys [OF assms(4)] by blast
  then obtain a where a: "report_of (AggregateStore_DeleteData s2) key = Some a"
    by (auto simp: report_of_def AggregateStore_DeleteData_def registered_keys_def) (metis option.exhaust_sel map_of_eq_None_iff image_eqI fst_conv)
  then have "a \<in> snd ` set (by_report_key (local_aggregate_store (AggregateStore_DeleteData s2)))"
    by (force simp: report_of_def dest: map_of_SomeD)
  then have "no_data a" using inv by (auto simp: agg_inv_def AggregateStore_DeleteData_def)
  then have "report_cell a k c d = None" for k c d by (auto simp: no_data_def report_cell_def)
  then show ?thesis using a report_of_ok [OF inv a]
    by (auto simp: AggregateStore_DeleteData_def MakeNewObservationHistoryStore_def GetUniqueActivesLastGeneratedDayIndex_def
        GetPerDeviceNumericLastGeneratedDayIndex_def)
qed

definition example_context :: ProjectContext where
  "example_context = the (ProjectContext_ctor 1 ''c''
     (Some \<lparr>config_project_name = ''p'', config_project_id = 2, config_metrics = [example_metric]\<rparr>) None)"

theorem aggregate_store_invariant_witness:
  "agg_inv (snd (SetActive 1 2 3 4 7 18000 (fst (the (AggregateStore_ctor (\<lambda>_. None) (\<lambda>_. None) ''a'' ''h'' example_encoder example_writer
     example_SerializeKey 3 (\<lambda>i. 0) [] (restart []))))))"
proof -
  have r: "fst (Read (\<lambda>_. None :: LocalAggregateStore option) ''a'' (restart [])) = Inl NOT_FOUND"
    by (simp add: Read_def restart_def NewProtoInputStream_def next_fault_def)
  obtain s0 d' where c: "AggregateStore_ctor (\<lambda>_. None) (\<lambda>_. None) ''a'' ''h'' example_encoder example_writer
     example_SerializeKey 3 (\<lambda>i. 0) [] (restart []) = Some (s0, d')"
    by (cases "AggregateStore_ctor (\<lambda>_. None) (\<lambda>_. None) ''a'' ''h'' example_encoder example_writer
     example_SerializeKey 3 (\<lambda>i. 0) [] (restart [])") (auto simp: AggregateStore_ctor_def aggregate_consts split: prod.splits)
  have "store_ok (restore_aggregates (fst (Read (\<lambda>_. None) ''a'' (restart []))))"
    unfolding r by (simp add: restore_aggregates_def MaybeUpgradeLocalAggregateStore_def MakeNewLocalAggregateStore_def store_ok_def)
  note inv = aggregate_store_invariant [OF c this]
  have "agg_step\<^sup>*\<^sup>* s0 (snd (SetActive 1 2 3 4 7 18000 s0))" by (rule r_into_rtranclp) (rule agg_step.active)
  from inv [OF this] c show ?thesis by simp
qed

theorem DeleteData_spec_witness:
  "\<exists>s1 a. MaybeInsertReportConfig example_context example_metric example_report ((example_store example_counts)\<lparr>local_aggregate_store :=
       \<lparr>store_version = 1, by_report_key = []\<rparr>\<rparr>) = Some (kOK, s1) \<and>
     report_of (AggregateStore_DeleteData (snd (SetActive 1 2 3 4 7 18000 s1))) (map char_of [1, 2, 3, 4 :: nat]) = Some a \<and>
     report_cell a [] 7 18000 = None"
proof -
  let ?s = "(example_store example_counts)\<lparr>local_aggregate_store := \<lparr>store_version = 1, by_report_key = []\<rparr>\<rparr>"
  have inv: "agg_inv ?s" by (simp add: agg_inv_def store_ok_def example_store_def)
  have k: "PopulateReportKey ?s (project_customer_id (project example_context)) (project_project_id (project example_context))
      (metric_def_id example_metric) (report_def_id example_report) = Some (map char_of [1, 2, 3, 4 :: nat])"
    by (simp add: PopulateReportKey_def example_store_def example_SerializeKey_def example_context_def ProjectContext_ctor_def add_metric_def PopulateProject_def
        example_metric_def example_report_def)
  have g: "GetMetric example_context (metric_def_id example_metric) = Some example_metric"
    by (simp add: GetMetric_def example_context_def ProjectContext_ctor_def add_metric_def PopulateProject_def example_metric_def)
  have w: "GetSortedAggregationWindowsFromReport example_report = Some [kDays 1, kDays 7]"
    by (simp add: GetSortedAggregationWindowsFromReport_def example_report_def aggregate_consts MakeDayWindow_def)
  have "report_type example_report = UNIQUE_N_DAY_ACTIVES" by (simp add: example_report_def)
  then obtain a where a: "PopulateReportAggregates example_context example_metric example_report = Some (Some a)"
    by (simp add: PopulateReportAggregates_def g w Let_def)
  have i: "insert_missing example_context example_metric example_report key \<lparr>store_version = 1, by_report_key = []\<rparr> =
    Some (Some \<lparr>store_version = 1, by_report_key = [(key, a)]\<rparr>)" for key by (simp add: insert_missing_def a)
  have e: "local_aggregate_store ?s = \<lparr>store_version = 1, by_report_key = []\<rparr>"
    "empty_local_aggregate_store (?s\<lparr>local_aggregate_store := las\<rparr>) = \<lparr>store_version = 1, by_report_key = []\<rparr>" for las
    by (simp_all add: example_store_def)
  obtain s1 where s1: "MaybeInsertReportConfig example_context example_metric example_report ?s = Some (kOK, s1)"
    unfolding MaybeInsertReportConfig_def k option.case e i Let_def by blast
  have "agg_step\<^sup>*\<^sup>* s1 (snd (SetActive 1 2 3 4 7 18000 s1))" by (rule r_into_rtranclp) (rule agg_step.active)
  from DeleteData_spec [OF inv s1 k this] s1 show ?thesis by blast
qed

end
