(* ===== verification/Event_Aggregator.thy ===== *)
theory Event_Aggregator
  imports Aggregate_Correctness
begin

text \<open>
  Events and the \<open>EventAggregator\<close>: the messages of \<^verbatim>\<open>src/src/pb/event.proto\<close> that the logger uses, \<open>EventRecord\<close>
  (\<^verbatim>\<open>src/src/logger/event_record.h\<close>) and \<^verbatim>\<open>src/src/local_aggregation/event_aggregator.cc\<close>. The aggregator has no
  state besides the pointer to the aggregate store, so its methods are functions on the store. \<open>None\<close> is the dereference of a
  null pointer.
\<close>

section \<open>Events\<close>

datatype EventType =
    event_occurred_event u32
  | event_count_event "u32 list" string i64 i64
  | elapsed_time_event "u32 list" string i64
  | frame_rate_event "u32 list" string i64
  | memory_usage_event "u32 list" string i64
  | int_histogram_event "u32 list" string "HistogramBucket list"
  | custom_event EventValues
  | EVENT_TYPE_NOT_SET

record Event =
  event_type :: EventType
  event_day_index :: u32
  event_hour_index :: u32

record EventRecord =
  rec_project_context :: ProjectContext
  rec_metric :: "MetricDefinition option"
  rec_event :: Event

definition EventRecord_ctor :: "ProjectContext \<Rightarrow> u32 \<Rightarrow> EventRecord" where
  "EventRecord_ctor ctx mid =
     \<lparr>rec_project_context = ctx, rec_metric = GetMetric ctx mid,
      rec_event = \<lparr>event_type = EVENT_TYPE_NOT_SET, event_day_index = 0, event_hour_index = 0\<rparr>\<rparr>"

section \<open>Registration\<close>

text \<open>A loop whose body may fail a \<open>CHECK\<close> or dereference a null pointer.\<close>

fun try_each :: "('a \<Rightarrow> 's \<Rightarrow> (Status \<times> 's) option) \<Rightarrow> 'a list \<Rightarrow> 's \<Rightarrow> (Status \<times> 's) option" where
  "try_each body [] s = Some (kOK, s)"
| "try_each body (x # xs) s =
     (case body x s of
        None \<Rightarrow> None
      | Some (st, s) \<Rightarrow> if st \<noteq> kOK then Some (st, s) else try_each body xs s)"

definition insert_reports ::
    "ReportType set \<Rightarrow> ProjectContext \<Rightarrow> MetricDefinition \<Rightarrow> 's AggregateStore \<Rightarrow> (Status \<times> 's AggregateStore) option" where
  "insert_reports types ctx metric =
     try_each (\<lambda>report s. if report_type report \<in> types then MaybeInsertReportConfig ctx metric report s else Some (kOK, s))
       (reports metric)"

abbreviation numeric_report_types :: "ReportType set" where
  "numeric_report_types \<equiv> {PER_DEVICE_NUMERIC_STATS, PER_DEVICE_HISTOGRAM}"

text \<open>The case for \<open>EVENT_OCCURRED\<close> has no \<open>break\<close> and runs into the following one.\<close>

definition update_metric_config :: "ProjectContext \<Rightarrow> MetricDefinition \<Rightarrow> 's AggregateStore \<Rightarrow> (Status \<times> 's AggregateStore) option" where
  "update_metric_config ctx metric s =
     (case metric_type metric of
        EVENT_OCCURRED \<Rightarrow>
          (case insert_reports {UNIQUE_N_DAY_ACTIVES} ctx metric s of
             None \<Rightarrow> None
           | Some (st, s) \<Rightarrow> if st \<noteq> kOK then Some (st, s) else insert_reports numeric_report_types ctx metric s)
      | EVENT_COUNT \<Rightarrow> insert_reports numeric_report_types ctx metric s
      | ELAPSED_TIME \<Rightarrow> insert_reports numeric_report_types ctx metric s
      | FRAME_RATE \<Rightarrow> insert_reports numeric_report_types ctx metric s
      | MEMORY_USAGE \<Rightarrow> insert_reports numeric_report_types ctx metric s
      | _ \<Rightarrow> Some (kOK, s))"

definition UpdateAggregationConfigs :: "ProjectContext \<Rightarrow> 's AggregateStore \<Rightarrow> (Status \<times> 's AggregateStore) option" where
  "UpdateAggregationConfigs ctx s = try_each (update_metric_config ctx) (metrics ctx) s"

section \<open>Adding events\<close>

definition AddUniqueActivesEvent :: "u32 \<Rightarrow> EventRecord \<Rightarrow> 's AggregateStore \<Rightarrow> (Status \<times> 's AggregateStore) option" where
  "AddUniqueActivesEvent rid r s =
     (case event_type (rec_event r) of
        event_occurred_event code \<Rightarrow>
          map_option (\<lambda>m. SetActive (metric_customer_id m) (metric_project_id m) (metric_def_id m) rid (ucast code)
            (event_day_index (rec_event r)) s) (rec_metric r)
      | _ \<Rightarrow> Some (kInvalidArguments, s))"

definition AddEventCountEvent :: "u32 \<Rightarrow> EventRecord \<Rightarrow> 's AggregateStore \<Rightarrow> (Status \<times> 's AggregateStore) option" where
  "AddEventCountEvent rid r s =
     (case event_type (rec_event r) of
        event_count_event codes component period n \<Rightarrow>
          map_option (\<lambda>m. UpdateNumericAggregate (metric_customer_id m) (metric_project_id m) (metric_def_id m) rid component
            (PackEventCodes codes) (event_day_index (rec_event r)) n s) (rec_metric r)
      | _ \<Rightarrow> Some (kInvalidArguments, s))"

definition AddElapsedTimeEvent :: "u32 \<Rightarrow> EventRecord \<Rightarrow> 's AggregateStore \<Rightarrow> (Status \<times> 's AggregateStore) option" where
  "AddElapsedTimeEvent rid r s =
     (case event_type (rec_event r) of
        elapsed_time_event codes component elapsed_micros \<Rightarrow>
          map_option (\<lambda>m. UpdateNumericAggregate (metric_customer_id m) (metric_project_id m) (metric_def_id m) rid component
            (PackEventCodes codes) (event_day_index (rec_event r)) elapsed_micros s) (rec_metric r)
      | _ \<Rightarrow> Some (kInvalidArguments, s))"

definition AddFrameRateEvent :: "u32 \<Rightarrow> EventRecord \<Rightarrow> 's AggregateStore \<Rightarrow> (Status \<times> 's AggregateStore) option" where
  "AddFrameRateEvent rid r s =
     (case event_type (rec_event r) of
        frame_rate_event codes component frames_per_1000_seconds \<Rightarrow>
          map_option (\<lambda>m. UpdateNumericAggregate (metric_customer_id m) (metric_project_id m) (metric_def_id m) rid component
            (PackEventCodes codes) (event_day_index (rec_event r)) frames_per_1000_seconds s) (rec_metric r)
      | _ \<Rightarrow> Some (kInvalidArguments, s))"

definition AddMemoryUsageEvent :: "u32 \<Rightarrow> EventRecord \<Rightarrow> 's AggregateStore \<Rightarrow> (Status \<times> 's AggregateStore) option" where
  "AddMemoryUsageEvent rid r s =
     (case event_type (rec_event r) of
        memory_usage_event codes component n \<Rightarrow>
          map_option (\<lambda>m. UpdateNumericAggregate (metric_customer_id m) (metric_project_id m) (metric_def_id m) rid component
            (PackEventCodes codes) (event_day_index (rec_event r)) n s) (rec_metric r)
      | _ \<Rightarrow> Some (kInvalidArguments, s))"

lemmas add_event_defs = AddUniqueActivesEvent_def AddEventCountEvent_def AddElapsedTimeEvent_def AddFrameRateEvent_def
  AddMemoryUsageEvent_def

end
