(* ===== verification/Event_Loggers.thy ===== *)
theory Event_Loggers
  imports Event_Aggregator
begin

text \<open>
  The event loggers of \<^verbatim>\<open>src/src/logger/event_loggers.cc\<close>: one class per type of metric, here the datatype
  \<open>EventLoggerClass\<close>, on which the virtual methods dispatch. A logger works on the state of the aggregate store, which holds
  the source of random bytes and the state behind the observation writer. A failed \<open>CHECK\<close> and the dereference of a null pointer
  are \<open>None\<close>. The clock's time points are numbers of nanoseconds.
\<close>

datatype EventLoggerClass =
    EventOccurredEventLogger | EventCountEventLogger | ElapsedTimeEventLogger | FrameRateEventLogger | MemoryUsageEventLogger
  | IntHistogramEventLogger | CustomEventLogger

definition Create :: "MetricType \<Rightarrow> EventLoggerClass option" where
  "Create ty =
     (case ty of
        EVENT_OCCURRED \<Rightarrow> Some EventOccurredEventLogger
      | EVENT_COUNT \<Rightarrow> Some EventCountEventLogger
      | ELAPSED_TIME \<Rightarrow> Some ElapsedTimeEventLogger
      | FRAME_RATE \<Rightarrow> Some FrameRateEventLogger
      | MEMORY_USAGE \<Rightarrow> Some MemoryUsageEventLogger
      | INT_HISTOGRAM \<Rightarrow> Some IntHistogramEventLogger
      | CUSTOM \<Rightarrow> Some CustomEventLogger
      | _ \<Rightarrow> None)"

text \<open>The members of an \<open>EventLogger\<close>; of the system data only the release stage is used.\<close>

record 's EventLogger =
  el_encoder :: Encoder
  el_writer :: "'s ObservationWriter"
  el_release_stage :: "nat option"

section \<open>Traces\<close>

definition endl :: string where "endl = [CHR 0x0A]"

definition trace_codes :: "u32 list \<Rightarrow> string" where
  "trace_codes codes = ''EventCodes:'' @ concat (map (\<lambda>code. '' '' @ decimal (unat code)) codes)"

text \<open>The statement that would print the name of the dimension stands before the first \<open>case\<close> of the \<open>switch\<close> and is never
  executed.\<close>

definition trace_custom_value :: "(u64 \<Rightarrow> string) \<Rightarrow> string \<times> CustomDimensionValue \<Rightarrow> string" where
  "trace_custom_value show_double entry =
     (case snd entry of
        custom_string v \<Rightarrow> v
      | custom_int v \<Rightarrow> decimal_int (sint v)
      | custom_blob v \<Rightarrow> ''Blob''
      | custom_index v \<Rightarrow> decimal (unat v)
      | custom_double v \<Rightarrow> show_double v
      | CUSTOM_NOT_SET \<Rightarrow> ''No dimension value'') @ endl"

definition trace_type :: "(u64 \<Rightarrow> string) \<Rightarrow> EventType \<Rightarrow> string" where
  "trace_type show_double t =
     (case t of
        event_occurred_event code \<Rightarrow> ''EventOccurredEvent: '' @ decimal (unat code) @ endl
      | event_count_event codes component period n \<Rightarrow>
          ''EventCountEvent:'' @ endl @ trace_codes codes @ '', Component: '' @ component @ '', PeriodDurationMicros: '' @
          decimal_int (sint period) @ '', Count: '' @ decimal_int (sint n) @ endl
      | elapsed_time_event codes component v \<Rightarrow>
          ''ElapsedTimeEvent:'' @ endl @ trace_codes codes @ '', Component: '' @ component @ '', ElapsedMicros: '' @ decimal_int (sint v) @ endl
      | frame_rate_event codes component v \<Rightarrow>
          ''FrameRateEvent:'' @ endl @ trace_codes codes @ '', Component: '' @ component @ '', FramesPer1000Seconds: '' @ decimal_int (sint v) @ endl
      | memory_usage_event codes component v \<Rightarrow>
          ''MemoryUsageEvent:'' @ endl @ trace_codes codes @ '', Component: '' @ component @ '', Bytes: '' @ decimal_int (sint v) @ endl
      | int_histogram_event codes component buckets \<Rightarrow>
          ''IntHistogramEvent:'' @ endl @ trace_codes codes @ '', Component: '' @ component @ endl @
          concat (map (\<lambda>b. ''| '' @ decimal (unat (bucket_index b)) @ '' = '' @ decimal (unat (bucket_count b)) @ endl) buckets)
      | custom_event vs \<Rightarrow>
          ''CustomEvent:'' @ (if vs = [] then '' (Empty)'' else []) @ endl @ concat (map (trace_custom_value show_double) vs)
      | EVENT_TYPE_NOT_SET \<Rightarrow> [])"

definition TraceEvent :: "(u64 \<Rightarrow> string) \<Rightarrow> MetricDefinition \<Rightarrow> Event \<Rightarrow> string" where
  "TraceEvent show_double metric e =
     (if \<not> also_log_locally metric then []
      else ''Day index: '' @ decimal (unat (event_day_index e)) @ endl @ trace_type show_double (event_type e))"

section \<open>Validation\<close>

definition ValidEventCode :: "MetricDimension \<Rightarrow> u32 \<Rightarrow> bool" where
  "ValidEventCode d code =
     (if max_event_code d > 0 then \<not> code > max_event_code d else list_ex (\<lambda>(c, _). c = code) (event_codes d))"

fun validate_codes :: "MetricDimension list \<Rightarrow> u32 list \<Rightarrow> Status" where
  "validate_codes (d # ds) (code # codes) =
     (if ValidEventCode d code then validate_codes ds codes else kInvalidArguments)"
| "validate_codes _ _ = kOK"

definition ValidateEventCodes :: "MetricDefinition \<Rightarrow> u32 list \<Rightarrow> Status" where
  "ValidateEventCodes metric codes =
     (if metric_dimensions metric = [] \<and> codes = [0] then kOK
      else if length codes > length (metric_dimensions metric) then kInvalidArguments
      else validate_codes (metric_dimensions metric) codes)"

definition ValidateOccurred :: "MetricDefinition \<Rightarrow> u32 \<Rightarrow> Status" where
  "ValidateOccurred metric code =
     (case metric_dimensions metric of
        [d] \<Rightarrow> if code > max_event_code d then kInvalidArguments else kOK
      | _ \<Rightarrow> kInvalidConfig)"

text \<open>\<open>num_valid_buckets\<close> is a \<open>uint32_t\<close>.\<close>

definition num_valid_buckets :: "IntegerBuckets \<Rightarrow> u32 option" where
  "num_valid_buckets b =
     (case b of kExponential _ n _ _ \<Rightarrow> Some (n + 2) | kLinear _ n _ \<Rightarrow> Some (n + 2) | BUCKETS_NOT_SET \<Rightarrow> None)"

definition ValidateHistogram :: "MetricDefinition \<Rightarrow> u32 list \<Rightarrow> HistogramBucket list \<Rightarrow> Status" where
  "ValidateHistogram metric codes buckets =
     (let st = ValidateEventCodes metric codes
      in if st \<noteq> kOK then st
         else case metric_int_buckets metric of
                None \<Rightarrow> kInvalidConfig
              | Some b \<Rightarrow>
                  (case num_valid_buckets b of
                     None \<Rightarrow> kInvalidConfig
                   | Some n \<Rightarrow> if list_ex (\<lambda>b. bucket_index b \<ge> n) buckets then kInvalidArguments else kOK))"

text \<open>The accessors of an event of another type return the default message, which has no event codes; only the two \<open>CHECK\<close>s
  on the type fail.\<close>

definition codes_of_count :: "EventType \<Rightarrow> u32 list" where
  "codes_of_count t = (case t of event_count_event codes _ _ _ \<Rightarrow> codes | _ \<Rightarrow> [])"

definition codes_of_elapsed :: "EventType \<Rightarrow> u32 list" where
  "codes_of_elapsed t = (case t of elapsed_time_event codes _ _ \<Rightarrow> codes | _ \<Rightarrow> [])"

definition codes_of_frame_rate :: "EventType \<Rightarrow> u32 list" where
  "codes_of_frame_rate t = (case t of frame_rate_event codes _ _ \<Rightarrow> codes | _ \<Rightarrow> [])"

definition codes_of_memory :: "EventType \<Rightarrow> u32 list" where
  "codes_of_memory t = (case t of memory_usage_event codes _ _ \<Rightarrow> codes | _ \<Rightarrow> [])"

definition ValidateEvent :: "EventLoggerClass \<Rightarrow> MetricDefinition \<Rightarrow> EventType \<Rightarrow> Status option" where
  "ValidateEvent c metric t =
     (case c of
        EventOccurredEventLogger \<Rightarrow> (case t of event_occurred_event code \<Rightarrow> Some (ValidateOccurred metric code) | _ \<Rightarrow> None)
      | EventCountEventLogger \<Rightarrow> Some (ValidateEventCodes metric (codes_of_count t))
      | ElapsedTimeEventLogger \<Rightarrow> Some (ValidateEventCodes metric (codes_of_elapsed t))
      | FrameRateEventLogger \<Rightarrow> Some (ValidateEventCodes metric (codes_of_frame_rate t))
      | MemoryUsageEventLogger \<Rightarrow> Some (ValidateEventCodes metric (codes_of_memory t))
      | IntHistogramEventLogger \<Rightarrow>
          (case t of int_histogram_event codes _ buckets \<Rightarrow> Some (ValidateHistogram metric codes buckets) | _ \<Rightarrow> None)
      | CustomEventLogger \<Rightarrow> Some kOK)"

definition PrepareAndValidateEvent :: "EventLoggerClass \<Rightarrow> MetricType \<Rightarrow> EventRecord \<Rightarrow> Status option" where
  "PrepareAndValidateEvent c expected_type r =
     (case rec_metric r of
        None \<Rightarrow> Some kInvalidArguments
      | Some metric \<Rightarrow>
          if metric_type metric \<noteq> expected_type then Some kInvalidArguments
          else ValidateEvent c metric (event_type (rec_event r)))"

section \<open>Local aggregation\<close>

definition update_occurred :: "ReportDefinition \<Rightarrow> EventRecord \<Rightarrow> 's AggregateStore \<Rightarrow> (Status \<times> 's AggregateStore) option" where
  "update_occurred report r s = (if report_type report = UNIQUE_N_DAY_ACTIVES then AddUniqueActivesEvent (report_def_id report) r s else Some (kOK, s))"

definition update_count :: "ReportDefinition \<Rightarrow> EventRecord \<Rightarrow> 's AggregateStore \<Rightarrow> (Status \<times> 's AggregateStore) option" where
  "update_count report r s = (if report_type report \<in> numeric_report_types then AddEventCountEvent (report_def_id report) r s else Some (kOK, s))"

definition update_elapsed :: "ReportDefinition \<Rightarrow> EventRecord \<Rightarrow> 's AggregateStore \<Rightarrow> (Status \<times> 's AggregateStore) option" where
  "update_elapsed report r s = (if report_type report \<in> numeric_report_types then AddElapsedTimeEvent (report_def_id report) r s else Some (kOK, s))"

definition update_frame_rate :: "ReportDefinition \<Rightarrow> EventRecord \<Rightarrow> 's AggregateStore \<Rightarrow> (Status \<times> 's AggregateStore) option" where
  "update_frame_rate report r s = (if report_type report \<in> numeric_report_types then AddFrameRateEvent (report_def_id report) r s else Some (kOK, s))"

definition update_memory :: "ReportDefinition \<Rightarrow> EventRecord \<Rightarrow> 's AggregateStore \<Rightarrow> (Status \<times> 's AggregateStore) option" where
  "update_memory report r s = (if report_type report \<in> numeric_report_types then AddMemoryUsageEvent (report_def_id report) r s else Some (kOK, s))"

definition MaybeUpdateLocalAggregation ::
    "EventLoggerClass \<Rightarrow> ReportDefinition \<Rightarrow> EventRecord \<Rightarrow> 's AggregateStore \<Rightarrow> (Status \<times> 's AggregateStore) option" where
  "MaybeUpdateLocalAggregation c report r s =
     (case c of
        EventOccurredEventLogger \<Rightarrow> update_occurred report r s
      | EventCountEventLogger \<Rightarrow> update_count report r s
      | ElapsedTimeEventLogger \<Rightarrow> update_elapsed report r s
      | FrameRateEventLogger \<Rightarrow> update_frame_rate report r s
      | MemoryUsageEventLogger \<Rightarrow> update_memory report r s
      | _ \<Rightarrow> Some (kOK, s))"

lemmas update_defs = MaybeUpdateLocalAggregation_def update_occurred_def update_count_def update_elapsed_def update_frame_rate_def
  update_memory_def

section \<open>Immediate observations\<close>

definition no_result :: "Status \<Rightarrow> Result" where
  "no_result st = \<lparr>status = st, result_observation = None, result_metadata = None\<rparr>"

definition BadReportType :: Result where
  "BadReportType = no_result kInvalidConfig"

text \<open>The result, the rest of the random bytes and the event after the call: the last report may move the buckets or the
  values out of the event.\<close>

definition encode_occurred :: "Encoder \<Rightarrow> MetricRef \<Rightarrow> ReportDefinition \<Rightarrow> Event \<Rightarrow> Random \<Rightarrow> (Result \<times> Random) option" where
  "encode_occurred e ref report ev r =
     (case event_type ev of
        event_occurred_event code \<Rightarrow> Some
          (case report_type report of
             SIMPLE_OCCURRENCE_COUNT \<Rightarrow>
               EncodeBasicRapporObservation e ref report (event_day_index ev) code (BasicRapporNumCategories (ref_metric ref)) r
           | UNIQUE_N_DAY_ACTIVES \<Rightarrow> (no_result kOK, r)
           | _ \<Rightarrow> (BadReportType, r))
      | _ \<Rightarrow> None)"

definition encode_count :: "Encoder \<Rightarrow> MetricRef \<Rightarrow> ReportDefinition \<Rightarrow> Event \<Rightarrow> Random \<Rightarrow> (Result \<times> Random) option" where
  "encode_count e ref report ev r =
     (case event_type ev of
        event_count_event codes component period n \<Rightarrow> Some
          (if report_type report \<in> {EVENT_COMPONENT_OCCURRENCE_COUNT, INT_RANGE_HISTOGRAM, NUMERIC_AGGREGATION}
           then EncodeIntegerEventObservation e ref report (event_day_index ev) codes component n r
           else if report_type report \<in> numeric_report_types then (no_result kOK, r)
           else (BadReportType, r))
      | _ \<Rightarrow> None)"

text \<open>\<open>EventCodes\<close>, \<open>Component\<close> and \<open>IntValue\<close> of the three subclasses of \<open>IntegerPerformanceEventLogger\<close>.\<close>

definition elapsed_values :: "EventType \<Rightarrow> (u32 list \<times> string \<times> i64) option" where
  "elapsed_values t = (case t of elapsed_time_event codes component v \<Rightarrow> Some (codes, component, v) | _ \<Rightarrow> None)"

definition frame_rate_values :: "EventType \<Rightarrow> (u32 list \<times> string \<times> i64) option" where
  "frame_rate_values t = (case t of frame_rate_event codes component v \<Rightarrow> Some (codes, component, v) | _ \<Rightarrow> None)"

definition memory_values :: "EventType \<Rightarrow> (u32 list \<times> string \<times> i64) option" where
  "memory_values t = (case t of memory_usage_event codes component v \<Rightarrow> Some (codes, component, v) | _ \<Rightarrow> None)"

definition performance_event :: "EventLoggerClass \<Rightarrow> EventType \<Rightarrow> (u32 list \<times> string \<times> i64) option" where
  "performance_event c t =
     (case c of
        ElapsedTimeEventLogger \<Rightarrow> elapsed_values t
      | FrameRateEventLogger \<Rightarrow> frame_rate_values t
      | MemoryUsageEventLogger \<Rightarrow> memory_values t
      | _ \<Rightarrow> None)"

definition encode_performance ::
    "EventLoggerClass \<Rightarrow> Encoder \<Rightarrow> MetricRef \<Rightarrow> ReportDefinition \<Rightarrow> Event \<Rightarrow> Random \<Rightarrow> (Result \<times> Random) option" where
  "encode_performance c e ref report ev r =
     (if report_type report \<in> {NUMERIC_AGGREGATION, NUMERIC_PERF_RAW_DUMP, INT_RANGE_HISTOGRAM}
      then case performance_event c (event_type ev) of
             None \<Rightarrow> None
           | Some (codes, component, v) \<Rightarrow>
               Some (EncodeIntegerEventObservation e ref report (event_day_index ev) codes component v r)
      else if report_type report \<in> numeric_report_types then Some (no_result kOK, r)
      else Some (BadReportType, r))"

definition encode_histogram ::
    "Encoder \<Rightarrow> MetricRef \<Rightarrow> ReportDefinition \<Rightarrow> bool \<Rightarrow> Event \<Rightarrow> Random \<Rightarrow> ((Result \<times> Random) \<times> Event) option" where
  "encode_histogram e ref report may_invalidate ev r =
     (case event_type ev of
        int_histogram_event codes component buckets \<Rightarrow> Some
          (if report_type report = INT_RANGE_HISTOGRAM
           then (EncodeHistogramObservation e ref report (event_day_index ev) codes component buckets r,
                 if may_invalidate then ev\<lparr>event_type := int_histogram_event codes component []\<rparr> else ev)
           else ((BadReportType, r), ev))
      | _ \<Rightarrow> None)"

definition encode_custom ::
    "Encoder \<Rightarrow> MetricRef \<Rightarrow> ReportDefinition \<Rightarrow> bool \<Rightarrow> Event \<Rightarrow> Random \<Rightarrow> ((Result \<times> Random) \<times> Event) option" where
  "encode_custom e ref report may_invalidate ev r =
     (case event_type ev of
        custom_event vs \<Rightarrow> Some
          (if report_type report = CUSTOM_RAW_DUMP
           then (EncodeCustomObservation e ref report (event_day_index ev) vs r,
                 if may_invalidate then ev\<lparr>event_type := custom_event []\<rparr> else ev)
           else ((BadReportType, r), ev))
      | _ \<Rightarrow> None)"

definition MaybeEncodeImmediateObservation ::
    "EventLoggerClass \<Rightarrow> Encoder \<Rightarrow> MetricRef \<Rightarrow> ReportDefinition \<Rightarrow> bool \<Rightarrow> Event \<Rightarrow> Random \<Rightarrow> ((Result \<times> Random) \<times> Event) option" where
  "MaybeEncodeImmediateObservation c e ref report may_invalidate ev r =
     (case c of
        EventOccurredEventLogger \<Rightarrow> map_option (\<lambda>x. (x, ev)) (encode_occurred e ref report ev r)
      | EventCountEventLogger \<Rightarrow> map_option (\<lambda>x. (x, ev)) (encode_count e ref report ev r)
      | IntHistogramEventLogger \<Rightarrow> encode_histogram e ref report may_invalidate ev r
      | CustomEventLogger \<Rightarrow> encode_custom e ref report may_invalidate ev r
      | _ \<Rightarrow> map_option (\<lambda>x. (x, ev)) (encode_performance c e ref report ev r))"

definition MaybeGenerateImmediateObservation ::
    "EventLoggerClass \<Rightarrow> 's EventLogger \<Rightarrow> MetricRef \<Rightarrow> ReportDefinition \<Rightarrow> bool \<Rightarrow> Event \<Rightarrow> 's AggregateStore \<Rightarrow>
     (Status \<times> Event \<times> 's AggregateStore) option" where
  "MaybeGenerateImmediateObservation c lg ref report may_invalidate ev s =
     (case MaybeEncodeImmediateObservation c (el_encoder lg) ref report may_invalidate ev (random s) of
        None \<Rightarrow> None
      | Some ((res, r), ev) \<Rightarrow>
          let s = s\<lparr>random := r\<rparr>
          in if status res \<noteq> kOK then Some (status res, ev, s)
             else case result_observation res of
                    None \<Rightarrow> Some (kOK, ev, s)
                  | Some ob \<Rightarrow>
                      (case result_metadata res of
                         None \<Rightarrow> None
                       | Some md \<Rightarrow>
                           (case WriteObservation (el_writer lg) ob md (observations s) of
                              (st, obs) \<Rightarrow> Some (st, ev, s\<lparr>observations := obs\<rparr>))))"

section \<open>Log\<close>

definition trunc_seconds :: "int \<Rightarrow> int" where
  "trunc_seconds t = (if t < 0 then - ((- t) div 1000000000) else t div 1000000000)"

definition FinalizeEvent :: "(int \<Rightarrow> int) \<Rightarrow> int \<Rightarrow> MetricDefinition \<Rightarrow> Event \<Rightarrow> Event" where
  "FinalizeEvent utc_offset event_timestamp metric ev =
     (let now = trunc_seconds event_timestamp
      in ev\<lparr>event_day_index := TimeToDayIndex utc_offset now (time_zone_policy metric),
            event_hour_index := TimeToHourIndex utc_offset now (time_zone_policy metric)\<rparr>)"

fun log_reports ::
    "EventLoggerClass \<Rightarrow> 's EventLogger \<Rightarrow> MetricRef \<Rightarrow> EventRecord \<Rightarrow> ReportDefinition list \<Rightarrow> 's AggregateStore \<Rightarrow>
     (Status \<times> 's AggregateStore) option" where
  "log_reports c lg ref r [] s = Some (kOK, s)"
| "log_reports c lg ref r (report # rest) s =
     (case MaybeUpdateLocalAggregation c report r s of
        None \<Rightarrow> None
      | Some (st, s) \<Rightarrow>
          if st \<noteq> kOK then Some (st, s)
          else case MaybeGenerateImmediateObservation c lg ref report (rest = []) (rec_event r) s of
                 None \<Rightarrow> None
               | Some (st, ev, s) \<Rightarrow> if st \<noteq> kOK then Some (st, s) else log_reports c lg ref (r\<lparr>rec_event := ev\<rparr>) rest s)"

definition EventLogger_Log ::
    "(int \<Rightarrow> int) \<Rightarrow> EventLoggerClass \<Rightarrow> 's EventLogger \<Rightarrow> EventRecord \<Rightarrow> int \<Rightarrow> 's AggregateStore \<Rightarrow> (Status \<times> 's AggregateStore) option" where
  "EventLogger_Log utc_offset c lg r event_timestamp s =
     (case rec_metric r of
        None \<Rightarrow> None
      | Some metric \<Rightarrow>
          let r = r\<lparr>rec_event := FinalizeEvent utc_offset event_timestamp metric (rec_event r)\<rparr>
          in if (case el_release_stage lg of None \<Rightarrow> False | Some stage \<Rightarrow> stage > max_release_stage metric) then Some (kOK, s)
             else log_reports c lg (RefMetric (rec_project_context r) metric) r (reports metric) s)"

end
