(* ===== verification/Event_Delivery.thy ===== *)
theory Event_Delivery
  imports Event_Loggers
begin

text \<open>
  What becomes of a logged event (\<^verbatim>\<open>src/src/logger/event_loggers.cc\<close>, \<^verbatim>\<open>src/src/local_aggregation/event_aggregator.cc\<close>):
  the validation of event codes, the equivalence of the loop over the reports, which moves data out of the event for the last
  report, with one that works on copies, the observations that arrive in the store for every event, proved in the
  locale \<open>observation_sink\<close>, and the completeness of the registration of locally aggregated reports.
\<close>

section \<open>Validation of event codes\<close>

lemma validate_codes_eq:
  "validate_codes ds codes = (if list_all2 ValidEventCode (take (length codes) ds) (take (length ds) codes) then kOK else kInvalidArguments)"
  by (induction ds codes rule: validate_codes.induct) simp_all

text \<open>C29. The validation of event codes accepts exactly the vectors that fit the metric: at most one code per dimension, each
  not above the dimension's \<open>max_event_code\<close> if it has one and else among its enumerated codes; besides, the single code 0 for
  a metric without dimensions. Everything else is answered with \<open>kInvalidArguments\<close>.\<close>

theorem ValidateEventCodes_spec:
  "ValidateEventCodes metric codes =
     (if metric_dimensions metric = [] \<and> codes = [0] \<or>
         length codes \<le> length (metric_dimensions metric) \<and>
         (\<forall>i < length codes. let d = metric_dimensions metric ! i in
            if max_event_code d = 0 then codes ! i \<in> fst ` set (event_codes d) else codes ! i \<le> max_event_code d)
      then kOK else kInvalidArguments)"
proof -
  have valid: "ValidEventCode d c \<longleftrightarrow> (if max_event_code d = 0 then c \<in> fst ` set (event_codes d) else c \<le> max_event_code d)" for d c
    by (force simp: ValidEventCode_def list_ex_iff not_less word_gt_0)
  show ?thesis
    by (auto simp: ValidateEventCodes_def validate_codes_eq list_all2_conv_all_nth valid Let_def min_absorb1 min_absorb2)
qed

theorem ValidateEventCodes_spec_witness:
  "ValidateEventCodes (example_metric\<lparr>metric_dimensions := [\<lparr>event_codes = [], max_event_code = 5\<rparr>, \<lparr>event_codes = [(2, ''on'')], max_event_code = 0\<rparr>]\<rparr>) [5, 2] = kOK \<and>
   ValidateEventCodes (example_metric\<lparr>metric_dimensions := [\<lparr>event_codes = [], max_event_code = 5\<rparr>]\<rparr>) [6] = kInvalidArguments"
  unfolding ValidateEventCodes_spec by (simp add: less_Suc_eq Let_def)

section \<open>Log without moves\<close>

text \<open>The event has the type that the logger's class expects.\<close>

definition matches :: "EventLoggerClass \<Rightarrow> EventType \<Rightarrow> bool" where
  "matches c t =
     (case t of
        event_occurred_event _ \<Rightarrow> c = EventOccurredEventLogger
      | event_count_event _ _ _ _ \<Rightarrow> c = EventCountEventLogger
      | elapsed_time_event _ _ _ \<Rightarrow> c = ElapsedTimeEventLogger
      | frame_rate_event _ _ _ \<Rightarrow> c = FrameRateEventLogger
      | memory_usage_event _ _ _ \<Rightarrow> c = MemoryUsageEventLogger
      | int_histogram_event _ _ _ \<Rightarrow> c = IntHistogramEventLogger
      | custom_event _ \<Rightarrow> c = CustomEventLogger
      | EVENT_TYPE_NOT_SET \<Rightarrow> False)"

lemmas encode_event_defs = MaybeEncodeImmediateObservation_def encode_occurred_def encode_count_def encode_performance_def
  encode_histogram_def encode_custom_def performance_event_def elapsed_values_def frame_rate_values_def memory_values_def

text \<open>One iteration of the loop on a copy of the event.\<close>

definition log_report ::
    "EventLoggerClass \<Rightarrow> 's EventLogger \<Rightarrow> MetricRef \<Rightarrow> EventRecord \<Rightarrow> ReportDefinition \<Rightarrow> 's AggregateStore \<Rightarrow>
     (Status \<times> 's AggregateStore) option" where
  "log_report c lg ref r report s =
     (case MaybeUpdateLocalAggregation c report r s of
        None \<Rightarrow> None
      | Some (st, s) \<Rightarrow>
          if st \<noteq> kOK then Some (st, s)
          else map_option (\<lambda>(st, _, s). (st, s)) (MaybeGenerateImmediateObservation c lg ref report False (rec_event r) s))"

lemma MaybeEncode_keeps_event:
  "MaybeEncodeImmediateObservation c e ref report False ev r = Some (x, ev') \<Longrightarrow> ev' = ev"
  by (cases c; cases "event_type ev") (auto simp: encode_event_defs split: if_splits)

lemma MaybeEncode_moves:
  "map_option fst (MaybeEncodeImmediateObservation c e ref report b ev r) =
   map_option fst (MaybeEncodeImmediateObservation c e ref report False ev r)"
  by (cases c; cases "event_type ev") (auto simp: encode_event_defs)

definition write_encoded :: "'s EventLogger \<Rightarrow> Result \<times> Random \<Rightarrow> 's AggregateStore \<Rightarrow> (Status \<times> 's AggregateStore) option" where
  "write_encoded lg x s =
     (case x of (res, r) \<Rightarrow>
        let s = s\<lparr>random := r\<rparr>
        in if status res \<noteq> kOK then Some (status res, s)
           else case result_observation res of
                  None \<Rightarrow> Some (kOK, s)
                | Some ob \<Rightarrow>
                    (case result_metadata res of
                       None \<Rightarrow> None
                     | Some md \<Rightarrow>
                         (case WriteObservation (el_writer lg) ob md (observations s) of
                            (st, obs) \<Rightarrow> Some (st, s\<lparr>observations := obs\<rparr>))))"

lemma MaybeGenerate_eq:
  "MaybeGenerateImmediateObservation c lg ref report b ev s =
     (case MaybeEncodeImmediateObservation c (el_encoder lg) ref report b ev (random s) of
        None \<Rightarrow> None
      | Some (x, ev) \<Rightarrow> map_option (\<lambda>(st, s). (st, ev, s)) (write_encoded lg x s))"
  by (auto simp: MaybeGenerateImmediateObservation_def write_encoded_def Let_def split: option.splits prod.splits)

lemma MaybeGenerate_keeps_event:
  "MaybeGenerateImmediateObservation c lg ref report False ev s = Some (st, ev', s') \<Longrightarrow> ev' = ev"
  by (auto simp: MaybeGenerate_eq dest!: MaybeEncode_keeps_event split: option.splits)

lemma MaybeGenerate_moves:
  "map_option (\<lambda>(st, _, s). (st, s)) (MaybeGenerateImmediateObservation c lg ref report b ev s) =
   map_option (\<lambda>(st, _, s). (st, s)) (MaybeGenerateImmediateObservation c lg ref report False ev s)"
  using MaybeEncode_moves [of c "el_encoder lg" ref report b ev "random s"]
  by (auto simp: MaybeGenerate_eq option.map_comp comp_def case_prod_unfold split: option.splits)

lemma log_reports_copies: "log_reports c lg ref r rs s = try_each (log_report c lg ref r) rs s"
proof (induction rs arbitrary: s)
  case (Cons report rest)
  show ?case
  proof (cases "MaybeUpdateLocalAggregation c report r s")
    case (Some x)
    obtain st s1 where x: "x = (st, s1)" by force
    show ?thesis
    proof (cases "st = kOK \<and> rest \<noteq> []")
      case True
      then show ?thesis using Some x Cons.IH
        by (auto simp: log_report_def split: option.splits dest!: MaybeGenerate_keeps_event)
    next
      case False
      then show ?thesis using Some x MaybeGenerate_moves [of c lg ref report True "rec_event r" s1]
        by (auto simp: log_report_def split: option.splits)
    qed
  qed (simp add: log_report_def)
qed simp

section \<open>Observations of an event\<close>

text \<open>The report types that give an immediate observation and those that are aggregated on the device.\<close>

definition immediate_types :: "EventLoggerClass \<Rightarrow> ReportType set" where
  "immediate_types c =
     (case c of
        EventOccurredEventLogger \<Rightarrow> {SIMPLE_OCCURRENCE_COUNT}
      | EventCountEventLogger \<Rightarrow> {EVENT_COMPONENT_OCCURRENCE_COUNT, INT_RANGE_HISTOGRAM, NUMERIC_AGGREGATION}
      | IntHistogramEventLogger \<Rightarrow> {INT_RANGE_HISTOGRAM}
      | CustomEventLogger \<Rightarrow> {CUSTOM_RAW_DUMP}
      | _ \<Rightarrow> {NUMERIC_AGGREGATION, NUMERIC_PERF_RAW_DUMP, INT_RANGE_HISTOGRAM})"

definition aggregated_types :: "EventLoggerClass \<Rightarrow> ReportType set" where
  "aggregated_types c =
     (case c of
        EventOccurredEventLogger \<Rightarrow> {UNIQUE_N_DAY_ACTIVES}
      | IntHistogramEventLogger \<Rightarrow> {}
      | CustomEventLogger \<Rightarrow> {}
      | _ \<Rightarrow> numeric_report_types)"

text \<open>What an observation says about an event: the type of the observation carries the values of the event.\<close>

definition observes :: "Encoder \<Rightarrow> EventType \<Rightarrow> ObservationType \<Rightarrow> bool" where
  "observes e t ob =
     (let int_event = (\<lambda>codes component v.
        numeric_event \<lparr>int_event_code = PackEventCodes codes, int_component_name_hash = component_hash e component, int_obs_value = v\<rparr>)
      in case t of
           event_occurred_event code \<Rightarrow> (\<exists>data. ob = basic_rappor data)
         | event_count_event codes component period n \<Rightarrow> ob = int_event codes component n
         | elapsed_time_event codes component v \<Rightarrow> ob = int_event codes component v
         | frame_rate_event codes component v \<Rightarrow> ob = int_event codes component v
         | memory_usage_event codes component v \<Rightarrow> ob = int_event codes component v
         | int_histogram_event codes component bs \<Rightarrow>
             ob = histogram \<lparr>hist_event_code = PackEventCodes codes, hist_component_name_hash = component_hash e component, hist_buckets = bs\<rparr>
         | custom_event vs \<Rightarrow> ob = custom vs
         | EVENT_TYPE_NOT_SET \<Rightarrow> False)"

lemma observes_simps:
  "observes e (event_occurred_event code) = (\<lambda>t. \<exists>data. t = basic_rappor data)"
  "observes e (event_count_event codes component period v) = (\<lambda>t. t =
     numeric_event \<lparr>int_event_code = PackEventCodes codes, int_component_name_hash = component_hash e component, int_obs_value = v\<rparr>)"
  "observes e (elapsed_time_event codes component v) = (\<lambda>t. t =
     numeric_event \<lparr>int_event_code = PackEventCodes codes, int_component_name_hash = component_hash e component, int_obs_value = v\<rparr>)"
  "observes e (frame_rate_event codes component v) = (\<lambda>t. t =
     numeric_event \<lparr>int_event_code = PackEventCodes codes, int_component_name_hash = component_hash e component, int_obs_value = v\<rparr>)"
  "observes e (memory_usage_event codes component v) = (\<lambda>t. t =
     numeric_event \<lparr>int_event_code = PackEventCodes codes, int_component_name_hash = component_hash e component, int_obs_value = v\<rparr>)"
  "observes e (int_histogram_event codes component bs) = (\<lambda>t. t =
     histogram \<lparr>hist_event_code = PackEventCodes codes, hist_component_name_hash = component_hash e component, hist_buckets = bs\<rparr>)"
  "observes e (custom_event vs) = (\<lambda>t. t = custom vs)"
  by (auto simp: observes_def)

text \<open>A result that is an error, or an observation of type \<open>ob\<close> with the metadata of the report.\<close>

definition encoded :: "Encoder \<Rightarrow> MetricRef \<Rightarrow> ReportDefinition \<Rightarrow> u32 \<Rightarrow> (ObservationType \<Rightarrow> bool) \<Rightarrow> Result \<Rightarrow> bool" where
  "encoded e ref report day P res \<longleftrightarrow> status res \<noteq> kOK \<or>
     (\<exists>ob. result_observation res = Some ob \<and> P (observation_type ob) \<and> result_metadata res = Some (make_metadata e ref report day))"

lemma encoded_IntegerEvent:
  "encoded e ref report day
     (\<lambda>t. t = numeric_event \<lparr>int_event_code = PackEventCodes codes, int_component_name_hash = component_hash e component, int_obs_value = v\<rparr>)
     (fst (EncodeIntegerEventObservation e ref report day codes component v r))"
  by (cases "HashComponentNameIfNotEmpty e component") (auto simp: EncodeIntegerEventObservation_def encode_defs encoded_def)

lemma encoded_Histogram:
  "encoded e ref report day
     (\<lambda>t. t = histogram \<lparr>hist_event_code = PackEventCodes codes, hist_component_name_hash = component_hash e component, hist_buckets = bs\<rparr>)
     (fst (EncodeHistogramObservation e ref report day codes component bs r))"
  by (cases "HashComponentNameIfNotEmpty e component") (auto simp: EncodeHistogramObservation_def encode_defs encoded_def)

lemma encoded_Custom: "encoded e ref report day (\<lambda>t. t = custom vs) (fst (EncodeCustomObservation e ref report day vs r))"
  by (simp add: EncodeCustomObservation_def encode_defs encoded_def)

lemma encoded_BasicRappor:
  "encoded e ref report day (\<lambda>t. \<exists>data. t = basic_rappor data) (fst (EncodeBasicRapporObservation e ref report day v n r))"
  by (simp add: EncodeBasicRapporObservation_def encode_defs encoded_def case_prod_unfold)

lemmas encoded_results = encoded_IntegerEvent encoded_Histogram encoded_Custom encoded_BasicRappor

lemma MaybeEncode_result:
  assumes "matches c (event_type ev)"
  shows "\<exists>res r'. MaybeEncodeImmediateObservation c e ref report False ev r = Some ((res, r'), ev) \<and>
    (if report_type report \<in> immediate_types c then encoded e ref report (event_day_index ev) (observes e (event_type ev)) res
     else if report_type report \<in> aggregated_types c then res = no_result kOK else res = BadReportType)"
proof -
  have some: "\<exists>res. (\<exists>r'. x = (res, r')) \<and> P res" if "P (fst x)" for x :: "Result \<times> Random" and P
    using that by (cases x) auto
  show ?thesis using assms
    by (cases "event_type ev"; cases "report_type report")
      (simp_all add: matches_def encode_event_defs immediate_types_def aggregated_types_def observes_simps encoded_results some)
qed

lemma set_aggregates_observations [simp]:
  "observations (set_aggregates key t s) = observations s" "random (set_aggregates key t s) = random s"
  by (simp_all add: set_aggregates_def)

lemma SetActive_observations: "SetActive cid pid mid rid code day s = (st, s') \<Longrightarrow> observations s' = observations s"
  by (auto simp: SetActive_def Let_def split: if_splits option.splits AggregatesType.splits)

lemma UpdateNumericAggregate_observations:
  "UpdateNumericAggregate cid pid mid rid component code day v s = (st, s') \<Longrightarrow> observations s' = observations s"
  by (auto simp: UpdateNumericAggregate_def Let_def split: if_splits option.splits AggregatesType.splits prod.splits)

lemma MaybeUpdateLocalAggregation_result:
  fixes s :: "'s AggregateStore"
  assumes "rec_metric r = Some metric"
  shows "\<exists>st s'. MaybeUpdateLocalAggregation c report r s = Some (st, s') \<and> observations s' = observations s"
proof -
  have some: "\<exists>st s'. x = (st, s') \<and> observations s' = observations s" if "observations (snd x) = observations s"
    for x :: "Status \<times> 's AggregateStore" using that by (cases x) auto
  have keeps: "observations (snd (SetActive cid pid mid rid code day s)) = observations s"
    "observations (snd (UpdateNumericAggregate cid pid mid rid component code' day v s)) = observations s"
    for cid pid mid rid code day component code' v
    by (metis prod.collapse SetActive_observations, metis prod.collapse UpdateNumericAggregate_observations)
  show ?thesis using assms
    by (cases c; cases "event_type (rec_event r)") (auto simp: update_defs add_event_defs intro!: some keeps)
qed

lemma write_encoded_cases:
  "write_encoded lg (no_result st, r) s = Some (st, s\<lparr>random := r\<rparr>)"
  "write_encoded lg (BadReportType, r) s = Some (kInvalidConfig, s\<lparr>random := r\<rparr>)"
  by (simp_all add: write_encoded_def no_result_def BadReportType_def Let_def)

context observation_sink
begin

lemma write_encoded_observation:
  assumes emit: "WriteObservation (el_writer lg) = emit" and inv: "inv (observations s)"
    and res: "encoded e ref report day P res"
  shows "\<exists>st s'. write_encoded lg (res, r) s = Some (st, s') \<and> inv (observations s') \<and>
    (\<exists>ob. P (observation_type ob) \<and> contents (observations s') = contents (observations s) +
       (if st = kOK then {#item ob (make_metadata e ref report day)#} else {#}) \<or>
     st \<noteq> kOK \<and> contents (observations s') = contents (observations s))"
proof (cases "status res = kOK")
  case False
  with inv show ?thesis by (simp add: write_encoded_def Let_def)
next
  case True
  with res obtain ob where ob: "result_observation res = Some ob" "P (observation_type ob)"
    "result_metadata res = Some (make_metadata e ref report day)" by (auto simp: encoded_def)
  obtain st t where e: "emit ob (make_metadata e ref report day) (observations s) = (st, t)" by force
  have "write_encoded lg (res, r) s = Some (st, s\<lparr>random := r, observations := t\<rparr>)"
    using True ob e emit by (simp add: write_encoded_def Let_def)
  with ob(2) write_result [OF inv e] show ?thesis by auto
qed

text \<open>One report: the store gains the observation of the report or nothing.\<close>

definition report_items :: "EventLoggerClass \<Rightarrow> Encoder \<Rightarrow> MetricRef \<Rightarrow> Event \<Rightarrow> ReportDefinition list \<Rightarrow> 'c list \<Rightarrow> bool" where
  "report_items c e ref ev rs xs \<longleftrightarrow>
     list_all2 (\<lambda>x report. \<exists>ob. observes e (event_type ev) (observation_type ob) \<and>
       x = item ob (make_metadata e ref report (event_day_index ev))) xs (filter (\<lambda>report. report_type report \<in> immediate_types c) rs)"

lemma report_items_append:
  "report_items c e ref ev rs xs \<Longrightarrow> report_items c e ref ev rs' ys \<Longrightarrow> report_items c e ref ev (rs @ rs') (xs @ ys)"
  by (auto simp: report_items_def intro: list_all2_appendI)

lemma log_report_items:
  assumes emit: "WriteObservation (el_writer lg) = emit" and inv: "inv (observations s)"
    and ev: "matches c (event_type (rec_event r))" "rec_metric r = Some metric"
  shows "\<exists>st s' xs. log_report c lg ref r report s = Some (st, s') \<and> inv (observations s') \<and>
    contents (observations s') = contents (observations s) + mset xs \<and>
    (if st = kOK then report_items c (el_encoder lg) ref (rec_event r) [report] xs else xs = [])"
proof -
  obtain st1 s1 where s1: "MaybeUpdateLocalAggregation c report r s = Some (st1, s1)" "observations s1 = observations s"
    using MaybeUpdateLocalAggregation_result [OF ev(2)] by blast
  show ?thesis
  proof (cases "st1 = kOK")
    case False
    with s1 inv show ?thesis by (simp add: log_report_def)
  next
    case True
    obtain res r' where enc: "MaybeEncodeImmediateObservation c (el_encoder lg) ref report False (rec_event r) (random s1) = Some ((res, r'), rec_event r)"
      "if report_type report \<in> immediate_types c
       then encoded (el_encoder lg) ref report (event_day_index (rec_event r)) (observes (el_encoder lg) (event_type (rec_event r))) res
       else if report_type report \<in> aggregated_types c then res = no_result kOK else res = BadReportType"
      using MaybeEncode_result [OF ev(1)] by blast
    have log: "log_report c lg ref r report s = write_encoded lg (res, r') s1"
      using s1(1) True enc(1) by (auto simp: log_report_def MaybeGenerate_eq option.map_comp option.map_ident comp_def case_prod_unfold)
    show ?thesis
    proof (cases "report_type report \<in> immediate_types c")
      case False
      with enc(2) log s1(2) inv show ?thesis by (auto simp: write_encoded_cases report_items_def split: if_splits)
    next
      case imm: True
      then have "encoded (el_encoder lg) ref report (event_day_index (rec_event r)) (observes (el_encoder lg) (event_type (rec_event r))) res"
        using enc(2) by simp
      moreover have "inv (observations s1)" using inv s1(2) by simp
      ultimately obtain st s' where w: "write_encoded lg (res, r') s1 = Some (st, s')" "inv (observations s')"
        "(\<exists>ob. observes (el_encoder lg) (event_type (rec_event r)) (observation_type ob) \<and> contents (observations s') = contents (observations s1) +
           (if st = kOK then {#item ob (make_metadata (el_encoder lg) ref report (event_day_index (rec_event r)))#} else {#})) \<or>
         st \<noteq> kOK \<and> contents (observations s') = contents (observations s1)"
        using write_encoded_observation [OF emit] by blast
      show ?thesis
      proof (cases "st = kOK")
        case True
        with w(3) obtain ob where ob: "observes (el_encoder lg) (event_type (rec_event r)) (observation_type ob)"
          "contents (observations s') = contents (observations s1) + {#item ob (make_metadata (el_encoder lg) ref report (event_day_index (rec_event r)))#}"
          by auto
        then have "report_items c (el_encoder lg) ref (rec_event r) [report] [item ob (make_metadata (el_encoder lg) ref report (event_day_index (rec_event r)))]"
          using imm by (auto simp: report_items_def)
        with log w(1,2) ob(2) s1(2) True show ?thesis
          by (intro exI [of _ st] exI [of _ s'] exI [of _ "[item ob (make_metadata (el_encoder lg) ref report (event_day_index (rec_event r)))]"]) simp
      next
        case False
        with log w s1(2) show ?thesis by (intro exI [of _ st] exI [of _ s'] exI [of _ "[]"]) auto
      qed
    qed
  qed
qed

lemma log_reports_items:
  assumes emit: "WriteObservation (el_writer lg) = emit" and inv: "inv (observations s)"
    and ev: "matches c (event_type (rec_event r))" "rec_metric r = Some metric"
  shows "\<exists>st s' xs n. log_reports c lg ref r rs s = Some (st, s') \<and> inv (observations s') \<and>
    contents (observations s') = contents (observations s) + mset xs \<and>
    report_items c (el_encoder lg) ref (rec_event r) (take n rs) xs \<and> (st = kOK \<longrightarrow> n = length rs)"
  unfolding log_reports_copies using inv
proof (induction rs arbitrary: s)
  case Nil
  then show ?case by (simp add: report_items_def)
next
  case (Cons report rs)
  obtain st1 s1 xs where s1: "log_report c lg ref r report s = Some (st1, s1)" "inv (observations s1)"
    "contents (observations s1) = contents (observations s) + mset xs"
    "if st1 = kOK then report_items c (el_encoder lg) ref (rec_event r) [report] xs else xs = []"
    using log_report_items [OF emit Cons.prems ev] by blast
  show ?case
  proof (cases "st1 = kOK")
    case False
    with s1 show ?thesis
      by (intro exI [of _ st1] exI [of _ s1] exI [of _ "[]"] exI [of _ 0]) (simp add: report_items_def)
  next
    case True
    obtain st s' ys n where s': "try_each (log_report c lg ref r) rs s1 = Some (st, s')" "inv (observations s')"
      "contents (observations s') = contents (observations s1) + mset ys"
      "report_items c (el_encoder lg) ref (rec_event r) (take n rs) ys" "st = kOK \<longrightarrow> n = length rs"
      using Cons.IH [OF s1(2)] by blast
    have "report_items c (el_encoder lg) ref (rec_event r) (take (Suc n) (report # rs)) (xs @ ys)"
      using report_items_append [OF _ s'(4), of "[report]" xs] s1(4) True by simp
    with s1 s' True show ?thesis
      by (intro exI [of _ st] exI [of _ s'] exI [of _ "xs @ ys"] exI [of _ "Suc n"]) simp
  qed
qed

end

definition event_items ::
    "(ObservationMetadata \<Rightarrow> bytes) \<Rightarrow> (Observation2 \<Rightarrow> EncryptedMessage option) option \<Rightarrow> (int \<Rightarrow> int) \<Rightarrow> EventLoggerClass \<Rightarrow> 's EventLogger \<Rightarrow>
     EventRecord \<Rightarrow> MetricDefinition \<Rightarrow> int \<Rightarrow> nat \<Rightarrow> (bytes \<times> Observation2 StoredObservation) list \<Rightarrow> bool" where
  "event_items ser encrypter utc_offset c lg r metric t n xs \<longleftrightarrow>
    list_all2 (\<lambda>x report. \<exists>ob. observes (el_encoder lg) (event_type (rec_event r)) (observation_type ob) \<and>
        x = (ser (make_metadata (el_encoder lg) (RefMetric (rec_project_context r) metric) report
               (TimeToDayIndex utc_offset (trunc_seconds t) (time_zone_policy metric))), stored_form encrypter ob))
      xs (filter (\<lambda>report. report_type report \<in> immediate_types c) (take n (reports metric)))"

lemma EventLogger_Log_items:
  assumes "rec_metric r = Some metric" and "matches c (event_type (rec_event r))"
    and "el_writer lg = manager_writer (Memory_StoreObservation size_of ser) ops encrypter"
    and "\<forall>x. 0 < size_of x" and "memory_inv size_of ser (store (observations s))" and "\<not> is_disabled (store (observations s))"
  shows "\<exists>st s' xs n. EventLogger_Log utc_offset c lg r t s = Some (st, s') \<and>
    memory_inv size_of ser (store (observations s')) \<and> \<not> is_disabled (store (observations s')) \<and>
    memory_contents (store (observations s')) = memory_contents (store (observations s)) + mset xs \<and>
    event_items ser encrypter utc_offset c lg r metric t n xs \<and>
    (st = kOK \<longrightarrow> n = (case el_release_stage lg of
       Some stage \<Rightarrow> if stage > max_release_stage metric then 0 else length (reports metric) | None \<Rightarrow> length (reports metric)))"
proof (cases "case el_release_stage lg of None \<Rightarrow> False | Some stage \<Rightarrow> stage > max_release_stage metric")
  case True
  then have "EventLogger_Log utc_offset c lg r t s = Some (kOK, s)" by (simp add: EventLogger_Log_def assms(1))
  with assms(5,6) True show ?thesis
    by (intro exI [of _ kOK] exI [of _ s] exI [of _ "[]"] exI [of _ 0]) (auto simp: event_items_def split: option.splits)
next
  case False
  let ?r = "r\<lparr>rec_event := FinalizeEvent utc_offset t metric (rec_event r)\<rparr>"
  let ?ref = "RefMetric (rec_project_context r) metric"
  have log: "EventLogger_Log utc_offset c lg r t s = log_reports c lg ?ref ?r (reports metric) s"
    using False by (auto simp: EventLogger_Log_def assms(1) Let_def split: option.splits)
  have ev: "matches c (event_type (rec_event ?r))" "rec_metric ?r = Some metric"
    using assms(1,2) by (simp_all add: FinalizeEvent_def Let_def)
  have emit: "WriteObservation (el_writer lg) = WriteObservation (manager_writer (Memory_StoreObservation size_of ser) ops encrypter)"
    using assms(3) by simp
  have inv: "(\<forall>x. 0 < size_of x) \<and> memory_inv size_of ser (store (observations s)) \<and> \<not> is_disabled (store (observations s))"
    using assms(4-6) by simp
  obtain st s' xs n where s': "log_reports c lg ?ref ?r (reports metric) s = Some (st, s')"
    "memory_inv size_of ser (store (observations s')) \<and> \<not> is_disabled (store (observations s'))"
    "memory_contents (store (observations s')) = memory_contents (store (observations s)) + mset xs"
    "memory_sink.report_items ser encrypter c (el_encoder lg) ?ref (rec_event ?r) (take n (reports metric)) xs"
    "st = kOK \<longrightarrow> n = length (reports metric)"
    using memory_sink.log_reports_items [OF emit inv ev] by blast
  have "event_day_index (rec_event ?r) = TimeToDayIndex utc_offset (trunc_seconds t) (time_zone_policy metric)"
    "event_type (rec_event ?r) = event_type (rec_event r)"
    by (simp_all add: FinalizeEvent_def Let_def)
  with s' log False show ?thesis
    by (intro exI [of _ st] exI [of _ s'] exI [of _ xs] exI [of _ n])
      (auto simp: memory_sink.report_items_def event_items_def split: option.splits)
qed

text \<open>What a client of the memory store needs to know: logging returns, keeps the store usable and removes nothing from it.\<close>

definition memory_ready ::
    "(Observation2 StoredObservation \<Rightarrow> nat) \<Rightarrow> (ObservationMetadata \<Rightarrow> bytes) \<Rightarrow> (Observation2 MemoryObservationStore, 'b, 'cb) ShippingManager AggregateStore \<Rightarrow> bool" where
  "memory_ready size_of ser s \<longleftrightarrow>
     (\<forall>x. 0 < size_of x) \<and> memory_inv size_of ser (store (observations s)) \<and> \<not> is_disabled (store (observations s))"

definition stored :: "(Observation2 MemoryObservationStore, 'b, 'cb) ShippingManager AggregateStore \<Rightarrow> (bytes \<times> Observation2 StoredObservation) multiset" where
  "stored s = memory_contents (store (observations s))"

lemma EventLogger_Log_stores:
  assumes "rec_metric r = Some metric" and "matches c (event_type (rec_event r))"
    and "el_writer lg = manager_writer (Memory_StoreObservation size_of ser) ops encrypter" and "memory_ready size_of ser s"
  shows "\<exists>st s'. EventLogger_Log utc_offset c lg r t s = Some (st, s') \<and> memory_ready size_of ser s' \<and> stored s \<subseteq># stored s'"
  using EventLogger_Log_items [OF assms(1-3), of s utc_offset t] assms(4) by (fastforce simp: memory_ready_def stored_def)

text \<open>C4. Every logged event is delivered: for an event of the type its logger expects, \<open>Log\<close> fails no \<open>CHECK\<close>; the memory store
  gains the observations of a prefix of the metric's reports, one for each report of that prefix that asks for immediate
  observations, with the metadata of the report on the day of the event and the values of the event, also where the
  values were moved out of the event for the last report. The prefix is all reports when the result is \<open>kOK\<close>, and none when the
  metric is not collected in the device's release stage.\<close>

theorem logged_event_is_delivered:
  assumes "rec_metric r = Some metric" and "matches c (event_type (rec_event r))"
    and "el_writer lg = manager_writer (Memory_StoreObservation size_of ser) ops encrypter"
    and "\<forall>x. 0 < size_of x" and "memory_inv size_of ser (store (observations s))" and "\<not> is_disabled (store (observations s))"
  shows "\<exists>st s' xs n. EventLogger_Log utc_offset c lg r t s = Some (st, s') \<and>
    memory_inv size_of ser (store (observations s')) \<and>
    memory_contents (store (observations s')) = memory_contents (store (observations s)) + mset xs \<and>
    list_all2 (\<lambda>x report. \<exists>ob. observes (el_encoder lg) (event_type (rec_event r)) (observation_type ob) \<and>
        x = (ser (make_metadata (el_encoder lg) (RefMetric (rec_project_context r) metric) report
               (TimeToDayIndex utc_offset (trunc_seconds t) (time_zone_policy metric))), stored_form encrypter ob))
      xs (filter (\<lambda>report. report_type report \<in> immediate_types c) (take n (reports metric))) \<and>
    (st = kOK \<longrightarrow> n = (case el_release_stage lg of
       Some stage \<Rightarrow> if stage > max_release_stage metric then 0 else length (reports metric) | None \<Rightarrow> length (reports metric)))"
  using EventLogger_Log_items [OF assms, of utc_offset t] unfolding event_items_def by blast

definition example_histogram_metric :: MetricDefinition where
  "example_histogram_metric = example_metric\<lparr>metric_type := INT_HISTOGRAM, metric_int_buckets := Some (kLinear 0 3 10),
     reports := [example_report\<lparr>report_type := INT_RANGE_HISTOGRAM\<rparr>, example_report\<lparr>report_type := INT_RANGE_HISTOGRAM, report_def_id := 5\<rparr>]\<rparr>"

definition example_record :: EventRecord where
  "example_record = \<lparr>rec_project_context = example_context, rec_metric = Some example_histogram_metric,
     rec_event = \<lparr>event_type = int_histogram_event [] ''x'' [\<lparr>bucket_index = 1, bucket_count = 2\<rparr>], event_day_index = 0, event_hour_index = 0\<rparr>\<rparr>"

definition example_logger :: "(Observation2 MemoryObservationStore, unit, unit) ShippingManager EventLogger" where
  "example_logger = \<lparr>el_encoder = example_encoder,
     el_writer = manager_writer (Memory_StoreObservation (\<lambda>_. 7) (\<lambda>_. [])) Memory_ops None, el_release_stage = Some 20\<rparr>"

theorem logged_event_is_delivered_witness:
  "\<exists>st s' xs. EventLogger_Log (\<lambda>_. 0) IntHistogramEventLogger example_logger example_record 0 (example_manager_store example_counts) = Some (st, s') \<and>
     memory_contents (store (observations s')) = mset xs \<and> (st = kOK \<longrightarrow> length xs = 2)"
proof -
  have a: "rec_metric example_record = Some example_histogram_metric" "matches IntHistogramEventLogger (event_type (rec_event example_record))"
    "el_writer example_logger = manager_writer (Memory_StoreObservation (\<lambda>_. 7) (\<lambda>_. [])) Memory_ops None"
    "observations (example_manager_store example_counts) = example_manager"
    by (simp_all add: example_record_def matches_def example_logger_def example_manager_store_def)
  have rs: "filter (\<lambda>report. report_type report \<in> immediate_types IntHistogramEventLogger) (reports example_histogram_metric) =
      reports example_histogram_metric" "length (reports example_histogram_metric) = 2"
    "el_release_stage example_logger = Some 20" "max_release_stage example_histogram_metric = 99"
    by (simp_all add: example_histogram_metric_def immediate_types_def example_logger_def example_metric_def)
  from logged_event_is_delivered [OF a(1,2,3), of "example_manager_store example_counts" "\<lambda>_. 0" 0, unfolded a(4)] example_manager_inv rs
  show ?thesis by (auto 0 4 dest: list_all2_lengthD split: option.splits)
qed

section \<open>Registration\<close>

lemma try_each_steps:
  assumes "try_each body xs s = Some (st, s')" and "reflp R" and "transp R"
    and step: "\<And>x s st s'. body x s = Some (st, s') \<Longrightarrow> R s s'"
  shows "R s s'"
  using assms(1)
proof (induction xs arbitrary: s)
  case Nil
  with reflpD [OF assms(2)] show ?case by simp
next
  case (Cons x xs)
  then obtain st1 s1 where "body x s = Some (st1, s1)" "if st1 \<noteq> kOK then (st1, s1) = (st, s') else try_each body xs s1 = Some (st, s')"
    by (auto split: option.splits if_splits)
  then show ?case using Cons.IH [of s1] step [of x s st1 s1] transpD [OF assms(3), of s s1 s'] by (auto split: if_splits)
qed

lemma try_each_reaches:
  assumes "try_each body xs s = Some (kOK, s')" and "x \<in> set xs"
    and R: "reflp R" "transp R" and step: "\<And>x s st s'. body x s = Some (st, s') \<Longrightarrow> R s s'"
  shows "\<exists>s1 s2. R s s1 \<and> body x s1 = Some (kOK, s2) \<and> R s2 s'"
  using assms(1,2)
proof (induction xs arbitrary: s)
  case (Cons y ys)
  from Cons.prems(1) obtain s1 where s1: "body y s = Some (kOK, s1)" "try_each body ys s1 = Some (kOK, s')"
    by (auto split: option.splits if_splits)
  show ?case
  proof (cases "x = y")
    case True
    have "R s1 s'" by (rule try_each_steps [OF s1(2) R]) (rule step)
    with s1(1) True reflpD [OF R(1), of s] show ?thesis by (intro exI [of _ s] exI [of _ s1]) simp
  next
    case False
    with Cons.prems(2) have "x \<in> set ys" by simp
    from Cons.IH [OF s1(2) this] obtain t1 t2 where t: "R s1 t1" "body x t1 = Some (kOK, t2)" "R t2 s'" by blast
    with transpD [OF R(2) step [OF s1(1)] t(1)] show ?thesis by blast
  qed
qed simp

text \<open>The store knows more reports than before, makes the same keys and keeps its invariant.\<close>

definition knows_more :: "'s AggregateStore \<Rightarrow> 's AggregateStore \<Rightarrow> bool" where
  "knows_more s s' \<longleftrightarrow> registered_keys s \<subseteq> registered_keys s' \<and> SerializeKey s' = SerializeKey s \<and> (agg_inv s \<longrightarrow> agg_inv s')"

lemma knows_more_refl [simp]: "knows_more s s"
  by (simp add: knows_more_def)

lemma knows_more_trans: "knows_more s s1 \<Longrightarrow> knows_more s1 s2 \<Longrightarrow> knows_more s s2"
  unfolding knows_more_def by (metis subset_trans)

lemma knows_more_order: "reflp knows_more" "transp knows_more"
  by (auto intro!: reflpI transpI elim: knows_more_trans)

lemma knows_more_key: "knows_more s s' \<Longrightarrow> PopulateReportKey s' cid pid mid rid = PopulateReportKey s cid pid mid rid"
  by (simp add: knows_more_def PopulateReportKey_def)

lemma MaybeInsert_knows_more:
  assumes "MaybeInsertReportConfig ctx metric report s = Some (st, s')"
  shows "knows_more s s'"
  using assms MaybeInsert_keys(1) [OF assms] MaybeInsertReportConfig_inv [OF _ assms]
  by (cases rule: MaybeInsertReportConfig_cases) (simp_all add: knows_more_def)

lemma insert_report_knows_more:
  "(if b then MaybeInsertReportConfig ctx metric report s else Some (kOK, s)) = Some (st, s') \<Longrightarrow> knows_more s s'"
  by (auto intro: MaybeInsert_knows_more split: if_splits)

lemma insert_reports_knows_more: "insert_reports types ctx metric s = Some (st, s') \<Longrightarrow> knows_more s s'"
  unfolding insert_reports_def by (erule try_each_steps [OF _ knows_more_order insert_report_knows_more])

lemma update_metric_config_knows_more:
  assumes "update_metric_config ctx metric s = Some (st, s')"
  shows "knows_more s s'"
proof (cases "metric_type metric = EVENT_OCCURRED")
  case True
  with assms obtain st1 s1 where "insert_reports {UNIQUE_N_DAY_ACTIVES} ctx metric s = Some (st1, s1)"
    "if st1 \<noteq> kOK then (st1, s1) = (st, s') else insert_reports numeric_report_types ctx metric s1 = Some (st, s')"
    by (auto simp: update_metric_config_def split: option.splits if_splits)
  then show ?thesis by (metis insert_reports_knows_more knows_more_trans prod.inject)
next
  case False
  with assms show ?thesis
    by (cases "metric_type metric") (auto simp: update_metric_config_def intro: insert_reports_knows_more)
qed

lemma insert_reports_registers:
  assumes "insert_reports types ctx metric s = Some (kOK, s')" and "report \<in> set (reports metric)" and "report_type report \<in> types"
    and "PopulateReportKey s (project_customer_id (project ctx)) (project_project_id (project ctx)) (metric_def_id metric) (report_def_id report) = Some key"
  shows "key \<in> registered_keys s'"
proof -
  obtain s1 s2 where s: "knows_more s s1" "MaybeInsertReportConfig ctx metric report s1 = Some (kOK, s2)" "knows_more s2 s'"
    using try_each_reaches [OF assms(1) [unfolded insert_reports_def] assms(2) knows_more_order] insert_report_knows_more assms(3) by force
  have "key \<in> registered_keys s2"
    using MaybeInsert_keys(2) [OF s(2) refl] knows_more_key [OF s(1)] assms(4) by simp
  with s(3) show ?thesis by (auto simp: knows_more_def)
qed

text \<open>C28. Registration is complete: when \<open>UpdateAggregationConfigs\<close> answers \<open>kOK\<close>, every report of the project that a logger would
  aggregate on the device is registered in the store and in the empty store that \<open>DeleteData\<close> installs, and every report that was registered before
  still is.\<close>

theorem UpdateAggregationConfigs_registers:
  assumes "agg_inv s" and "UpdateAggregationConfigs ctx s = Some (kOK, s')"
    and "metric \<in> set (metrics ctx)" and "Create (metric_type metric) = Some c"
    and "report \<in> set (reports metric)" and "report_type report \<in> aggregated_types c"
    and "PopulateReportKey s (project_customer_id (project ctx)) (project_project_id (project ctx)) (metric_def_id metric) (report_def_id report) = Some key"
  shows "report_of s' key \<noteq> None \<and> key \<in> registered_keys s' \<and> registered_keys s \<subseteq> registered_keys s'"
proof -
  note update = assms(2) [unfolded UpdateAggregationConfigs_def]
  have more: "knows_more s s'" by (rule try_each_steps [OF update knows_more_order update_metric_config_knows_more])
  obtain s1 s2 where s: "knows_more s s1" "update_metric_config ctx metric s1 = Some (kOK, s2)" "knows_more s2 s'"
    using try_each_reaches [OF update assms(3) knows_more_order] update_metric_config_knows_more by force
  note key = insert_reports_registers [OF _ assms(5) _ assms(7) [folded knows_more_key [OF s(1)]]]
  have "key \<in> registered_keys s'"
  proof (cases c)
    case EventOccurredEventLogger
    with assms(4,6) have t: "metric_type metric = EVENT_OCCURRED" "report_type report \<in> {UNIQUE_N_DAY_ACTIVES}"
      by (auto simp: Create_def aggregated_types_def split: MetricType.splits)
    then obtain u where "insert_reports {UNIQUE_N_DAY_ACTIVES} ctx metric s1 = Some (kOK, u)"
      "insert_reports numeric_report_types ctx metric u = Some (kOK, s2)"
      using s(2) by (auto simp: update_metric_config_def split: option.splits if_splits)
    with key [OF _ t(2)] insert_reports_knows_more [of numeric_report_types ctx metric u kOK s2] s(3) show ?thesis
      by (auto simp: knows_more_def)
  next
    case IntHistogramEventLogger
    with assms(6) show ?thesis by (simp add: aggregated_types_def)
  next
    case CustomEventLogger
    with assms(6) show ?thesis by (simp add: aggregated_types_def)
  qed (use assms(4,6) s key [of numeric_report_types s2] in
      \<open>auto simp: Create_def aggregated_types_def update_metric_config_def knows_more_def split: MetricType.splits\<close>)
  with more assms(1) have "key \<in> fst ` set (by_report_key (local_aggregate_store s'))"
    by (auto simp: knows_more_def agg_inv_def registered_keys_def)
  then have "report_of s' key \<noteq> None" by (simp add: report_of_def map_of_eq_None_iff)
  with \<open>key \<in> registered_keys s'\<close> more show ?thesis by (simp add: knows_more_def)
qed

definition example_count_metric :: MetricDefinition where
  "example_count_metric = example_metric\<lparr>reports := [example_report\<lparr>report_type := PER_DEVICE_NUMERIC_STATS\<rparr>]\<rparr>"

definition example_project :: ProjectContext where
  "example_project = the (ProjectContext_ctor 1 ''c''
     (Some \<lparr>config_project_name = ''p'', config_project_id = 2, config_metrics = [example_count_metric]\<rparr>) None)"

theorem UpdateAggregationConfigs_registers_witness:
  "\<exists>s'. UpdateAggregationConfigs example_project ((example_store example_counts)\<lparr>local_aggregate_store :=
       \<lparr>store_version = 1, by_report_key = []\<rparr>\<rparr>) = Some (kOK, s') \<and> report_of s' (map char_of [1, 2, 3, 4 :: nat]) \<noteq> None"
proof -
  let ?s = "(example_store example_counts)\<lparr>local_aggregate_store := \<lparr>store_version = 1, by_report_key = []\<rparr>\<rparr>"
  let ?report = "example_report\<lparr>report_type := PER_DEVICE_NUMERIC_STATS\<rparr>"
  have inv: "agg_inv ?s" by (simp add: agg_inv_def store_ok_def example_store_def)
  have p: "metrics example_project = [example_count_metric]" "project_customer_id (project example_project) = 1"
    "project_project_id (project example_project) = 2" "GetMetric example_project 3 = Some example_count_metric"
    by (simp_all add: metrics_def GetMetric_def example_project_def ProjectContext_ctor_def add_metric_def PopulateProject_def
        example_count_metric_def example_metric_def)
  have m: "metric_def_id example_count_metric = 3" "metric_type example_count_metric = EVENT_COUNT" "reports example_count_metric = [?report]"
    "report_def_id ?report = 4" "report_type ?report = PER_DEVICE_NUMERIC_STATS"
    by (simp_all add: example_count_metric_def example_metric_def example_report_def)
  have k: "PopulateReportKey ?s 1 2 3 4 = Some (map char_of [1, 2, 3, 4 :: nat])"
    by (simp add: PopulateReportKey_def example_store_def example_SerializeKey_def)
  have w: "GetSortedAggregationWindowsFromReport ?report = Some [kDays 1, kDays 7]"
    by (simp add: GetSortedAggregationWindowsFromReport_def example_report_def aggregate_consts MakeDayWindow_def)
  obtain a where a: "PopulateReportAggregates example_project example_count_metric ?report = Some (Some a)"
    by (simp add: PopulateReportAggregates_def p m w Let_def)
  have e: "local_aggregate_store ?s = \<lparr>store_version = 1, by_report_key = []\<rparr>"
    "empty_local_aggregate_store ?s = \<lparr>store_version = 1, by_report_key = []\<rparr>" by (simp_all add: example_store_def)
  have "\<exists>s'. MaybeInsertReportConfig example_project example_count_metric ?report ?s = Some (kOK, s')"
    unfolding MaybeInsertReportConfig_def p m k by (simp add: insert_missing_def a e Let_def)
  then obtain s' where "UpdateAggregationConfigs example_project ?s = Some (kOK, s')"
    by (auto simp: UpdateAggregationConfigs_def update_metric_config_def insert_reports_def p m)
  from UpdateAggregationConfigs_registers [OF inv this, of example_count_metric EventCountEventLogger ?report] this k show ?thesis
    by (auto simp: p m Create_def aggregated_types_def)
qed

end
