(* ===== verification/Aggregator_Manager.thy ===== *)
theory Aggregator_Manager
  imports Event_Delivery
begin

text \<open>
  \<open>EventAggregatorManager\<close> (\<^verbatim>\<open>src/src/local_aggregation/event_aggregator_mgr.cc\<close> and \<^verbatim>\<open>.h\<close>): it owns the aggregate store and
  the two proto stores that back it up, and runs the worker thread that backs up the aggregates, generates observations and
  collects garbage on a schedule. Times are numbers of nanoseconds; the two clocks are arguments of the steps of the worker.
  A failed \<open>CHECK\<close> is \<open>None\<close>, or the state \<open>Crashed\<close> of the worker.
\<close>

section \<open>State\<close>

text \<open>The two \<open>ConsistentProtoStore\<close>s: their paths, and the serialisation and parsing of their messages.\<close>

record ProtoStores =
  las_path :: string
  hist_path :: string
  ser_las :: "LocalAggregateStore \<Rightarrow> bytes"
  parse_las :: "bytes \<Rightarrow> LocalAggregateStore option"
  ser_hist :: "AggregatedObservationHistoryStore \<Rightarrow> bytes"
  parse_hist :: "bytes \<Rightarrow> AggregatedObservationHistoryStore option"

text \<open>\<open>mgr_disk\<close> is the file system; \<open>worker_joinable\<close> says that there is a worker thread that was not joined.\<close>

record 's EventAggregatorManager =
  aggregate_store :: "'s AggregateStore"
  mgr_disk :: Disk
  mgr_backfill_days :: nat
  aggregate_backup_interval :: int
  generate_obs_interval :: int
  gc_interval :: int
  next_generate_obs :: int
  next_gc :: int
  mgr_shut_down :: bool
  immediate_run_trigger :: bool
  back_up_now :: bool
  worker_joinable :: bool
  num_runs :: u64

definition kDefaultAggregateBackupInterval :: int where "kDefaultAggregateBackupInterval = 60 * 1000000000"
definition kDefaultGenerateObsInterval :: int where "kDefaultGenerateObsInterval = 60 * 60 * 1000000000"
definition kDefaultGCInterval :: int where "kDefaultGCInterval = 24 * 60 * 60 * 1000000000"

definition EventAggregatorManager_ctor ::
    "ProtoStores \<Rightarrow> Encoder \<Rightarrow> 's ObservationWriter \<Rightarrow> (ReportAggregationKey \<Rightarrow> string option) \<Rightarrow> nat \<Rightarrow> Random \<Rightarrow> 's \<Rightarrow> Disk \<Rightarrow>
     's EventAggregatorManager option" where
  "EventAggregatorManager_ctor ps enc w ser_key days_back r obs d =
     map_option (\<lambda>(s, d).
       \<lparr>aggregate_store = s, mgr_disk = d, mgr_backfill_days = days_back,
        aggregate_backup_interval = kDefaultAggregateBackupInterval, generate_obs_interval = kDefaultGenerateObsInterval,
        gc_interval = kDefaultGCInterval, next_generate_obs = 0, next_gc = 0,
        mgr_shut_down = True, immediate_run_trigger = False, back_up_now = False, worker_joinable = False, num_runs = 0\<rparr>)
      (AggregateStore_ctor (parse_las ps) (parse_hist ps) (las_path ps) (hist_path ps) enc w ser_key days_back r obs d)"

text \<open>A new store is constructed from the same encoder, writer and files; the state behind the writer and the unused random
  bytes carry over.\<close>

definition Reset :: "ProtoStores \<Rightarrow> 's EventAggregatorManager \<Rightarrow> 's EventAggregatorManager option" where
  "Reset ps m =
     (let s = aggregate_store m
      in map_option (\<lambda>(s, d). m\<lparr>aggregate_store := s, mgr_disk := d\<rparr>)
           (AggregateStore_ctor (parse_las ps) (parse_hist ps) (las_path ps) (hist_path ps) (agg_encoder s) (agg_writer s) (SerializeKey s)
              (mgr_backfill_days m) (random s) (observations s) (mgr_disk m)))"

section \<open>Calls by other threads\<close>

definition mgr_Start :: "'s EventAggregatorManager \<Rightarrow> 's EventAggregatorManager" where
  "mgr_Start m = m\<lparr>mgr_shut_down := False, worker_joinable := True\<rparr>"

text \<open>The request; the call then waits for the worker to return.\<close>

definition mgr_ShutDown :: "'s EventAggregatorManager \<Rightarrow> 's EventAggregatorManager" where
  "mgr_ShutDown m = m\<lparr>mgr_shut_down := True\<rparr>"

definition TriggerBackups :: "'s EventAggregatorManager \<Rightarrow> 's EventAggregatorManager" where
  "TriggerBackups m = m\<lparr>back_up_now := True\<rparr>"

definition mgr_Disable :: "bool \<Rightarrow> 's EventAggregatorManager \<Rightarrow> 's EventAggregatorManager" where
  "mgr_Disable b m = m\<lparr>aggregate_store := AggregateStore_Disable b (aggregate_store m)\<rparr>"

definition mgr_DeleteData :: "'s EventAggregatorManager \<Rightarrow> 's EventAggregatorManager" where
  "mgr_DeleteData m = TriggerBackups (m\<lparr>aggregate_store := AggregateStore_DeleteData (aggregate_store m)\<rparr>)"

definition GenerateObservationsNoWorker ::
    "u32 \<Rightarrow> u32 \<Rightarrow> 's EventAggregatorManager \<Rightarrow> (Status \<times> 's EventAggregatorManager) option" where
  "GenerateObservationsNoWorker day_utc day_local m =
     (if worker_joinable m then Some (kOther, m)
      else map_option (\<lambda>(st, s). (st, m\<lparr>aggregate_store := s\<rparr>)) (GenerateObservations day_utc day_local (aggregate_store m)))"

section \<open>The worker thread\<close>

definition back_up_aggregates :: "ProtoStores \<Rightarrow> 's EventAggregatorManager \<Rightarrow> 's EventAggregatorManager" where
  "back_up_aggregates ps m =
     m\<lparr>mgr_disk := snd (BackUpLocalAggregateStore (ser_las ps) (las_path ps) (aggregate_store m) (mgr_disk m))\<rparr>"

definition back_up_history :: "ProtoStores \<Rightarrow> 's EventAggregatorManager \<Rightarrow> 's EventAggregatorManager" where
  "back_up_history ps m =
     m\<lparr>mgr_disk := snd (BackUpObservationHistory (ser_hist ps) (hist_path ps) (aggregate_store m) (mgr_disk m))\<rparr>"

definition scheduled_generation :: "ProtoStores \<Rightarrow> bool \<Rightarrow> u32 \<Rightarrow> u32 \<Rightarrow> int \<Rightarrow> 's EventAggregatorManager \<Rightarrow> 's EventAggregatorManager option" where
  "scheduled_generation ps skip_tasks day_utc day_local steady_time m =
     (if \<not> steady_time \<ge> next_generate_obs m then Some m
      else let m = m\<lparr>next_generate_obs := next_generate_obs m + generate_obs_interval m\<rparr>
           in if skip_tasks then Some m
              else map_option (\<lambda>(st, s). let m = m\<lparr>aggregate_store := s\<rparr> in if st = kOK then back_up_history ps m else m)
                     (GenerateObservations day_utc day_local (aggregate_store m)))"

definition scheduled_gc :: "ProtoStores \<Rightarrow> bool \<Rightarrow> u32 \<Rightarrow> u32 \<Rightarrow> int \<Rightarrow> 's EventAggregatorManager \<Rightarrow> 's EventAggregatorManager option" where
  "scheduled_gc ps skip_tasks day_utc day_local steady_time m =
     (if \<not> steady_time \<ge> next_gc m then Some m
      else let m = m\<lparr>next_gc := next_gc m + gc_interval m\<rparr>
           in if skip_tasks then Some m
              else map_option (\<lambda>(st, s). let m = m\<lparr>aggregate_store := s\<rparr> in if st = kOK then back_up_aggregates ps m else m)
                     (GarbageCollect day_utc day_local (aggregate_store m)))"

text \<open>\<open>min_allowed_day_index\<close> is a \<open>uint32_t\<close>, and the subtraction of one day wraps.\<close>

definition DoScheduledTasks ::
    "ProtoStores \<Rightarrow> (int \<Rightarrow> int) \<Rightarrow> int \<Rightarrow> int \<Rightarrow> 's EventAggregatorManager \<Rightarrow> 's EventAggregatorManager option" where
  "DoScheduledTasks ps utc_offset system_time steady_time m =
     (let current_time_t = trunc_seconds system_time;
          yesterday_utc = TimeToDayIndex utc_offset current_time_t UTC - 1;
          yesterday_local_time = TimeToDayIndex utc_offset current_time_t LOCAL - 1;
          min_allowed_day_index = kMaxAllowedAggregationDays + of_nat (mgr_backfill_days m);
          skip_tasks = (yesterday_utc < min_allowed_day_index \<or> yesterday_local_time < min_allowed_day_index)
      in case scheduled_generation ps skip_tasks yesterday_utc yesterday_local_time steady_time m of
           None \<Rightarrow> None
         | Some m \<Rightarrow> scheduled_gc ps skip_tasks yesterday_utc yesterday_local_time steady_time m)"

text \<open>Where \<open>Run\<close> stands: before its loop, at the top of it, in \<open>wait_for\<close>, returned, or terminated by a failed \<open>CHECK\<close>.\<close>

datatype mgr_worker = Entering | LoopTop | InWait | Exited | Crashed

definition run_begin :: "int \<Rightarrow> 's EventAggregatorManager \<Rightarrow> 's EventAggregatorManager" where
  "run_begin steady_time m = m\<lparr>next_generate_obs := steady_time, next_gc := steady_time + gc_interval m\<rparr>"

definition run_top :: "ProtoStores \<Rightarrow> 's EventAggregatorManager \<Rightarrow> mgr_worker \<times> 's EventAggregatorManager" where
  "run_top ps m =
     (let m = m\<lparr>num_runs := num_runs m + 1\<rparr>
      in if mgr_shut_down m then (Exited, back_up_aggregates ps m) else (InWait, m))"

text \<open>The backups after \<open>wait_for\<close> has returned, by a notification or by its timeout. The predicate of the wait is evaluated last in
  both cases and resets the trigger.\<close>

definition run_backups :: "ProtoStores \<Rightarrow> 's EventAggregatorManager \<Rightarrow> 's EventAggregatorManager" where
  "run_backups ps m =
     (let m = back_up_aggregates ps (m\<lparr>immediate_run_trigger := False\<rparr>)
      in if back_up_now m then back_up_history ps (m\<lparr>back_up_now := False\<rparr>) else m)"

definition run_woken :: "ProtoStores \<Rightarrow> (int \<Rightarrow> int) \<Rightarrow> int \<Rightarrow> int \<Rightarrow> 's EventAggregatorManager \<Rightarrow> mgr_worker \<times> 's EventAggregatorManager" where
  "run_woken ps utc_offset system_time steady_time m =
     (let m = run_backups ps m
      in if mgr_shut_down m then (Exited, m)
         else case DoScheduledTasks ps utc_offset system_time steady_time m of
                None \<Rightarrow> (Crashed, m)
              | Some m \<Rightarrow> (LoopTop, m))"

inductive mgr_step ::
  "ProtoStores \<Rightarrow> (int \<Rightarrow> int) \<Rightarrow> mgr_worker \<times> 's EventAggregatorManager \<Rightarrow> mgr_worker \<times> 's EventAggregatorManager \<Rightarrow> bool"
  for ps :: ProtoStores and utc_offset :: "int \<Rightarrow> int" where
  enter: "mgr_step ps utc_offset (Entering, m) (LoopTop, run_begin steady_time m)"
| top: "mgr_step ps utc_offset (LoopTop, m) (run_top ps m)"
| wake: "mgr_step ps utc_offset (InWait, m) (run_woken ps utc_offset system_time steady_time m)"

text \<open>Calls of other threads: those of the manager, and those of the loggers on the aggregate store.\<close>

inductive mgr_client :: "'s EventAggregatorManager \<Rightarrow> 's EventAggregatorManager \<Rightarrow> bool" where
  trigger: "mgr_client m (TriggerBackups m)"
| disable: "mgr_client m (mgr_Disable b m)"
| delete: "mgr_client m (mgr_DeleteData m)"
| shut_down: "mgr_client m (mgr_ShutDown m)"
| log: "agg_step (aggregate_store m) s \<Longrightarrow> mgr_client m (m\<lparr>aggregate_store := s\<rparr>)"

inductive mgr_reach ::
  "ProtoStores \<Rightarrow> (int \<Rightarrow> int) \<Rightarrow> 's EventAggregatorManager \<Rightarrow> mgr_worker \<times> 's EventAggregatorManager \<Rightarrow> bool"
  for ps :: ProtoStores and utc_offset :: "int \<Rightarrow> int" and m0 :: "'s EventAggregatorManager" where
  start: "mgr_reach ps utc_offset m0 (Entering, mgr_Start m0)"
| work: "mgr_reach ps utc_offset m0 x \<Longrightarrow> mgr_step ps utc_offset x y \<Longrightarrow> mgr_reach ps utc_offset m0 y"
| client: "mgr_reach ps utc_offset m0 (w, m) \<Longrightarrow> mgr_client m m' \<Longrightarrow> mgr_reach ps utc_offset m0 (w, m')"

inductive_simps mgr_step_Exited: "mgr_step ps utc_offset (Exited, m) y"

section \<open>Backups without failing calls\<close>

text \<open>No call fails, and no temporary file is left over.\<close>

definition disk_clean :: "ProtoStores \<Rightarrow> Disk \<Rightarrow> bool" where
  "disk_clean ps d \<longleftrightarrow> faults d = [] \<and> file_of d (las_path ps @ kTmpSuffix) = None \<and> file_of d (hist_path ps @ kTmpSuffix) = None"

text \<open>The six files of the two proto stores are different.\<close>

definition paths_apart :: "ProtoStores \<Rightarrow> bool" where
  "paths_apart ps \<longleftrightarrow> distinct [las_path ps, las_path ps @ kTmpSuffix, las_path ps @ kOverrideSuffix,
     hist_path ps, hist_path ps @ kTmpSuffix, hist_path ps @ kOverrideSuffix]"

text \<open>What a restart would read.\<close>

definition holds_aggregates :: "ProtoStores \<Rightarrow> Disk \<Rightarrow> LocalAggregateStore \<Rightarrow> bool" where
  "holds_aggregates ps d las \<longleftrightarrow> file_of d (las_path ps) = Some (ser_las ps las) \<and> file_of d (las_path ps @ kOverrideSuffix) = None"

definition holds_history :: "ProtoStores \<Rightarrow> Disk \<Rightarrow> AggregatedObservationHistoryStore \<Rightarrow> bool" where
  "holds_history ps d h \<longleftrightarrow> file_of d (hist_path ps) = Some (ser_hist ps h) \<and> file_of d (hist_path ps @ kOverrideSuffix) = None"

lemma holds_aggregates_Read:
  assumes "holds_aggregates ps d las" and "parse_las ps (ser_las ps las) = Some las"
  shows "fst (Read (parse_las ps) (las_path ps) (restart (files d))) = Inr las"
  using Read_store_rep [of "parse_las ps" "las_path ps" "files d" "Some las"] assms
  by (simp add: store_rep_def holds_aggregates_def read_result_def)

lemma holds_history_Read:
  assumes "holds_history ps d h" and "parse_hist ps (ser_hist ps h) = Some h"
  shows "fst (Read (parse_hist ps) (hist_path ps) (restart (files d))) = Inr h"
  using Read_store_rep [of "parse_hist ps" "hist_path ps" "files d" "Some h"] assms
  by (simp add: store_rep_def holds_history_def read_result_def)

lemma back_up_aggregates_disk:
  assumes "disk_clean ps (mgr_disk m)" and "paths_apart ps"
  defines "m' \<equiv> back_up_aggregates ps m"
  shows "disk_clean ps (mgr_disk m')" and "holds_aggregates ps (mgr_disk m') (local_aggregate_store (aggregate_store m))"
    and "holds_history ps (mgr_disk m') h = holds_history ps (mgr_disk m) h"
proof -
  have w: "mgr_disk m' = snd (Write (ser_las ps) (las_path ps) (local_aggregate_store (aggregate_store m)) (mgr_disk m))"
    by (simp add: m'_def back_up_aggregates_def BackUpLocalAggregateStore_def CopyLocalAggregateStore_def case_prod_unfold)
  note c = Write_clean [of "mgr_disk m" "las_path ps"]
  show "disk_clean ps (mgr_disk m')" "holds_aggregates ps (mgr_disk m') (local_aggregate_store (aggregate_store m))"
    "holds_history ps (mgr_disk m') h = holds_history ps (mgr_disk m) h"
    using assms(1,2) unfolding w by (auto simp: c disk_clean_def holds_aggregates_def holds_history_def paths_apart_def)
qed

lemma back_up_history_disk:
  assumes "disk_clean ps (mgr_disk m)" and "paths_apart ps"
  defines "m' \<equiv> back_up_history ps m"
  shows "disk_clean ps (mgr_disk m')" and "holds_history ps (mgr_disk m') (obs_history (aggregate_store m))"
    and "holds_aggregates ps (mgr_disk m') las = holds_aggregates ps (mgr_disk m) las"
proof -
  have w: "mgr_disk m' = snd (Write (ser_hist ps) (hist_path ps) (obs_history (aggregate_store m)) (mgr_disk m))"
    by (simp add: m'_def back_up_history_def BackUpObservationHistory_def case_prod_unfold)
  note c = Write_clean [of "mgr_disk m" "hist_path ps"]
  show "disk_clean ps (mgr_disk m')" "holds_history ps (mgr_disk m') (obs_history (aggregate_store m))"
    "holds_aggregates ps (mgr_disk m') las = holds_aggregates ps (mgr_disk m) las"
    using assms(1,2) unfolding w by (auto simp: c disk_clean_def holds_aggregates_def holds_history_def paths_apart_def)
qed

lemma back_up_store [simp]:
  "aggregate_store (back_up_aggregates ps m) = aggregate_store m" "aggregate_store (back_up_history ps m) = aggregate_store m"
  "mgr_backfill_days (back_up_aggregates ps m) = mgr_backfill_days m" "mgr_backfill_days (back_up_history ps m) = mgr_backfill_days m"
  "mgr_shut_down (back_up_aggregates ps m) = mgr_shut_down m" "mgr_shut_down (back_up_history ps m) = mgr_shut_down m"
  "back_up_now (back_up_aggregates ps m) = back_up_now m" "back_up_now (back_up_history ps m) = back_up_now m"
  "next_generate_obs (back_up_aggregates ps m) = next_generate_obs m" "next_generate_obs (back_up_history ps m) = next_generate_obs m"
  "next_gc (back_up_aggregates ps m) = next_gc m" "next_gc (back_up_history ps m) = next_gc m"
  "generate_obs_interval (back_up_aggregates ps m) = generate_obs_interval m" "generate_obs_interval (back_up_history ps m) = generate_obs_interval m"
  "gc_interval (back_up_aggregates ps m) = gc_interval m" "gc_interval (back_up_history ps m) = gc_interval m"
  by (simp_all add: back_up_aggregates_def back_up_history_def)

section \<open>The scheduled tasks\<close>

text \<open>The manager and its store agree on the number of backfill days, within the limit the store checks.\<close>

definition mgr_inv :: "'s EventAggregatorManager \<Rightarrow> bool" where
  "mgr_inv m \<longleftrightarrow> agg_inv (aggregate_store m) \<and> backfill_days (aggregate_store m) = mgr_backfill_days m \<and> mgr_backfill_days m \<le> kMaxAllowedBackfillDays"

lemma agg_step_backfill: "agg_step s s' \<Longrightarrow> backfill_days s' = backfill_days s"
proof (induction rule: agg_step.induct)
  case (insert ctx metric report s st s')
  then show ?case by (cases rule: MaybeInsertReportConfig_cases) simp_all
next
  case (active s cid pid mid rid code day)
  then show ?case by (auto simp: SetActive_def set_aggregates_def Let_def split: option.splits AggregatesType.splits)
next
  case (numeric s cid pid mid rid component code day v)
  then show ?case by (auto simp: UpdateNumericAggregate_def set_aggregates_def Let_def split: option.splits AggregatesType.splits prod.splits)
next
  case (collect u l s st s')
  then show ?case by (auto simp: GarbageCollect_def Let_def split: if_splits)
next
  case (generate u l s st s')
  from GenerateObservations_kept [OF this] show ?case by (simp add: aggregates_kept_def)
qed (simp_all add: AggregateStore_DeleteData_def AggregateStore_Disable_def)

lemma mgr_inv_agg_step: "mgr_inv m \<Longrightarrow> agg_step (aggregate_store m) s \<Longrightarrow> mgr_inv (m\<lparr>aggregate_store := s\<rparr>)"
  by (simp add: mgr_inv_def agg_step_inv agg_step_backfill)

lemma check_day_yesterday:
  assumes "day \<noteq> (0 :: u32)" and "\<not> day - 1 < kMaxAllowedAggregationDays + of_nat n" and "n \<le> kMaxAllowedBackfillDays"
  shows "check_day n (day - 1)"
proof -
  have "unat (kMaxAllowedAggregationDays + of_nat n :: u32) = 365 + n"
    using assms(3) by (simp add: aggregate_consts unat_word_ariths unat_of_nat)
  then have "365 + n \<le> unat (day - 1)" using assms(2) by (simp add: not_less word_le_nat_alt)
  moreover have "day - 1 \<noteq> - 1" using assms(1) by simp
  then have "day - 1 < - 1" by (metis word_order.not_eq_extremum)
  ultimately show ?thesis by (simp add: check_day_def aggregate_consts)
qed

definition advanced :: "int \<Rightarrow> int \<Rightarrow> int \<Rightarrow> int" where
  "advanced steady_time interval t = (if t \<le> steady_time then t + interval else t)"

lemma scheduled_generation_result:
  assumes "skip_tasks \<or> check_day (backfill_days (aggregate_store m)) u \<and> check_day (backfill_days (aggregate_store m)) l"
  obtains m' where "scheduled_generation ps skip_tasks u l steady_time m = Some m'"
    and "agg_step\<^sup>*\<^sup>* (aggregate_store m) (aggregate_store m')" and "local_aggregate_store (aggregate_store m') = local_aggregate_store (aggregate_store m)"
    and "m' = m\<lparr>aggregate_store := aggregate_store m', mgr_disk := mgr_disk m', next_generate_obs := advanced steady_time (generate_obs_interval m) (next_generate_obs m)\<rparr>"
    and "skip_tasks \<Longrightarrow> aggregate_store m' = aggregate_store m \<and> mgr_disk m' = mgr_disk m"
    and "disk_clean ps (mgr_disk m) \<Longrightarrow> paths_apart ps \<Longrightarrow> disk_clean ps (mgr_disk m') \<and>
      (\<forall>las. holds_aggregates ps (mgr_disk m') las = holds_aggregates ps (mgr_disk m) las)"
proof (cases "next_generate_obs m \<le> steady_time \<and> \<not> skip_tasks")
  case False
  then show thesis by (intro that [of "m\<lparr>next_generate_obs := advanced steady_time (generate_obs_interval m) (next_generate_obs m)\<rparr>"])
      (auto simp: scheduled_generation_def advanced_def Let_def)
next
  case True
  then have "check_day (backfill_days (aggregate_store m)) u \<and> check_day (backfill_days (aggregate_store m)) (if l = 0 then u else l)"
    using assms by simp
  then obtain st s where g: "GenerateObservations u l (aggregate_store m) = Some (st, s)"
    by (cases "for_each (generate_report u (if l = 0 then u else l)) (by_report_key (CopyLocalAggregateStore (aggregate_store m))) (aggregate_store m)")
      (simp add: GenerateObservations_def Let_def)
  define m1 where "m1 = m\<lparr>next_generate_obs := next_generate_obs m + generate_obs_interval m, aggregate_store := s\<rparr>"
  have r: "scheduled_generation ps skip_tasks u l steady_time m = Some (if st = kOK then back_up_history ps m1 else m1)"
    using True g by (simp add: scheduled_generation_def m1_def Let_def)
  have "agg_step (aggregate_store m) s" by (rule agg_step.generate [OF g])
  moreover have "local_aggregate_store s = local_aggregate_store (aggregate_store m)"
    using GenerateObservations_kept [OF g] by (simp add: aggregates_kept_def)
  moreover have "aggregate_store m1 = s" "mgr_disk m1 = mgr_disk m" by (simp_all add: m1_def)
  ultimately show thesis using True back_up_history_disk [of ps m1]
    by (intro that [OF r]) (auto simp: m1_def back_up_history_def advanced_def)
qed

lemma scheduled_gc_result:
  assumes "skip_tasks \<or> check_day (backfill_days (aggregate_store m)) u \<and> check_day (backfill_days (aggregate_store m)) l"
  obtains m' where "scheduled_gc ps skip_tasks u l steady_time m = Some m'"
    and "agg_step\<^sup>*\<^sup>* (aggregate_store m) (aggregate_store m')"
    and "m' = m\<lparr>aggregate_store := aggregate_store m', mgr_disk := mgr_disk m', next_gc := advanced steady_time (gc_interval m) (next_gc m)\<rparr>"
    and "skip_tasks \<Longrightarrow> aggregate_store m' = aggregate_store m \<and> mgr_disk m' = mgr_disk m"
    and "disk_clean ps (mgr_disk m) \<Longrightarrow> paths_apart ps \<Longrightarrow> holds_aggregates ps (mgr_disk m) (local_aggregate_store (aggregate_store m)) \<Longrightarrow>
      disk_clean ps (mgr_disk m') \<and> holds_aggregates ps (mgr_disk m') (local_aggregate_store (aggregate_store m'))"
proof (cases "next_gc m \<le> steady_time \<and> \<not> skip_tasks")
  case False
  then show thesis by (intro that [of "m\<lparr>next_gc := advanced steady_time (gc_interval m) (next_gc m)\<rparr>"])
      (auto simp: scheduled_gc_def advanced_def Let_def)
next
  case True
  then have "check_day (backfill_days (aggregate_store m)) u \<and> check_day (backfill_days (aggregate_store m)) (if l = 0 then u else l)"
    using assms by simp
  then obtain s where g: "GarbageCollect u l (aggregate_store m) = Some (kOK, s)"
    by (simp add: GarbageCollect_def Let_def)
  define m1 where "m1 = m\<lparr>next_gc := next_gc m + gc_interval m, aggregate_store := s\<rparr>"
  have r: "scheduled_gc ps skip_tasks u l steady_time m = Some (back_up_aggregates ps m1)"
    using True g by (simp add: scheduled_gc_def m1_def Let_def)
  have "agg_step (aggregate_store m) s" by (rule agg_step.collect [OF g])
  moreover have "aggregate_store m1 = s" "mgr_disk m1 = mgr_disk m" by (simp_all add: m1_def)
  ultimately show thesis using True back_up_aggregates_disk [of ps m1]
    by (intro that [OF r]) (auto simp: m1_def back_up_aggregates_def advanced_def)
qed

lemma DoScheduledTasks_result:
  assumes inv: "mgr_inv m" and days: "TimeToDayIndex utc_offset (trunc_seconds system_time) UTC \<noteq> 0" "TimeToDayIndex utc_offset (trunc_seconds system_time) LOCAL \<noteq> 0"
  obtains m' where "DoScheduledTasks ps utc_offset system_time steady_time m = Some m'"
    and "agg_step\<^sup>*\<^sup>* (aggregate_store m) (aggregate_store m')"
    and "m' = m\<lparr>aggregate_store := aggregate_store m', mgr_disk := mgr_disk m',
      next_generate_obs := advanced steady_time (generate_obs_interval m) (next_generate_obs m), next_gc := advanced steady_time (gc_interval m) (next_gc m)\<rparr>"
    and "TimeToDayIndex utc_offset (trunc_seconds system_time) UTC - 1 < kMaxAllowedAggregationDays + of_nat (mgr_backfill_days m) \<or>
      TimeToDayIndex utc_offset (trunc_seconds system_time) LOCAL - 1 < kMaxAllowedAggregationDays + of_nat (mgr_backfill_days m) \<Longrightarrow>
      aggregate_store m' = aggregate_store m \<and> mgr_disk m' = mgr_disk m"
    and "disk_clean ps (mgr_disk m) \<Longrightarrow> paths_apart ps \<Longrightarrow> holds_aggregates ps (mgr_disk m) (local_aggregate_store (aggregate_store m)) \<Longrightarrow>
      disk_clean ps (mgr_disk m') \<and> holds_aggregates ps (mgr_disk m') (local_aggregate_store (aggregate_store m'))"
proof -
  define u l where "u = TimeToDayIndex utc_offset (trunc_seconds system_time) UTC - 1" and "l = TimeToDayIndex utc_offset (trunc_seconds system_time) LOCAL - 1"
  define skip where "skip \<longleftrightarrow> u < kMaxAllowedAggregationDays + of_nat (mgr_backfill_days m) \<or> l < kMaxAllowedAggregationDays + of_nat (mgr_backfill_days m)"
  have run: "DoScheduledTasks ps utc_offset system_time steady_time m =
    (case scheduled_generation ps skip u l steady_time m of None \<Rightarrow> None | Some m \<Rightarrow> scheduled_gc ps skip u l steady_time m)"
    unfolding DoScheduledTasks_def Let_def skip_def u_def l_def by (rule refl)
  have b: "backfill_days (aggregate_store m) = mgr_backfill_days m" "mgr_backfill_days m \<le> kMaxAllowedBackfillDays"
    using inv by (simp_all add: mgr_inv_def)
  have ok: "skip \<or> check_day (mgr_backfill_days m) u \<and> check_day (mgr_backfill_days m) l"
    using check_day_yesterday [OF days(1) _ b(2)] check_day_yesterday [OF days(2) _ b(2)] by (auto simp: skip_def u_def l_def)
  obtain m1 where m1: "scheduled_generation ps skip u l steady_time m = Some m1"
    "agg_step\<^sup>*\<^sup>* (aggregate_store m) (aggregate_store m1)" "local_aggregate_store (aggregate_store m1) = local_aggregate_store (aggregate_store m)"
    "m1 = m\<lparr>aggregate_store := aggregate_store m1, mgr_disk := mgr_disk m1, next_generate_obs := advanced steady_time (generate_obs_interval m) (next_generate_obs m)\<rparr>"
    "skip \<Longrightarrow> aggregate_store m1 = aggregate_store m \<and> mgr_disk m1 = mgr_disk m"
    "disk_clean ps (mgr_disk m) \<Longrightarrow> paths_apart ps \<Longrightarrow> disk_clean ps (mgr_disk m1) \<and>
      (\<forall>las. holds_aggregates ps (mgr_disk m1) las = holds_aggregates ps (mgr_disk m) las)"
    using scheduled_generation_result [of skip m u l ps steady_time] ok unfolding b(1) by blast
  have "backfill_days (aggregate_store m1) = backfill_days (aggregate_store m)"
    using m1(2) by (induction rule: rtranclp_induct) (simp_all add: agg_step_backfill)
  then have ok1: "skip \<or> check_day (backfill_days (aggregate_store m1)) u \<and> check_day (backfill_days (aggregate_store m1)) l"
    using ok b(1) by simp
  obtain m2 where m2: "scheduled_gc ps skip u l steady_time m1 = Some m2"
    "agg_step\<^sup>*\<^sup>* (aggregate_store m1) (aggregate_store m2)"
    "m2 = m1\<lparr>aggregate_store := aggregate_store m2, mgr_disk := mgr_disk m2, next_gc := advanced steady_time (gc_interval m1) (next_gc m1)\<rparr>"
    "skip \<Longrightarrow> aggregate_store m2 = aggregate_store m1 \<and> mgr_disk m2 = mgr_disk m1"
    "disk_clean ps (mgr_disk m1) \<Longrightarrow> paths_apart ps \<Longrightarrow> holds_aggregates ps (mgr_disk m1) (local_aggregate_store (aggregate_store m1)) \<Longrightarrow>
      disk_clean ps (mgr_disk m2) \<and> holds_aggregates ps (mgr_disk m2) (local_aggregate_store (aggregate_store m2))"
    using scheduled_gc_result [OF ok1] by blast
  show thesis
  proof (rule that)
    show "DoScheduledTasks ps utc_offset system_time steady_time m = Some m2" by (simp add: run m1(1) m2(1))
    show "agg_step\<^sup>*\<^sup>* (aggregate_store m) (aggregate_store m2)" using m1(2) m2(2) by (rule rtranclp_trans)
    have i: "gc_interval m1 = gc_interval m" "next_gc m1 = next_gc m" by (subst m1(4), simp)+
    have o: "m\<lparr>aggregate_store := a, mgr_disk := b, next_generate_obs := c, aggregate_store := d, mgr_disk := e, next_gc := f\<rparr> =
      m\<lparr>aggregate_store := d, mgr_disk := e, next_generate_obs := c, next_gc := f\<rparr>" for a b c d e f by (cases m) simp
    have "m2 = m\<lparr>aggregate_store := aggregate_store m1, mgr_disk := mgr_disk m1, next_generate_obs := advanced steady_time (generate_obs_interval m) (next_generate_obs m),
      aggregate_store := aggregate_store m2, mgr_disk := mgr_disk m2, next_gc := advanced steady_time (gc_interval m) (next_gc m)\<rparr>"
      using m2(3) unfolding i m1(4) [symmetric] .
    then show "m2 = m\<lparr>aggregate_store := aggregate_store m2, mgr_disk := mgr_disk m2,
      next_generate_obs := advanced steady_time (generate_obs_interval m) (next_generate_obs m), next_gc := advanced steady_time (gc_interval m) (next_gc m)\<rparr>"
      unfolding o .
  qed (use m1(3,5,6) m2(4,5) in \<open>auto simp: skip_def u_def l_def\<close>)
qed

lemma mgr_inv_agg_steps: "mgr_inv m \<Longrightarrow> agg_step\<^sup>*\<^sup>* (aggregate_store m) s \<Longrightarrow> mgr_backfill_days m' = mgr_backfill_days m \<Longrightarrow>
  aggregate_store m' = s \<Longrightarrow> mgr_inv m'"
proof -
  assume inv: "mgr_inv m" and s: "agg_step\<^sup>*\<^sup>* (aggregate_store m) s" and m': "mgr_backfill_days m' = mgr_backfill_days m" "aggregate_store m' = s"
  have "backfill_days s = backfill_days (aggregate_store m)"
    using s by (induction rule: rtranclp_induct) (simp_all add: agg_step_backfill)
  with inv m' agg_steps_inv [OF s] show "mgr_inv m'" by (simp add: mgr_inv_def)
qed

lemma run_backups_sel [simp]:
  "aggregate_store (run_backups ps m) = aggregate_store m" "mgr_shut_down (run_backups ps m) = mgr_shut_down m"
  "mgr_backfill_days (run_backups ps m) = mgr_backfill_days m" "\<not> back_up_now (run_backups ps m)" "\<not> immediate_run_trigger (run_backups ps m)"
  by (simp_all add: run_backups_def back_up_aggregates_def back_up_history_def Let_def)

lemma run_backups_disk:
  assumes "disk_clean ps (mgr_disk m)" and "paths_apart ps"
  shows "disk_clean ps (mgr_disk (run_backups ps m))"
    and "holds_aggregates ps (mgr_disk (run_backups ps m)) (local_aggregate_store (aggregate_store m))"
    and "back_up_now m \<Longrightarrow> holds_history ps (mgr_disk (run_backups ps m)) (obs_history (aggregate_store m))"
proof -
  define m1 where "m1 = back_up_aggregates ps (m\<lparr>immediate_run_trigger := False\<rparr>)"
  have r: "run_backups ps m = (if back_up_now m then back_up_history ps (m1\<lparr>back_up_now := False\<rparr>) else m1)"
    by (simp add: run_backups_def m1_def)
  have m1: "disk_clean ps (mgr_disk m1)" "holds_aggregates ps (mgr_disk m1) (local_aggregate_store (aggregate_store m))" "aggregate_store m1 = aggregate_store m"
    using back_up_aggregates_disk [of ps "m\<lparr>immediate_run_trigger := False\<rparr>"] assms by (simp_all add: m1_def)
  show "disk_clean ps (mgr_disk (run_backups ps m))"
    "holds_aggregates ps (mgr_disk (run_backups ps m)) (local_aggregate_store (aggregate_store m))"
    "back_up_now m \<Longrightarrow> holds_history ps (mgr_disk (run_backups ps m)) (obs_history (aggregate_store m))"
    using back_up_history_disk [of ps "m1\<lparr>back_up_now := False\<rparr>"] assms(2) m1 by (simp_all add: r)
qed

text \<open>C25. The scheduled tasks fail no \<open>CHECK\<close> when the clock is past the first day of 1970 in both time zones: each task
  advances its schedule by one interval when it is due and not otherwise, only operations of the aggregate store are performed,
  so that its invariant is kept, and nothing is generated, collected or written while a day index is too small.\<close>

theorem DoScheduledTasks_spec:
  assumes "mgr_inv m"
    and "TimeToDayIndex utc_offset (trunc_seconds system_time) UTC \<noteq> 0" and "TimeToDayIndex utc_offset (trunc_seconds system_time) LOCAL \<noteq> 0"
  shows "\<exists>m'. DoScheduledTasks ps utc_offset system_time steady_time m = Some m' \<and> mgr_inv m' \<and>
    agg_step\<^sup>*\<^sup>* (aggregate_store m) (aggregate_store m') \<and>
    next_generate_obs m' = (if next_generate_obs m \<le> steady_time then next_generate_obs m + generate_obs_interval m else next_generate_obs m) \<and>
    next_gc m' = (if next_gc m \<le> steady_time then next_gc m + gc_interval m else next_gc m) \<and>
    ((\<exists>zone \<in> {UTC, LOCAL}. TimeToDayIndex utc_offset (trunc_seconds system_time) zone - 1 < kMaxAllowedAggregationDays + of_nat (mgr_backfill_days m)) \<longrightarrow>
       aggregate_store m' = aggregate_store m \<and> mgr_disk m' = mgr_disk m)"
proof -
  obtain m' where m': "DoScheduledTasks ps utc_offset system_time steady_time m = Some m'" "agg_step\<^sup>*\<^sup>* (aggregate_store m) (aggregate_store m')"
    "m' = m\<lparr>aggregate_store := aggregate_store m', mgr_disk := mgr_disk m',
      next_generate_obs := advanced steady_time (generate_obs_interval m) (next_generate_obs m), next_gc := advanced steady_time (gc_interval m) (next_gc m)\<rparr>"
    "TimeToDayIndex utc_offset (trunc_seconds system_time) UTC - 1 < kMaxAllowedAggregationDays + of_nat (mgr_backfill_days m) \<or>
      TimeToDayIndex utc_offset (trunc_seconds system_time) LOCAL - 1 < kMaxAllowedAggregationDays + of_nat (mgr_backfill_days m) \<Longrightarrow>
      aggregate_store m' = aggregate_store m \<and> mgr_disk m' = mgr_disk m"
    by (rule DoScheduledTasks_result [OF assms, of ps steady_time], rule that) assumption+
  have n: "next_generate_obs m' = advanced steady_time (generate_obs_interval m) (next_generate_obs m)"
    "next_gc m' = advanced steady_time (gc_interval m) (next_gc m)" "mgr_backfill_days m' = mgr_backfill_days m"
    by (subst m'(3), simp)+
  from mgr_inv_agg_steps [OF assms(1) m'(2) n(3) refl] have "mgr_inv m'" .
  with m'(1,2,4) n show ?thesis unfolding advanced_def by (intro exI [of _ m']) auto
qed

text \<open>On the first day of 1970 the guard does not hold: one day earlier than day 0 is \<open>UINT32_MAX\<close>, which is not too small,
  and a due generation of observations fails a \<open>CHECK\<close>.\<close>

theorem DoScheduledTasks_day_zero:
  assumes "0 \<le> system_time" and "system_time < 86400 * 1000000000" and "next_generate_obs m \<le> steady_time"
    and "mgr_backfill_days m \<le> kMaxAllowedBackfillDays"
  shows "DoScheduledTasks ps (\<lambda>_. 0) system_time steady_time m = None"
proof -
  let ?t = "trunc_seconds system_time"
  have t: "?t = system_time div 1000000000" "0 \<le> ?t" "?t < 86400" "?t < 253402300800" using assms(1,2) by (simp_all add: trunc_seconds_def)
  have "?t div 86400 = 0" using t by simp
  with TimeToDayIndex_UTC [OF t(2,4), of "\<lambda>_. 0"] have "uint (TimeToDayIndex (\<lambda>_. 0) ?t UTC) = 0" by simp
  then have u: "TimeToDayIndex (\<lambda>_. 0) ?t UTC = 0" by (simp only: unsigned_eq_0_iff)
  have l: "TimeToDayIndex (\<lambda>_. 0) ?t LOCAL = TimeToDayIndex (\<lambda>_. 0) ?t UTC" by (simp add: TimeToDayIndex_def localtime_r_def)
  have "\<not> (- 1 :: u32) < kMaxAllowedAggregationDays + of_nat (mgr_backfill_days m)" by (simp add: not_less)
  with assms(3) show ?thesis
    by (simp add: DoScheduledTasks_def l u scheduled_generation_def GenerateObservations_def check_day_def Let_def)
qed

text \<open>C12. Every iteration of the worker leaves the current aggregates on the disk: when no system call fails and no temporary
  file is left over, then after the iteration a restart reads exactly the aggregates of the store, also when observations were
  generated or garbage was collected; pending triggers are consumed, and the next iteration starts again from a clean disk.\<close>

theorem woken_worker_backs_up:
  assumes "mgr_inv m" and "disk_clean ps (mgr_disk m)" and "paths_apart ps"
    and "parse_las ps (ser_las ps (local_aggregate_store (aggregate_store m'))) = Some (local_aggregate_store (aggregate_store m'))"
    and "TimeToDayIndex utc_offset (trunc_seconds system_time) UTC \<noteq> 0" and "TimeToDayIndex utc_offset (trunc_seconds system_time) LOCAL \<noteq> 0"
    and "run_woken ps utc_offset system_time steady_time m = (w, m')"
  shows "fst (Read (parse_las ps) (las_path ps) (restart (files (mgr_disk m')))) = Inr (local_aggregate_store (aggregate_store m')) \<and>
    disk_clean ps (mgr_disk m') \<and> mgr_inv m' \<and> \<not> back_up_now m' \<and> \<not> immediate_run_trigger m' \<and>
    w = (if mgr_shut_down m then Exited else LoopTop)"
proof -
  define m2 where "m2 = run_backups ps m"
  have d2: "disk_clean ps (mgr_disk m2)" "holds_aggregates ps (mgr_disk m2) (local_aggregate_store (aggregate_store m2))"
    using run_backups_disk [OF assms(2,3)] by (simp_all add: m2_def)
  have s2: "mgr_shut_down m2 = mgr_shut_down m" "\<not> back_up_now m2" "\<not> immediate_run_trigger m2" by (simp_all add: m2_def)
  have i2: "mgr_inv m2" using assms(1) by (simp add: mgr_inv_def m2_def)
  show ?thesis
  proof (cases "mgr_shut_down m")
    case True
    with assms(7) s2 have "w = Exited" "m' = m2" by (simp_all add: run_woken_def m2_def Let_def)
    with True i2 d2 s2 holds_aggregates_Read [of ps "mgr_disk m'"] assms(4) show ?thesis by simp
  next
    case False
    obtain m3 where m3: "DoScheduledTasks ps utc_offset system_time steady_time m2 = Some m3" "agg_step\<^sup>*\<^sup>* (aggregate_store m2) (aggregate_store m3)"
      "m3 = m2\<lparr>aggregate_store := aggregate_store m3, mgr_disk := mgr_disk m3,
        next_generate_obs := advanced steady_time (generate_obs_interval m2) (next_generate_obs m2), next_gc := advanced steady_time (gc_interval m2) (next_gc m2)\<rparr>"
      "disk_clean ps (mgr_disk m3)" "holds_aggregates ps (mgr_disk m3) (local_aggregate_store (aggregate_store m3))"
      using DoScheduledTasks_result [OF i2 assms(5,6)] d2 assms(3) by blast
    with assms(7) False have r: "w = LoopTop" "m' = m3" by (simp_all add: run_woken_def m2_def Let_def)
    have n: "mgr_backfill_days m3 = mgr_backfill_days m2" "back_up_now m3 = back_up_now m2" "immediate_run_trigger m3 = immediate_run_trigger m2"
      by (subst m3(3), simp)+
    from mgr_inv_agg_steps [OF i2 m3(2) n(1) refl] holds_aggregates_Read [of ps "mgr_disk m'"] assms(4) m3(4,5) r n(2,3) s2(2,3) False
    show ?thesis by simp
  qed
qed



section \<open>The invariant of the running manager\<close>

lemma scheduled_generation_steps:
  "scheduled_generation ps skip u l t m = Some m' \<Longrightarrow> agg_step\<^sup>*\<^sup>* (aggregate_store m) (aggregate_store m') \<and> mgr_backfill_days m' = mgr_backfill_days m"
  by (auto simp: scheduled_generation_def Let_def dest: agg_step.generate split: if_splits)

lemma scheduled_gc_steps:
  "scheduled_gc ps skip u l t m = Some m' \<Longrightarrow> agg_step\<^sup>*\<^sup>* (aggregate_store m) (aggregate_store m') \<and> mgr_backfill_days m' = mgr_backfill_days m"
  by (auto simp: scheduled_gc_def Let_def dest: agg_step.collect split: if_splits)

lemma DoScheduledTasks_inv:
  assumes "mgr_inv m" and "DoScheduledTasks ps utc_offset system_time steady_time m = Some m'"
  shows "mgr_inv m'"
proof -
  obtain skip u l m1 where "scheduled_generation ps skip u l steady_time m = Some m1" "scheduled_gc ps skip u l steady_time m1 = Some m'"
    using assms(2) by (auto simp: DoScheduledTasks_def Let_def split: option.splits)
  then have "agg_step\<^sup>*\<^sup>* (aggregate_store m) (aggregate_store m')" "mgr_backfill_days m' = mgr_backfill_days m"
    by (auto dest!: scheduled_generation_steps scheduled_gc_steps intro: rtranclp_trans)
  with assms(1) show ?thesis by (blast intro: mgr_inv_agg_steps)
qed

lemma mgr_inv_cong: "aggregate_store m' = aggregate_store m \<Longrightarrow> mgr_backfill_days m' = mgr_backfill_days m \<Longrightarrow> mgr_inv m' = mgr_inv m"
  by (simp add: mgr_inv_def)

lemma mgr_step_inv: "mgr_step ps utc_offset (w, m) (w', m') \<Longrightarrow> mgr_inv m \<Longrightarrow> mgr_inv m'"
proof (induction "(w, m)" "(w', m')" rule: mgr_step.induct)
  case (enter t)
  then show ?case by (auto simp: run_begin_def mgr_inv_def)
next
  case top
  then show ?case by (auto simp: run_top_def mgr_inv_def Let_def split: if_splits)
next
  case (wake t u)
  have "mgr_inv (run_backups ps m)" using wake.prems by (simp add: mgr_inv_def)
  with wake.hyps show ?case
    by (auto simp: run_woken_def Let_def split: if_splits option.splits dest: DoScheduledTasks_inv)
qed

lemma mgr_client_inv: "mgr_client m m' \<Longrightarrow> mgr_inv m \<Longrightarrow> mgr_inv m'"
proof (induction rule: mgr_client.induct)
  case (disable m b)
  from mgr_inv_agg_step [OF this agg_step.disable] show ?case by (simp add: mgr_Disable_def)
next
  case (delete m)
  from mgr_inv_agg_step [OF this agg_step.delete] show ?case
    by (simp add: mgr_DeleteData_def TriggerBackups_def mgr_inv_def)
qed (auto simp: TriggerBackups_def mgr_ShutDown_def mgr_inv_def agg_step_backfill intro: agg_step_inv)

text \<open>The invariant of the manager: from its construction on, in every interleaving of the worker, of the loggers and of the
  calls of the manager, the aggregate store satisfies its invariant and its number of backfill days is the one the
  manager's guard uses, within the limit of the store.\<close>

theorem manager_invariant:
  assumes "EventAggregatorManager_ctor ps enc wr ser_key days_back r obs d = Some m0"
    and "store_ok (restore_aggregates (fst (Read (parse_las ps) (las_path ps) d)))" and "mgr_reach ps utc_offset m0 (w, m)"
  shows "mgr_inv m"
proof -
  have m0: "mgr_inv m0" using assms(1,2)
    by (auto simp: EventAggregatorManager_ctor_def AggregateStore_ctor_def mgr_inv_def agg_inv_def store_ok_def
        MakeNewLocalAggregateStore_def case_prod_unfold Let_def split: if_splits)
  have "mgr_inv (snd x)" if "mgr_reach ps utc_offset m0 x" for x
    using that
  proof (induction rule: mgr_reach.induct)
    case start
    from m0 show ?case by (simp add: mgr_Start_def mgr_inv_def)
  next
    case (work x y)
    then show ?case by (metis mgr_step_inv prod.collapse)
  next
    case (client w m m')
    then show ?case by (auto intro: mgr_client_inv)
  qed
  from this [OF assms(3)] show ?thesis by simp
qed

section \<open>Examples\<close>

text \<open>One aggregate store and one history that can be written, and their files.\<close>

definition example_proto_stores :: ProtoStores where
  "example_proto_stores = \<lparr>las_path = ''a'', hist_path = ''h'', ser_las = (\<lambda>_. []), parse_las = (\<lambda>_. Some (MakeNewLocalAggregateStore 1)),
     ser_hist = (\<lambda>_. []), parse_hist = (\<lambda>_. Some (MakeNewObservationHistoryStore 0))\<rparr>"

definition example_aggregator :: "(Observation2 StoredObservation \<times> ObservationMetadata) list EventAggregatorManager" where
  "example_aggregator = the (EventAggregatorManager_ctor example_proto_stores example_encoder example_writer example_SerializeKey 3 (\<lambda>i. 0) [] (restart []))"

lemma example_aggregator_ctor:
  "EventAggregatorManager_ctor example_proto_stores example_encoder example_writer example_SerializeKey 3 (\<lambda>i. 0) [] (restart []) = Some example_aggregator"
  "aggregate_store example_aggregator = \<lparr>agg_encoder = example_encoder, agg_writer = example_writer, SerializeKey = example_SerializeKey, backfill_days = 3,
     agg_disabled = False, local_aggregate_store = MakeNewLocalAggregateStore 1, empty_local_aggregate_store = MakeNewLocalAggregateStore 1,
     obs_history = MakeNewObservationHistoryStore 0, random = (\<lambda>i. 0), observations = []\<rparr>"
  "mgr_disk example_aggregator = restart []" "mgr_backfill_days example_aggregator = 3" "next_generate_obs example_aggregator = 0"
  "generate_obs_interval example_aggregator = 3600000000000" "mgr_shut_down example_aggregator"
  by (simp_all add: example_aggregator_def EventAggregatorManager_ctor_def AggregateStore_ctor_def example_proto_stores_def aggregate_consts
      Read_def restart_def NewProtoInputStream_def next_fault_def restore_aggregates_def MaybeUpgradeLocalAggregateStore_def restore_history_def
      MaybeUpgradeObservationHistoryStore_def MakeNewLocalAggregateStore_def MakeNewObservationHistoryStore_def kDefaultGenerateObsInterval_def)

lemma example_aggregator_inv: "mgr_inv example_aggregator"
  by (simp add: mgr_inv_def example_aggregator_ctor agg_inv_def store_ok_def MakeNewLocalAggregateStore_def aggregate_consts)

theorem DoScheduledTasks_day_zero_witness:
  "DoScheduledTasks example_proto_stores (\<lambda>_. 0) 5000000000 0 example_aggregator = None"
  by (rule DoScheduledTasks_day_zero) (simp_all add: example_aggregator_ctor aggregate_consts)

lemma example_day:
  "uint (TimeToDayIndex (\<lambda>_. 0) (trunc_seconds 1600000000000000000) UTC) = 18518"
  "TimeToDayIndex (\<lambda>_. 0) t LOCAL = TimeToDayIndex (\<lambda>_. 0) t UTC"
  using TimeToDayIndex_UTC [of 1600000000 "\<lambda>_. 0"]
  by (simp_all add: trunc_seconds_def TimeToDayIndex_def localtime_r_def)

lemma example_day_nonzero:
  "TimeToDayIndex (\<lambda>_. 0) (trunc_seconds 1600000000000000000) UTC \<noteq> 0" "TimeToDayIndex (\<lambda>_. 0) (trunc_seconds 1600000000000000000) LOCAL \<noteq> 0"
  using example_day by (metis unsigned_0 zero_neq_numeral)+

theorem DoScheduledTasks_spec_witness:
  "\<exists>m'. DoScheduledTasks example_proto_stores (\<lambda>_. 0) 1600000000000000000 7 example_aggregator = Some m' \<and> next_generate_obs m' = 3600000000000"
  using DoScheduledTasks_spec [OF example_aggregator_inv example_day_nonzero, of example_proto_stores 7]
  by (auto simp: example_aggregator_ctor)

theorem manager_invariant_witness:
  "mgr_inv (run_begin 7 (mgr_Start example_aggregator))"
proof -
  have "store_ok (restore_aggregates (fst (Read (parse_las example_proto_stores) (las_path example_proto_stores) (restart []))))"
    by (simp add: example_proto_stores_def Read_def restart_def NewProtoInputStream_def next_fault_def restore_aggregates_def
        MaybeUpgradeLocalAggregateStore_def MakeNewLocalAggregateStore_def store_ok_def)
  moreover have "mgr_reach example_proto_stores (\<lambda>_. 0) example_aggregator (LoopTop, run_begin 7 (mgr_Start example_aggregator))"
    by (rule mgr_reach.work [OF mgr_reach.start mgr_step.enter])
  ultimately show ?thesis by (rule manager_invariant [OF example_aggregator_ctor(1)])
qed

lemma example_disk: "disk_clean example_proto_stores (restart [])" "paths_apart example_proto_stores"
  by (simp_all add: disk_clean_def paths_apart_def example_proto_stores_def restart_def kTmpSuffix_def kOverrideSuffix_def)


theorem woken_worker_backs_up_witness:
  "\<exists>m'. run_woken example_proto_stores (\<lambda>_. 0) 1600000000000000000 7 example_aggregator = (Exited, m') \<and>
     fst (Read (parse_las example_proto_stores) ''a'' (restart (files (mgr_disk m')))) = Inr (MakeNewLocalAggregateStore 1)"
proof -
  let ?m = "run_backups example_proto_stores example_aggregator"
  have r: "run_woken example_proto_stores (\<lambda>_. 0) 1600000000000000000 7 example_aggregator = (Exited, ?m)"
    by (simp add: run_woken_def Let_def example_aggregator_ctor)
  from woken_worker_backs_up [OF example_aggregator_inv _ example_disk(2) _ example_day_nonzero r] example_disk(1) r show ?thesis
    by (simp add: example_aggregator_ctor example_proto_stores_def)
qed


end
