(* ===== verification/Internal_Metrics.thy ===== *)
theory Internal_Metrics
  imports Event_Delivery
begin

text \<open>
  The metrics Cobalt collects about itself (\<^verbatim>\<open>src/src/logger/internal_metrics.cc\<close> and \<^verbatim>\<open>.h\<close>), on the part of \<open>LoggerInterface\<close>
  (\<^verbatim>\<open>src/src/logger/logger_interface.h\<close>) they use. A logger is two functions on the state \<open>'w\<close> of the world; the ids of the internal
  metrics come from a generated file and are parameters. The locale \<open>internal_logger\<close> states what the metrics rely on.
\<close>

record 'w LoggerInterface =
  li_LogEventCount :: "u32 \<Rightarrow> u32 list \<Rightarrow> string \<Rightarrow> i64 \<Rightarrow> u32 \<Rightarrow> 'w \<Rightarrow> (Status \<times> 'w) option"
  li_LogMemoryUsage :: "u32 \<Rightarrow> u32 list \<Rightarrow> string \<Rightarrow> i64 \<Rightarrow> 'w \<Rightarrow> (Status \<times> 'w) option"

record InternalMetricIds =
  kLoggerCallsMadeMetricId :: u32
  kPerProjectLoggerCallsMadeMetricId :: u32
  kPerDeviceBytesUploadedMetricId :: u32
  kPerProjectBytesUploadedMetricId :: u32
  kPerProjectBytesStoredMetricId :: u32
  kInaccurateClockEventsCachedMetricId :: u32
  kInaccurateClockEventsDroppedMetricId :: u32

text \<open>The two implementations; the second has the flag \<open>paused_\<close> and a logger.\<close>

datatype 'w InternalMetrics = NoOpInternalMetrics | InternalMetricsImpl bool "'w LoggerInterface"

definition InternalMetricsImpl_ctor :: "'w LoggerInterface option \<Rightarrow> 'w InternalMetrics option" where
  "InternalMetricsImpl_ctor lg = map_option (InternalMetricsImpl False) lg"

definition NewWithLogger :: "'w LoggerInterface option \<Rightarrow> 'w InternalMetrics" where
  "NewWithLogger lg = (case lg of Some l \<Rightarrow> InternalMetricsImpl False l | None \<Rightarrow> NoOpInternalMetrics)"

definition PauseLogging :: "'w InternalMetrics \<Rightarrow> 'w InternalMetrics" where
  "PauseLogging m = (case m of InternalMetricsImpl _ l \<Rightarrow> InternalMetricsImpl True l | NoOpInternalMetrics \<Rightarrow> m)"

definition ResumeLogging :: "'w InternalMetrics \<Rightarrow> 'w InternalMetrics" where
  "ResumeLogging m = (case m of InternalMetricsImpl _ l \<Rightarrow> InternalMetricsImpl False l | NoOpInternalMetrics \<Rightarrow> m)"

text \<open>The body of a method: nothing for \<open>NoOpInternalMetrics\<close> and while paused.\<close>

definition when_active :: "'w InternalMetrics \<Rightarrow> ('w LoggerInterface \<Rightarrow> 'w \<Rightarrow> 'w option) \<Rightarrow> 'w \<Rightarrow> 'w option" where
  "when_active m body w = (case m of NoOpInternalMetrics \<Rightarrow> Some w | InternalMetricsImpl paused l \<Rightarrow> if paused then Some w else body l w)"

definition ids_component :: "u32 \<Rightarrow> u32 \<Rightarrow> string" where
  "ids_component cid pid = decimal (unat cid) @ ''/'' @ decimal (unat pid)"

definition LoggerCalled :: "InternalMetricIds \<Rightarrow> 'w InternalMetrics \<Rightarrow> u32 \<Rightarrow> Project \<Rightarrow> 'w \<Rightarrow> 'w option" where
  "LoggerCalled ids m logger_method p =
     when_active m (\<lambda>l w.
       case li_LogEventCount l (kLoggerCallsMadeMetricId ids) [logger_method] [] 0 1 w of
         None \<Rightarrow> None
       | Some (_, w) \<Rightarrow>
           map_option snd (li_LogEventCount l (kPerProjectLoggerCallsMadeMetricId ids) [logger_method]
             (project_customer_name p @ ''/'' @ project_project_name p) 0 1 w))"

text \<open>The number of bytes is an \<open>int64_t\<close> and the count of \<open>LogEventCount\<close> a \<open>uint32_t\<close>.\<close>

definition DeviceBytesUploaded :: "InternalMetricIds \<Rightarrow> 'w InternalMetrics \<Rightarrow> u32 \<Rightarrow> i64 \<Rightarrow> 'w \<Rightarrow> 'w option" where
  "DeviceBytesUploaded ids m upload_status byte_count =
     when_active m (\<lambda>l w. map_option snd (li_LogEventCount l (kPerDeviceBytesUploadedMetricId ids) [upload_status] [] 0 (ucast byte_count) w))"

definition ProjectBytesUploaded :: "InternalMetricIds \<Rightarrow> 'w InternalMetrics \<Rightarrow> u32 \<Rightarrow> i64 \<Rightarrow> u32 \<Rightarrow> u32 \<Rightarrow> 'w \<Rightarrow> 'w option" where
  "ProjectBytesUploaded ids m upload_status byte_count cid pid =
     when_active m (\<lambda>l w. map_option snd (li_LogEventCount l (kPerProjectBytesUploadedMetricId ids) [upload_status] (ids_component cid pid) 0
       (ucast byte_count) w))"

definition ProjectBytesStored :: "InternalMetricIds \<Rightarrow> 'w InternalMetrics \<Rightarrow> u32 \<Rightarrow> i64 \<Rightarrow> u32 \<Rightarrow> u32 \<Rightarrow> 'w \<Rightarrow> 'w option" where
  "ProjectBytesStored ids m upload_status byte_count cid pid =
     when_active m (\<lambda>l w. map_option snd (li_LogMemoryUsage l (kPerProjectBytesStoredMetricId ids) [upload_status] (ids_component cid pid) byte_count w))"

text \<open>The argument \<open>{}\<close> selects the overload that takes a single event code, which is then 0.\<close>

definition InaccurateClockEventsCached :: "InternalMetricIds \<Rightarrow> 'w InternalMetrics \<Rightarrow> i64 \<Rightarrow> u32 \<Rightarrow> u32 \<Rightarrow> 'w \<Rightarrow> 'w option" where
  "InaccurateClockEventsCached ids m event_count cid pid =
     when_active m (\<lambda>l w. map_option snd (li_LogEventCount l (kInaccurateClockEventsCachedMetricId ids) [0] (ids_component cid pid) 0
       (ucast event_count) w))"

definition InaccurateClockEventsDropped :: "InternalMetricIds \<Rightarrow> 'w InternalMetrics \<Rightarrow> i64 \<Rightarrow> u32 \<Rightarrow> u32 \<Rightarrow> 'w \<Rightarrow> 'w option" where
  "InaccurateClockEventsDropped ids m event_count cid pid =
     when_active m (\<lambda>l w. map_option snd (li_LogEventCount l (kInaccurateClockEventsDroppedMetricId ids) [0] (ids_component cid pid) 0
       (ucast event_count) w))"

lemmas internal_metric_defs = LoggerCalled_def DeviceBytesUploaded_def ProjectBytesUploaded_def ProjectBytesStored_def
  InaccurateClockEventsCached_def InaccurateClockEventsDropped_def

section \<open>What the metrics rely on\<close>

definition uses_logger :: "'w LoggerInterface \<Rightarrow> 'w InternalMetrics \<Rightarrow> bool" where
  "uses_logger li m \<longleftrightarrow> (case m of NoOpInternalMetrics \<Rightarrow> True | InternalMetricsImpl _ l \<Rightarrow> l = li)"

text \<open>The calls of the logger return and keep \<open>ok\<close>; what they do to the world is a step of \<open>R\<close>.\<close>

locale internal_logger =
  fixes li :: "'w LoggerInterface"
    and ok :: "'w \<Rightarrow> bool"
    and R :: "'w \<Rightarrow> 'w \<Rightarrow> bool"
  assumes count_returns: "ok w \<Longrightarrow> \<exists>st w'. li_LogEventCount li mid codes component period n w = Some (st, w') \<and> ok w' \<and> R w w'"
    and memory_returns: "ok w \<Longrightarrow> \<exists>st w'. li_LogMemoryUsage li mid codes component v w = Some (st, w') \<and> ok w' \<and> R w w'"
    and R_refl: "R w w"
    and R_trans: "R w w1 \<Longrightarrow> R w1 w2 \<Longrightarrow> R w w2"
begin

lemma count_snd: "ok w \<Longrightarrow> \<exists>w'. map_option snd (li_LogEventCount li mid codes component period n w) = Some w' \<and> ok w' \<and> R w w'"
  using count_returns [of w mid codes component period n] by auto

lemma memory_snd: "ok w \<Longrightarrow> \<exists>w'. map_option snd (li_LogMemoryUsage li mid codes component v w) = Some w' \<and> ok w' \<and> R w w'"
  using memory_returns [of w mid codes component v] by auto

lemma when_active_returns:
  assumes "uses_logger li m" and "ok w" and "\<exists>w'. body li w = Some w' \<and> ok w' \<and> R w w'"
  shows "\<exists>w'. when_active m body w = Some w' \<and> ok w' \<and> R w w'"
  using assms R_refl by (auto simp: uses_logger_def when_active_def split: InternalMetrics.splits)

lemma LoggerCalled_returns:
  assumes "uses_logger li m" and "ok w"
  shows "\<exists>w'. LoggerCalled ids m f p w = Some w' \<and> ok w' \<and> R w w'"
  unfolding LoggerCalled_def
proof (rule when_active_returns [OF assms])
  obtain st w1 where w1: "li_LogEventCount li (kLoggerCallsMadeMetricId ids) [f] [] 0 1 w = Some (st, w1)" "ok w1" "R w w1"
    using count_returns [OF assms(2)] by blast
  obtain w2 where "map_option snd (li_LogEventCount li (kPerProjectLoggerCallsMadeMetricId ids) [f]
      (project_customer_name p @ ''/'' @ project_project_name p) 0 1 w1) = Some w2" "ok w2" "R w1 w2"
    using count_snd [OF w1(2)] by blast
  with w1 show "\<exists>w'. (case li_LogEventCount li (kLoggerCallsMadeMetricId ids) [f] [] 0 1 w of None \<Rightarrow> None
      | Some (_, w) \<Rightarrow> map_option snd (li_LogEventCount li (kPerProjectLoggerCallsMadeMetricId ids) [f]
          (project_customer_name p @ ''/'' @ project_project_name p) 0 1 w)) = Some w' \<and> ok w' \<and> R w w'"
    using R_trans by auto
qed

lemma clock_metrics_return:
  assumes "uses_logger li m" and "ok w"
  shows "\<exists>w'. InaccurateClockEventsCached ids m n cid pid w = Some w' \<and> ok w' \<and> R w w'"
    and "\<exists>w'. InaccurateClockEventsDropped ids m n cid pid w = Some w' \<and> ok w' \<and> R w w'"
  unfolding InaccurateClockEventsCached_def InaccurateClockEventsDropped_def
  by (rule when_active_returns [OF assms], rule count_snd [OF assms(2)])+

lemma byte_metrics_return:
  assumes "uses_logger li m" and "ok w"
  shows "\<exists>w'. DeviceBytesUploaded ids m u n w = Some w' \<and> ok w' \<and> R w w'"
    and "\<exists>w'. ProjectBytesUploaded ids m u n cid pid w = Some w' \<and> ok w' \<and> R w w'"
    and "\<exists>w'. ProjectBytesStored ids m u n cid pid w = Some w' \<and> ok w' \<and> R w w'"
  unfolding DeviceBytesUploaded_def ProjectBytesUploaded_def ProjectBytesStored_def
  by (rule when_active_returns [OF assms], rule count_snd [OF assms(2)] memory_snd [OF assms(2)])+

end

text \<open>The narrowing of the byte count: \<open>2 ^ 32\<close> uploaded bytes are logged as a count of 0.\<close>

theorem uploaded_bytes_are_truncated:
  "DeviceBytesUploaded ids (InternalMetricsImpl False l) u (2 ^ 32 + of_nat n) w = DeviceBytesUploaded ids (InternalMetricsImpl False l) u (of_nat n) w"
proof -
  have u: "(ucast (of_nat k :: i64) :: u32) = of_nat k" for k by (rule bit_word_eqI) (simp add: bit_simps)
  have "(2 ^ 32 + of_nat n :: i64) = of_nat (2 ^ 32 + n)" by simp
  then have "(ucast (2 ^ 32 + of_nat n :: i64) :: u32) = of_nat (2 ^ 32 + n)" by (metis u)
  also have "\<dots> = ucast (of_nat n :: i64)" unfolding u by simp
  finally have "(ucast (2 ^ 32 + of_nat n :: i64) :: u32) = ucast (of_nat n :: i64)" .
  then show ?thesis by (simp add: DeviceBytesUploaded_def when_active_def)
qed

end
