(* ===== verification/Undated_Events.thy ===== *)
theory Undated_Events
  imports Internal_Metrics
begin

text \<open>
  \<open>UndatedEventManager\<close> (\<^verbatim>\<open>src/src/logger/undated_event_manager.cc\<close>): events that are logged before the system clock is known to be
  accurate wait in a bounded queue with the time of a steady clock, and get their date when \<open>Flush\<close> is called. Times are numbers of
  nanoseconds. The mutex that \<open>Flush\<close> holds while it logs is the field \<open>uem_locked\<close>: a call of \<open>Save\<close> that meets it locked does not
  return. \<open>None\<close> is a call that does not return, fails a \<open>CHECK\<close>, or reads the front of an empty queue.
\<close>

record SavedEventRecord =
  monotonic_time :: int
  saved_event :: EventRecord

type_synonym project_id_pair = "u32 \<times> u32"

record 's UndatedEventManager =
  uem_logger :: "'s EventLogger"
  max_saved_events :: nat
  saved_records :: "SavedEventRecord list"
  num_events_cached :: "(project_id_pair \<times> i64) list"
  num_events_dropped :: "(project_id_pair \<times> i64) list"
  flushed :: bool
  reference_system_time :: int
  reference_monotonic_time :: int
  uem_locked :: bool

text \<open>The parameter is an \<open>int32_t\<close> and the member a \<open>size_t\<close>.\<close>

definition UndatedEventManager_ctor :: "'s EventLogger \<Rightarrow> 32 word \<Rightarrow> 's UndatedEventManager" where
  "UndatedEventManager_ctor el n =
     \<lparr>uem_logger = el, max_saved_events = unat (scast n :: u64), saved_records = [], num_events_cached = [], num_events_dropped = [],
      flushed = False, reference_system_time = 0, reference_monotonic_time = 0, uem_locked = False\<rparr>"

definition kDefaultMaxSavedEvents :: "32 word" where "kDefaultMaxSavedEvents = 10000"

text \<open>\<open>++m[id]\<close> on a \<open>std::map\<close>, which is kept in the order of its keys.\<close>

fun increment :: "project_id_pair \<Rightarrow> (project_id_pair \<times> i64) list \<Rightarrow> (project_id_pair \<times> i64) list" where
  "increment k [] = [(k, 1)]"
| "increment k ((k', n) # m) =
     (if k = k' then (k', n + 1) # m else if pair_less_eq k k' then (k, 1) # (k', n) # m else (k', n) # increment k m)"

text \<open>The state behind a logger: the aggregate store, the undated-event manager while it exists, a counter of the clock readings and
  the readings of the steady clock.\<close>

record 's LoggerState =
  ls_store :: "'s AggregateStore"
  ls_undated :: "'s UndatedEventManager option"
  ls_tick :: nat
  ls_steady :: "nat \<Rightarrow> int"

definition read_steady :: "'s LoggerState \<Rightarrow> int \<times> 's LoggerState" where
  "read_steady w = (ls_steady w (ls_tick w), w\<lparr>ls_tick := ls_tick w + 1\<rparr>)"

definition seconds_of :: "int \<Rightarrow> int" where
  "seconds_of d = trunc_seconds d * 1000000000"

definition event_time :: "int \<Rightarrow> int \<Rightarrow> int \<Rightarrow> int" where
  "event_time ref_system ref_monotonic t = ref_system - seconds_of (ref_monotonic - t)"

definition FlushSavedRecord ::
    "(int \<Rightarrow> int) \<Rightarrow> 's EventLogger \<Rightarrow> SavedEventRecord \<Rightarrow> int \<Rightarrow> int \<Rightarrow> 's AggregateStore \<Rightarrow> (Status \<times> 's AggregateStore) option" where
  "FlushSavedRecord utc_offset el saved ref_system ref_monotonic s =
     (case rec_metric (saved_event saved) of
        None \<Rightarrow> None
      | Some metric \<Rightarrow>
          (case Create (metric_type metric) of
             None \<Rightarrow> Some (kInvalidArguments, s)
           | Some c \<Rightarrow> EventLogger_Log utc_offset c el (saved_event saved) (event_time ref_system ref_monotonic (monotonic_time saved)) s))"

text \<open>The part of \<open>Save\<close> that puts the record into the queue.\<close>

definition enqueue :: "SavedEventRecord \<Rightarrow> project_id_pair \<Rightarrow> 's UndatedEventManager \<Rightarrow> 's UndatedEventManager option" where
  "enqueue saved id_pair u =
     (case (if length (saved_records u) \<ge> max_saved_events u
            then (case saved_records u of
                    [] \<Rightarrow> None
                  | dropped # rest \<Rightarrow>
                      map_option (\<lambda>m. u\<lparr>saved_records := rest,
                        num_events_dropped := increment (metric_customer_id m, metric_project_id m) (num_events_dropped u)\<rparr>)
                        (rec_metric (saved_event dropped)))
            else Some u) of
        None \<Rightarrow> None
      | Some u \<Rightarrow> Some (u\<lparr>saved_records := saved_records u @ [saved], num_events_cached := increment id_pair (num_events_cached u)\<rparr>))"

definition Save :: "(int \<Rightarrow> int) \<Rightarrow> EventRecord \<Rightarrow> 's LoggerState \<Rightarrow> (Status \<times> 's LoggerState) option" where
  "Save utc_offset r w =
     (case (rec_metric r, ls_undated w) of
        (Some m, Some u) \<Rightarrow>
          (case read_steady w of
             (now, w) \<Rightarrow>
               let saved = \<lparr>monotonic_time = now, saved_event = r\<rparr>
               in if uem_locked u then None
                  else if flushed u
                  then map_option (\<lambda>(st, s). (st, w\<lparr>ls_store := s\<rparr>))
                         (FlushSavedRecord utc_offset (uem_logger u) saved (reference_system_time u) (reference_monotonic_time u) (ls_store w))
                  else map_option (\<lambda>u. (kOK, w\<lparr>ls_undated := Some u\<rparr>)) (enqueue saved (metric_customer_id m, metric_project_id m) u))
      | _ \<Rightarrow> None)"

text \<open>The loop over the queue: the status of each record is only logged.\<close>

fun flush_records :: "(int \<Rightarrow> int) \<Rightarrow> 's EventLogger \<Rightarrow> int \<Rightarrow> int \<Rightarrow> SavedEventRecord list \<Rightarrow> 's AggregateStore \<Rightarrow> 's AggregateStore option" where
  "flush_records utc_offset el ref_system ref_monotonic [] s = Some s"
| "flush_records utc_offset el ref_system ref_monotonic (x # xs) s =
     (case FlushSavedRecord utc_offset el x ref_system ref_monotonic s of
        None \<Rightarrow> None
      | Some (_, s) \<Rightarrow> flush_records utc_offset el ref_system ref_monotonic xs s)"

fun report_counts :: "(i64 \<Rightarrow> u32 \<Rightarrow> u32 \<Rightarrow> 'w \<Rightarrow> 'w option) \<Rightarrow> (project_id_pair \<times> i64) list \<Rightarrow> 'w \<Rightarrow> 'w option" where
  "report_counts f [] w = Some w"
| "report_counts f (((cid, pid), n) # m) w = (case f n cid pid w of None \<Rightarrow> None | Some w \<Rightarrow> report_counts f m w)"

definition set_undated :: "('s UndatedEventManager \<Rightarrow> 's UndatedEventManager) \<Rightarrow> 's LoggerState \<Rightarrow> 's LoggerState" where
  "set_undated f w = w\<lparr>ls_undated := map_option f (ls_undated w)\<rparr>"

definition Flush ::
    "(int \<Rightarrow> int) \<Rightarrow> InternalMetricIds \<Rightarrow> int \<Rightarrow> 's LoggerState LoggerInterface option \<Rightarrow> 's LoggerState \<Rightarrow> (Status \<times> 's LoggerState) option" where
  "Flush utc_offset ids system_now internal_lg w =
     (case ls_undated w of
        None \<Rightarrow> None
      | Some u \<Rightarrow>
          if uem_locked u then None
          else
            case read_steady (set_undated (\<lambda>u. u\<lparr>uem_locked := True, reference_system_time := system_now\<rparr>) w) of
              (mono_now, w) \<Rightarrow>
                (case flush_records utc_offset (uem_logger u) system_now mono_now (saved_records u) (ls_store w) of
                   None \<Rightarrow> None
                 | Some s \<Rightarrow>
                     let w = set_undated (\<lambda>u. u\<lparr>reference_monotonic_time := mono_now, saved_records := []\<rparr>) (w\<lparr>ls_store := s\<rparr>)
                     in (case InternalMetricsImpl_ctor internal_lg of
                           None \<Rightarrow> None
                         | Some im \<Rightarrow>
                             (case report_counts (InaccurateClockEventsCached ids im) (num_events_cached u) w of
                                None \<Rightarrow> None
                              | Some w \<Rightarrow>
                                  (case report_counts (InaccurateClockEventsDropped ids im) (num_events_dropped u) w of
                                     None \<Rightarrow> None
                                   | Some w \<Rightarrow>
                                       Some (kOK, set_undated (\<lambda>u. u\<lparr>num_events_cached := [], num_events_dropped := [], flushed := True, uem_locked := False\<rparr>) w))))))"

definition NumSavedEvents :: "'s UndatedEventManager \<Rightarrow> nat" where
  "NumSavedEvents u = length (saved_records u)"

section \<open>The counters\<close>

definition counted :: "(project_id_pair \<times> i64) list \<Rightarrow> project_id_pair \<Rightarrow> i64" where
  "counted m k = (case map_of m k of None \<Rightarrow> 0 | Some n \<Rightarrow> n)"

definition keys_ascend :: "(project_id_pair \<times> i64) list \<Rightarrow> bool" where
  "keys_ascend m \<longleftrightarrow> sorted_wrt (\<lambda>a b. pair_less_eq a b \<and> a \<noteq> b) (map fst m)"

lemma pair_less_eq_trans: "pair_less_eq a b \<Longrightarrow> pair_less_eq b c \<Longrightarrow> pair_less_eq a c"
  by (auto simp: pair_less_eq_def split: prod.splits)

lemma pair_less_eq_antisym: "pair_less_eq a b \<Longrightarrow> pair_less_eq b a \<Longrightarrow> a = b"
  by (auto simp: pair_less_eq_def prod_eq_iff)

lemma pair_less_eq_linear: "pair_less_eq a b \<or> pair_less_eq b a"
  by (auto simp: pair_less_eq_def split: prod.splits)

lemma fst_increment: "fst ` set (increment k m) = insert k (fst ` set m)"
  by (induction k m rule: increment.induct) auto

lemma keys_ascend_increment: "keys_ascend m \<Longrightarrow> keys_ascend (increment k m)"
proof (induction k m rule: increment.induct)
  case (2 k k' n m)
  have tail: "x \<in> fst ` set m \<Longrightarrow> pair_less_eq k' x \<and> k' \<noteq> x" for x
    using "2.prems" by (auto simp: keys_ascend_def)
  show ?case
  proof (cases "k = k'")
    case False
    show ?thesis
    proof (cases "pair_less_eq k k'")
      case True
      then have "pair_less_eq k x \<and> k \<noteq> x" if "x \<in> fst ` set m" for x
        using tail [OF that] pair_less_eq_trans pair_less_eq_antisym False by blast
      with True False "2.prems" show ?thesis by (auto simp: keys_ascend_def)
    next
      case nle: False
      with pair_less_eq_linear have "pair_less_eq k' k" by blast
      with False tail have "x \<in> fst ` set (increment k m) \<Longrightarrow> pair_less_eq k' x \<and> k' \<noteq> x" for x
        unfolding fst_increment by blast
      with nle False 2 show ?thesis by (auto simp: keys_ascend_def)
    qed
  qed (use "2.prems" in \<open>auto simp: keys_ascend_def\<close>)
qed (simp add: keys_ascend_def)

lemma counted_increment:
  assumes "keys_ascend m"
  shows "counted (increment k m) x = counted m x + (if x = k then 1 else 0)"
  using assms
proof (induction k m rule: increment.induct)
  case (2 k k' n m)
  have "pair_less_eq k' x" if "x \<in> fst ` set m" for x using "2.prems" that by (auto simp: keys_ascend_def)
  then have "k \<notin> fst ` set m" if "pair_less_eq k k'" "k \<noteq> k'"
    using that pair_less_eq_antisym by blast
  then have new: "map_of m k = None" if "pair_less_eq k k'" "k \<noteq> k'"
    using that by (simp add: map_of_eq_None_iff)
  have "keys_ascend m" using "2.prems" by (simp add: keys_ascend_def)
  with "2.IH" new show ?case by (auto simp: counted_def)
qed (simp add: counted_def)

section \<open>The queue\<close>

text \<open>An event that \<open>Logger::Log\<close> has validated.\<close>

definition recordable :: "EventRecord \<Rightarrow> bool" where
  "recordable r \<longleftrightarrow> (\<exists>m c. rec_metric r = Some m \<and> Create (metric_type m) = Some c \<and> matches c (event_type (rec_event r)))"

definition ids_of :: "EventRecord \<Rightarrow> project_id_pair" where
  "ids_of r = (case rec_metric r of Some m \<Rightarrow> (metric_customer_id m, metric_project_id m) | None \<Rightarrow> (0, 0))"

definition waiting_for :: "project_id_pair \<Rightarrow> 's UndatedEventManager \<Rightarrow> nat" where
  "waiting_for p u = length (filter (\<lambda>x. ids_of (saved_event x) = p) (saved_records u))"

text \<open>The queue is bounded and holds validated events, and the counters of a project account for every event: each was counted
  when it was saved and is waiting or was dropped.\<close>

definition uem_inv :: "'s UndatedEventManager \<Rightarrow> bool" where
  "uem_inv u \<longleftrightarrow> 0 < max_saved_events u \<and> length (saved_records u) \<le> max_saved_events u \<and>
     (\<forall>x \<in> set (saved_records u). recordable (saved_event x)) \<and>
     keys_ascend (num_events_cached u) \<and> keys_ascend (num_events_dropped u) \<and>
     (flushed u \<longrightarrow> saved_records u = []) \<and>
     (\<not> flushed u \<longrightarrow> (\<forall>p. counted (num_events_cached u) p = of_nat (waiting_for p u) + counted (num_events_dropped u) p))"

lemma UndatedEventManager_ctor_inv:
  assumes "0 < sint (n :: 32 word)"
  shows "uem_inv (UndatedEventManager_ctor el n)"
proof -
  have "sint n < 2 ^ 31" using sint_lt [of n] by simp
  then have "(word_of_int (sint n) :: u64) \<noteq> word_of_int 0"
    using assms unfolding word_of_int_eq_iff by (simp add: take_bit_int_eq_self)
  then have "(scast n :: u64) \<noteq> 0" by simp
  then show ?thesis by (simp add: uem_inv_def UndatedEventManager_ctor_def keys_ascend_def counted_def waiting_for_def unat_gt_0)
qed

lemma enqueue_inv:
  assumes inv: "uem_inv u" "\<not> flushed u" and r: "recordable r"
  shows "\<exists>u'. enqueue \<lparr>monotonic_time = t, saved_event = r\<rparr> (ids_of r) u = Some u' \<and> uem_inv u' \<and>
    u' = u\<lparr>saved_records := drop (length (saved_records u) + 1 - max_saved_events u) (saved_records u) @ [\<lparr>monotonic_time = t, saved_event = r\<rparr>],
      num_events_cached := num_events_cached u', num_events_dropped := num_events_dropped u'\<rparr>"
proof (cases "length (saved_records u) \<ge> max_saved_events u")
  case False
  then have "enqueue \<lparr>monotonic_time = t, saved_event = r\<rparr> (ids_of r) u =
      Some (u\<lparr>saved_records := saved_records u @ [\<lparr>monotonic_time = t, saved_event = r\<rparr>], num_events_cached := increment (ids_of r) (num_events_cached u)\<rparr>)"
    by (simp add: enqueue_def)
  with False inv r show ?thesis
    by (auto simp: uem_inv_def waiting_for_def keys_ascend_increment counted_increment)
next
  case True
  with inv(1) have len: "length (saved_records u) = max_saved_events u" "0 < max_saved_events u" by (auto simp: uem_inv_def)
  then obtain d rest where sr: "saved_records u = d # rest" by (cases "saved_records u") auto
  with inv(1) have "recordable (saved_event d)" by (simp add: uem_inv_def)
  then obtain m where m: "rec_metric (saved_event d) = Some m" by (auto simp: recordable_def)
  then have ids: "ids_of (saved_event d) = (metric_customer_id m, metric_project_id m)" by (simp add: ids_of_def)
  have "enqueue \<lparr>monotonic_time = t, saved_event = r\<rparr> (ids_of r) u =
      Some (u\<lparr>saved_records := rest @ [\<lparr>monotonic_time = t, saved_event = r\<rparr>], num_events_dropped := increment (ids_of (saved_event d)) (num_events_dropped u),
        num_events_cached := increment (ids_of r) (num_events_cached u)\<rparr>)"
    using True by (simp add: enqueue_def sr m ids)
  with len inv r sr show ?thesis
    by (auto simp: uem_inv_def waiting_for_def keys_ascend_increment counted_increment)
qed

section \<open>Logging returns\<close>

lemma write_encoded_returns: "encoded e ref report day P res \<Longrightarrow> \<exists>st s'. write_encoded lg (res, r) s = Some (st, s')"
  by (cases "status res = kOK") (auto simp: encoded_def write_encoded_def Let_def split: prod.splits)

lemma log_report_returns:
  assumes "matches c (event_type (rec_event r))" and "rec_metric r = Some metric"
  shows "\<exists>st s'. log_report c lg ref r report s = Some (st, s')"
proof -
  obtain st1 s1 where s1: "MaybeUpdateLocalAggregation c report r s = Some (st1, s1)"
    using MaybeUpdateLocalAggregation_result [OF assms(2)] by blast
  obtain res r' where enc: "MaybeEncodeImmediateObservation c (el_encoder lg) ref report False (rec_event r) (random s1) = Some ((res, r'), rec_event r)"
    "if report_type report \<in> immediate_types c
     then encoded (el_encoder lg) ref report (event_day_index (rec_event r)) (observes (el_encoder lg) (event_type (rec_event r))) res
     else if report_type report \<in> aggregated_types c then res = no_result kOK else res = BadReportType"
    using MaybeEncode_result [OF assms(1)] by blast
  have "\<exists>st s'. write_encoded lg (res, r') s1 = Some (st, s')"
    using enc(2) write_encoded_returns by (auto simp: write_encoded_cases split: if_splits)
  with s1 enc(1) show ?thesis by (auto simp: log_report_def MaybeGenerate_eq)
qed

lemma try_each_returns: "(\<And>x s. \<exists>st s'. body x s = Some (st, s')) \<Longrightarrow> \<exists>st s'. try_each body xs s = Some (st, s')"
proof (induction xs arbitrary: s)
  case (Cons x xs)
  obtain st s1 where "body x s = Some (st, s1)" using Cons.prems by blast
  with Cons show ?case by simp
qed simp

lemma EventLogger_Log_returns:
  assumes "matches c (event_type (rec_event r))" and "rec_metric r = Some metric"
  shows "\<exists>st s'. EventLogger_Log utc_offset c lg r t s = Some (st, s')"
proof -
  let ?r = "r\<lparr>rec_event := FinalizeEvent utc_offset t metric (rec_event r)\<rparr>"
  have r: "matches c (event_type (rec_event ?r))" "rec_metric ?r = Some metric"
    using assms by (simp_all add: FinalizeEvent_def Let_def)
  have "\<exists>st s'. log_reports c lg ref ?r (reports metric) s = Some (st, s')" for ref
    unfolding log_reports_copies by (rule try_each_returns) (rule log_report_returns [OF r])
  then show ?thesis by (simp add: EventLogger_Log_def assms(2) Let_def)
qed

lemma FlushSavedRecord_returns:
  "recordable (saved_event x) \<Longrightarrow> \<exists>st s'. FlushSavedRecord utc_offset el x ref_system ref_monotonic s = Some (st, s')"
  using EventLogger_Log_returns by (auto simp: recordable_def FlushSavedRecord_def)

lemma flush_records_returns:
  "(\<forall>x \<in> set xs. recordable (saved_event x)) \<Longrightarrow> \<exists>s'. flush_records utc_offset el ref_system ref_monotonic xs s = Some s'"
proof (induction xs arbitrary: s)
  case (Cons x xs)
  obtain st s1 where "FlushSavedRecord utc_offset el x ref_system ref_monotonic s = Some (st, s1)"
    using FlushSavedRecord_returns Cons.prems by (metis list.set_intros(1))
  with Cons show ?case by simp
qed simp

section \<open>Dates of saved events\<close>

text \<open>The date of a saved event is at most one second later than the time at which it was saved, by the system clock at the flush.\<close>

lemma event_time_bounds:
  assumes "t \<le> ref_monotonic"
  shows "ref_system - (ref_monotonic - t) \<le> event_time ref_system ref_monotonic t"
    and "event_time ref_system ref_monotonic t < ref_system - (ref_monotonic - t) + 1000000000"
proof -
  let ?d = "ref_monotonic - t"
  have "seconds_of ?d = ?d div 1000000000 * 1000000000" using assms by (simp add: seconds_of_def trunc_seconds_def)
  moreover have "?d - 1000000000 < ?d div 1000000000 * 1000000000" "?d div 1000000000 * 1000000000 \<le> ?d"
    using div_mult_mod_eq [of ?d 1000000000] pos_mod_bound [of 1000000000 ?d] pos_mod_sign [of 1000000000 ?d] by linarith+
  ultimately show "ref_system - ?d \<le> event_time ref_system ref_monotonic t"
    "event_time ref_system ref_monotonic t < ref_system - ?d + 1000000000"
    by (simp_all add: event_time_def)
qed

section \<open>Save\<close>

lemma Save_flushed:
  assumes "ls_undated w = Some u" and "\<not> uem_locked u" and "flushed u" and "recordable r"
  shows "\<exists>st s. Save utc_offset r w = Some (st, w\<lparr>ls_tick := ls_tick w + 1, ls_store := s\<rparr>)"
proof -
  let ?x = "\<lparr>monotonic_time = ls_steady w (ls_tick w), saved_event = r\<rparr>"
  obtain st s where "FlushSavedRecord utc_offset (uem_logger u) ?x (reference_system_time u) (reference_monotonic_time u) (ls_store w) = Some (st, s)"
    using FlushSavedRecord_returns [of ?x utc_offset "uem_logger u" "reference_system_time u" "reference_monotonic_time u" "ls_store w"] assms(4)
    by auto
  with assms show ?thesis by (auto simp: Save_def read_steady_def recordable_def)
qed

lemma Save_waiting:
  assumes "ls_undated w = Some u" and "uem_inv u" and "\<not> flushed u" and "\<not> uem_locked u" and "recordable r"
  shows "\<exists>u'. Save utc_offset r w = Some (kOK, w\<lparr>ls_tick := ls_tick w + 1, ls_undated := Some u'\<rparr>) \<and> uem_inv u' \<and> \<not> flushed u' \<and> \<not> uem_locked u' \<and>
    max_saved_events u' = max_saved_events u \<and>
    saved_records u' = drop (length (saved_records u) + 1 - max_saved_events u) (saved_records u) @
      [\<lparr>monotonic_time = ls_steady w (ls_tick w), saved_event = r\<rparr>]"
proof -
  obtain m where m: "rec_metric r = Some m" using assms(5) by (auto simp: recordable_def)
  let ?x = "\<lparr>monotonic_time = ls_steady w (ls_tick w), saved_event = r\<rparr>"
  obtain u' where u': "enqueue ?x (ids_of r) u = Some u'" "uem_inv u'"
    "u' = u\<lparr>saved_records := drop (length (saved_records u) + 1 - max_saved_events u) (saved_records u) @ [?x],
      num_events_cached := num_events_cached u', num_events_dropped := num_events_dropped u'\<rparr>"
    using enqueue_inv [OF assms(2,3,5)] by blast
  have sel: "flushed u' = flushed u" "uem_locked u' = uem_locked u" "max_saved_events u' = max_saved_events u"
    "saved_records u' = drop (length (saved_records u) + 1 - max_saved_events u) (saved_records u) @ [?x]"
    by (subst u'(3), simp)+
  have "Save utc_offset r w = Some (kOK, w\<lparr>ls_tick := ls_tick w + 1, ls_undated := Some u'\<rparr>)"
    using assms(1,3,4) m u'(1) by (simp add: Save_def read_steady_def ids_of_def)
  with u'(2) sel assms(3,4) show ?thesis by (intro exI [of _ u']) simp
qed

text \<open>C19. Saving an undated event: while the queue has not been flushed, \<open>Save\<close> returns \<open>kOK\<close> and appends the event with the time
  of the steady clock; a full queue first drops its oldest event, so that its length never exceeds the limit. The
  counters of every project account for all its events: those saved are those that wait and those that were dropped.\<close>

theorem Save_bounded_queue:
  assumes "ls_undated w = Some u" and "uem_inv u" and "\<not> flushed u" and "\<not> uem_locked u" and "recordable r"
  shows "\<exists>u'. Save utc_offset r w = Some (kOK, w\<lparr>ls_tick := ls_tick w + 1, ls_undated := Some u'\<rparr>) \<and> uem_inv u' \<and>
    saved_records u' = drop (length (saved_records u) + 1 - max_saved_events u) (saved_records u) @
      [\<lparr>monotonic_time = ls_steady w (ls_tick w), saved_event = r\<rparr>] \<and>
    length (saved_records u') \<le> max_saved_events u \<and>
    (\<forall>p. counted (num_events_cached u') p = of_nat (waiting_for p u') + counted (num_events_dropped u') p)"
proof -
  obtain u' where u': "Save utc_offset r w = Some (kOK, w\<lparr>ls_tick := ls_tick w + 1, ls_undated := Some u'\<rparr>)"
    "uem_inv u'" "\<not> flushed u'" "max_saved_events u' = max_saved_events u"
    "saved_records u' = drop (length (saved_records u) + 1 - max_saved_events u) (saved_records u) @
      [\<lparr>monotonic_time = ls_steady w (ls_tick w), saved_event = r\<rparr>]"
    using Save_waiting [OF assms, of utc_offset] by blast
  moreover from this(2,3) have "length (saved_records u') \<le> max_saved_events u'"
    "\<forall>p. counted (num_events_cached u') p = of_nat (waiting_for p u') + counted (num_events_dropped u') p"
    by (simp_all add: uem_inv_def)
  ultimately show ?thesis by (intro exI [of _ u']) simp
qed

text \<open>A call of \<open>Save\<close> while \<open>Flush\<close> holds the mutex does not return.\<close>

lemma Save_locked: "ls_undated w = Some u \<Longrightarrow> uem_locked u \<Longrightarrow> Save utc_offset r w = None"
  by (auto simp: Save_def read_steady_def split: option.splits)

text \<open>\<open>Flush\<close> fails the \<open>CHECK\<close> in the constructor of the internal metrics when it is given no internal logger.\<close>

theorem Flush_without_internal_logger: "Flush utc_offset ids system_now None w = None"
  by (simp add: Flush_def InternalMetricsImpl_ctor_def split: option.splits prod.splits)

section \<open>Reporting the counters\<close>

context internal_logger
begin

lemma report_counts_returns:
  assumes step: "\<And>n cid pid w. ok w \<Longrightarrow> \<exists>w'. f n cid pid w = Some w' \<and> ok w' \<and> R w w'" and "ok w"
  shows "\<exists>w'. report_counts f m w = Some w' \<and> ok w' \<and> R w w'"
  using assms(2)
proof (induction m arbitrary: w)
  case Nil
  with R_refl show ?case by simp
next
  case (Cons x m)
  obtain cid pid n where x: "x = ((cid, pid), n)" by (metis prod.exhaust)
  obtain w1 where w1: "f n cid pid w = Some w1" "ok w1" "R w w1" using step [OF Cons.prems] by blast
  obtain w' where w': "report_counts f m w1 = Some w'" "ok w'" "R w1 w'" using Cons.IH [OF w1(2)] by blast
  then have "report_counts f (x # m) w = Some w'" using w1(1) x by simp
  with w'(2) R_trans [OF w1(3) w'(3)] show ?case by blast
qed

lemma clock_reports_return:
  assumes "uses_logger li m" and "ok w"
  shows "\<exists>w'. report_counts (InaccurateClockEventsCached ids m) counts w = Some w' \<and> ok w' \<and> R w w'"
    and "\<exists>w'. report_counts (InaccurateClockEventsDropped ids m) counts w = Some w' \<and> ok w' \<and> R w w'"
  using assms by (auto intro!: report_counts_returns clock_metrics_return)

end

end
