(* ===== verification/Logger.thy ===== *)
theory Logger
  imports Undated_Events
begin

text \<open>
  \<open>Logger\<close> (\<^verbatim>\<open>src/src/logger/logger.cc\<close>): the methods clients call. Each builds the event record, reports the call to the internal
  metrics, validates the event and logs it with the time of the validated clock, or saves it when that clock has no time.
  The enumeration of the logger methods is generated; its values are parameters of the methods, in a record.
\<close>

record LoggerMethods =
  method_LogEvent :: u32
  method_LogEventCount :: u32
  method_LogElapsedTime :: u32
  method_LogFrameRate :: u32
  method_LogMemoryUsage :: u32
  method_LogIntHistogram :: u32
  method_LogCustomEvent :: u32

text \<open>What does not change: the time zone, the generated constants.\<close>

record LoggerConfig =
  lc_utc_offset :: "int \<Rightarrow> int"
  lc_ids :: InternalMetricIds
  lc_methods :: LoggerMethods

text \<open>\<open>lg_clock\<close> is the validated clock: its reading at each tick. \<open>lg_undated\<close> says whether the logger was given an undated-event
  manager, which may have been destroyed since.\<close>

record 's Logger =
  lg_context :: ProjectContext
  lg_event_logger :: "'s EventLogger"
  lg_internal_metrics :: "'s LoggerState InternalMetrics"
  lg_clock :: "nat \<Rightarrow> int option"
  lg_undated :: bool

definition Logger_ctor ::
    "ProjectContext \<Rightarrow> 's EventLogger \<Rightarrow> (nat \<Rightarrow> int option) \<Rightarrow> bool \<Rightarrow> 's LoggerState LoggerInterface option \<Rightarrow> 's LoggerState \<Rightarrow>
     ('s Logger \<times> 's LoggerState) option" where
  "Logger_ctor ctx el validated_clock undated internal_lg w =
     map_option (\<lambda>(st, s).
       (\<lparr>lg_context = ctx, lg_event_logger = el, lg_internal_metrics = NewWithLogger internal_lg, lg_clock = validated_clock, lg_undated = undated\<rparr>,
        w\<lparr>ls_store := s\<rparr>)) (UpdateAggregationConfigs ctx (ls_store w))"

definition is_internal_logger :: "'s Logger \<Rightarrow> bool" where
  "is_internal_logger lg \<longleftrightarrow> lg_internal_metrics lg = NoOpInternalMetrics"

definition read_clock :: "'s Logger \<Rightarrow> 's LoggerState \<Rightarrow> int option \<times> 's LoggerState" where
  "read_clock lg w = (lg_clock lg (ls_tick w), w\<lparr>ls_tick := ls_tick w + 1\<rparr>)"

definition log_dated :: "LoggerConfig \<Rightarrow> 's Logger \<Rightarrow> EventLoggerClass \<Rightarrow> EventRecord \<Rightarrow> int \<Rightarrow> 's LoggerState \<Rightarrow> (Status \<times> 's LoggerState) option" where
  "log_dated cfg lg c r now w =
     map_option (\<lambda>(st, s). (st, w\<lparr>ls_store := s\<rparr>)) (EventLogger_Log (lc_utc_offset cfg) c (lg_event_logger lg) r now (ls_store w))"

definition Logger_Log :: "LoggerConfig \<Rightarrow> 's Logger \<Rightarrow> MetricType \<Rightarrow> EventRecord \<Rightarrow> 's LoggerState \<Rightarrow> (Status \<times> 's LoggerState) option" where
  "Logger_Log cfg lg ty r w =
     (case Create ty of
        None \<Rightarrow> None
      | Some c \<Rightarrow>
          (case PrepareAndValidateEvent c ty r of
             None \<Rightarrow> None
           | Some st \<Rightarrow>
               if st \<noteq> kOK then Some (st, w)
               else case read_clock lg w of
                      (Some now, w) \<Rightarrow> log_dated cfg lg c r now w
                    | (None, w) \<Rightarrow>
                        if lg_undated lg \<and> ls_undated w \<noteq> None then Save (lc_utc_offset cfg) r w
                        else case read_clock lg w of
                               (Some now, w) \<Rightarrow> log_dated cfg lg c r now w
                             | (None, w) \<Rightarrow> Some (kOther, w)))"

text \<open>A record for the metric with an event of the given type.\<close>

definition new_record :: "'s Logger \<Rightarrow> u32 \<Rightarrow> EventType \<Rightarrow> EventRecord" where
  "new_record lg mid t = (EventRecord_ctor (lg_context lg) mid)\<lparr>rec_event := \<lparr>event_type = t, event_day_index = 0, event_hour_index = 0\<rparr>\<rparr>"

definition log_call ::
    "LoggerConfig \<Rightarrow> 's Logger \<Rightarrow> u32 \<Rightarrow> MetricType \<Rightarrow> EventRecord \<Rightarrow> 's LoggerState \<Rightarrow> (Status \<times> 's LoggerState) option" where
  "log_call cfg lg logger_method ty r w =
     (case LoggerCalled (lc_ids cfg) (lg_internal_metrics lg) logger_method (project (lg_context lg)) w of
        None \<Rightarrow> None
      | Some w \<Rightarrow> Logger_Log cfg lg ty r w)"

definition LogEvent :: "LoggerConfig \<Rightarrow> 's Logger \<Rightarrow> u32 \<Rightarrow> u32 \<Rightarrow> 's LoggerState \<Rightarrow> (Status \<times> 's LoggerState) option" where
  "LogEvent cfg lg mid code =
     log_call cfg lg (method_LogEvent (lc_methods cfg)) EVENT_OCCURRED (new_record lg mid (event_occurred_event code))"

text \<open>\<open>count\<close> is a \<open>uint32_t\<close> and the field of the event an \<open>int64\<close>.\<close>

definition LogEventCount ::
    "LoggerConfig \<Rightarrow> 's Logger \<Rightarrow> u32 \<Rightarrow> u32 list \<Rightarrow> string \<Rightarrow> i64 \<Rightarrow> u32 \<Rightarrow> 's LoggerState \<Rightarrow> (Status \<times> 's LoggerState) option" where
  "LogEventCount cfg lg mid codes component period n =
     log_call cfg lg (method_LogEventCount (lc_methods cfg)) EVENT_COUNT (new_record lg mid (event_count_event codes component period (ucast n)))"

definition LogElapsedTime ::
    "LoggerConfig \<Rightarrow> 's Logger \<Rightarrow> u32 \<Rightarrow> u32 list \<Rightarrow> string \<Rightarrow> i64 \<Rightarrow> 's LoggerState \<Rightarrow> (Status \<times> 's LoggerState) option" where
  "LogElapsedTime cfg lg mid codes component v =
     log_call cfg lg (method_LogElapsedTime (lc_methods cfg)) ELAPSED_TIME (new_record lg mid (elapsed_time_event codes component v))"

text \<open>A \<open>float\<close> is the rational number it stands for: the product with 1000 is exact in a \<open>double\<close>, and \<open>std::round\<close> rounds halves
  away from zero. The conversion to \<open>int64_t\<close> of a number out of its range is undefined, \<open>None\<close> here, as are infinities and NaN,
  which are not numbers.\<close>

definition std_round :: "rat \<Rightarrow> int" where
  "std_round x = (if x < 0 then - \<lfloor>- x + 1 / 2\<rfloor> else \<lfloor>x + 1 / 2\<rfloor>)"

definition frames_per_1000_seconds :: "rat \<Rightarrow> i64 option" where
  "frames_per_1000_seconds fps =
     (let n = std_round (fps * 1000) in if - (2 ^ 63) \<le> n \<and> n < 2 ^ 63 then Some (of_int n) else None)"

definition LogFrameRate ::
    "LoggerConfig \<Rightarrow> 's Logger \<Rightarrow> u32 \<Rightarrow> u32 list \<Rightarrow> string \<Rightarrow> rat \<Rightarrow> 's LoggerState \<Rightarrow> (Status \<times> 's LoggerState) option" where
  "LogFrameRate cfg lg mid codes component fps w =
     (case frames_per_1000_seconds fps of
        None \<Rightarrow> None
      | Some v \<Rightarrow> log_call cfg lg (method_LogFrameRate (lc_methods cfg)) FRAME_RATE (new_record lg mid (frame_rate_event codes component v)) w)"

definition LogMemoryUsage ::
    "LoggerConfig \<Rightarrow> 's Logger \<Rightarrow> u32 \<Rightarrow> u32 list \<Rightarrow> string \<Rightarrow> i64 \<Rightarrow> 's LoggerState \<Rightarrow> (Status \<times> 's LoggerState) option" where
  "LogMemoryUsage cfg lg mid codes component v =
     log_call cfg lg (method_LogMemoryUsage (lc_methods cfg)) MEMORY_USAGE (new_record lg mid (memory_usage_event codes component v))"

definition LogIntHistogram ::
    "LoggerConfig \<Rightarrow> 's Logger \<Rightarrow> u32 \<Rightarrow> u32 list \<Rightarrow> string \<Rightarrow> HistogramBucket list \<Rightarrow> 's LoggerState \<Rightarrow> (Status \<times> 's LoggerState) option" where
  "LogIntHistogram cfg lg mid codes component buckets =
     log_call cfg lg (method_LogIntHistogram (lc_methods cfg)) INT_HISTOGRAM (new_record lg mid (int_histogram_event codes component buckets))"

definition LogCustomEvent :: "LoggerConfig \<Rightarrow> 's Logger \<Rightarrow> u32 \<Rightarrow> EventValues \<Rightarrow> 's LoggerState \<Rightarrow> (Status \<times> 's LoggerState) option" where
  "LogCustomEvent cfg lg mid vs =
     log_call cfg lg (method_LogCustomEvent (lc_methods cfg)) CUSTOM (new_record lg mid (custom_event vs))"

definition PauseInternalLogging :: "'s Logger \<Rightarrow> 's Logger" where
  "PauseInternalLogging lg = lg\<lparr>lg_internal_metrics := PauseLogging (lg_internal_metrics lg)\<rparr>"

definition ResumeInternalLogging :: "'s Logger \<Rightarrow> 's Logger" where
  "ResumeInternalLogging lg = lg\<lparr>lg_internal_metrics := ResumeLogging (lg_internal_metrics lg)\<rparr>"

definition RecordLoggerCall :: "LoggerConfig \<Rightarrow> 's Logger \<Rightarrow> u32 \<Rightarrow> 's LoggerState \<Rightarrow> 's LoggerState option" where
  "RecordLoggerCall cfg lg logger_method = LoggerCalled (lc_ids cfg) (lg_internal_metrics lg) logger_method (project (lg_context lg))"

text \<open>A logger as the \<open>LoggerInterface\<close> of the internal metrics of other loggers.\<close>

definition interface_of :: "LoggerConfig \<Rightarrow> 's Logger \<Rightarrow> 's LoggerState LoggerInterface" where
  "interface_of cfg lg = \<lparr>li_LogEventCount = LogEventCount cfg lg, li_LogMemoryUsage = LogMemoryUsage cfg lg\<rparr>"

section \<open>Every call returns\<close>

text \<open>The state between the calls of a client: the undated-event manager, if it still exists, satisfies its invariant and is not locked.\<close>

definition logger_state_ok :: "'s LoggerState \<Rightarrow> bool" where
  "logger_state_ok w \<longleftrightarrow> (case ls_undated w of None \<Rightarrow> True | Some u \<Rightarrow> uem_inv u \<and> \<not> uem_locked u)"

lemma logger_state_ok_simps [simp]:
  "logger_state_ok (w\<lparr>ls_store := s\<rparr>) = logger_state_ok w" "logger_state_ok (w\<lparr>ls_tick := n\<rparr>) = logger_state_ok w"
  by (simp_all add: logger_state_ok_def)

text \<open>The event has the type the class for the metric type expects.\<close>

definition typed_event :: "MetricType \<Rightarrow> EventRecord \<Rightarrow> bool" where
  "typed_event ty r \<longleftrightarrow> (\<exists>c. Create ty = Some c \<and> matches c (event_type (rec_event r)))"

lemma PrepareAndValidateEvent_returns: "matches c (event_type (rec_event r)) \<Longrightarrow> \<exists>st. PrepareAndValidateEvent c ty r = Some st"
  by (cases "event_type (rec_event r)") (auto simp: PrepareAndValidateEvent_def ValidateEvent_def matches_def split: option.splits)

lemma valid_event_recordable:
  assumes "typed_event ty r" and "Create ty = Some c" and "PrepareAndValidateEvent c ty r = Some kOK"
  shows "recordable r"
  using assms by (auto simp: typed_event_def recordable_def PrepareAndValidateEvent_def split: option.splits if_splits)

lemma Save_returns:
  assumes "ls_undated w = Some u" and "logger_state_ok w" and "recordable r"
  shows "\<exists>st w'. Save utc_offset r w = Some (st, w') \<and> logger_state_ok w'"
proof (cases "flushed u")
  case True
  with assms(1,2) obtain st s where "Save utc_offset r w = Some (st, w\<lparr>ls_tick := ls_tick w + 1, ls_store := s\<rparr>)"
    using Save_flushed [OF assms(1) _ True assms(3), of utc_offset] by (auto simp: logger_state_ok_def)
  with assms(2) show ?thesis by simp
next
  case False
  with assms(1,2) obtain u' where "Save utc_offset r w = Some (kOK, w\<lparr>ls_tick := ls_tick w + 1, ls_undated := Some u'\<rparr>)" "uem_inv u'" "\<not> uem_locked u'"
    using Save_waiting [OF assms(1) _ False _ assms(3), of utc_offset] by (auto simp: logger_state_ok_def)
  then show ?thesis by (simp add: logger_state_ok_def)
qed

lemma log_dated_returns:
  assumes "recordable r" and "rec_metric r = Some m" and "Create (metric_type m) = Some c"
  shows "\<exists>st s. log_dated cfg lg c r now w = Some (st, w\<lparr>ls_store := s\<rparr>)"
proof -
  have "matches c (event_type (rec_event r))" using assms by (auto simp: recordable_def)
  from EventLogger_Log_returns [OF this assms(2), of "lc_utc_offset cfg" "lg_event_logger lg" now "ls_store w"]
  show ?thesis by (auto simp: log_dated_def)
qed

lemma Logger_Log_returns:
  assumes "typed_event ty r" and "logger_state_ok w"
  shows "\<exists>st w'. Logger_Log cfg lg ty r w = Some (st, w') \<and> logger_state_ok w'"
proof -
  obtain c where c: "Create ty = Some c" "matches c (event_type (rec_event r))" using assms(1) by (auto simp: typed_event_def)
  obtain st where st: "PrepareAndValidateEvent c ty r = Some st" using PrepareAndValidateEvent_returns [OF c(2)] by blast
  show ?thesis
  proof (cases "st = kOK")
    case False
    with c st assms(2) show ?thesis by (simp add: Logger_Log_def)
  next
    case True
    with valid_event_recordable [OF assms(1) c(1)] st have r: "recordable r" by simp
    from st True obtain m where m: "rec_metric r = Some m" "Create (metric_type m) = Some c"
      using c(1) by (auto simp: PrepareAndValidateEvent_def split: option.splits if_splits)
    let ?w1 = "w\<lparr>ls_tick := ls_tick w + 1\<rparr>"
    have dated: "\<exists>st w'. log_dated cfg lg c r now w1 = Some (st, w') \<and> logger_state_ok w'" if "logger_state_ok w1" for now w1
      using log_dated_returns [OF r m, of cfg lg now w1] that by auto
    have save: "\<exists>st w'. Save (lc_utc_offset cfg) r ?w1 = Some (st, w') \<and> logger_state_ok w'" if "ls_undated w = Some u" for u
      using Save_returns [of ?w1 u, OF _ _ r] that assms(2) by simp
    have "Logger_Log cfg lg ty r w =
        (case lg_clock lg (ls_tick w) of
           Some now \<Rightarrow> log_dated cfg lg c r now ?w1
         | None \<Rightarrow> if lg_undated lg \<and> ls_undated w \<noteq> None then Save (lc_utc_offset cfg) r ?w1
             else (case lg_clock lg (ls_tick w + 1) of
                     Some now \<Rightarrow> log_dated cfg lg c r now (?w1\<lparr>ls_tick := ls_tick w + 2\<rparr>)
                   | None \<Rightarrow> Some (kOther, ?w1\<lparr>ls_tick := ls_tick w + 2\<rparr>)))"
      using c(1) st True by (auto simp: Logger_Log_def read_clock_def split: option.splits)
    with assms(2) dated save show ?thesis by (simp split: option.splits) blast+
  qed
qed

lemma typed_new_record:
  "typed_event EVENT_OCCURRED (new_record lg mid (event_occurred_event code))"
  "typed_event EVENT_COUNT (new_record lg mid (event_count_event codes component period n))"
  "typed_event ELAPSED_TIME (new_record lg mid (elapsed_time_event codes component v))"
  "typed_event FRAME_RATE (new_record lg mid (frame_rate_event codes component v))"
  "typed_event MEMORY_USAGE (new_record lg mid (memory_usage_event codes component v))"
  "typed_event INT_HISTOGRAM (new_record lg mid (int_histogram_event codes component buckets))"
  "typed_event CUSTOM (new_record lg mid (custom_event vs))"
  by (simp_all add: typed_event_def Create_def matches_def new_record_def)

text \<open>The internal logger, which has no internal metrics of its own, is what the internal metrics of the other loggers rely on.\<close>

lemma log_call_internal: "is_internal_logger lg \<Longrightarrow> log_call cfg lg f ty r w = Logger_Log cfg lg ty r w"
  by (simp add: log_call_def is_internal_logger_def LoggerCalled_def when_active_def)

interpretation internal: internal_logger "interface_of cfg il" "\<lambda>w. is_internal_logger il \<and> logger_state_ok w" "\<lambda>_ _. True"
proof
  fix w :: "'a LoggerState" and mid codes component period n v
  assume ok: "is_internal_logger il \<and> logger_state_ok w"
  show "\<exists>st w'. li_LogEventCount (interface_of cfg il) mid codes component period n w = Some (st, w') \<and>
      (is_internal_logger il \<and> logger_state_ok w') \<and> True"
    using ok Logger_Log_returns [OF typed_new_record(2), of w cfg il il mid codes component period "ucast n"]
    by (simp add: interface_of_def LogEventCount_def log_call_internal)
  show "\<exists>st w'. li_LogMemoryUsage (interface_of cfg il) mid codes component v w = Some (st, w') \<and>
      (is_internal_logger il \<and> logger_state_ok w') \<and> True"
    using ok Logger_Log_returns [OF typed_new_record(5), of w cfg il il mid codes component v]
    by (simp add: interface_of_def LogMemoryUsage_def log_call_internal)
qed simp_all

lemma log_call_returns:
  assumes "is_internal_logger il" and "uses_logger (interface_of cfg il) (lg_internal_metrics lg)"
    and "logger_state_ok w" and "typed_event ty r"
  shows "\<exists>st w'. log_call cfg lg f ty r w = Some (st, w') \<and> logger_state_ok w'"
proof -
  obtain w1 where "LoggerCalled (lc_ids cfg) (lg_internal_metrics lg) f (project (lg_context lg)) w = Some w1" "logger_state_ok w1"
    using internal.LoggerCalled_returns [OF assms(2)] assms(1,3) by blast
  with Logger_Log_returns [OF assms(4)] show ?thesis by (simp add: log_call_def)
qed

text \<open>A call of one of the methods of \<open>LoggerInterface\<close>.\<close>

datatype LoggerCall =
    CallLogEvent u32 u32
  | CallLogEventCount u32 "u32 list" string i64 u32
  | CallLogElapsedTime u32 "u32 list" string i64
  | CallLogFrameRate u32 "u32 list" string rat
  | CallLogMemoryUsage u32 "u32 list" string i64
  | CallLogIntHistogram u32 "u32 list" string "HistogramBucket list"
  | CallLogCustomEvent u32 EventValues

definition perform :: "LoggerConfig \<Rightarrow> 's Logger \<Rightarrow> LoggerCall \<Rightarrow> 's LoggerState \<Rightarrow> (Status \<times> 's LoggerState) option" where
  "perform cfg lg call =
     (case call of
        CallLogEvent mid code \<Rightarrow> LogEvent cfg lg mid code
      | CallLogEventCount mid codes component period n \<Rightarrow> LogEventCount cfg lg mid codes component period n
      | CallLogElapsedTime mid codes component v \<Rightarrow> LogElapsedTime cfg lg mid codes component v
      | CallLogFrameRate mid codes component fps \<Rightarrow> LogFrameRate cfg lg mid codes component fps
      | CallLogMemoryUsage mid codes component v \<Rightarrow> LogMemoryUsage cfg lg mid codes component v
      | CallLogIntHistogram mid codes component buckets \<Rightarrow> LogIntHistogram cfg lg mid codes component buckets
      | CallLogCustomEvent mid vs \<Rightarrow> LogCustomEvent cfg lg mid vs)"

text \<open>The frame rate fits its \<open>int64_t\<close>.\<close>

definition representable :: "LoggerCall \<Rightarrow> bool" where
  "representable call = (case call of CallLogFrameRate _ _ _ fps \<Rightarrow> frames_per_1000_seconds fps \<noteq> None | _ \<Rightarrow> True)"

fun perform_all :: "LoggerConfig \<Rightarrow> ('s Logger \<times> LoggerCall) list \<Rightarrow> 's LoggerState \<Rightarrow> (Status list \<times> 's LoggerState) option" where
  "perform_all cfg [] w = Some ([], w)"
| "perform_all cfg ((lg, call) # calls) w =
     (case perform cfg lg call w of
        None \<Rightarrow> None
      | Some (st, w) \<Rightarrow> map_option (\<lambda>(sts, w). (st # sts, w)) (perform_all cfg calls w))"

lemma perform_log_call:
  assumes "representable call"
  shows "\<exists>f ty r. perform cfg lg call w = log_call cfg lg f ty r w \<and> typed_event ty r"
proof (cases call)
  case (CallLogFrameRate mid codes component fps)
  with assms obtain v where "frames_per_1000_seconds fps = Some v" by (auto simp: representable_def)
  with CallLogFrameRate have "perform cfg lg call w =
      log_call cfg lg (method_LogFrameRate (lc_methods cfg)) FRAME_RATE (new_record lg mid (frame_rate_event codes component v)) w"
    by (simp add: perform_def LogFrameRate_def)
  then show ?thesis using typed_new_record(4) [of lg mid codes component v] by blast
qed (simp add: perform_def LogEvent_def LogEventCount_def LogElapsedTime_def LogMemoryUsage_def LogIntHistogram_def LogCustomEvent_def,
    intro exI conjI, rule refl, rule typed_new_record)+

lemma perform_all_returns:
  assumes step: "\<And>lg call w. (lg, call) \<in> set calls \<Longrightarrow> ok w \<Longrightarrow> \<exists>st w'. perform cfg lg call w = Some (st, w') \<and> ok w' \<and> R w w'"
    and R: "\<And>w. R w w" "\<And>w1 w2 w3. R w1 w2 \<Longrightarrow> R w2 w3 \<Longrightarrow> R w1 w3" and "ok w"
  shows "\<exists>sts w'. perform_all cfg calls w = Some (sts, w') \<and> length sts = length calls \<and> ok w' \<and> R w w'"
  using assms(1,4)
proof (induction calls arbitrary: w)
  case Nil
  with R(1) show ?case by simp
next
  case (Cons x calls)
  obtain lg call where x: "x = (lg, call)" by force
  then obtain st w1 where w1: "perform cfg lg call w = Some (st, w1)" "ok w1" "R w w1"
    using Cons.prems(1) [of lg call w] Cons.prems(2) by auto
  have "\<exists>sts w'. perform_all cfg calls w1 = Some (sts, w') \<and> length sts = length calls \<and> ok w' \<and> R w1 w'"
    by (rule Cons.IH [OF _ w1(2)], rule Cons.prems(1)) simp_all
  then obtain sts w' where "perform_all cfg calls w1 = Some (sts, w')" "length sts = length calls" "ok w'" "R w1 w'" by blast
  moreover from this(4) have "R w w'" by (rule R(2) [OF w1(3)])
  ultimately show ?case using w1(1) x by simp
qed

lemma perform_returns:
  assumes "is_internal_logger il" and "uses_logger (interface_of cfg il) (lg_internal_metrics lg)"
    and "logger_state_ok w" and "representable call"
  shows "\<exists>st w'. perform cfg lg call w = Some (st, w') \<and> logger_state_ok w'"
  using perform_log_call [OF assms(4), of cfg lg w] log_call_returns [OF assms(1-3)] by metis

text \<open>C13. Every call of a logger returns: whatever sequence of methods clients call on loggers that share an internal logger, with whatever metric
  ids, event codes and values, no call fails a \<open>CHECK\<close>, reads the front of an empty queue or waits for a mutex forever; each answers a status,
  and between the calls the undated-event manager satisfies its invariant.\<close>

theorem client_calls_return:
  assumes "is_internal_logger il" and "logger_state_ok w"
    and "\<forall>(lg, call) \<in> set calls. uses_logger (interface_of cfg il) (lg_internal_metrics lg) \<and> representable call"
  shows "\<exists>sts w'. perform_all cfg calls w = Some (sts, w') \<and> length sts = length calls \<and> logger_state_ok w'"
  using perform_all_returns [of calls logger_state_ok cfg "\<lambda>_ _. True" w] perform_returns [OF assms(1)] assms(2,3) by fastforce

section \<open>Flush\<close>

text \<open>The events logged one after the other with their times, each by the event logger for the type of its metric.\<close>

inductive logged_all ::
    "(int \<Rightarrow> int) \<Rightarrow> 's EventLogger \<Rightarrow> (EventRecord \<times> int) list \<Rightarrow> 's AggregateStore \<Rightarrow> Status list \<Rightarrow> 's AggregateStore \<Rightarrow> bool"
  for utc_offset el where
  logged_none: "logged_all utc_offset el [] s [] s"
| logged_next: "rec_metric r = Some m \<Longrightarrow> Create (metric_type m) = Some c \<Longrightarrow> EventLogger_Log utc_offset c el r t s = Some (st, s1) \<Longrightarrow>
    logged_all utc_offset el evs s1 sts s' \<Longrightarrow> logged_all utc_offset el ((r, t) # evs) s (st # sts) s'"

lemma flush_records_logged:
  assumes "\<forall>x \<in> set xs. recordable (saved_event x)" and "memory_ready size_of ser s"
    and "el_writer el = manager_writer (Memory_StoreObservation size_of ser) ops encrypter"
  shows "\<exists>sts s'. flush_records utc_offset el ref_system ref_monotonic xs s = Some s' \<and>
    logged_all utc_offset el (map (\<lambda>x. (saved_event x, event_time ref_system ref_monotonic (monotonic_time x))) xs) s sts s' \<and>
    memory_ready size_of ser s' \<and> stored s \<subseteq># stored s'"
  using assms(1,2)
proof (induction xs arbitrary: s)
  case Nil
  then show ?case by (auto intro: logged_none)
next
  case (Cons x xs)
  then obtain m c where m: "rec_metric (saved_event x) = Some m" "Create (metric_type m) = Some c"
    "matches c (event_type (rec_event (saved_event x)))"
    by (auto simp: recordable_def)
  let ?t = "event_time ref_system ref_monotonic (monotonic_time x)"
  from EventLogger_Log_stores [OF m(1,3) assms(3)] Cons.prems(2)
  obtain st s1 where s1: "EventLogger_Log utc_offset c el (saved_event x) ?t s = Some (st, s1)" "memory_ready size_of ser s1" "stored s \<subseteq># stored s1"
    by blast
  obtain sts s' where s': "flush_records utc_offset el ref_system ref_monotonic xs s1 = Some s'"
    "logged_all utc_offset el (map (\<lambda>x. (saved_event x, event_time ref_system ref_monotonic (monotonic_time x))) xs) s1 sts s'"
    "memory_ready size_of ser s'" "stored s1 \<subseteq># stored s'"
    using Cons.IH [OF _ s1(2)] Cons.prems(1) by auto
  have "FlushSavedRecord utc_offset el x ref_system ref_monotonic s = Some (st, s1)"
    using m s1(1) by (simp add: FlushSavedRecord_def)
  moreover have "stored s \<subseteq># stored s'" using s1(3) s'(4) by (rule subset_mset.order_trans)
  moreover note logged_next [OF m(1,2) s1(1) s'(2)]
  ultimately show ?case using s' by auto
qed

text \<open>An internal logger whose clock always has a time: its calls do not touch the undated-event manager, and only add observations.\<close>

definition clocked :: "'s Logger \<Rightarrow> bool" where
  "clocked lg \<longleftrightarrow> is_internal_logger lg \<and> (\<forall>n. lg_clock lg n \<noteq> None)"

definition writes_memory ::
    "(Observation2 StoredObservation \<Rightarrow> nat) \<Rightarrow> (ObservationMetadata \<Rightarrow> bytes) \<Rightarrow>
     (Observation2 MemoryObservationStore, 'b, 'cb) ShippingManager EventLogger \<Rightarrow> bool" where
  "writes_memory size_of ser el \<longleftrightarrow>
     (\<exists>(ops :: (Observation2 MemoryObservationStore, Observation2 EnvelopeMaker) store_ops) encrypter.
        el_writer el = manager_writer (Memory_StoreObservation size_of ser) ops encrypter)"

definition adds_observations ::
    "(Observation2 MemoryObservationStore, 'b, 'cb) ShippingManager LoggerState \<Rightarrow> (Observation2 MemoryObservationStore, 'b, 'cb) ShippingManager LoggerState \<Rightarrow> bool" where
  "adds_observations w w' \<longleftrightarrow> ls_undated w' = ls_undated w \<and> stored (ls_store w) \<subseteq># stored (ls_store w')"

lemma Logger_Log_clocked:
  assumes "clocked il" and "writes_memory size_of ser (lg_event_logger il)" and "typed_event ty r" and "memory_ready size_of ser (ls_store w)"
  shows "\<exists>st w'. Logger_Log cfg il ty r w = Some (st, w') \<and> memory_ready size_of ser (ls_store w') \<and> adds_observations w w'"
proof -
  obtain c where c: "Create ty = Some c" "matches c (event_type (rec_event r))" using assms(3) by (auto simp: typed_event_def)
  obtain st where st: "PrepareAndValidateEvent c ty r = Some st" using PrepareAndValidateEvent_returns [OF c(2)] by blast
  obtain now where now: "lg_clock il (ls_tick w) = Some now" using assms(1) by (auto simp: clocked_def)
  obtain ops :: "(Observation2 MemoryObservationStore, Observation2 EnvelopeMaker) store_ops" and encrypter
    where wr: "el_writer (lg_event_logger il) = manager_writer (Memory_StoreObservation size_of ser) ops encrypter"
    using assms(2) by (auto simp: writes_memory_def)
  show ?thesis
  proof (cases "st = kOK")
    case False
    with c st assms(4) show ?thesis by (simp add: Logger_Log_def adds_observations_def)
  next
    case True
    from st True obtain m where m: "rec_metric r = Some m" 
      by (auto simp: PrepareAndValidateEvent_def split: option.splits)
    from EventLogger_Log_stores [OF m c(2) wr] assms(4)
    obtain st1 s1 where "EventLogger_Log (lc_utc_offset cfg) c (lg_event_logger il) r now (ls_store w) = Some (st1, s1)"
      "memory_ready size_of ser s1" "stored (ls_store w) \<subseteq># stored s1"
      by blast
    with c(1) st True now show ?thesis by (simp add: Logger_Log_def read_clock_def log_dated_def adds_observations_def)
  qed
qed

interpretation clocked: internal_logger "interface_of cfg il"
  "\<lambda>w. clocked il \<and> writes_memory size_of ser (lg_event_logger il) \<and> memory_ready size_of ser (ls_store w)" adds_observations
proof
  fix w :: "(Observation2 MemoryObservationStore, 'a, 'b) ShippingManager LoggerState" and mid codes component period n v
  assume ok: "clocked il \<and> writes_memory size_of ser (lg_event_logger il) \<and> memory_ready size_of ser (ls_store w)"
  then have call: "log_call cfg il f ty r w = Logger_Log cfg il ty r w" for f ty r by (simp add: clocked_def log_call_internal)
  show "\<exists>st w'. li_LogEventCount (interface_of cfg il) mid codes component period n w = Some (st, w') \<and>
      (clocked il \<and> writes_memory size_of ser (lg_event_logger il) \<and> memory_ready size_of ser (ls_store w')) \<and> adds_observations w w'"
    using ok Logger_Log_clocked [OF _ _ typed_new_record(2), of il size_of ser w cfg il mid codes component period "ucast n"]
    by (simp add: interface_of_def LogEventCount_def call)
  show "\<exists>st w'. li_LogMemoryUsage (interface_of cfg il) mid codes component v w = Some (st, w') \<and>
      (clocked il \<and> writes_memory size_of ser (lg_event_logger il) \<and> memory_ready size_of ser (ls_store w')) \<and> adds_observations w w'"
    using ok Logger_Log_clocked [OF _ _ typed_new_record(5), of il size_of ser w cfg il mid codes component v]
    by (simp add: interface_of_def LogMemoryUsage_def call)
qed (auto simp: adds_observations_def intro: subset_mset.order_trans)

text \<open>C11. Flushing the undated events: with an internal logger whose clock has a time, \<open>Flush\<close> answers \<open>kOK\<close>. Every event of the queue has been logged, in the order
  of the queue and with a date that is its age before the given system time, late by less than a second; what the events stored is
  still stored after the internal metrics were logged. Afterwards the queue and its counters are empty, the manager logs every
  later event at once and its mutex is free.\<close>

theorem Flush_delivers:
  assumes "ls_undated w = Some u" and "uem_inv u" and "\<not> uem_locked u"
    and "writes_memory size_of ser (uem_logger u)" and "memory_ready size_of ser (ls_store w)"
    and "clocked il" and "writes_memory size_of ser (lg_event_logger il)"
  defines "flush_time \<equiv> ls_steady w (ls_tick w)"
  shows "\<exists>sts s1 w' u'. Flush utc_offset ids system_now (Some (interface_of cfg il)) w = Some (kOK, w') \<and>
    logged_all utc_offset (uem_logger u)
      (map (\<lambda>x. (saved_event x, event_time system_now flush_time (monotonic_time x))) (saved_records u)) (ls_store w) sts s1 \<and>
    (\<forall>x \<in> set (saved_records u). monotonic_time x \<le> flush_time \<longrightarrow>
       event_time system_now flush_time (monotonic_time x) - (system_now - (flush_time - monotonic_time x)) \<in> {0..<1000000000}) \<and>
    stored s1 \<subseteq># stored (ls_store w') \<and> ls_undated w' = Some u' \<and> saved_records u' = [] \<and>
    num_events_cached u' = [] \<and> num_events_dropped u' = [] \<and> flushed u' \<and> \<not> uem_locked u' \<and> uem_inv u'"
proof -
  obtain ops :: "(Observation2 MemoryObservationStore, Observation2 EnvelopeMaker) store_ops" and encrypter
    where wr: "el_writer (uem_logger u) = manager_writer (Memory_StoreObservation size_of ser) ops encrypter"
    using assms(4) by (auto simp: writes_memory_def)
  have "\<forall>x \<in> set (saved_records u). recordable (saved_event x)" using assms(2) by (simp add: uem_inv_def)
  from flush_records_logged [OF this assms(5) wr, of utc_offset system_now flush_time]
  obtain sts s1 where s1: "flush_records utc_offset (uem_logger u) system_now flush_time (saved_records u) (ls_store w) = Some s1"
    "logged_all utc_offset (uem_logger u) (map (\<lambda>x. (saved_event x, event_time system_now flush_time (monotonic_time x))) (saved_records u)) (ls_store w) sts s1"
    "memory_ready size_of ser s1"
    by blast
  let ?u = "u\<lparr>uem_locked := True, reference_system_time := system_now, reference_monotonic_time := flush_time, saved_records := []\<rparr>"
  let ?w = "w\<lparr>ls_tick := ls_tick w + 1, ls_store := s1, ls_undated := Some ?u\<rparr>"
  let ?im = "InternalMetricsImpl False (interface_of cfg il)"
  have im: "uses_logger (interface_of cfg il) ?im" by (simp add: uses_logger_def)
  have "clocked il \<and> writes_memory size_of ser (lg_event_logger il) \<and> memory_ready size_of ser (ls_store ?w)"
    using assms(6,7) s1(3) by simp
  from clocked.clock_reports_return(1) [OF im this, of ids "num_events_cached u"]
  obtain w2 where w2: "report_counts (InaccurateClockEventsCached ids ?im) (num_events_cached u) ?w = Some w2"
    "clocked il \<and> writes_memory size_of ser (lg_event_logger il) \<and> memory_ready size_of ser (ls_store w2)" "adds_observations ?w w2"
    by blast
  from clocked.clock_reports_return(2) [OF im this(2), of ids "num_events_dropped u"]
  obtain w3 where w3: "report_counts (InaccurateClockEventsDropped ids ?im) (num_events_dropped u) w2 = Some w3" "adds_observations w2 w3"
    by blast
  have adds: "adds_observations ?w w3" using clocked.R_trans [OF w2(3) w3(2)] .
  let ?v = "?u\<lparr>num_events_cached := [], num_events_dropped := [], flushed := True, uem_locked := False\<rparr>"
  let ?w' = "w3\<lparr>ls_undated := Some ?v\<rparr>"
  have "ls_undated w3 = Some ?u" using adds by (simp add: adds_observations_def)
  then have run: "Flush utc_offset ids system_now (Some (interface_of cfg il)) w = Some (kOK, ?w')"
    using assms(1,3) s1(1) w2(1) w3(1)
    by (simp add: Flush_def InternalMetricsImpl_ctor_def read_steady_def set_undated_def flush_time_def Let_def)
  have inv: "uem_inv ?v" using assms(2) by (simp add: uem_inv_def keys_ascend_def)
  have date: "event_time system_now flush_time (monotonic_time x) - (system_now - (flush_time - monotonic_time x)) \<in> {0..<1000000000}"
    if "monotonic_time x \<le> flush_time" for x
    using event_time_bounds [OF that, of system_now] by simp
  have "stored s1 \<subseteq># stored (ls_store ?w')" using adds by (simp add: adds_observations_def)
  moreover from date have "\<forall>x \<in> set (saved_records u). monotonic_time x \<le> flush_time \<longrightarrow>
      event_time system_now flush_time (monotonic_time x) - (system_now - (flush_time - monotonic_time x)) \<in> {0..<1000000000}"
    by blast
  ultimately show ?thesis using run s1(2) inv
    by (intro exI [of _ sts] exI [of _ s1] exI [of _ ?w'] exI [of _ ?v]) simp
qed

text \<open>Examples: a manager in which one event waits, behind a logger and an internal logger.\<close>

definition example_undated :: "(Observation2 MemoryObservationStore, unit, unit) ShippingManager UndatedEventManager" where
  "example_undated = (UndatedEventManager_ctor example_logger 2)\<lparr>saved_records := [\<lparr>monotonic_time = 5, saved_event = example_record\<rparr>],
     num_events_cached := [(ids_of example_record, 1)]\<rparr>"

definition example_logger_state :: "(Observation2 MemoryObservationStore, unit, unit) ShippingManager LoggerState" where
  "example_logger_state = \<lparr>ls_store = example_manager_store example_counts, ls_undated = Some example_undated, ls_tick = 0,
     ls_steady = (\<lambda>n. 2000000010 + int n)\<rparr>"

definition example_internal_logger :: "(Observation2 MemoryObservationStore, unit, unit) ShippingManager Logger" where
  "example_internal_logger = \<lparr>lg_context = example_context, lg_event_logger = example_logger, lg_internal_metrics = NoOpInternalMetrics,
     lg_clock = (\<lambda>n. Some 7000000000), lg_undated = False\<rparr>"

lemma example_recordable: "recordable example_record"
  by (auto simp: recordable_def example_record_def example_histogram_metric_def Create_def matches_def)

lemma example_undated_inv: "uem_inv example_undated" "\<not> flushed example_undated" "\<not> uem_locked example_undated"
  "max_saved_events example_undated = 2" "saved_records example_undated = [\<lparr>monotonic_time = 5, saved_event = example_record\<rparr>]"
  "uem_logger example_undated = example_logger"
  by (auto simp: example_undated_def UndatedEventManager_ctor_def uem_inv_def keys_ascend_def counted_def waiting_for_def example_recordable)

lemma example_memory_ready: "memory_ready (\<lambda>_. 7) (\<lambda>_. []) (ls_store example_logger_state)" "writes_memory (\<lambda>_. 7) (\<lambda>_. []) example_logger"
  using example_manager_inv
  by (auto simp: memory_ready_def example_logger_state_def example_manager_store_def writes_memory_def example_logger_def)

definition example_config :: LoggerConfig where
  "example_config = \<lparr>lc_utc_offset = (\<lambda>_. 0),
     lc_ids = \<lparr>kLoggerCallsMadeMetricId = 1, kPerProjectLoggerCallsMadeMetricId = 2, kPerDeviceBytesUploadedMetricId = 3, kPerProjectBytesUploadedMetricId = 4,
       kPerProjectBytesStoredMetricId = 5, kInaccurateClockEventsCachedMetricId = 6, kInaccurateClockEventsDroppedMetricId = 7\<rparr>,
     lc_methods = \<lparr>method_LogEvent = 0, method_LogEventCount = 1, method_LogElapsedTime = 2, method_LogFrameRate = 3, method_LogMemoryUsage = 4,
       method_LogIntHistogram = 5, method_LogCustomEvent = 7\<rparr>\<rparr>"

theorem Save_bounded_queue_witness:
  "\<exists>u'. Save (\<lambda>_. 0) example_record example_logger_state =
     Some (kOK, example_logger_state\<lparr>ls_tick := 1, ls_undated := Some u'\<rparr>) \<and> length (saved_records u') \<le> 2"
proof -
  have u: "ls_undated example_logger_state = Some example_undated" "ls_tick example_logger_state = 0" by (simp_all add: example_logger_state_def)
  show ?thesis using Save_bounded_queue [OF u(1) example_undated_inv(1,2,3) example_recordable, of "\<lambda>_. 0"]
    by (auto simp: u(2) example_undated_inv(4))
qed

theorem Flush_delivers_witness:
  "\<exists>w'. Flush (\<lambda>_. 0) (lc_ids example_config) 9000000000 (Some (interface_of example_config example_internal_logger)) example_logger_state = Some (kOK, w') \<and>
     map_option saved_records (ls_undated w') = Some []"
proof -
  have u: "ls_undated example_logger_state = Some example_undated" by (simp add: example_logger_state_def)
  have il: "clocked example_internal_logger" "lg_event_logger example_internal_logger = example_logger"
    by (simp_all add: clocked_def is_internal_logger_def example_internal_logger_def)
  from Flush_delivers [OF u example_undated_inv(1,3) _ example_memory_ready(1) il(1), of "\<lambda>_. 0" "lc_ids example_config" 9000000000 example_config, unfolded il(2) example_undated_inv(6)]
    example_memory_ready(2)
  show ?thesis by fastforce
qed

theorem client_calls_return_witness:
  "\<exists>sts w'. perform_all example_config [(example_internal_logger, CallLogEvent 1 3), (example_internal_logger, CallLogFrameRate 2 [] [] (1 / 3))]
     example_logger_state = Some (sts, w') \<and> length sts = 2"
proof -
  have fps: "representable (CallLogFrameRate 2 [] [] (1 / 3))"
    by (simp add: representable_def frames_per_1000_seconds_def std_round_def Let_def floor_divide_of_int_eq)
  have "is_internal_logger example_internal_logger" "logger_state_ok example_logger_state"
    "uses_logger (interface_of example_config example_internal_logger) (lg_internal_metrics example_internal_logger)"
    using example_undated_inv by (simp_all add: is_internal_logger_def example_internal_logger_def logger_state_ok_def example_logger_state_def uses_logger_def)
  with client_calls_return [of example_internal_logger example_logger_state
      "[(example_internal_logger, CallLogEvent 1 3), (example_internal_logger, CallLogFrameRate 2 [] [] (1 / 3))]" example_config] fps
  show ?thesis by (auto simp: representable_def)
qed

end
