(* ===== verification/Local_Aggregation_11.thy ===== *)
theory Local_Aggregation_11
  imports Event_Delivery
begin

text \<open>
  The local aggregation of Cobalt 1.1 (\<^verbatim>\<open>src/src/local_aggregation_1.1/\<close>): the aggregates of every metric, each in a file of its own below a
  directory for its customer and project, the aggregation procedures, none of which is implemented yet, and the worker that
  generates observations. The parameters are \<open>absl::SimpleAtoi\<close>, the serialisation of a \<open>MetricAggregate\<close>, and what a message
  holds after it could not be read. A null pointer that is dereferenced and a failed \<open>CHECK\<close> are \<open>None\<close>.
\<close>

section \<open>Procedures\<close>

record ReportAggregate11 =
  ra_has_history :: bool

record MetricAggregate =
  ma_version :: u32
  by_report_id :: "(u32 \<times> ReportAggregate11) list"

text \<open>A procedure is the name of an \<open>UnimplementedAggregationProcedure\<close>.\<close>

definition AggregationProcedure_Get ::
    "MetricDefinition \<Rightarrow> ReportDefinition \<Rightarrow> string option" where
  "AggregationProcedure_Get metric report =
     (case report_type report of
        FLEETWIDE_OCCURRENCE_COUNTS \<Rightarrow> Some ''COUNT''
      | UNIQUE_DEVICE_COUNTS \<Rightarrow>
          (case local_aggregation_procedure report of
             AT_LEAST_ONCE \<Rightarrow> Some ''AT_LEAST_ONCE''
           | SELECT_FIRST \<Rightarrow> Some ''SELECT_FIRST''
           | SELECT_MOST_COMMON \<Rightarrow> Some ''SELECT_MOST_COMMON''
           | _ \<Rightarrow> None)
      | FLEETWIDE_HISTOGRAMS \<Rightarrow> Some ''INTEGER_HISTOGRAM''
      | FLEETWIDE_MEANS \<Rightarrow> Some ''SUM_AND_COUNT''
      | STRING_HISTOGRAMS \<Rightarrow> Some ''STRING_HISTOGRAM''
      | t \<Rightarrow>
          if t \<in> {UNIQUE_DEVICE_HISTOGRAMS, HOURLY_VALUE_HISTOGRAMS, UNIQUE_DEVICE_NUMERIC_STATS, HOURLY_VALUE_NUMERIC_STATS}
          then (case metric_type metric of
                  OCCURRENCE \<Rightarrow> Some ''COUNT_AS_INTEGER''
                | INTEGER \<Rightarrow> Some ''NUMERIC_STAT''
                | _ \<Rightarrow> None)
          else None)"

definition UpdateAggregate :: "string \<Rightarrow> EventRecord \<Rightarrow> ReportAggregate11 \<Rightarrow> ReportAggregate11" where
  "UpdateAggregate procedure r a = a"

record AggregationTimeInfo =
  final_day_index_utc :: u32
  final_day_index_local :: u32
  final_hour_index_utc :: u32
  final_hour_index_local :: u32

definition MaybeGenerateObservation :: "string \<Rightarrow> AggregationTimeInfo \<Rightarrow> Encoder \<Rightarrow> ReportAggregate11 \<Rightarrow> Result option \<times> ReportAggregate11" where
  "MaybeGenerateObservation procedure time_info e a = (None, a)"

section \<open>LocalAggregateStorage\<close>

type_synonym metric_key = "u32 \<times> u32 \<times> u32"

record LocalAggregateStorage =
  base_directory :: string
  las_disk :: Disk
  las_factory :: ProjectContextFactory
  aggregates :: "metric_key \<Rightarrow> MetricAggregate option"

text \<open>The parameters.\<close>

record StorageLib =
  SimpleAtoi :: "string \<Rightarrow> u32 option"
  ser_aggregate :: "MetricAggregate \<Rightarrow> bytes"
  parse_aggregate :: "bytes \<Rightarrow> MetricAggregate option"
  failed_read :: "string \<Rightarrow> MetricAggregate"

text \<open>\<open>FileExists\<close> and \<open>ListFiles\<close> on paths that may be directories.\<close>

definition PathExists :: "string \<Rightarrow> Disk \<Rightarrow> bool \<times> Disk" where
  "PathExists path d =
     (let (f, d) = next_fault d in (\<not> fails f \<and> (file_of d path \<noteq> None \<or> path \<in> set (directories d)), d))"

definition directory_entries :: "string \<Rightarrow> Disk \<Rightarrow> string list" where
  "directory_entries directory d =
     filter (\<lambda>n. \<not> skipped_entry n) (readdir directory d @ List.map_filter (entry_in directory) (directories d))"

definition ListEntries :: "string \<Rightarrow> Disk \<Rightarrow> string list \<times> Disk" where
  "ListEntries directory d =
     (let (f, d) = next_fault d
      in if fails f \<or> directory \<notin> set (directories d) then ([], d) else (directory_entries directory d, d))"

definition sub_path :: "string \<Rightarrow> string \<Rightarrow> string" where
  "sub_path dir name = dir @ ''/'' @ name"

definition sub_id :: "string \<Rightarrow> u32 \<Rightarrow> string" where
  "sub_id dir i = sub_path dir (decimal (unat i))"

definition empty_aggregate :: MetricAggregate where
  "empty_aggregate = \<lparr>ma_version = 0, by_report_id = []\<rparr>"

definition make_missing_directory :: "string \<Rightarrow> Disk \<Rightarrow> Disk" where
  "make_missing_directory dir d = (case PathExists dir d of (ex, d) \<Rightarrow> if \<not> ex then snd (MakeDirectory dir d) else d)"

definition add_missing_aggregate :: "u32 \<Rightarrow> u32 \<Rightarrow> LocalAggregateStorage \<Rightarrow> u32 \<Rightarrow> LocalAggregateStorage" where
  "add_missing_aggregate cid pid s mid =
     (if aggregates s (cid, pid, mid) = None then s\<lparr>aggregates := (aggregates s)((cid, pid, mid) \<mapsto> empty_aggregate)\<rparr> else s)"

definition initialize_project :: "LocalAggregateStorage \<Rightarrow> u32 \<times> u32 \<Rightarrow> LocalAggregateStorage option" where
  "initialize_project s prj =
     (let (cid, pid) = prj;
          customer_dir = sub_id (base_directory s) cid;
          d = make_missing_directory customer_dir (las_disk s);
          d = make_missing_directory (sub_id customer_dir pid) d;
          s = s\<lparr>las_disk := d\<rparr>
      in case NewProjectContext (las_factory s) cid pid of
           None \<Rightarrow> None
         | Some ctx \<Rightarrow> Some (foldl (add_missing_aggregate cid pid) s (ListMetrics ctx)))"

fun each :: "('s \<Rightarrow> 'x \<Rightarrow> 's option) \<Rightarrow> 's \<Rightarrow> 'x list \<Rightarrow> 's option" where
  "each f s [] = Some s"
| "each f s (x # xs) = (case f s x of None \<Rightarrow> None | Some s \<Rightarrow> each f s xs)"

text \<open>\<open>ListProjects\<close> of the factory.\<close>

definition factory_ListProjects :: "ProjectContextFactory \<Rightarrow> (u32 \<times> u32) list option" where
  "factory_ListProjects f = map_option ListProjects (project_configs f)"

definition InitializePersistentStore :: "LocalAggregateStorage \<Rightarrow> LocalAggregateStorage option" where
  "InitializePersistentStore s =
     (case factory_ListProjects (las_factory s) of None \<Rightarrow> None | Some projects \<Rightarrow> each initialize_project s projects)"

definition load_metric_file :: "StorageLib \<Rightarrow> string \<Rightarrow> u32 \<Rightarrow> u32 \<Rightarrow> LocalAggregateStorage \<Rightarrow> string \<Rightarrow> LocalAggregateStorage" where
  "load_metric_file lib project_dir cid pid s metric_file =
     (case SimpleAtoi lib metric_file of
        None \<Rightarrow> s
      | Some mid \<Rightarrow>
          (case Read (parse_aggregate lib) (sub_path project_dir metric_file) (las_disk s) of
             (r, d) \<Rightarrow> s\<lparr>las_disk := d, aggregates := (aggregates s)((cid, pid, mid) \<mapsto>
               (case r of Inr m \<Rightarrow> m | Inl c \<Rightarrow> failed_read lib (sub_path project_dir metric_file)))\<rparr>))"

definition load_project :: "StorageLib \<Rightarrow> string \<Rightarrow> u32 \<Rightarrow> LocalAggregateStorage \<Rightarrow> string \<Rightarrow> LocalAggregateStorage" where
  "load_project lib customer_dir cid s project_folder =
     (case SimpleAtoi lib project_folder of
        None \<Rightarrow> s
      | Some pid \<Rightarrow>
          if NewProjectContext (las_factory s) cid pid = None then s
          else case ListEntries (sub_path customer_dir project_folder) (las_disk s) of
                 (fs, d) \<Rightarrow> foldl (load_metric_file lib (sub_path customer_dir project_folder) cid pid) (s\<lparr>las_disk := d\<rparr>) fs)"

definition load_customer :: "StorageLib \<Rightarrow> LocalAggregateStorage \<Rightarrow> string \<Rightarrow> LocalAggregateStorage" where
  "load_customer lib s customer_folder =
     (case SimpleAtoi lib customer_folder of
        None \<Rightarrow> s
      | Some cid \<Rightarrow>
          (case ListEntries (sub_path (base_directory s) customer_folder) (las_disk s) of
             (fs, d) \<Rightarrow> foldl (load_project lib (sub_path (base_directory s) customer_folder) cid) (s\<lparr>las_disk := d\<rparr>) fs))"

definition LoadData :: "StorageLib \<Rightarrow> LocalAggregateStorage \<Rightarrow> LocalAggregateStorage" where
  "LoadData lib s =
     (case ListEntries (base_directory s) (las_disk s) of (fs, d) \<Rightarrow> foldl (load_customer lib) (s\<lparr>las_disk := d\<rparr>) fs)"

definition LocalAggregateStorage_ctor ::
    "StorageLib \<Rightarrow> string \<Rightarrow> Disk \<Rightarrow> ProjectContextFactory option \<Rightarrow> LocalAggregateStorage option" where
  "LocalAggregateStorage_ctor lib base d factory =
     (case factory of
        None \<Rightarrow> None
      | Some f \<Rightarrow>
          map_option (LoadData lib)
            (InitializePersistentStore \<lparr>base_directory = base, las_disk = d, las_factory = f, aggregates = (\<lambda>_. None)\<rparr>))"

definition GetMetricAggregate :: "u32 \<Rightarrow> u32 \<Rightarrow> u32 \<Rightarrow> LocalAggregateStorage \<Rightarrow> MetricAggregate option" where
  "GetMetricAggregate cid pid mid s = aggregates s (cid, pid, mid)"

definition SaveMetricAggregate :: "StorageLib \<Rightarrow> u32 \<Rightarrow> u32 \<Rightarrow> u32 \<Rightarrow> LocalAggregateStorage \<Rightarrow> StatusCode \<times> LocalAggregateStorage" where
  "SaveMetricAggregate lib cid pid mid s =
     (case aggregates s (cid, pid, mid) of
        None \<Rightarrow> (NOT_FOUND, s)
      | Some a \<Rightarrow>
          (case Write (ser_aggregate lib) (sub_id (sub_id (sub_id (base_directory s) cid) pid) mid) a (las_disk s) of
             (c, d) \<Rightarrow> (c, s\<lparr>las_disk := d\<rparr>)))"

section \<open>LocalAggregation\<close>

text \<open>\<open>Map::at\<close> fails a \<open>CHECK\<close> when the key is missing.\<close>

definition update_report ::
    "EventRecord \<Rightarrow> MetricDefinition \<Rightarrow> MetricAggregate \<Rightarrow> ReportDefinition \<Rightarrow> MetricAggregate option" where
  "update_report r metric a report =
     (case AggregationProcedure_Get metric report of
        None \<Rightarrow> Some a
      | Some procedure \<Rightarrow>
          (case map_of (by_report_id a) (report_def_id report) of
             None \<Rightarrow> None
           | Some ra \<Rightarrow> Some (a\<lparr>by_report_id := map_set (report_def_id report) (UpdateAggregate procedure r ra) (by_report_id a)\<rparr>)))"

definition AddEvent ::
    "StorageLib \<Rightarrow> EventRecord \<Rightarrow> LocalAggregateStorage \<Rightarrow> (StatusCode \<times> LocalAggregateStorage) option" where
  "AddEvent lib r s =
     (case rec_metric r of
        None \<Rightarrow> None
      | Some metric \<Rightarrow>
          let cid = project_customer_id (project (rec_project_context r));
              pid = project_project_id (project (rec_project_context r));
              mid = metric_def_id metric
          in case GetMetricAggregate cid pid mid s of
               None \<Rightarrow> Some (NOT_FOUND, s)
             | Some a \<Rightarrow>
                 (case each (update_report r metric) a (reports metric) of
                    None \<Rightarrow> None
                  | Some a \<Rightarrow> Some (SaveMetricAggregate lib cid pid mid (s\<lparr>aggregates := (aggregates s)((cid, pid, mid) \<mapsto> a)\<rparr>))))"

section \<open>ObservationGenerator\<close>

record 's ObservationGenerator =
  og_storage :: LocalAggregateStorage
  og_encoder :: Encoder
  og_writer :: "'s ObservationWriter"
  og_sink :: 's
  og_next_generate_obs :: int
  og_generate_obs_interval :: int
  og_shut_down :: bool
  og_joinable :: bool

definition ObservationGenerator_ctor :: "LocalAggregateStorage \<Rightarrow> Encoder \<Rightarrow> 's ObservationWriter \<Rightarrow> 's \<Rightarrow> 's ObservationGenerator" where
  "ObservationGenerator_ctor s e w sink =
     \<lparr>og_storage = s, og_encoder = e, og_writer = w, og_sink = sink, og_next_generate_obs = 0,
      og_generate_obs_interval = 3600 * 1000000000, og_shut_down = False, og_joinable = False\<rparr>"

definition og_Start :: "'s ObservationGenerator \<Rightarrow> 's ObservationGenerator" where
  "og_Start g = g\<lparr>og_shut_down := False, og_joinable := True\<rparr>"

definition og_ShutDown :: "'s ObservationGenerator \<Rightarrow> 's ObservationGenerator" where
  "og_ShutDown g = g\<lparr>og_shut_down := True\<rparr>"

text \<open>The body of the loop over the reports: the status that ends the whole method, if any.\<close>

definition generate_report11 ::
    "AggregationTimeInfo \<Rightarrow> MetricDefinition \<Rightarrow> metric_key \<Rightarrow> 's ObservationGenerator \<Rightarrow> ReportDefinition \<Rightarrow>
     (Status \<times> 's ObservationGenerator) option" where
  "generate_report11 time_info metric key g report =
     (case AggregationProcedure_Get metric report of
        None \<Rightarrow> Some (kOK, g)
      | Some procedure \<Rightarrow>
          (case aggregates (og_storage g) key of
             None \<Rightarrow> None
           | Some a \<Rightarrow>
               (case map_of (by_report_id a) (report_def_id report) of
                  None \<Rightarrow> Some (kOK, g)
                | Some ra \<Rightarrow>
                    (case MaybeGenerateObservation procedure time_info (og_encoder g) ra of
                       (res, ra) \<Rightarrow>
                         let g = g\<lparr>og_storage := (og_storage g)\<lparr>aggregates := (aggregates (og_storage g))(key \<mapsto>
                               a\<lparr>by_report_id := map_set (report_def_id report) ra (by_report_id a)\<rparr>)\<rparr>\<rparr>
                         in case res of
                              None \<Rightarrow> Some (kOK, g)
                            | Some x \<Rightarrow>
                                (case (result_observation x, result_metadata x) of
                                   (Some ob, Some md) \<Rightarrow>
                                     (case WriteObservation (og_writer g) ob md (og_sink g) of
                                        (st, sink) \<Rightarrow> Some (st, g\<lparr>og_sink := sink\<rparr>))
                                 | _ \<Rightarrow> None)))))"

fun until_error :: "('s \<Rightarrow> 'x \<Rightarrow> (Status \<times> 's) option) \<Rightarrow> 's \<Rightarrow> 'x list \<Rightarrow> (Status \<times> 's) option" where
  "until_error f s [] = Some (kOK, s)"
| "until_error f s (x # xs) = (case f s x of None \<Rightarrow> None | Some (st, s) \<Rightarrow> if st \<noteq> kOK then Some (st, s) else until_error f s xs)"

definition generate_metric11 ::
    "StorageLib \<Rightarrow> AggregationTimeInfo \<Rightarrow> ProjectContext \<Rightarrow> 's ObservationGenerator \<Rightarrow> u32 \<Rightarrow>
     (Status \<times> 's ObservationGenerator) option" where
  "generate_metric11 lib time_info ctx g mid =
     (case GetMetric ctx mid of
        None \<Rightarrow> None
      | Some metric \<Rightarrow>
          let cid = project_customer_id (project ctx); pid = project_project_id (project ctx)
          in case until_error (generate_report11 time_info metric (cid, pid, metric_def_id metric)) g (reports metric) of
               None \<Rightarrow> None
             | Some (st, g) \<Rightarrow>
                 if st \<noteq> kOK then Some (st, g)
                 else Some (kOK, g\<lparr>og_storage := snd (SaveMetricAggregate lib cid pid (metric_def_id metric) (og_storage g))\<rparr>))"

definition generate_project11 ::
    "StorageLib \<Rightarrow> AggregationTimeInfo \<Rightarrow> 's ObservationGenerator \<Rightarrow> u32 \<times> u32 \<Rightarrow> (Status \<times> 's ObservationGenerator) option" where
  "generate_project11 lib time_info g prj =
     (case NewProjectContext (las_factory (og_storage g)) (fst prj) (snd prj) of
        None \<Rightarrow> None
      | Some ctx \<Rightarrow> until_error (generate_metric11 lib time_info ctx) g (ListMetrics ctx))"

definition make_time_info :: "(int \<Rightarrow> int) \<Rightarrow> int \<Rightarrow> AggregationTimeInfo" where
  "make_time_info utc_offset system_time =
     (let t = trunc_seconds system_time
      in \<lparr>final_day_index_utc = TimeToDayIndex utc_offset t UTC - 1, final_day_index_local = TimeToDayIndex utc_offset t LOCAL - 1,
          final_hour_index_utc = TimeToHourIndex utc_offset t UTC - 1, final_hour_index_local = TimeToHourIndex utc_offset t LOCAL - 1\<rparr>)"

definition og_GenerateObservations ::
    "StorageLib \<Rightarrow> (int \<Rightarrow> int) \<Rightarrow> int \<Rightarrow> int \<Rightarrow> 's ObservationGenerator \<Rightarrow>
     (Status \<times> 's ObservationGenerator) option" where
  "og_GenerateObservations lib utc_offset system_time steady_time g =
     (if \<not> steady_time \<ge> og_next_generate_obs g then Some (kOK, g)
      else let g = g\<lparr>og_next_generate_obs := og_next_generate_obs g + og_generate_obs_interval g\<rparr>
           in case factory_ListProjects (las_factory (og_storage g)) of
                None \<Rightarrow> None
              | Some projects \<Rightarrow> until_error (generate_project11 lib (make_time_info utc_offset system_time)) g projects)"

text \<open>Where \<open>Run\<close> stands.\<close>

datatype og_worker = OgEntering | OgTop | OgWaiting | OgReturned | OgCrashed

text \<open>The wait ends when a shutdown is requested or its deadline has passed; observations are generated in both cases.\<close>

inductive og_step ::
  "StorageLib \<Rightarrow> (int \<Rightarrow> int) \<Rightarrow> og_worker \<times> 's ObservationGenerator \<Rightarrow> og_worker \<times> 's ObservationGenerator \<Rightarrow> bool"
  for lib :: StorageLib and utc_offset :: "int \<Rightarrow> int" where
  og_enter: "og_step lib utc_offset (OgEntering, g) (OgTop, g\<lparr>og_next_generate_obs := now\<rparr>)"
| og_return: "og_shut_down g \<Longrightarrow> og_step lib utc_offset (OgTop, g) (OgReturned, g)"
| og_wait: "\<not> og_shut_down g \<Longrightarrow> og_step lib utc_offset (OgTop, g) (OgWaiting, g)"
| og_wake: "og_shut_down g \<or> now \<ge> og_next_generate_obs g \<Longrightarrow> og_GenerateObservations lib utc_offset system_time steady_time g = Some (st, g') \<Longrightarrow>
    og_step lib utc_offset (OgWaiting, g) (OgTop, g')"
| og_crash: "og_shut_down g \<or> now \<ge> og_next_generate_obs g \<Longrightarrow> og_GenerateObservations lib utc_offset system_time steady_time g = None \<Longrightarrow>
    og_step lib utc_offset (OgWaiting, g) (OgCrashed, g)"

section \<open>Directories without failing calls\<close>

lemma decimal_no_slash [simp]: "CHR ''/'' \<notin> set (decimal n)"
  using decimal_digits [of n] by (auto simp: list_all_iff is_digit_def)

lemma decimal_not_skipped [simp]: "\<not> skipped_entry (decimal n)"
  using decimal_digits [of n] by (cases "decimal n") (auto simp: skipped_entry_def is_digit_def)

lemma last_slash_unique:
  assumes "xs @ ''/'' @ ys = xs' @ ''/'' @ ys'" and "CHR ''/'' \<notin> set ys" and "CHR ''/'' \<notin> set ys'"
  shows "xs = xs' \<and> ys = ys'"
proof -
  have "takeWhile (\<lambda>c. c \<noteq> CHR ''/'') (rev (zs @ ''/'' @ us)) = rev us" if "CHR ''/'' \<notin> set us" for zs us
    using that by (subst rev_append) (simp add: takeWhile_append)
  from this [OF assms(2), of xs] this [OF assms(3), of xs'] have "ys = ys'" unfolding assms(1) by simp
  with assms(1) show ?thesis by simp
qed

lemma entry_in_sub_id: "entry_in dir (sub_id dir' i) = Some n \<longleftrightarrow> dir = dir' \<and> n = decimal (unat i)"
  using last_slash_unique [of dir' "decimal (unat i)" dir n] by (auto simp: entry_in_iff sub_id_def sub_path_def)

lemma sub_path_decimal: "sub_path dir (decimal (unat i)) = sub_id dir i"
  by (simp add: sub_id_def)

text \<open>The names of files and directories that stand for a number are its decimal numerals.\<close>

definition canonical_names :: "StorageLib \<Rightarrow> Disk \<Rightarrow> bool" where
  "canonical_names lib d \<longleftrightarrow>
     (\<forall>p \<in> dom (file_of d) \<union> set (directories d). \<forall>dir n i. entry_in dir p = Some n \<longrightarrow> SimpleAtoi lib n = Some i \<longrightarrow> n = decimal (unat i))"

lemma set_map_filter: "set (List.map_filter g xs) = {y. \<exists>x \<in> set xs. g x = Some y}"
  by (induction xs) (auto simp: List.map_filter_simps split: option.splits)

lemma set_directory_entries:
  "set (directory_entries dir d) =
     {n. \<not> skipped_entry n \<and> (n \<in> {''.'', ''..''} \<or> (\<exists>p \<in> dom (file_of d) \<union> set (directories d). entry_in dir p = Some n))}"
  by (auto simp: directory_entries_def readdir_def set_map_filter dom_map_of_conv_image_fst)

lemma entry_canonical:
  assumes "canonical_names lib d" and "n \<in> set (directory_entries dir d)" and "SimpleAtoi lib n = Some i"
  shows "n = decimal (unat i)"
proof -
  have "\<not> skipped_entry n" "n \<in> {''.'', ''..''} \<or> (\<exists>p \<in> dom (file_of d) \<union> set (directories d). entry_in dir p = Some n)"
    using assms(2) by (simp_all add: set_directory_entries)
  then obtain p where "p \<in> dom (file_of d) \<union> set (directories d)" "entry_in dir p = Some n" by (auto simp: skipped_entry_def)
  with assms(1,3) show ?thesis by (auto simp: canonical_names_def)
qed

lemma sub_id_entry:
  "sub_id dir i \<in> dom (file_of d) \<union> set (directories d) \<Longrightarrow> decimal (unat i) \<in> set (directory_entries dir d)"
  unfolding set_directory_entries by (auto simp: entry_in_sub_id intro!: bexI [of _ "sub_id dir i"])

lemma Read_no_faults: "faults d = [] \<Longrightarrow> Read parse p d = (fst (Read parse p d), d)"
  by (simp add: Read_def no_faults split: option.splits)

lemma Read_written:
  assumes "faults d = []" and "file_of d p = Some b" and "file_of d (p @ kOverrideSuffix) = None" and "parse b = Some m"
  shows "fst (Read parse p d) = Inr m"
  using assms by (simp add: Read_def no_faults)

section \<open>Loading\<close>

lemma foldl_reaches:
  assumes step: "\<And>s x. x \<in> set xs \<Longrightarrow> I s \<Longrightarrow> I (f s x) \<and> (P s \<longrightarrow> P (f s x))"
    and y: "y \<in> set xs" "\<And>s. I s \<Longrightarrow> P (f s y)" and s: "I s"
  shows "I (foldl f s xs) \<and> P (foldl f s xs)"
proof -
  obtain us vs where xs: "xs = us @ y # vs" using y(1) by (auto simp: in_set_conv_decomp)
  have I: "I (foldl f s us)" if "I s" "set us \<subseteq> set xs" for s us
    using that by (induction us arbitrary: s) (auto simp: step)
  have PI: "I (foldl f s vs) \<and> P (foldl f s vs)" if "I s" "P s" "set vs \<subseteq> set xs" for s vs
    using that by (induction vs arbitrary: s) (auto simp: step)
  have 1: "I (foldl f s us)" using I [OF s, of us] xs by auto
  then have "I (f (foldl f s us) y)" "P (f (foldl f s us) y)" using step [OF y(1)] y(2) by blast+
  with PI [of "f (foldl f s us) y" vs] show ?thesis unfolding xs by auto
qed

lemma foldl_keeps:
  assumes "\<And>s x. x \<in> set xs \<Longrightarrow> I s \<Longrightarrow> I (f s x)" and "I s"
  shows "I (foldl f s xs)"
  using assms by (induction xs arbitrary: s) auto

text \<open>What the loops keep: the disk and the members that never change.\<close>

definition loading :: "Disk \<Rightarrow> ProjectContextFactory \<Rightarrow> string \<Rightarrow> LocalAggregateStorage \<Rightarrow> bool" where
  "loading d f base s \<longleftrightarrow> las_disk s = d \<and> las_factory s = f \<and> base_directory s = base"

lemma load_metric_file_cases:
  assumes "loading d f base s" and "faults d = []"
  obtains "SimpleAtoi lib n = None" "load_metric_file lib dir c p s n = s"
  | m v where "SimpleAtoi lib n = Some m" "load_metric_file lib dir c p s n = s\<lparr>aggregates := (aggregates s)((c, p, m) \<mapsto> v)\<rparr>"
    "\<And>x. fst (Read (parse_aggregate lib) (sub_path dir n) d) = Inr x \<Longrightarrow> v = x"
proof (cases "SimpleAtoi lib n")
  case None
  with that(1) show thesis by (simp add: load_metric_file_def)
next
  case (Some m)
  obtain r where r: "Read (parse_aggregate lib) (sub_path dir n) d = (r, d)" using Read_no_faults [OF assms(2)] by metis
  have "s\<lparr>las_disk := d\<rparr> = s" using assms(1) by (simp add: loading_def)
  with that(2) [OF Some, of "case r of Inr m \<Rightarrow> m | Inl c \<Rightarrow> failed_read lib (sub_path dir n)"] show thesis
    using Some r assms(1) by (simp add: load_metric_file_def loading_def)
qed

lemma load_metric_file_loading: "loading d f base s \<Longrightarrow> faults d = [] \<Longrightarrow> loading d f base (load_metric_file lib dir c p s n)"
  using load_metric_file_cases [of d f base s lib n dir c p "loading d f base (load_metric_file lib dir c p s n)"] by (simp add: loading_def)

lemma ListEntries_no_faults:
  "faults d = [] \<Longrightarrow> ListEntries dir d = (if dir \<in> set (directories d) then directory_entries dir d else [], d)"
  by (simp add: ListEntries_def next_fault_Nil)

lemma load_project_eq:
  assumes "loading d f base s" and "faults d = []" and "SimpleAtoi lib n = Some p"
  shows "load_project lib dir c s n = (if NewProjectContext f c p = None then s
    else foldl (load_metric_file lib (sub_path dir n) c p) s (fst (ListEntries (sub_path dir n) d)))"
  using assms by (cases s) (simp add: load_project_def loading_def ListEntries_no_faults)

lemma load_project_loading:
  assumes "loading d f base s" and "faults d = []"
  shows "loading d f base (load_project lib dir c s n)"
proof (cases "SimpleAtoi lib n")
  case None
  with assms(1) show ?thesis by (simp add: load_project_def)
next
  case (Some p)
  have "loading d f base (foldl (load_metric_file lib (sub_path dir n) c p) s xs)" for xs
    by (rule foldl_keeps) (simp_all add: assms load_metric_file_loading)
  with assms(1) show ?thesis unfolding load_project_eq [OF assms Some] by simp
qed

lemma load_customer_eq:
  assumes "loading d f base s" and "faults d = []" and "SimpleAtoi lib n = Some c"
  shows "load_customer lib s n = foldl (load_project lib (sub_path base n) c) s (fst (ListEntries (sub_path base n) d))"
  using assms by (cases s) (simp add: load_customer_def loading_def ListEntries_no_faults)

lemma load_customer_loading:
  assumes "loading d f base s" and "faults d = []"
  shows "loading d f base (load_customer lib s n)"
proof (cases "SimpleAtoi lib n")
  case None
  with assms(1) show ?thesis by (simp add: load_customer_def)
next
  case (Some c)
  show ?thesis unfolding load_customer_eq [OF assms Some]
    by (rule foldl_keeps) (simp_all add: assms load_project_loading)
qed

text \<open>An aggregate that is on the disk.\<close>

definition saved_on_disk ::
    "StorageLib \<Rightarrow> Disk \<Rightarrow> ProjectContextFactory \<Rightarrow> string \<Rightarrow> u32 \<Rightarrow> u32 \<Rightarrow> u32 \<Rightarrow> MetricAggregate \<Rightarrow> bool" where
  "saved_on_disk lib d f base cid pid mid a \<longleftrightarrow>
     (\<forall>i. SimpleAtoi lib (decimal (unat i)) = Some i) \<and> faults d = [] \<and> canonical_names lib d \<and>
     base \<in> set (directories d) \<and> sub_id base cid \<in> set (directories d) \<and> sub_id (sub_id base cid) pid \<in> set (directories d) \<and>
     fst (Read (parse_aggregate lib) (sub_id (sub_id (sub_id base cid) pid) mid) d) = Inr a \<and>
     file_of d (sub_id (sub_id (sub_id base cid) pid) mid) \<noteq> None \<and> NewProjectContext f cid pid \<noteq> None"

lemma saved_on_diskD:
  assumes "saved_on_disk lib d f base cid pid mid a"
  shows "SimpleAtoi lib (decimal (unat i)) = Some i" "faults d = []" "canonical_names lib d"
    "base \<in> set (directories d)" "sub_id base cid \<in> set (directories d)" "sub_id (sub_id base cid) pid \<in> set (directories d)"
    "fst (Read (parse_aggregate lib) (sub_id (sub_id (sub_id base cid) pid) mid) d) = Inr a"
    "file_of d (sub_id (sub_id (sub_id base cid) pid) mid) \<noteq> None" "NewProjectContext f cid pid \<noteq> None"
  using assms by (simp_all add: saved_on_disk_def)

lemma load_own_metric:
  assumes sv: "saved_on_disk lib d f base cid pid mid a" and "loading d f base s"
  shows "aggregates (load_metric_file lib (sub_id (sub_id base cid) pid) cid pid s (decimal (unat mid))) (cid, pid, mid) = Some a"
  using assms(2) saved_on_diskD(2) [OF sv]
  by (rule load_metric_file_cases [of d f base s lib "decimal (unat mid)" "sub_id (sub_id base cid) pid" cid pid])
    (auto simp: saved_on_diskD(1,7) [OF sv] sub_path_decimal)

lemma load_metric_keeps:
  assumes sv: "saved_on_disk lib d f base cid pid mid a" and "loading d f base s" and "aggregates s (cid, pid, mid) = Some a"
    and "n \<in> set (directory_entries (sub_id (sub_id base cid) pid) d)"
  shows "aggregates (load_metric_file lib (sub_id (sub_id base cid) pid) cid pid s n) (cid, pid, mid) = Some a"
  using assms(2) saved_on_diskD(2) [OF sv]
proof (cases rule: load_metric_file_cases [of d f base s lib n "sub_id (sub_id base cid) pid" cid pid])
  case 1
  with assms(3) show ?thesis by simp
next
  case (2 m v)
  show ?thesis
  proof (cases "m = mid")
    case True
    with entry_canonical [OF saved_on_diskD(3) [OF sv] assms(4) 2(1)] load_own_metric [OF assms(1,2)] show ?thesis by simp
  next
    case False
    with 2(2) assms(3) show ?thesis by simp
  qed
qed

lemma load_other_metric:
  assumes "loading d f base s" and "faults d = []" and "aggregates s (cid, pid, mid) = Some a" and "(c, p) \<noteq> (cid, pid)"
  shows "aggregates (load_metric_file lib dir c p s n) (cid, pid, mid) = Some a"
  using assms(1,2) by (rule load_metric_file_cases [of d f base s lib n dir c p]) (use assms(3,4) in auto)

lemma load_own_project:
  assumes sv: "saved_on_disk lib d f base cid pid mid a" and "loading d f base s"
  shows "aggregates (load_project lib (sub_id base cid) cid s (decimal (unat pid))) (cid, pid, mid) = Some a"
proof -
  note D = saved_on_diskD [OF sv]
  let ?dir = "sub_id (sub_id base cid) pid"
  have "decimal (unat mid) \<in> set (directory_entries ?dir d)" using D(8) by (intro sub_id_entry) auto
  then have "loading d f base (foldl (load_metric_file lib ?dir cid pid) s (directory_entries ?dir d)) \<and>
      aggregates (foldl (load_metric_file lib ?dir cid pid) s (directory_entries ?dir d)) (cid, pid, mid) = Some a"
    using assms(2) load_metric_file_loading [OF _ D(2)] load_metric_keeps [OF sv] load_own_metric [OF sv]
    by (intro foldl_reaches [where I = "loading d f base" and P = "\<lambda>s. aggregates s (cid, pid, mid) = Some a"]) auto
  with D(2,6,9) show ?thesis by (auto simp: load_project_eq [OF assms(2) D(2) D(1)] ListEntries_no_faults sub_path_decimal)
qed

lemma load_other_project:
  assumes "loading d f base s" and "faults d = []" and "aggregates s (cid, pid, mid) = Some a"
    and "\<And>p. SimpleAtoi lib n = Some p \<Longrightarrow> (c, p) \<noteq> (cid, pid)"
  shows "aggregates (load_project lib dir c s n) (cid, pid, mid) = Some a"
proof (cases "SimpleAtoi lib n")
  case None
  with assms(3) show ?thesis by (simp add: load_project_def)
next
  case (Some p)
  have "loading d f base (foldl (load_metric_file lib (sub_path dir n) c p) s xs) \<and>
      aggregates (foldl (load_metric_file lib (sub_path dir n) c p) s xs) (cid, pid, mid) = Some a" for xs
  proof (rule foldl_keeps [where I = "\<lambda>s. loading d f base s \<and> aggregates s (cid, pid, mid) = Some a"])
    show "loading d f base (load_metric_file lib (sub_path dir n) c p s x) \<and>
        aggregates (load_metric_file lib (sub_path dir n) c p s x) (cid, pid, mid) = Some a"
      if "loading d f base s \<and> aggregates s (cid, pid, mid) = Some a" for s x
      using that load_metric_file_loading [OF _ assms(2)] load_other_metric [OF _ assms(2) _ assms(4) [OF Some]] by blast
  qed (use assms(1,3) in simp)
  with assms(3) show ?thesis by (simp add: load_project_eq [OF assms(1,2) Some])
qed

lemma load_project_keeps:
  assumes sv: "saved_on_disk lib d f base cid pid mid a" and "loading d f base s" and "aggregates s (cid, pid, mid) = Some a"
    and "n \<in> set (directory_entries (sub_id base cid) d)"
  shows "aggregates (load_project lib (sub_id base cid) cid s n) (cid, pid, mid) = Some a"
proof (cases "SimpleAtoi lib n = Some pid")
  case True
  with entry_canonical [OF saved_on_diskD(3) [OF sv] assms(4)] load_own_project [OF assms(1,2)] show ?thesis by simp
next
  case False
  then show ?thesis by (intro load_other_project [OF assms(2) saved_on_diskD(2) [OF sv] assms(3)]) auto
qed

lemma load_own_customer:
  assumes sv: "saved_on_disk lib d f base cid pid mid a" and "loading d f base s"
  shows "aggregates (load_customer lib s (decimal (unat cid))) (cid, pid, mid) = Some a"
proof -
  note D = saved_on_diskD [OF sv]
  let ?dir = "sub_id base cid"
  have "decimal (unat pid) \<in> set (directory_entries ?dir d)" using D(6) by (intro sub_id_entry) auto
  then have "loading d f base (foldl (load_project lib ?dir cid) s (directory_entries ?dir d)) \<and>
      aggregates (foldl (load_project lib ?dir cid) s (directory_entries ?dir d)) (cid, pid, mid) = Some a"
    using assms(2) load_project_loading [OF _ D(2)] load_project_keeps [OF sv] load_own_project [OF sv]
    by (intro foldl_reaches [where I = "loading d f base" and P = "\<lambda>s. aggregates s (cid, pid, mid) = Some a"]) auto
  with D show ?thesis by (simp add: load_customer_eq [OF assms(2) D(2) D(1)] ListEntries_no_faults sub_path_decimal)
qed

lemma load_customer_keeps:
  assumes sv: "saved_on_disk lib d f base cid pid mid a" and "loading d f base s" and "aggregates s (cid, pid, mid) = Some a"
    and "n \<in> set (directory_entries base d)"
  shows "aggregates (load_customer lib s n) (cid, pid, mid) = Some a"
proof (cases "SimpleAtoi lib n")
  case None
  with assms(3) show ?thesis by (simp add: load_customer_def)
next
  case (Some c)
  show ?thesis
  proof (cases "c = cid")
    case True
    with entry_canonical [OF saved_on_diskD(3) [OF sv] assms(4) Some] load_own_customer [OF assms(1,2)] show ?thesis by simp
  next
    case False
    note D = saved_on_diskD [OF sv]
    have "loading d f base (foldl (load_project lib (sub_path base n) c) s xs) \<and>
        aggregates (foldl (load_project lib (sub_path base n) c) s xs) (cid, pid, mid) = Some a" for xs
    proof (rule foldl_keeps [where I = "\<lambda>s. loading d f base s \<and> aggregates s (cid, pid, mid) = Some a"])
      show "loading d f base (load_project lib (sub_path base n) c s x) \<and> aggregates (load_project lib (sub_path base n) c s x) (cid, pid, mid) = Some a"
        if "loading d f base s \<and> aggregates s (cid, pid, mid) = Some a" for s x
        using that load_project_loading [OF _ D(2)] load_other_project [OF _ D(2), of f base s cid pid mid a lib x c] False by blast
    qed (use assms(2,3) in simp)
    then show ?thesis by (simp add: load_customer_eq [OF assms(2) D(2) Some])
  qed
qed

lemma LoadData_loads:
  assumes sv: "saved_on_disk lib d f base cid pid mid a" and "loading d f base s"
  shows "aggregates (LoadData lib s) (cid, pid, mid) = Some a"
proof -
  note D = saved_on_diskD [OF sv]
  have "decimal (unat cid) \<in> set (directory_entries base d)" using D(5) by (intro sub_id_entry) auto
  then have "loading d f base (foldl (load_customer lib) s (directory_entries base d)) \<and>
      aggregates (foldl (load_customer lib) s (directory_entries base d)) (cid, pid, mid) = Some a"
    using assms(2) load_customer_loading [OF _ D(2)] load_customer_keeps [OF sv] load_own_customer [OF sv]
    by (intro foldl_reaches [where I = "loading d f base" and P = "\<lambda>s. aggregates s (cid, pid, mid) = Some a"]) auto
  with assms(2) D(2,4) show ?thesis by (cases s) (simp add: LoadData_def loading_def ListEntries_no_faults)
qed

section \<open>Initialisation\<close>

definition disk_grows :: "StorageLib \<Rightarrow> Disk \<Rightarrow> Disk \<Rightarrow> bool" where
  "disk_grows lib d d' \<longleftrightarrow> faults d' = [] \<and> files d' = files d \<and> set (directories d) \<subseteq> set (directories d') \<and>
     (canonical_names lib d \<longrightarrow> canonical_names lib d')"

lemma disk_grows_trans: "disk_grows lib d d1 \<Longrightarrow> disk_grows lib d1 d2 \<Longrightarrow> disk_grows lib d d2"
  by (auto simp: disk_grows_def)

lemma canonical_names_insert:
  assumes "canonical_names lib d" and "\<forall>i. SimpleAtoi lib (decimal (unat i)) = Some i"
    and sub: "dom (file_of d') \<union> set (directories d') \<subseteq> insert (sub_id dir i) (dom (file_of d) \<union> set (directories d))"
  shows "canonical_names lib d'"
  unfolding canonical_names_def
proof (intro ballI allI impI)
  fix p x n j
  assume p: "p \<in> dom (file_of d') \<union> set (directories d')" "entry_in x p = Some n" "SimpleAtoi lib n = Some j"
  show "n = decimal (unat j)"
  proof (cases "p = sub_id dir i")
    case True
    with p(2) have "n = decimal (unat i)" by (simp add: entry_in_sub_id)
    with assms(2) p(3) show ?thesis by simp
  next
    case False
    with sub p(1) have "p \<in> dom (file_of d) \<union> set (directories d)" by blast
    with assms(1) p(2,3) show ?thesis unfolding canonical_names_def by blast
  qed
qed

lemma make_missing_directory_grows:
  assumes "faults d = []" and atoi: "\<forall>i. SimpleAtoi lib (decimal (unat i)) = Some i"
  shows "disk_grows lib d (make_missing_directory (sub_id dir i) d)"
proof -
  have "canonical_names lib (d\<lparr>directories := sub_id dir i # directories d\<rparr>)" if "canonical_names lib d"
    using that atoi by (rule canonical_names_insert [of _ _ _ dir i]) auto
  with assms(1) show ?thesis
    by (auto simp: make_missing_directory_def PathExists_def MakeDirectory_def next_fault_Nil disk_grows_def)
qed

text \<open>The steps of the initialisation change neither the members nor the files.\<close>

definition initializing :: "StorageLib \<Rightarrow> LocalAggregateStorage \<Rightarrow> LocalAggregateStorage \<Rightarrow> bool" where
  "initializing lib s s' \<longleftrightarrow> disk_grows lib (las_disk s) (las_disk s') \<and> las_factory s' = las_factory s \<and> base_directory s' = base_directory s"

lemma initializing_trans: "initializing lib s s1 \<Longrightarrow> initializing lib s1 s2 \<Longrightarrow> initializing lib s s2"
  unfolding initializing_def using disk_grows_trans by metis

lemma add_missing_aggregates_sel:
  "las_disk (foldl (add_missing_aggregate c p) s ms) = las_disk s \<and> las_factory (foldl (add_missing_aggregate c p) s ms) = las_factory s \<and>
   base_directory (foldl (add_missing_aggregate c p) s ms) = base_directory s"
  by (induction ms arbitrary: s) (auto simp: add_missing_aggregate_def)

lemma initialize_project_returns:
  assumes "faults (las_disk s) = []" and atoi: "\<forall>i. SimpleAtoi lib (decimal (unat i)) = Some i"
    and "NewProjectContext (las_factory s) (fst prj) (snd prj) \<noteq> None"
  shows "\<exists>s'. initialize_project s prj = Some s' \<and> initializing lib s s'"
proof -
  let ?c = "sub_id (base_directory s) (fst prj)"
  let ?d1 = "make_missing_directory ?c (las_disk s)"
  let ?d2 = "make_missing_directory (sub_id ?c (snd prj)) ?d1"
  have 1: "disk_grows lib (las_disk s) ?d1" by (rule make_missing_directory_grows [OF assms(1,2)])
  then have "faults ?d1 = []" by (simp add: disk_grows_def)
  from disk_grows_trans [OF 1 make_missing_directory_grows [OF this atoi]] have "disk_grows lib (las_disk s) ?d2" .
  with assms(3) show ?thesis
    by (auto simp: initialize_project_def initializing_def add_missing_aggregates_sel Let_def split: prod.splits)
qed

lemma each_initialize_returns:
  assumes atoi: "\<forall>i. SimpleAtoi lib (decimal (unat i)) = Some i"
    and "faults (las_disk s) = []" and "\<forall>x \<in> set xs. NewProjectContext (las_factory s) (fst x) (snd x) \<noteq> None"
  shows "\<exists>s'. each initialize_project s xs = Some s' \<and> (xs = [] \<and> s' = s \<or> initializing lib s s')"
  using assms(2,3)
proof (induction xs arbitrary: s)
  case (Cons x xs)
  obtain s1 where s1: "initialize_project s x = Some s1" "initializing lib s s1"
    using initialize_project_returns [OF Cons.prems(1) atoi, of x] Cons.prems(2) by auto
  then have "faults (las_disk s1) = []" "las_factory s1 = las_factory s" by (simp_all add: initializing_def disk_grows_def)
  with Cons.IH [of s1] Cons.prems(2) obtain s' where "each initialize_project s1 xs = Some s'" "xs = [] \<and> s' = s1 \<or> initializing lib s1 s'" by auto
  with s1 initializing_trans show ?case by auto
qed simp

definition registry_complete :: "ProjectContextFactory \<Rightarrow> bool" where
  "registry_complete f \<longleftrightarrow> (\<exists>ps. factory_ListProjects f = Some ps \<and> (\<forall>x \<in> set ps. NewProjectContext f (fst x) (snd x) \<noteq> None))"

lemma initializing_refl: "faults (las_disk s) = [] \<Longrightarrow> initializing lib s s"
  by (simp add: initializing_def disk_grows_def)

lemma InitializePersistentStore_returns:
  assumes "\<forall>i. SimpleAtoi lib (decimal (unat i)) = Some i" and "faults (las_disk s) = []" and "registry_complete (las_factory s)"
  shows "\<exists>s'. InitializePersistentStore s = Some s' \<and> initializing lib s s'"
proof -
  obtain ps where ps: "factory_ListProjects (las_factory s) = Some ps" "\<forall>x \<in> set ps. NewProjectContext (las_factory s) (fst x) (snd x) \<noteq> None"
    using assms(3) by (auto simp: registry_complete_def)
  obtain s' where "each initialize_project s ps = Some s'" "ps = [] \<and> s' = s \<or> initializing lib s s'"
    using each_initialize_returns [OF assms(1,2) ps(2)] by blast
  with ps(1) initializing_refl [OF assms(2)] show ?thesis by (auto simp: InitializePersistentStore_def)
qed

section \<open>Saving and loading\<close>

lemma Rename_directories [simp]: "directories (snd (Rename a b d)) = directories d"
  using Rename_cases [of a b d "fst (Rename a b d)" "snd (Rename a b d)"] by (metis prod.collapse)

lemma Delete_directories [simp]: "directories (snd (Delete a d)) = directories d"
  using Delete_cases [of a d "fst (Delete a d)" "snd (Delete a d)"] by (metis prod.collapse)

lemma next_fault_directories [simp]: "directories (snd (next_fault d)) = directories d"
  using next_fault_state [of d "fst (next_fault d)" "snd (next_fault d)"] by simp

lemma FileExists_directories [simp]: "directories (snd (FileExists a d)) = directories d"
  by (simp add: FileExists_def case_prod_unfold Let_def)

lemma NewProtoOutputStream_directories [simp]: "directories (snd (NewProtoOutputStream p b d)) = directories d"
  by (auto simp: NewProtoOutputStream_def case_prod_unfold Let_def split: Fault.splits)

lemma stream_write_directories [simp]: "directories (snd (snd (stream_write st bs d))) = directories d"
  by (simp add: stream_write_def case_prod_unfold Let_def)

lemma Write_directories [simp]: "directories (snd (Write ser p m d)) = directories d"
proof -
  have del: "directories (snd (DeletePrimary p d)) = directories d" for p d
    by (simp add: DeletePrimary_def case_prod_unfold)
  have mv: "directories (snd (MoveOverrideToPrimary o' p d)) = directories d" "directories (snd (MoveTmpToOverride o' p d)) = directories d" for o' p d
    by (simp_all add: MoveOverrideToPrimary_def MoveTmpToOverride_def case_prod_unfold)
  have rec: "directories (snd (recover p d)) = directories d" for p d
    by (simp add: recover_def case_prod_unfold Let_def mv del)
  have tmp: "directories (snd (WriteToTmp ser t m d)) = directories d" for t d
    using NewProtoOutputStream_directories [of t False d]
    by (cases "NewProtoOutputStream t False d") (auto simp: WriteToTmp_def case_prod_unfold split: sum.splits)
  have rie: "directories (snd (return_if_error f g d)) = directories d"
    if "\<And>d. directories (snd (f d)) = directories d" "\<And>d. directories (snd (g d)) = directories d" for f g d
    using that by (simp add: return_if_error_def case_prod_unfold)
  show ?thesis unfolding Write_def Let_def by (intro rie rec tmp mv del)
qed

text \<open>C21. The aggregate of a metric survives a restart: after \<open>SaveMetricAggregate\<close>, which answers \<open>OK\<close> when no call fails, a storage that is constructed
  on the same files finds the same aggregate, whatever other files and directories there are, as long as every name that stands for a
  number is its decimal numeral.\<close>

theorem storage_round_trip:
  assumes "\<forall>i. SimpleAtoi lib (decimal (unat i)) = Some i" and "parse_aggregate lib (ser_aggregate lib a) = Some a"
    and "faults (las_disk s) = []" and "canonical_names lib (las_disk s)"
    and "{base_directory s, sub_id (base_directory s) cid, sub_id (sub_id (base_directory s) cid) pid} \<subseteq> set (directories (las_disk s))"
    and "file_of (las_disk s) (sub_id (sub_id (sub_id (base_directory s) cid) pid) mid @ kTmpSuffix) = None"
    and "registry_complete (las_factory s)" and "NewProjectContext (las_factory s) cid pid \<noteq> None"
    and "GetMetricAggregate cid pid mid s = Some a"
  shows "\<exists>s1 s2. SaveMetricAggregate lib cid pid mid s = (OK, s1) \<and>
    LocalAggregateStorage_ctor lib (base_directory s) (las_disk s1) (Some (las_factory s)) = Some s2 \<and> GetMetricAggregate cid pid mid s2 = Some a"
proof -
  let ?b = "base_directory s" and ?p = "sub_id (sub_id (sub_id (base_directory s) cid) pid) mid"
  define d1 where "d1 = snd (Write (ser_aggregate lib) ?p a (las_disk s))"
  have d1: "faults d1 = []" "file_of d1 = (file_of (las_disk s))(?p \<mapsto> ser_aggregate lib a, ?p @ kOverrideSuffix := None)"
    "directories d1 = directories (las_disk s)"
    unfolding d1_def using Write_clean [OF assms(3,6)] by simp_all
  have save: "SaveMetricAggregate lib cid pid mid s = (OK, s\<lparr>las_disk := d1\<rparr>)"
    using assms(9) Write_no_faults_status [OF assms(3), of "ser_aggregate lib" ?p a]
    by (simp add: SaveMetricAggregate_def GetMetricAggregate_def d1_def case_prod_unfold)
  have "dom (file_of d1) \<union> set (directories d1) \<subseteq> insert ?p (dom (file_of (las_disk s)) \<union> set (directories (las_disk s)))"
    unfolding d1(2,3) by (auto split: if_splits)
  then have canon: "canonical_names lib d1" by (rule canonical_names_insert [OF assms(4,1)])
  let ?s0 = "\<lparr>base_directory = ?b, las_disk = d1, las_factory = las_factory s, aggregates = (\<lambda>_. None)\<rparr>"
  obtain s' where s': "InitializePersistentStore ?s0 = Some s'" "initializing lib ?s0 s'"
    using InitializePersistentStore_returns [OF assms(1), of ?s0] d1(1) assms(7) by auto
  let ?d = "las_disk s'"
  have d: "faults ?d = []" "file_of ?d = file_of d1" "set (directories d1) \<subseteq> set (directories ?d)" "canonical_names lib ?d"
    "las_factory s' = las_factory s" "base_directory s' = ?b"
    using s'(2) canon by (simp_all add: initializing_def disk_grows_def)
  have f: "file_of ?d ?p = Some (ser_aggregate lib a)" "file_of ?d (?p @ kOverrideSuffix) = None" by (simp_all add: d(2) d1(2))
  have "fst (Read (parse_aggregate lib) ?p ?d) = Inr a" by (rule Read_written [OF d(1) f]) (simp add: assms(2))
  then have "saved_on_disk lib ?d (las_factory s) ?b cid pid mid a"
    using assms(1,5,8) d f(1) d1(3) by (auto simp: saved_on_disk_def)
  from LoadData_loads [OF this, of s'] d(5,6) have "aggregates (LoadData lib s') (cid, pid, mid) = Some a" by (simp add: loading_def)
  with save s'(1) show ?thesis by (simp add: LocalAggregateStorage_ctor_def GetMetricAggregate_def)
qed

text \<open>An aggregate that has no entry for a report, as all new ones: adding an event to it fails a \<open>CHECK\<close>.\<close>

theorem AddEvent_new_aggregate:
  assumes "rec_metric r = Some metric" and "reports metric = report # rest" and "AggregationProcedure_Get metric report \<noteq> None"
    and "GetMetricAggregate (project_customer_id (project (rec_project_context r))) (project_project_id (project (rec_project_context r)))
      (metric_def_id metric) s = Some empty_aggregate"
  shows "AddEvent lib r s = None"
  using assms by (auto simp: AddEvent_def update_report_def empty_aggregate_def)

text \<open>An example: a library whose \<open>SimpleAtoi\<close> accepts exactly the decimal numerals.\<close>

definition example_atoi :: "string \<Rightarrow> u32 option" where
  "example_atoi s = (let n = foldl (\<lambda>n c. 10 * n + (of_char c - 48)) 0 s in if n < 2 ^ 32 \<and> decimal n = s then Some (of_nat n) else None)"

definition example_lib :: StorageLib where
  "example_lib = \<lparr>SimpleAtoi = example_atoi, ser_aggregate = (\<lambda>_. [7]), parse_aggregate = (\<lambda>_. Some \<lparr>ma_version = 1, by_report_id = []\<rparr>),
     failed_read = (\<lambda>_. empty_aggregate)\<rparr>"

definition example_storage :: LocalAggregateStorage where
  "example_storage = \<lparr>base_directory = ''b'', las_disk = \<lparr>files = [], directories = [''b/1/2'', ''b/1'', ''b''], faults = [], history = []\<rparr>,
     las_factory = ProjectContextFactory_ctor example_registry, aggregates = (\<lambda>_. None)((1, 2, 3) \<mapsto> \<lparr>ma_version = 1, by_report_id = []\<rparr>)\<rparr>"

lemma digits_value_decimal: "foldl (\<lambda>n c. 10 * n + (of_char c - 48)) 0 (decimal n) = n"
proof (induction n rule: decimal.induct)
  case (1 n)
  have d: "of_char (digit m) - 48 = m" if "m < 10" for m :: nat using that by (simp add: digit_def)
  show ?case
  proof (cases "n < 10")
    case True
    then show ?thesis by (simp add: decimal.simps [of n] d)
  next
    case False
    with 1 show ?thesis by (simp add: decimal.simps [of n] d)
  qed
qed

lemma example_atoi_decimal: "example_atoi (decimal (unat i)) = Some i" "example_atoi s = Some i \<Longrightarrow> s = decimal (unat i)"
  using unsigned_less [of i] by (auto simp: example_atoi_def digits_value_decimal Let_def unsigned_of_nat take_bit_nat_eq_self split: if_splits)

lemma example_registry_projects:
  "factory_ListProjects (ProjectContextFactory_ctor example_registry) = Some [(1, 2)]"
  "\<exists>ctx. NewProjectContext (ProjectContextFactory_ctor example_registry) 1 2 = Some ctx"
  "\<exists>ctx. NewProjectContext (ProjectContextFactory_ctor example_registry) 1 2 = Some ctx \<and> ListMetrics ctx = [3]"
  by (simp_all add: ListMetrics_def add_metric_def PopulateProject_def factory_ListProjects_def ProjectContextFactory_ctor_def CreateFromCobaltRegistryProto_def ListProjects_def example_registry_def
      ProjectConfigs_ctor_def add_customer_def add_project_def add_project_metric_def add_report_def NewProjectContext_def GetCustomerConfig_def GetProjectConfig_def
      ProjectContext_ctor_def example_metric_def Let_def)

theorem storage_round_trip_witness:
  "\<exists>s1 s2. SaveMetricAggregate example_lib 1 2 3 example_storage = (OK, s1) \<and>
     LocalAggregateStorage_ctor example_lib ''b'' (las_disk s1) (Some (ProjectContextFactory_ctor example_registry)) = Some s2 \<and>
     GetMetricAggregate 1 2 3 s2 = Some \<lparr>ma_version = 1, by_report_id = []\<rparr>"
proof -
  have dec: "decimal (Suc 0) = ''1''" "decimal 2 = ''2''" by (simp_all add: decimal.simps digit_simps)
  have "registry_complete (ProjectContextFactory_ctor example_registry)"
    using example_registry_projects by (auto simp: registry_complete_def)
  then show ?thesis
    using storage_round_trip [of example_lib "\<lparr>ma_version = 1, by_report_id = []\<rparr>" example_storage 1 2 3] example_registry_projects example_atoi_decimal
    by (auto simp: example_lib_def example_storage_def canonical_names_def sub_id_def sub_path_def dec GetMetricAggregate_def)
qed

text \<open>A crash of \<open>SaveMetricAggregate\<close> between the deletion of the primary file and the last renaming leaves the aggregate in the override file only, where \<open>Read\<close> would
  find it; but the loop over the files sees the name of the override file, which is not a number, and the new storage starts with an
  empty aggregate.\<close>

theorem override_is_not_loaded:
  "map_option (GetMetricAggregate 1 2 3) (LocalAggregateStorage_ctor example_lib ''b''
     \<lparr>files = [(''b/1/2/3.override'', [7])], directories = [''b/1/2'', ''b/1'', ''b''], faults = [], history = []\<rparr>
     (Some (ProjectContextFactory_ctor example_registry))) = Some (Some empty_aggregate) \<and>
   fst (Read (parse_aggregate example_lib) ''b/1/2/3''
     \<lparr>files = [(''b/1/2/3.override'', [7])], directories = [''b/1/2'', ''b/1'', ''b''], faults = [], history = []\<rparr>) =
     Inr \<lparr>ma_version = 1, by_report_id = []\<rparr>"
proof
  let ?d = "\<lparr>files = [(''b/1/2/3.override'', [7 :: u8])], directories = [''b/1/2'', ''b/1'', ''b''], faults = [], history = []\<rparr>"
  let ?f = "ProjectContextFactory_ctor example_registry"
  have dec: "decimal (Suc 0) = ''1''" "decimal 2 = ''2''" by (simp_all add: decimal.simps digit_simps)
  have atoi: "example_atoi ''1'' = Some 1" "example_atoi ''2'' = Some 2" using example_atoi_decimal(1) [of 1] example_atoi_decimal(1) [of 2] dec by simp_all
  have none: "example_atoi ''3.override'' = None"
  proof (rule ccontr)
    assume "example_atoi ''3.override'' \<noteq> None"
    then obtain i where "example_atoi ''3.override'' = Some i" by blast
    then have "decimal (unat i) = ''3.override''" by (rule example_atoi_decimal(2) [symmetric])
    with decimal_digits [of "unat i"] show False by (simp add: is_digit_def)
  qed
  obtain ctx where ctx: "NewProjectContext ?f 1 2 = Some ctx" "ListMetrics ctx = [3]"
    using example_registry_projects(3) by blast
  have init: "InitializePersistentStore \<lparr>base_directory = ''b'', las_disk = ?d, las_factory = ?f, aggregates = (\<lambda>_. None)\<rparr> =
      Some \<lparr>base_directory = ''b'', las_disk = ?d, las_factory = ?f, aggregates = (\<lambda>_. None)((1, 2, 3) \<mapsto> empty_aggregate)\<rparr>"
    by (simp add: InitializePersistentStore_def example_registry_projects(1) initialize_project_def make_missing_directory_def PathExists_def next_fault_def
        sub_id_def sub_path_def dec ctx add_missing_aggregate_def)
  have "directory_entries ''b'' ?d = [''1'']" "directory_entries ''b/1'' ?d = [''2'']" "directory_entries ''b/1/2'' ?d = [''3.override'']"
    by (simp_all add: directory_entries_def readdir_def entry_in_def List.map_filter_simps skipped_entry_def)
  then show "map_option (GetMetricAggregate 1 2 3) (LocalAggregateStorage_ctor example_lib ''b'' ?d (Some ?f)) = Some (Some empty_aggregate)"
    by (simp add: LocalAggregateStorage_ctor_def init LoadData_def ListEntries_def next_fault_def load_customer_def load_project_def load_metric_file_def
        sub_path_def example_lib_def atoi none ctx GetMetricAggregate_def)
  show "fst (Read (parse_aggregate example_lib) ''b/1/2/3'' ?d) = Inr \<lparr>ma_version = 1, by_report_id = []\<rparr>"
    by (simp add: Read_def NewProtoInputStream_def next_fault_def kOverrideSuffix_def example_lib_def)
qed

end
