(* ===== verification/Encrypted_Messages.thy ===== *)
theory Encrypted_Messages
  imports File_System Observation_Store
begin

text \<open>
  The makers of encrypted messages (\<^verbatim>\<open>src/src/lib/util/encrypted_message_util.cc\<close>). The hybrid encryption of Tink is a parameter, a record of the
  functions the source calls; \<open>tink_decrypts\<close> and \<open>tink_encrypts\<close> state what its documentation promises. A \<open>StatusOr\<close> is a sum: \<open>Inl\<close> is
  the code of an error. The lemmas describe which keys are accepted and what the recipient of a message, who
  has the private keys, reads in it; \<open>open_message\<close> is that recipient.
\<close>

section \<open>Keys\<close>

datatype KeyPurpose = UNSET | SHUFFLER | ANALYZER | OTHER_PURPOSE int

record CobaltEncryptionKey =
  serialized_key :: bytes
  cobalt_key_index :: u32
  purpose :: KeyPurpose

definition kShufflerContextInfo :: string where "kShufflerContextInfo = ''cobalt-1.0-shuffler''"

definition kAnalyzerContextInfo :: string where "kAnalyzerContextInfo = ''cobalt-1.0-analyzer''"

record ('h, 'e) Tink =
  HybridConfig_Register :: StatusCode
  ReadNoSecret :: "bytes \<Rightarrow> StatusCode + 'h"
  GetPrimitive :: "'h \<Rightarrow> StatusCode + 'e"
  HybridEncrypt :: "'e \<Rightarrow> bytes \<Rightarrow> string \<Rightarrow> StatusCode + bytes"

text \<open>Both libraries use the canonical error codes, so that the cast of a code is the identity.\<close>

definition StatusFromTinkStatus :: "StatusCode \<Rightarrow> StatusCode" where
  "StatusFromTinkStatus tink_status = tink_status"

section \<open>Makers\<close>

datatype 'e EncryptedMessageMaker = UnencryptedMessageMaker | HybridTinkEncryptedMessageMaker 'e string u32

fun maker_scheme :: "'e EncryptedMessageMaker \<Rightarrow> EncryptionScheme" where
  "maker_scheme UnencryptedMessageMaker = NONE"
| "maker_scheme (HybridTinkEncryptedMessageMaker e context_info index) = HYBRID_TINK"

definition MakeHybridTinkEncryptedMessageMaker ::
    "('h, 'e) Tink \<Rightarrow> bytes \<Rightarrow> string \<Rightarrow> u32 \<Rightarrow> StatusCode + 'e EncryptedMessageMaker" where
  "MakeHybridTinkEncryptedMessageMaker tink public_keyset_bytes context_info index =
     (if HybridConfig_Register tink \<noteq> OK then Inl (StatusFromTinkStatus (HybridConfig_Register tink))
      else case ReadNoSecret tink public_keyset_bytes of
             Inl c \<Rightarrow> Inl (StatusFromTinkStatus c)
           | Inr keyset_handle \<Rightarrow>
               case GetPrimitive tink keyset_handle of
                 Inl c \<Rightarrow> Inl (StatusFromTinkStatus c)
               | Inr encrypter \<Rightarrow> Inr (HybridTinkEncryptedMessageMaker encrypter context_info index))"

definition ParseCobaltEncryptionKey :: "(string \<Rightarrow> CobaltEncryptionKey option) \<Rightarrow> string \<Rightarrow> StatusCode + CobaltEncryptionKey" where
  "ParseCobaltEncryptionKey parse_key key_bytes =
     (case parse_key key_bytes of
        None \<Rightarrow> Inl INVALID_ARGUMENT
      | Some key \<Rightarrow>
          if cobalt_key_index key = 0 then Inl INVALID_ARGUMENT
          else if purpose key \<noteq> SHUFFLER \<and> purpose key \<noteq> ANALYZER then Inl INVALID_ARGUMENT
          else Inr key)"

definition MakeUnencrypted :: "'e EncryptedMessageMaker" where
  "MakeUnencrypted = UnencryptedMessageMaker"

definition MakeForEnvelopes ::
    "('h, 'e) Tink \<Rightarrow> (string \<Rightarrow> CobaltEncryptionKey option) \<Rightarrow> string \<Rightarrow> StatusCode + 'e EncryptedMessageMaker" where
  "MakeForEnvelopes tink parse_key key_bytes =
     (case ParseCobaltEncryptionKey parse_key key_bytes of
        Inl c \<Rightarrow> Inl c
      | Inr key \<Rightarrow>
          if purpose key \<noteq> SHUFFLER then Inl INVALID_ARGUMENT
          else MakeHybridTinkEncryptedMessageMaker tink (serialized_key key) kShufflerContextInfo (cobalt_key_index key))"

definition MakeForObservations ::
    "('h, 'e) Tink \<Rightarrow> (string \<Rightarrow> CobaltEncryptionKey option) \<Rightarrow> string \<Rightarrow> StatusCode + 'e EncryptedMessageMaker" where
  "MakeForObservations tink parse_key key_bytes =
     (case ParseCobaltEncryptionKey parse_key key_bytes of
        Inl c \<Rightarrow> Inl c
      | Inr key \<Rightarrow>
          if purpose key \<noteq> ANALYZER then Inl INVALID_ARGUMENT
          else MakeHybridTinkEncryptedMessageMaker tink (serialized_key key) kAnalyzerContextInfo (cobalt_key_index key))"

text \<open>The second result is the message behind the pointer, of which only some fields are set.\<close>

fun Maker_Encrypt ::
    "('h, 'e) Tink \<Rightarrow> ('m \<Rightarrow> bytes) \<Rightarrow> 'e EncryptedMessageMaker \<Rightarrow> 'm \<Rightarrow> EncryptedMessage option \<Rightarrow> bool \<times> EncryptedMessage option" where
  "Maker_Encrypt tink ser maker message None = (False, None)"
| "Maker_Encrypt tink ser UnencryptedMessageMaker message (Some encrypted_message) =
     (True, Some (encrypted_message\<lparr>scheme := NONE, ciphertext := ser message\<rparr>))"
| "Maker_Encrypt tink ser (HybridTinkEncryptedMessageMaker encrypter context_info index) message (Some encrypted_message) =
     (case HybridEncrypt tink encrypter (ser message) context_info of
        Inl c \<Rightarrow> (False, Some encrypted_message)
      | Inr ct \<Rightarrow>
          let encrypted_message = encrypted_message\<lparr>ciphertext := ct\<rparr>
          in (True, Some (if index = 0 then encrypted_message\<lparr>scheme := HYBRID_TINK\<rparr> else encrypted_message\<lparr>key_index := index\<rparr>)))"

text \<open>How the writer, the stores and the shipping manager call it: on a new message.\<close>

definition encrypter_of :: "('h, 'e) Tink \<Rightarrow> ('m \<Rightarrow> bytes) \<Rightarrow> 'e EncryptedMessageMaker \<Rightarrow> 'm \<Rightarrow> EncryptedMessage option" where
  "encrypter_of tink ser maker message =
     (case Maker_Encrypt tink ser maker message (Some default_EncryptedMessage) of (ok, e) \<Rightarrow> if ok then e else None)"

section \<open>The recipient\<close>

definition tink_decrypts :: "('h, 'e) Tink \<Rightarrow> (bytes \<Rightarrow> bytes \<Rightarrow> string \<Rightarrow> bytes option) \<Rightarrow> bool" where
  "tink_decrypts tink Decrypt \<longleftrightarrow>
     (\<forall>k h e m ctx c. ReadNoSecret tink k = Inr h \<longrightarrow> GetPrimitive tink h = Inr e \<longrightarrow> HybridEncrypt tink e m ctx = Inr c \<longrightarrow>
        Decrypt k c ctx = Some m)"

definition tink_encrypts :: "('h, 'e) Tink \<Rightarrow> bool" where
  "tink_encrypts tink \<longleftrightarrow> (\<forall>e m ctx. \<exists>c. HybridEncrypt tink e m ctx = Inr c)"

text \<open>The recipient finds the key of a message by its index; a message without an index and with the scheme \<open>NONE\<close> is plain.\<close>

definition open_message ::
    "(bytes \<Rightarrow> bytes \<Rightarrow> string \<Rightarrow> bytes option) \<Rightarrow> (u32 \<Rightarrow> bytes option) \<Rightarrow> string \<Rightarrow> EncryptedMessage \<Rightarrow> bytes option" where
  "open_message Decrypt keys ctx e =
     (if key_index e \<noteq> 0
      then (case keys (key_index e) of None \<Rightarrow> None | Some k \<Rightarrow> Decrypt k (ciphertext e) ctx)
      else if scheme e = NONE then Some (ciphertext e) else None)"

text \<open>The recipient of a maker: it has the key whose index the maker writes.\<close>

fun knows_key :: "('h, 'e) Tink \<Rightarrow> (u32 \<Rightarrow> bytes option) \<Rightarrow> string \<Rightarrow> 'e EncryptedMessageMaker \<Rightarrow> bool" where
  "knows_key tink keys ctx UnencryptedMessageMaker \<longleftrightarrow> True"
| "knows_key tink keys ctx (HybridTinkEncryptedMessageMaker e context_info index) \<longleftrightarrow>
     context_info = ctx \<and> index \<noteq> 0 \<and>
     (\<exists>k h. keys index = Some k \<and> ReadNoSecret tink k = Inr h \<and> GetPrimitive tink h = Inr e)"

lemma MakeHybrid_Inr:
  "MakeHybridTinkEncryptedMessageMaker tink k ctx index = Inr maker \<longleftrightarrow>
     HybridConfig_Register tink = OK \<and>
     (\<exists>h e. ReadNoSecret tink k = Inr h \<and> GetPrimitive tink h = Inr e \<and> maker = HybridTinkEncryptedMessageMaker e ctx index)"
  by (auto simp: MakeHybridTinkEncryptedMessageMaker_def split: sum.splits if_splits)

text \<open>The keys that are accepted, and their makers.\<close>

lemma MakeForObservations_Inr:
  "MakeForObservations tink parse_key key_bytes = Inr maker \<longleftrightarrow>
     HybridConfig_Register tink = OK \<and>
     (\<exists>key h e. parse_key key_bytes = Some key \<and> cobalt_key_index key \<noteq> 0 \<and> purpose key = ANALYZER \<and>
        ReadNoSecret tink (serialized_key key) = Inr h \<and> GetPrimitive tink h = Inr e \<and>
        maker = HybridTinkEncryptedMessageMaker e kAnalyzerContextInfo (cobalt_key_index key))"
  by (auto simp: MakeForObservations_def ParseCobaltEncryptionKey_def MakeHybrid_Inr split: option.splits sum.splits if_splits)

lemma MakeForEnvelopes_Inr:
  "MakeForEnvelopes tink parse_key key_bytes = Inr maker \<longleftrightarrow>
     HybridConfig_Register tink = OK \<and>
     (\<exists>key h e. parse_key key_bytes = Some key \<and> cobalt_key_index key \<noteq> 0 \<and> purpose key = SHUFFLER \<and>
        ReadNoSecret tink (serialized_key key) = Inr h \<and> GetPrimitive tink h = Inr e \<and>
        maker = HybridTinkEncryptedMessageMaker e kShufflerContextInfo (cobalt_key_index key))"
  by (auto simp: MakeForEnvelopes_def ParseCobaltEncryptionKey_def MakeHybrid_Inr split: option.splits sum.splits if_splits)

text \<open>A maker that was made for a key is readable for whoever has this key under its index.\<close>

lemma MakeForObservations_knows_key:
  assumes "MakeForObservations tink parse_key key_bytes = Inr maker"
    and "\<forall>key. parse_key key_bytes = Some key \<longrightarrow> keys (cobalt_key_index key) = Some (serialized_key key)"
  shows "knows_key tink keys kAnalyzerContextInfo maker"
  using assms by (auto simp: MakeForObservations_Inr)

lemma MakeForEnvelopes_knows_key:
  assumes "MakeForEnvelopes tink parse_key key_bytes = Inr maker"
    and "\<forall>key. parse_key key_bytes = Some key \<longrightarrow> keys (cobalt_key_index key) = Some (serialized_key key)"
  shows "knows_key tink keys kShufflerContextInfo maker"
  using assms by (auto simp: MakeForEnvelopes_Inr)

lemma open_encrypted:
  assumes "tink_decrypts tink Decrypt" and "knows_key tink keys ctx maker" and "encrypter_of tink ser maker m = Some e"
  shows "open_message Decrypt keys ctx e = Some (ser m)"
proof (cases maker)
  case UnencryptedMessageMaker
  with assms(3) show ?thesis by (auto simp: encrypter_of_def open_message_def default_EncryptedMessage_def)
next
  case (HybridTinkEncryptedMessageMaker enc context_info index)
  with assms(2) obtain k h where k: "context_info = ctx" "index \<noteq> 0" "keys index = Some k" "ReadNoSecret tink k = Inr h"
    "GetPrimitive tink h = Inr enc" by auto
  from assms(3) HybridTinkEncryptedMessageMaker k obtain c where
    c: "HybridEncrypt tink enc (ser m) ctx = Inr c" "e = default_EncryptedMessage\<lparr>ciphertext := c, key_index := index\<rparr>"
    by (auto simp: encrypter_of_def Let_def split: sum.splits)
  have "Decrypt k c ctx = Some (ser m)" using assms(1) k(4,5) c(1) by (simp add: tink_decrypts_def)
  with c k show ?thesis by (simp add: open_message_def)
qed

lemma encrypter_total:
  assumes "tink_encrypts tink"
  shows "\<exists>e. encrypter_of tink ser maker m = Some e"
proof (cases maker)
  case (HybridTinkEncryptedMessageMaker enc context_info index)
  moreover obtain c where "HybridEncrypt tink enc (ser m) context_info = Inr c"
    using assms unfolding tink_encrypts_def by blast
  ultimately show ?thesis by (simp add: encrypter_of_def Let_def)
qed (simp add: encrypter_of_def)

text \<open>A message of a maker for a key is never taken for a plain one.\<close>

lemma encrypted_is_not_plain:
  assumes "MakeForObservations tink parse_key key_bytes = Inr maker \<or> MakeForEnvelopes tink parse_key key_bytes = Inr maker"
    and "encrypter_of tink ser maker m = Some e"
  shows "key_index e \<noteq> 0" and "maker_scheme maker = HYBRID_TINK"
  using assms by (auto simp: MakeForObservations_Inr MakeForEnvelopes_Inr encrypter_of_def Let_def split: sum.splits)

end
