(* ===== verification/System_Data.thy ===== *)
theory System_Data
  imports Observation_Encoder
begin

text \<open>
  \<open>SystemData\<close> (\<^verbatim>\<open>src/src/system_data/system_data.cc\<close>): the profile of the device, which the encoder copies into the metadata of observations, and the state of its
  experiments. The operating system and the processor, which the source selects by the preprocessor, and the register that \<open>cpuid\<close> returns are
  parameters. The lemmas show that the fields are independent of each other, that the buffer of the board name is large enough, and that the signature of an unknown processor
  can be read back from the board name.
\<close>

section \<open>Board names\<close>

datatype OperatingSystem = linux_os | fuchsia_os | other_os
datatype Processor = x86_64_cpu | aarch64_cpu | other_cpu

text \<open>What \<open>%X\<close> prints for a 32-bit number.\<close>

definition hex_digit :: "nat \<Rightarrow> char" where
  "hex_digit n = char_of (if n < 10 then 48 + n else 55 + n)"

fun hexadecimal :: "nat \<Rightarrow> string" where
  "hexadecimal n = (if n < 16 then [hex_digit n] else hexadecimal (n div 16) @ [hex_digit (n mod 16)])"

declare hexadecimal.simps [simp del]

text \<open>\<open>snprintf\<close> into a buffer of the given size: what does not fit, with the terminator, is cut off.\<close>

definition snprintf :: "nat \<Rightarrow> string \<Rightarrow> string" where
  "snprintf n s = take (n - 1) s"

definition knownCPUSignatures :: "(u32 \<times> string) list" where
  "knownCPUSignatures = [(0x806e9, ''Eve'')]"

definition getBoardName :: "u32 \<Rightarrow> string" where
  "getBoardName signature =
     (case map_of knownCPUSignatures signature of
        None \<Rightarrow> snprintf 20 (''unknown:0x'' @ hexadecimal (unat signature))
      | Some name \<Rightarrow> name)"

text \<open>\<open>Cpuid info_type\<close> is the first entry of \<open>cpu_info\<close> after the call.\<close>

definition PopulateBoardName :: "Processor \<Rightarrow> (nat \<Rightarrow> u32) \<Rightarrow> SystemProfile \<Rightarrow> SystemProfile" where
  "PopulateBoardName cpu Cpuid profile =
     (case cpu of
        x86_64_cpu \<Rightarrow>
          if board_name profile = [] \<or> board_name profile = ''pc''
          then let num_ids = sint (Cpuid 0)
               in if num_ids > 0 then profile\<lparr>board_name := getBoardName (Cpuid 1)\<rparr> else profile
          else profile
      | aarch64_cpu \<Rightarrow> if board_name profile = [] then profile\<lparr>board_name := ''Generic ARM''\<rparr> else profile
      | other_cpu \<Rightarrow> profile)"

definition PopulateSystemProfile :: "OperatingSystem \<Rightarrow> Processor \<Rightarrow> (nat \<Rightarrow> u32) \<Rightarrow> SystemProfile \<Rightarrow> SystemProfile" where
  "PopulateSystemProfile system cpu Cpuid profile =
     (let profile = profile\<lparr>os := (case system of other_os \<Rightarrow> 0 | fuchsia_os \<Rightarrow> 1 | linux_os \<Rightarrow> 2)\<rparr>;
          profile = profile\<lparr>arch := (case cpu of other_cpu \<Rightarrow> 0 | x86_64_cpu \<Rightarrow> 1 | aarch64_cpu \<Rightarrow> 2)\<rparr>
      in PopulateBoardName cpu Cpuid profile)"

section \<open>SystemData\<close>

record SystemData =
  sd_profile :: SystemProfile
  sd_experiments :: "(int \<times> int) list"
  sd_release_stage :: nat

definition SetChannel :: "string \<Rightarrow> SystemData \<Rightarrow> SystemData" where
  "SetChannel c sd = sd\<lparr>sd_profile := (sd_profile sd)\<lparr>channel := c\<rparr>\<rparr>"

definition SetRealm :: "string \<Rightarrow> SystemData \<Rightarrow> SystemData" where
  "SetRealm r sd = sd\<lparr>sd_profile := (sd_profile sd)\<lparr>realm := r\<rparr>\<rparr>"

definition SetExperimentState :: "(int \<times> int) list \<Rightarrow> SystemData \<Rightarrow> SystemData" where
  "SetExperimentState es sd = sd\<lparr>sd_experiments := es\<rparr>"

definition OverrideSystemProfile :: "SystemProfile \<Rightarrow> SystemData \<Rightarrow> SystemData" where
  "OverrideSystemProfile profile sd = sd\<lparr>sd_profile := profile\<rparr>"

definition SystemData_ctor :: "OperatingSystem \<Rightarrow> Processor \<Rightarrow> (nat \<Rightarrow> u32) \<Rightarrow> string \<Rightarrow> string \<Rightarrow> nat \<Rightarrow> string \<Rightarrow> SystemData" where
  "SystemData_ctor system cpu Cpuid product board_name_suggestion release_stage version =
     (let profile = default_SystemProfile\<lparr>product_name := product, board_name := board_name_suggestion, system_version := version\<rparr>;
          sd = \<lparr>sd_profile = profile, sd_experiments = [], sd_release_stage = release_stage\<rparr>;
          sd = SetRealm ''<unset>'' (SetChannel ''<unset>'' sd)
      in sd\<lparr>sd_profile := PopulateSystemProfile system cpu Cpuid (sd_profile sd)\<rparr>)"

section \<open>The board name\<close>

lemma hexadecimal_length: "n < 16 ^ Suc k \<Longrightarrow> length (hexadecimal n) \<le> Suc k"
proof (induction k arbitrary: n)
  case 0
  then show ?case by (simp add: hexadecimal.simps [of n])
next
  case (Suc k)
  then have "n div 16 < 16 ^ Suc k" by (simp add: div_less_iff_less_mult mult.commute)
  then have "length (hexadecimal (n div 16)) \<le> Suc k" by (rule Suc.IH)
  then show ?case by (simp add: hexadecimal.simps [of n])
qed

text \<open>The value of a sequence of hexadecimal digits, as \<open>sscanf\<close> reads it in the tests.\<close>

definition hex_value :: "string \<Rightarrow> nat" where
  "hex_value s = foldl (\<lambda>v c. 16 * v + (if of_char c < (58 :: nat) then of_char c - 48 else of_char c - 55)) 0 s"

lemma hex_value_digit:
  assumes "d < 16"
  shows "(if of_char (hex_digit d) < (58 :: nat) then of_char (hex_digit d) - 48 else of_char (hex_digit d) - 55) = d"
proof -
  have "of_char (hex_digit d) = (if d < 10 then 48 + d else 55 + d)" using assms by (simp add: hex_digit_def)
  then show ?thesis using assms by simp
qed

lemma hex_value_hexadecimal: "hex_value (hexadecimal n) = n"
proof (induction n rule: hexadecimal.induct)
  case (1 n)
  show ?case
  proof (cases "n < 16")
    case True
    then show ?thesis using hex_value_digit [of n] by (simp add: hexadecimal.simps [of n] hex_value_def)
  next
    case False
    then have "hex_value (hexadecimal n) = 16 * hex_value (hexadecimal (n div 16)) + n mod 16"
      using hex_value_digit [of "n mod 16"] by (simp add: hexadecimal.simps [of n] hex_value_def)
    with 1 [OF False] show ?thesis by simp
  qed
qed

text \<open>The name of an unknown processor fits into the buffer, so that its signature can be read back.\<close>

lemma getBoardName_unknown:
  assumes "signature \<noteq> 0x806e9"
  shows "getBoardName signature = ''unknown:0x'' @ hexadecimal (unat signature)"
    and "hex_value (drop 10 (getBoardName signature)) = unat signature"
proof -
  have "length (hexadecimal (unat signature)) \<le> Suc 7"
    using unsigned_less [of signature, where 'a = nat] by (intro hexadecimal_length) simp
  then show name: "getBoardName signature = ''unknown:0x'' @ hexadecimal (unat signature)"
    using assms by (simp add: getBoardName_def knownCPUSignatures_def snprintf_def)
  show "hex_value (drop 10 (getBoardName signature)) = unat signature"
    by (simp add: name hex_value_hexadecimal)
qed

lemma getBoardName_inject: "getBoardName s = getBoardName s' \<longleftrightarrow> s = s'"
proof
  assume eq: "getBoardName s = getBoardName s'"
  have eve: "getBoardName 0x806e9 = ''Eve''" by (simp add: getBoardName_def knownCPUSignatures_def)
  show "s = s'"
  proof (cases "s = 0x806e9 \<or> s' = 0x806e9")
    case True
    then show ?thesis
      using eq eve getBoardName_unknown(1) [of s] getBoardName_unknown(1) [of s'] by (cases "s = s'") auto
  next
    case False
    then have "unat s = unat s'"
      using eq getBoardName_unknown(2) [of s] getBoardName_unknown(2) [of s'] by metis
    then show ?thesis by (simp add: word_unat_eq_iff)
  qed
qed simp

text \<open>The fields of the profile after construction.\<close>

lemma SystemData_ctor_profile:
  assumes sd_def: "sd = SystemData_ctor system cpu Cpuid product suggestion stage version"
  shows "product_name (sd_profile sd) = product" "system_version (sd_profile sd) = version"
    "channel (sd_profile sd) = ''<unset>''" "realm (sd_profile sd) = ''<unset>''"
    "os (sd_profile sd) = 0 \<longleftrightarrow> system = other_os" "arch (sd_profile sd) = 0 \<longleftrightarrow> cpu = other_cpu"
    "sd_experiments sd = []" "sd_release_stage sd = stage"
  by (simp_all add: sd_def SystemData_ctor_def PopulateSystemProfile_def PopulateBoardName_def SetChannel_def SetRealm_def
      Let_def split: OperatingSystem.splits Processor.splits)

text \<open>A suggestion other than the placeholder is kept; without one a board name is found on every supported processor.\<close>

lemma SystemData_ctor_board_name:
  assumes sd_def: "sd = SystemData_ctor system cpu Cpuid product suggestion stage version"
  shows "suggestion \<noteq> [] \<Longrightarrow> suggestion \<noteq> ''pc'' \<Longrightarrow> board_name (sd_profile sd) = suggestion"
    and "cpu = aarch64_cpu \<or> cpu = x86_64_cpu \<and> sint (Cpuid 0) > 0 \<Longrightarrow> board_name (sd_profile sd) \<noteq> []"
proof -
  have "getBoardName s \<noteq> []" for s
    using getBoardName_unknown(1) [of s] by (cases "s = 0x806e9") (simp_all add: getBoardName_def knownCPUSignatures_def)
  then show "cpu = aarch64_cpu \<or> cpu = x86_64_cpu \<and> sint (Cpuid 0) > 0 \<Longrightarrow> board_name (sd_profile sd) \<noteq> []"
    by (auto simp: sd_def SystemData_ctor_def PopulateSystemProfile_def PopulateBoardName_def SetChannel_def SetRealm_def Let_def)
  show "suggestion \<noteq> [] \<Longrightarrow> suggestion \<noteq> ''pc'' \<Longrightarrow> board_name (sd_profile sd) = suggestion"
    by (simp add: sd_def SystemData_ctor_def PopulateSystemProfile_def PopulateBoardName_def SetChannel_def SetRealm_def
        Let_def split: Processor.splits)
qed

text \<open>The encoder that is constructed on the system data reports the channel of the last \<open>SetChannel\<close> for the profile field \<open>REALM\<close> as well: \<open>SetRealm\<close>
  has no effect on observations.\<close>

lemma SetRealm_not_reported:
  "make_metadata (e\<lparr>system_data := Some (sd_profile (SetRealm r sd))\<rparr>) metric report day =
   make_metadata (e\<lparr>system_data := Some (sd_profile sd)\<rparr>) metric report day"
proof -
  have "set_profile_field (profile\<lparr>realm := r\<rparr>) = set_profile_field profile" for profile
    by (intro ext) (simp add: set_profile_field_def split: SystemProfileField.splits)
  then show ?thesis by (simp add: make_metadata_def SetRealm_def)
qed

end
