(* ===== verification/Cobalt_Config.thy ===== *)
theory Cobalt_Config
  imports Encrypted_Messages Shipping_Backends System_Data Project_Registry
begin

text \<open>
  The configuration of the service (\<^verbatim>\<open>src/src/public/cobalt_config.h\<close>, \<^verbatim>\<open>src/src/system_data/configuration_data.cc\<close>) and the functions at the beginning of
  \<^verbatim>\<open>src/src/public/cobalt_service.cc\<close> that choose, according to it, the store, the encryption and the shipping manager. The lemmas say
  when the construction succeeds and which invariants the new objects satisfy.
\<close>

section \<open>Pipelines\<close>

datatype Environment = ENV_PROD | ENV_DEVEL | ENV_LOCAL

definition GetLogSourceId :: "Environment \<Rightarrow> int" where
  "GetLogSourceId env = (case env of ENV_PROD \<Rightarrow> 1176 | ENV_DEVEL \<Rightarrow> 844 | ENV_LOCAL \<Rightarrow> 0)"

definition EnvironmentString :: "Environment \<Rightarrow> string" where
  "EnvironmentString env = (case env of ENV_PROD \<Rightarrow> ''PROD'' | ENV_DEVEL \<Rightarrow> ''DEVEL'' | ENV_LOCAL \<Rightarrow> ''LOCAL'')"

definition kDefaultClearcutEndpoint :: string where "kDefaultClearcutEndpoint = ''https://play.googleapis.com/staging/log''"
definition kProductionClearcutEndpoint :: string where "kProductionClearcutEndpoint = ''https://play.googleapis.com/log''"
definition kDefaultClearcutMaxRetries :: nat where "kDefaultClearcutMaxRetries = 5"

text \<open>What the virtual methods of a \<open>TargetPipelineInterface\<close> return. The HTTP client is its sequence of outcomes.\<close>

record TargetPipeline =
  environment :: Environment
  shuffler_encryption_key :: "string option"
  analyzer_encryption_key :: "string option"
  clearcut_endpoint :: string
  http_client :: "PostOutcome list"
  clearcut_max_retries :: nat

definition LocalPipeline :: TargetPipeline where
  "LocalPipeline =
     \<lparr>environment = ENV_LOCAL, shuffler_encryption_key = None, analyzer_encryption_key = None, clearcut_endpoint = [],
      http_client = [], clearcut_max_retries = 0\<rparr>"

definition TargetPipeline_ctor :: "Environment \<Rightarrow> string \<Rightarrow> string \<Rightarrow> PostOutcome list \<Rightarrow> nat \<Rightarrow> TargetPipeline" where
  "TargetPipeline_ctor env shuffler_key analyzer_key client max_retries =
     \<lparr>environment = env, shuffler_encryption_key = Some shuffler_key, analyzer_encryption_key = Some analyzer_key,
      clearcut_endpoint = (if env = ENV_PROD then kProductionClearcutEndpoint else kDefaultClearcutEndpoint),
      http_client = client, clearcut_max_retries = max_retries\<rparr>"

record CobaltConfig =
  cfg_product_name :: string
  cfg_board_name_suggestion :: string
  cfg_version :: string
  cfg_release_stage :: nat
  cfg_file_system :: Disk
  use_memory_observation_store :: bool
  cfg_max_bytes_per_event :: nat
  cfg_max_bytes_per_envelope :: nat
  cfg_max_bytes_total :: nat
  observation_store_directory :: string
  local_aggregate_proto_store_path :: string
  obs_history_proto_store_path :: string
  local_aggregate_store_dir :: string
  cfg_target_interval :: int
  cfg_min_interval :: int
  cfg_initial_interval :: int
  target_pipeline :: TargetPipeline
  local_shipping_manager_path :: string
  cfg_api_key :: string
  cfg_client_secret :: ClientSecret
  global_registry :: "CobaltRegistry option"
  local_aggregation_backfill_days :: nat
  cfg_validated_clock :: "nat \<Rightarrow> int option"

section \<open>Encryption\<close>

text \<open>\<open>None\<close> is \<open>ConsumeValueOrDie\<close> on the error for a key that is not valid.\<close>

definition ConsumeValueOrDie :: "StatusCode + 'a \<Rightarrow> 'a option" where
  "ConsumeValueOrDie r = (case r of Inl c \<Rightarrow> None | Inr a \<Rightarrow> Some a)"

definition GetEncryptToAnalyzer ::
    "('h, 'e) Tink \<Rightarrow> (string \<Rightarrow> CobaltEncryptionKey option) \<Rightarrow> TargetPipeline \<Rightarrow> 'e EncryptedMessageMaker option" where
  "GetEncryptToAnalyzer tink parse_key p =
     (if environment p = ENV_LOCAL then Some MakeUnencrypted
      else case analyzer_encryption_key p of
             Some key \<Rightarrow> ConsumeValueOrDie (MakeForObservations tink parse_key key)
           | None \<Rightarrow> Some MakeUnencrypted)"

definition GetEncryptToShuffler ::
    "('h, 'e) Tink \<Rightarrow> (string \<Rightarrow> CobaltEncryptionKey option) \<Rightarrow> TargetPipeline \<Rightarrow> 'e EncryptedMessageMaker option" where
  "GetEncryptToShuffler tink parse_key p =
     (if environment p = ENV_LOCAL then Some MakeUnencrypted
      else case shuffler_encryption_key p of
             Some key \<Rightarrow> ConsumeValueOrDie (MakeForEnvelopes tink parse_key key)
           | None \<Rightarrow> Some MakeUnencrypted)"

section \<open>The store and the shipping manager\<close>

text \<open>\<open>Inl\<close> is a memory store, \<open>Inr\<close> a file store; \<open>None\<close> is a failed \<open>CHECK\<close>. The supply has the times and random numbers for the names of
  files.\<close>

definition NewObservationStore ::
    "CobaltConfig \<Rightarrow> Disk \<Rightarrow> (int \<times> nat) list \<Rightarrow> ('o MemoryObservationStore + FileObservationStore) option" where
  "NewObservationStore cfg fs supply =
     (if use_memory_observation_store cfg
      then map_option Inl (MemoryObservationStore_ctor (cfg_max_bytes_per_event cfg) (cfg_max_bytes_per_envelope cfg) (cfg_max_bytes_total cfg))
      else map_option Inr (FileObservationStore_ctor (cfg_max_bytes_per_event cfg) (cfg_max_bytes_per_envelope cfg) (cfg_max_bytes_total cfg)
             fs (observation_store_directory cfg) supply))"

text \<open>The steady clock shows \<open>now\<close> at first and advances by the \<open>ts\<close>.\<close>

definition kInitialBackoffMillis :: int where "kInitialBackoffMillis = 250"

definition ClearcutUploader_ctor :: "PostOutcome list \<Rightarrow> int \<Rightarrow> int \<Rightarrow> int \<Rightarrow> nat list \<Rightarrow> 'r ClearcutUploader" where
  "ClearcutUploader_ctor client upload_timeout_millis initial_backoff_millis now ts =
     \<lparr>upload_timeout = upload_timeout_millis, initial_backoff = initial_backoff_millis, clock = now, ticks = ts,
      pause_uploads_until = now, outcomes = client, posts = [], slept = [], bytes_uploaded_metrics = []\<rparr>"

text \<open>\<open>ser_req\<close> and \<open>size_of_batch\<close> belong to protobuf. A local manager gets a null pointer as its encrypter, which is dereferenced only for
  observations that are not stored in encrypted form.\<close>

definition LocalShippingManager_ctor :: "'s \<Rightarrow> ('o \<Rightarrow> EncryptedMessage option) \<Rightarrow> string \<Rightarrow> Disk \<Rightarrow> (Envelope \<Rightarrow> bytes) \<Rightarrow> int \<Rightarrow> ('s, 'o Local, 'cb) ShippingManager option" where
  "LocalShippingManager_ctor s encrypter path fs ser_env now =
     map_option (\<lambda>scheduler. ShippingManager_ctor scheduler s
         \<lparr>num_send_attempts = 0, num_failed_attempts = 0, last_send_status = OK, local_encrypt_to_analyzer = encrypter,
          output_file_path = path, local_disk = fs, ser_envelope = ser_env\<rparr> now)
       (UploadScheduler_ctor 0 0 0)"

definition ClearcutV1ShippingManager_ctor ::
    "UploadScheduler \<Rightarrow> 's \<Rightarrow> (Envelope \<Rightarrow> EncryptedMessage option) \<Rightarrow> ('o \<Rightarrow> EncryptedMessage option) \<Rightarrow> request ClearcutUploader \<Rightarrow>
     int \<Rightarrow> nat \<Rightarrow> string \<Rightarrow> (request \<Rightarrow> bytes option) \<Rightarrow> (ObservationBatch \<Rightarrow> nat) \<Rightarrow> int \<Rightarrow> ('s, 'o Clearcut, 'cb) ShippingManager" where
  "ClearcutV1ShippingManager_ctor scheduler s to_shuffler to_analyzer uploader log_source max_attempts key ser_req size_of_batch now =
     ShippingManager_ctor scheduler s
       \<lparr>num_send_attempts = 0, num_failed_attempts = 0, last_send_status = OK, encrypt_to_analyzer = to_analyzer,
        encrypt_to_shuffler = to_shuffler, clearcut = uploader, max_attempts_per_upload = int max_attempts,
        backend_api_key = key, log_source_id = log_source, ser_request = ser_req, batch_size = size_of_batch, project_bytes_uploaded = []\<rparr> now"

record 'o Protobuf =
  ser_observation :: "'o \<Rightarrow> bytes"
  ser_whole_envelope :: "Envelope \<Rightarrow> bytes"
  ser_log_request :: "request \<Rightarrow> bytes option"
  size_of_batch :: "ObservationBatch \<Rightarrow> nat"

definition NewShippingManager ::
    "('h, 'e) Tink \<Rightarrow> 'o Protobuf \<Rightarrow> CobaltConfig \<Rightarrow> Disk \<Rightarrow> 's \<Rightarrow> 'e EncryptedMessageMaker \<Rightarrow> 'e EncryptedMessageMaker \<Rightarrow> int \<Rightarrow> nat list \<Rightarrow>
     (('s, 'o Local, 'cb) ShippingManager + ('s, 'o Clearcut, 'cb) ShippingManager) option" where
  "NewShippingManager tink pb cfg fs s to_analyzer to_shuffler now ts =
     (if environment (target_pipeline cfg) = ENV_LOCAL
      then map_option Inl (LocalShippingManager_ctor s (\<lambda>_. None) (local_shipping_manager_path cfg) fs (ser_whole_envelope pb) now)
      else map_option (\<lambda>scheduler. Inr (ClearcutV1ShippingManager_ctor scheduler s
             (encrypter_of tink (ser_whole_envelope pb) to_shuffler) (encrypter_of tink (ser_observation pb) to_analyzer)
             (ClearcutUploader_ctor (http_client (target_pipeline cfg)) 0 kInitialBackoffMillis now ts)
             (GetLogSourceId (environment (target_pipeline cfg))) (clearcut_max_retries (target_pipeline cfg)) (cfg_api_key cfg)
             (ser_log_request pb) (size_of_batch pb) now))
           (UploadScheduler_ctor (cfg_target_interval cfg) (cfg_min_interval cfg) (cfg_initial_interval cfg)))"

section \<open>What is constructed\<close>

text \<open>The recipients of a pipeline: they have the keys of the configuration under their indices.\<close>

definition has_keys :: "(string \<Rightarrow> CobaltEncryptionKey option) \<Rightarrow> (u32 \<Rightarrow> bytes option) \<Rightarrow> string option \<Rightarrow> bool" where
  "has_keys parse_key keys key_bytes \<longleftrightarrow>
     (case key_bytes of
        None \<Rightarrow> True
      | Some b \<Rightarrow> (case parse_key b of None \<Rightarrow> True | Some key \<Rightarrow> keys (cobalt_key_index key) = Some (serialized_key key)))"

lemma ConsumeValueOrDie_Some: "ConsumeValueOrDie r = Some a \<longleftrightarrow> r = Inr a"
  by (simp add: ConsumeValueOrDie_def split: sum.splits)

lemma GetEncryptToAnalyzer_knows_key:
  assumes "GetEncryptToAnalyzer tink parse_key p = Some maker" and "has_keys parse_key keys (analyzer_encryption_key p)"
  shows "knows_key tink keys kAnalyzerContextInfo maker"
  using assms MakeForObservations_knows_key [of tink parse_key _ maker keys]
  by (auto simp: GetEncryptToAnalyzer_def ConsumeValueOrDie_Some has_keys_def MakeUnencrypted_def split: option.splits if_splits)

lemma GetEncryptToShuffler_knows_key:
  assumes "GetEncryptToShuffler tink parse_key p = Some maker" and "has_keys parse_key keys (shuffler_encryption_key p)"
  shows "knows_key tink keys kShufflerContextInfo maker"
  using assms MakeForEnvelopes_knows_key [of tink parse_key _ maker keys]
  by (auto simp: GetEncryptToShuffler_def ConsumeValueOrDie_Some has_keys_def MakeUnencrypted_def split: option.splits if_splits)

text \<open>The backend of a new shipping manager satisfies the invariant under which everything is delivered.\<close>

lemma NewShippingManager_Clearcut:
  assumes m: "NewShippingManager tink pb cfg fs s ma ms now ts = Some (Inr m)"
  shows "environment (target_pipeline cfg) \<noteq> ENV_LOCAL" and "store m = s" and "\<not> sm_is_disabled m" and "send_callback_queue m = []"
    and "encrypt_to_analyzer (backend m) = encrypter_of tink (ser_observation pb) ma"
    and "encrypt_to_shuffler (backend m) = encrypter_of tink (ser_whole_envelope pb) ms"
    and "max_attempts_per_upload (backend m) = int (clearcut_max_retries (target_pipeline cfg))"
    and "outcomes (clearcut (backend m)) = http_client (target_pipeline cfg)" and "posts (clearcut (backend m)) = []"
  using m by (auto simp: NewShippingManager_def ClearcutV1ShippingManager_ctor_def ClearcutUploader_ctor_def split: if_splits)

text \<open>What the shuffler reads in an encrypted envelope.\<close>

definition shuffler_opens ::
    "(bytes \<Rightarrow> bytes \<Rightarrow> string \<Rightarrow> bytes option) \<Rightarrow> (u32 \<Rightarrow> bytes option) \<Rightarrow> (bytes \<Rightarrow> Envelope option) \<Rightarrow> EncryptedMessage \<Rightarrow> Envelope" where
  "shuffler_opens Decrypt keys parse_env e =
     (case Option.bind (open_message Decrypt keys kShufflerContextInfo e) parse_env of
        None \<Rightarrow> \<lparr>batch = [], api_key = []\<rparr> | Some env \<Rightarrow> env)"

lemma NewShippingManager_clearcut_inv:
  assumes m: "NewShippingManager tink pb cfg fs s ma ms now ts = Some (Inr m)"
    and tink: "tink_decrypts tink Decrypt" "tink_encrypts tink" and ms: "knows_key tink keys kShufflerContextInfo ms"
    and codec: "\<And>env. parse_env (ser_whole_envelope pb env) = Some env"
    and http: "1 \<le> clearcut_max_retries (target_pipeline cfg)" "list_all real_outcome (http_client (target_pipeline cfg))"
  shows "clearcut_inv (encrypter_of tink (ser_observation pb) ma) (shuffler_opens Decrypt keys parse_env) (backend m)"
proof -
  have "\<exists>c. encrypter_of tink (ser_whole_envelope pb) ms env = Some c \<and> shuffler_opens Decrypt keys parse_env c = env" for env
  proof -
    obtain c where c: "encrypter_of tink (ser_whole_envelope pb) ms env = Some c" using encrypter_total [OF tink(2), of "ser_whole_envelope pb" ms env] by blast
    with open_encrypted [OF tink(1) ms c] codec show ?thesis by (simp add: shuffler_opens_def)
  qed
  with NewShippingManager_Clearcut [OF m] http show ?thesis by (simp add: clearcut_inv_def list_all_iff)
qed

end
