(* ===== verification/Cobalt_Service.thy ===== *)
theory Cobalt_Service
  imports Aggregator_Manager Logger Local_Aggregation_11 Cobalt_Config
begin

text \<open>
  \<open>CobaltService\<close> (\<^verbatim>\<open>src/src/public/cobalt_service.cc\<close>): the object a platform
  owns, which connects the other components. The aggregate store is inside the aggregation manager, the shipping manager is the
  state behind its writer, and the observation store is inside the shipping manager. The virtual methods of the observation store that the
  policy uses are the fields of \<open>policy_ops\<close>. The locale \<open>silenced_store\<close> states what it means for a store that it can be
  switched off, and shows that no logged event then leaves a trace; it is interpreted on both observation stores.
\<close>

section \<open>State\<close>

datatype DataCollectionPolicy = COLLECT_AND_UPLOAD | DO_NOT_UPLOAD | DO_NOT_COLLECT

record 's policy_ops =
  po_Disable :: "bool \<Rightarrow> 's \<Rightarrow> 's"
  po_DeleteData :: "'s \<Rightarrow> 's"

text \<open>\<open>cs_event_logger\<close> holds the encoder, the writer and the release stage every logger is given, and \<open>cs_system_clock\<close> is the clock of a logger
  that is created after the system clock has become accurate. \<open>cs_tick\<close> and \<open>cs_steady\<close> are the clock readings.\<close>

record ('s, 'b, 'cb) CobaltService =
  cs_factory :: "ProjectContextFactory option"
  cs_manager :: "('s, 'b, 'cb) ShippingManager EventAggregatorManager"
  cs_event_logger :: "('s, 'b, 'cb) ShippingManager EventLogger"
  cs_undated :: "('s, 'b, 'cb) ShippingManager UndatedEventManager option"
  cs_validated_clock :: "nat \<Rightarrow> int option"
  cs_system_clock :: "nat \<Rightarrow> int"
  cs_internal_logger :: "('s, 'b, 'cb) ShippingManager Logger option"
  cs_tick :: nat
  cs_steady :: "nat \<Rightarrow> int"
  cs_local_storage :: LocalAggregateStorage
  cs_local_worker :: bool

definition cs_world :: "('s, 'b, 'cb) CobaltService \<Rightarrow> ('s, 'b, 'cb) ShippingManager LoggerState" where
  "cs_world cs = \<lparr>ls_store = aggregate_store (cs_manager cs), ls_undated = cs_undated cs, ls_tick = cs_tick cs, ls_steady = cs_steady cs\<rparr>"

definition cs_update :: "('s, 'b, 'cb) ShippingManager LoggerState \<Rightarrow> ('s, 'b, 'cb) CobaltService \<Rightarrow> ('s, 'b, 'cb) CobaltService" where
  "cs_update w cs = cs\<lparr>cs_manager := (cs_manager cs)\<lparr>aggregate_store := ls_store w\<rparr>, cs_undated := ls_undated w, cs_tick := ls_tick w\<rparr>"

definition update_shipping ::
    "(('s, 'b, 'cb) ShippingManager \<Rightarrow> ('s, 'b, 'cb) ShippingManager) \<Rightarrow> ('s, 'b, 'cb) CobaltService \<Rightarrow> ('s, 'b, 'cb) CobaltService" where
  "update_shipping f cs =
     cs\<lparr>cs_manager := (cs_manager cs)\<lparr>aggregate_store := (aggregate_store (cs_manager cs))\<lparr>observations := f (observations (aggregate_store (cs_manager cs)))\<rparr>\<rparr>\<rparr>"

definition update_observation_store :: "('s \<Rightarrow> 's) \<Rightarrow> ('s, 'b, 'cb) CobaltService \<Rightarrow> ('s, 'b, 'cb) CobaltService" where
  "update_observation_store f = update_shipping (\<lambda>m. m\<lparr>store := f (store m)\<rparr>)"

definition update_manager ::
    "(('s, 'b, 'cb) ShippingManager EventAggregatorManager \<Rightarrow> ('s, 'b, 'cb) ShippingManager EventAggregatorManager) \<Rightarrow>
     ('s, 'b, 'cb) CobaltService \<Rightarrow> ('s, 'b, 'cb) CobaltService" where
  "update_manager f cs = cs\<lparr>cs_manager := f (cs_manager cs)\<rparr>"

section \<open>Operations\<close>

definition NewLogger_internal ::
    "LoggerConfig \<Rightarrow> ProjectContext option \<Rightarrow> bool \<Rightarrow> ('s, 'b, 'cb) CobaltService \<Rightarrow>
     (('s, 'b, 'cb) ShippingManager Logger option \<times> ('s, 'b, 'cb) CobaltService) option" where
  "NewLogger_internal cfg ctx include_internal_logger cs =
     (case ctx of
        None \<Rightarrow> Some (None, cs)
      | Some ctx \<Rightarrow>
          let il = (if include_internal_logger then map_option (interface_of cfg) (cs_internal_logger cs) else None);
              validated_clock = (if cs_undated cs \<noteq> None then cs_validated_clock cs else (\<lambda>n. Some (cs_system_clock cs n)))
          in map_option (\<lambda>(lg, w). (Some lg, cs_update w cs))
               (Logger_ctor ctx (cs_event_logger cs) validated_clock (cs_undated cs \<noteq> None) il (cs_world cs)))"

definition NewLogger :: "LoggerConfig \<Rightarrow> ProjectContext option \<Rightarrow> ('s, 'b, 'cb) CobaltService \<Rightarrow>
     (('s, 'b, 'cb) ShippingManager Logger option \<times> ('s, 'b, 'cb) CobaltService) option" where
  "NewLogger cfg ctx = NewLogger_internal cfg ctx True"

text \<open>\<open>None\<close> without a global registry: a \<open>CHECK\<close> fails.\<close>

definition NewLogger_ids :: "LoggerConfig \<Rightarrow> u32 \<Rightarrow> u32 \<Rightarrow> bool \<Rightarrow> ('s, 'b, 'cb) CobaltService \<Rightarrow>
     (('s, 'b, 'cb) ShippingManager Logger option \<times> ('s, 'b, 'cb) CobaltService) option" where
  "NewLogger_ids cfg cid pid include_internal_logger cs =
     (case cs_factory cs of
        None \<Rightarrow> None
      | Some f \<Rightarrow> NewLogger_internal cfg (NewProjectContext f cid pid) include_internal_logger cs)"

text \<open>The end of the constructor: the members before \<open>local_aggregation_\<close> have been constructed. Of that member the model has the storage, which fails a
  \<open>CHECK\<close> without a registry, and whether its worker was started.\<close>

definition CobaltService_ctor ::
    "StorageLib \<Rightarrow> string \<Rightarrow> Disk \<Rightarrow> LoggerConfig \<Rightarrow> u32 \<Rightarrow> u32 \<Rightarrow> ProjectContextFactory option \<Rightarrow> ('s, 'b, 'cb) ShippingManager EventAggregatorManager \<Rightarrow>
     ('s, 'b, 'cb) ShippingManager EventLogger \<Rightarrow> (nat \<Rightarrow> int option) \<Rightarrow> (nat \<Rightarrow> int) \<Rightarrow> (nat \<Rightarrow> int) \<Rightarrow> ('s, 'b, 'cb) CobaltService option" where
  "CobaltService_ctor lib dir d cfg kCustomerId kProjectId f m el validated_clock system_clock steady_clock =
     (case LocalAggregateStorage_ctor lib dir d f of
        None \<Rightarrow> None
      | Some storage \<Rightarrow>
      let cs = \<lparr>cs_factory = f, cs_manager = m, cs_event_logger = el, cs_undated = Some (UndatedEventManager_ctor el kDefaultMaxSavedEvents),
            cs_validated_clock = validated_clock, cs_system_clock = system_clock, cs_internal_logger = None, cs_tick = 0, cs_steady = steady_clock,
            cs_local_storage = storage, cs_local_worker = False\<rparr>
      in map_option (\<lambda>(il, cs). update_shipping Start (cs\<lparr>cs_internal_logger := il\<rparr>))
           (if f \<noteq> None then NewLogger_ids cfg kCustomerId kProjectId False cs else Some (None, cs)))"

text \<open>The members before them, from the configuration. The parameters \<open>store_fn\<close>, \<open>ops\<close> and \<open>manager\<close> stand for the store and the shipping manager that
  \<open>NewObservationStore\<close> and \<open>NewShippingManager\<close> return, whose types depend on the configuration.\<close>

definition CobaltService_new ::
    "StorageLib \<Rightarrow> LoggerConfig \<Rightarrow> u32 \<Rightarrow> u32 \<Rightarrow> ProtoStores \<Rightarrow> (ReportAggregationKey \<Rightarrow> string option) \<Rightarrow> (string \<Rightarrow> bool \<times> u8 list) \<Rightarrow>
     (ValuePart \<Rightarrow> u8 list) \<Rightarrow> Random \<Rightarrow> (nat \<Rightarrow> int) \<Rightarrow> (nat \<Rightarrow> int) \<Rightarrow>
     (Observation2 StoredObservation \<Rightarrow> ObservationMetadata \<Rightarrow> 's \<Rightarrow> StoreStatus \<times> 's) \<Rightarrow> ('s, 'h) store_ops \<Rightarrow>
     (Observation2 \<Rightarrow> EncryptedMessage option) \<Rightarrow> ('s, 'b, 'cb) ShippingManager \<Rightarrow> SystemData \<Rightarrow> CobaltConfig \<Rightarrow> ('s, 'b, 'cb) CobaltService option" where
  "CobaltService_new lib lcfg kCustomerId kProjectId ps ser_key hash ser_value r system_clock steady_clock store_fn ops to_analyzer manager sd cfg =
     (let f = map_option ProjectContextFactory_ctor (global_registry cfg);
          logger_encoder = \<lparr>client_secret = cfg_client_secret cfg, system_data = Some (sd_profile sd), Hash = hash, SerializeValuePart = ser_value\<rparr>;
          observation_writer = manager_writer store_fn ops (Some to_analyzer);
          ps = ps\<lparr>las_path := local_aggregate_proto_store_path cfg, hist_path := obs_history_proto_store_path cfg\<rparr>
      in case EventAggregatorManager_ctor ps logger_encoder observation_writer ser_key (local_aggregation_backfill_days cfg) r manager (cfg_file_system cfg) of
           None \<Rightarrow> None
         | Some m \<Rightarrow>
             CobaltService_ctor lib (local_aggregate_store_dir cfg) (mgr_disk m) lcfg kCustomerId kProjectId f m
               \<lparr>el_encoder = logger_encoder, el_writer = observation_writer, el_release_stage = Some (sd_release_stage sd)\<rparr>
               (cfg_validated_clock cfg) system_clock steady_clock)"

definition SystemClockIsAccurate :: "LoggerConfig \<Rightarrow> int \<Rightarrow> bool \<Rightarrow> ('s, 'b, 'cb) CobaltService \<Rightarrow> ('s, 'b, 'cb) CobaltService option" where
  "SystemClockIsAccurate cfg system_now start_event_aggregator_worker cs =
     map_option (\<lambda>cs. if start_event_aggregator_worker then update_manager mgr_Start (cs\<lparr>cs_local_worker := True\<rparr>) else cs)
       (if cs_undated cs \<noteq> None
        then map_option (\<lambda>(st, w). (cs_update w cs)\<lparr>cs_undated := None\<rparr>)
               (Flush (lc_utc_offset cfg) (lc_ids cfg) system_now (map_option (interface_of cfg) (cs_internal_logger cs)) (cs_world cs))
        else Some cs)"

definition SetDataCollectionPolicy :: "'s policy_ops \<Rightarrow> DataCollectionPolicy \<Rightarrow> ('s, 'b, 'cb) CobaltService \<Rightarrow> ('s, 'b, 'cb) CobaltService" where
  "SetDataCollectionPolicy ops policy cs =
     (case policy of
        COLLECT_AND_UPLOAD \<Rightarrow>
          update_shipping (ShippingManager_Disable False) (update_manager (mgr_Disable False) (update_observation_store (po_Disable ops False) cs))
      | DO_NOT_UPLOAD \<Rightarrow>
          update_shipping (ShippingManager_Disable True) (update_manager (mgr_Disable False) (update_observation_store (po_Disable ops False) cs))
      | DO_NOT_COLLECT \<Rightarrow>
          let cs = update_manager (mgr_Disable True) (update_observation_store (po_Disable ops True) cs);
              cs = update_manager mgr_DeleteData (update_observation_store (po_DeleteData ops) cs)
          in update_shipping (ShippingManager_Disable True) cs)"

definition service_GenerateAggregatedObservations :: "u32 \<Rightarrow> ('s, 'b, 'cb) CobaltService \<Rightarrow> (Status \<times> ('s, 'b, 'cb) CobaltService) option" where
  "service_GenerateAggregatedObservations day_utc cs =
     map_option (\<lambda>(st, m). (st, cs\<lparr>cs_manager := m\<rparr>)) (GenerateObservationsNoWorker day_utc 0 (cs_manager cs))"

definition has_internal_logger :: "('s, 'b, 'cb) CobaltService \<Rightarrow> bool" where
  "has_internal_logger cs \<longleftrightarrow> cs_internal_logger cs \<noteq> None"

definition Memory_policy_ops :: "'o MemoryObservationStore policy_ops" where
  "Memory_policy_ops = \<lparr>po_Disable = Disable, po_DeleteData = Memory_DeleteData\<rparr>"

definition File_policy_ops :: "FileObservationStore policy_ops" where
  "File_policy_ops = \<lparr>po_Disable = Disable, po_DeleteData = File_DeleteData\<rparr>"

section \<open>A service that does not collect\<close>

text \<open>The event logger writes to the observation store behind the shipping manager through \<open>store_fn\<close>.\<close>

definition writes_to ::
    "(Observation2 StoredObservation \<Rightarrow> ObservationMetadata \<Rightarrow> 's \<Rightarrow> StoreStatus \<times> 's) \<Rightarrow> ('s, 'b, 'cb) ShippingManager EventLogger \<Rightarrow> bool" where
  "writes_to store_fn el \<longleftrightarrow>
     store_observation (el_writer el) = (\<lambda>ob md m. case store_fn ob md (store m) of (st, t) \<Rightarrow> (st, m\<lparr>store := t\<rparr>)) \<and>
     (\<forall>m. store (notify_observations_added (el_writer el) m) = store m)"

lemma manager_writer_writes_to: "el_writer el = manager_writer store_fn ops encrypter \<Longrightarrow> writes_to store_fn el"
  by (simp add: writes_to_def manager_writer_def)

text \<open>Nothing is stored and nothing is aggregated.\<close>

definition silent :: "('s, 'b, 'cb) ShippingManager AggregateStore \<Rightarrow> ('s, 'b, 'cb) ShippingManager AggregateStore \<Rightarrow> bool" where
  "silent s s' \<longleftrightarrow> store (observations s') = store (observations s) \<and> local_aggregate_store s' = local_aggregate_store s \<and> agg_disabled s' = agg_disabled s"

lemma silent_refl [simp]: "silent s s"
  by (simp add: silent_def)

lemma silent_trans: "silent s s1 \<Longrightarrow> silent s1 s2 \<Longrightarrow> silent s s2"
  by (simp add: silent_def)

text \<open>The state of the loggers while nothing is collected.\<close>

definition quiet ::
    "(Observation2 StoredObservation \<Rightarrow> ObservationMetadata \<Rightarrow> 's \<Rightarrow> StoreStatus \<times> 's) \<Rightarrow> ('s \<Rightarrow> bool) \<Rightarrow> ('s, 'b, 'cb) ShippingManager LoggerState \<Rightarrow> bool" where
  "quiet store_fn off w \<longleftrightarrow> logger_state_ok w \<and> off (store (observations (ls_store w))) \<and> agg_disabled (ls_store w) \<and>
     (case ls_undated w of None \<Rightarrow> True | Some u \<Rightarrow> writes_to store_fn (uem_logger u))"

lemma quiet_tick [simp]: "quiet store_fn off (w\<lparr>ls_tick := n\<rparr>) = quiet store_fn off w"
  by (simp add: quiet_def)

lemma MaybeUpdateLocalAggregation_disabled:
  "agg_disabled s \<Longrightarrow> MaybeUpdateLocalAggregation c report r s = Some (st, s') \<Longrightarrow> s' = s"
  by (cases c; cases "event_type (rec_event r)")
    (auto simp: Event_Loggers.update_defs add_event_defs SetActive_def UpdateNumericAggregate_def split: if_splits)

lemma Save_keeps_logger:
  "Save utc_offset r w = Some (st, w') \<Longrightarrow> ls_undated w = Some u \<Longrightarrow> \<exists>u'. ls_undated w' = Some u' \<and> uem_logger u' = uem_logger u"
  by (auto simp: Save_def enqueue_def read_steady_def Let_def split: option.splits if_splits list.splits)

locale silenced_store =
  fixes store_fn :: "Observation2 StoredObservation \<Rightarrow> ObservationMetadata \<Rightarrow> 's \<Rightarrow> StoreStatus \<times> 's"
    and off :: "'s \<Rightarrow> bool"
  assumes store_off: "off t \<Longrightarrow> store_fn ob md t = (kOk, t)"
begin

lemma WriteObservation_off:
  assumes "writes_to store_fn el" and "off (store m)" and "WriteObservation (el_writer el) ob md m = (st, m')"
  shows "store m' = store m"
  using assms by (auto simp: writes_to_def WriteObservation_def store_off Let_def split: option.splits if_splits)

lemma MaybeGenerate_off:
  assumes "writes_to store_fn el" and "off (store (observations s))"
    and "MaybeGenerateImmediateObservation c el ref report b ev s = Some (st, ev', s')"
  shows "silent s s'"
  using assms(3) WriteObservation_off [OF assms(1,2)]
  by (auto simp: MaybeGenerateImmediateObservation_def silent_def Let_def split: option.splits if_splits prod.splits)

lemma log_reports_off:
  assumes "writes_to store_fn el" and "off (store (observations s))" and "agg_disabled s" and "log_reports c el ref r rs s = Some (st, s')"
  shows "silent s s'"
  using assms(2-4)
proof (induction rs arbitrary: r s)
  case (Cons report rs)
  then obtain st1 where m: "MaybeUpdateLocalAggregation c report r s = Some (st1, s)"
    using MaybeUpdateLocalAggregation_disabled [OF Cons.prems(2)] by (auto split: option.splits prod.splits)
  show ?case
  proof (cases "st1 = kOK")
    case False
    with Cons.prems(3) m show ?thesis by simp
  next
    case True
    with Cons.prems(3) m obtain st2 ev s2 where g: "MaybeGenerateImmediateObservation c el ref report (rs = []) (rec_event r) s = Some (st2, ev, s2)"
      "(if st2 \<noteq> kOK then Some (st2, s2) else log_reports c el ref (r\<lparr>rec_event := ev\<rparr>) rs s2) = Some (st, s')"
      by (auto split: option.splits prod.splits)
    note s2 = MaybeGenerate_off [OF assms(1) Cons.prems(1) g(1)]
    with Cons.prems have "off (store (observations s2))" "agg_disabled s2" by (simp_all add: silent_def)
    from g(2) s2 Cons.IH [OF this] show ?thesis by (auto split: if_splits intro: silent_trans)
  qed
qed simp

lemma EventLogger_Log_off:
  assumes "writes_to store_fn el" and "off (store (observations s))" and "agg_disabled s" and "EventLogger_Log utc_offset c el r t s = Some (st, s')"
  shows "silent s s'"
  using assms(4) log_reports_off [OF assms(1-3)] by (auto simp: EventLogger_Log_def Let_def split: option.splits if_splits)

lemma quiet_silent: "quiet store_fn off w \<Longrightarrow> silent (ls_store w) s \<Longrightarrow> quiet store_fn off (w\<lparr>ls_store := s\<rparr>)"
  by (simp add: quiet_def silent_def split: option.splits)

lemma log_dated_off:
  assumes "quiet store_fn off w" and "writes_to store_fn (lg_event_logger lg)" and "log_dated cfg lg c r now w = Some (st, w')"
  shows "quiet store_fn off w' \<and> silent (ls_store w) (ls_store w')"
proof -
  obtain s where s: "EventLogger_Log (lc_utc_offset cfg) c (lg_event_logger lg) r now (ls_store w) = Some (st, s)" "w' = w\<lparr>ls_store := s\<rparr>"
    using assms(3) by (auto simp: log_dated_def)
  have "silent (ls_store w) s" using assms(1) EventLogger_Log_off [OF assms(2) _ _ s(1)] by (simp add: quiet_def)
  with quiet_silent [OF assms(1)] s(2) show ?thesis by simp
qed

lemma Save_off:
  assumes "quiet store_fn off w" and "recordable r"
    and "Save utc_offset r w = Some (st, w')"
  shows "quiet store_fn off w' \<and> silent (ls_store w) (ls_store w')"
proof -
  obtain u where u: "ls_undated w = Some u" using assms(2,3) by (auto simp: Save_def recordable_def split: option.splits)
  then have q: "uem_inv u" "\<not> uem_locked u" "writes_to store_fn (uem_logger u)"
    "off (store (observations (ls_store w)))" "agg_disabled (ls_store w)"
    using assms(1) by (simp_all add: quiet_def logger_state_ok_def)
  show ?thesis
  proof (cases "flushed u")
    case True
    then obtain s where s: "FlushSavedRecord utc_offset (uem_logger u) \<lparr>monotonic_time = ls_steady w (ls_tick w), saved_event = r\<rparr>
        (reference_system_time u) (reference_monotonic_time u) (ls_store w) = Some (st, s)" "w' = w\<lparr>ls_tick := ls_tick w + 1, ls_store := s\<rparr>"
      using assms(2,3) u q(2) by (auto simp: Save_def read_steady_def recordable_def)
    then have "silent (ls_store w) s"
      using EventLogger_Log_off [OF q(3-5)] by (auto simp: FlushSavedRecord_def split: option.splits)
    with s(2) quiet_silent [of "w\<lparr>ls_tick := ls_tick w + 1\<rparr>" s] assms(1) show ?thesis by simp
  next
    case False
    from Save_waiting [OF u q(1) False q(2) assms(2), of utc_offset] assms(3)
    obtain u' where u': "w' = w\<lparr>ls_tick := ls_tick w + 1, ls_undated := Some u'\<rparr>" "uem_inv u'" "\<not> uem_locked u'" by auto
    with Save_keeps_logger [OF assms(3) u] have "uem_logger u' = uem_logger u" by simp
    with u' q show ?thesis by (simp add: quiet_def logger_state_ok_def)
  qed
qed

lemma Logger_Log_off:
  assumes "quiet store_fn off w" and "writes_to store_fn (lg_event_logger lg)" and "typed_event ty r"
  shows "\<exists>st w'. Logger_Log cfg lg ty r w = Some (st, w') \<and> quiet store_fn off w' \<and> silent (ls_store w) (ls_store w')"
proof -
  obtain c where c: "Create ty = Some c" "matches c (event_type (rec_event r))" using assms(3) by (auto simp: typed_event_def)
  obtain st w' where run: "Logger_Log cfg lg ty r w = Some (st, w')"
    using Logger_Log_returns [OF assms(3), of w cfg lg] assms(1) by (auto simp: quiet_def)
  obtain vst where vst: "PrepareAndValidateEvent c ty r = Some vst" using PrepareAndValidateEvent_returns [OF c(2)] by blast
  have "quiet store_fn off w' \<and> silent (ls_store w) (ls_store w')"
  proof (cases "vst = kOK")
    case False
    with run c(1) vst assms(1) show ?thesis by (simp add: Logger_Log_def)
  next
    case True
    with valid_event_recordable [OF assms(3) c(1)] vst have r: "recordable r" by simp
    let ?w1 = "w\<lparr>ls_tick := ls_tick w + 1\<rparr>" and ?w2 = "w\<lparr>ls_tick := ls_tick w + 2\<rparr>"
    consider now where "log_dated cfg lg c r now ?w1 = Some (st, w')" | now where "log_dated cfg lg c r now ?w2 = Some (st, w')"
      | "Save (lc_utc_offset cfg) r ?w1 = Some (st, w')" | "w' = ?w2"
      using run c(1) vst True by (auto simp: Logger_Log_def read_clock_def split: option.splits if_splits)
    then show ?thesis
    proof cases
      case 1
      with log_dated_off [OF _ assms(2), of ?w1] assms(1) show ?thesis by simp
    next
      case 2
      with log_dated_off [OF _ assms(2), of ?w2] assms(1) show ?thesis by simp
    next
      case 3
      with Save_off [OF _ r, of ?w1] assms(1) show ?thesis by simp
    next
      case 4
      with assms(1) show ?thesis by simp
    qed
  qed
  with run show ?thesis by blast
qed

lemma silent_logger:
  fixes il :: "('s, 'b, 'cb) ShippingManager Logger"
  shows "internal_logger (interface_of cfg il)
     (\<lambda>w. is_internal_logger il \<and> writes_to store_fn (lg_event_logger il) \<and> quiet store_fn off w) (\<lambda>w w'. silent (ls_store w) (ls_store w'))"
proof
  fix w :: "('s, 'b, 'cb) ShippingManager LoggerState" and mid codes component period n v
  assume ok: "is_internal_logger il \<and> writes_to store_fn (lg_event_logger il) \<and> quiet store_fn off w"
  then have call: "log_call cfg il f ty r w = Logger_Log cfg il ty r w" for f ty r by (simp add: log_call_internal)
  show "\<exists>st w'. li_LogEventCount (interface_of cfg il) mid codes component period n w = Some (st, w') \<and>
      (is_internal_logger il \<and> writes_to store_fn (lg_event_logger il) \<and> quiet store_fn off w') \<and> silent (ls_store w) (ls_store w')"
    using ok Logger_Log_off [OF _ _ typed_new_record(2), of w il cfg il mid codes component period "ucast n"]
    by (simp add: interface_of_def LogEventCount_def call)
  show "\<exists>st w'. li_LogMemoryUsage (interface_of cfg il) mid codes component v w = Some (st, w') \<and>
      (is_internal_logger il \<and> writes_to store_fn (lg_event_logger il) \<and> quiet store_fn off w') \<and> silent (ls_store w) (ls_store w')"
    using ok Logger_Log_off [OF _ _ typed_new_record(5), of w il cfg il mid codes component v]
    by (simp add: interface_of_def LogMemoryUsage_def call)
qed (auto intro: silent_trans)

lemma log_call_off:
  assumes "is_internal_logger il" and "writes_to store_fn (lg_event_logger il)" and "uses_logger (interface_of cfg il) (lg_internal_metrics lg)"
    and "writes_to store_fn (lg_event_logger lg)" and "quiet store_fn off w" and "typed_event ty r"
  shows "\<exists>st w'. log_call cfg lg f ty r w = Some (st, w') \<and> quiet store_fn off w' \<and> silent (ls_store w) (ls_store w')"
proof -
  obtain w1 where w1: "LoggerCalled (lc_ids cfg) (lg_internal_metrics lg) f (project (lg_context lg)) w = Some w1" "quiet store_fn off w1"
    "silent (ls_store w) (ls_store w1)"
    using internal_logger.LoggerCalled_returns [OF silent_logger assms(3)] assms(1,2,5) by blast
  from Logger_Log_off [OF w1(2) assms(4,6), of cfg] obtain st w' where
    "Logger_Log cfg lg ty r w1 = Some (st, w')" "quiet store_fn off w'" "silent (ls_store w1) (ls_store w')" by blast
  with w1 silent_trans show ?thesis by (auto simp: log_call_def)
qed

lemma perform_off:
  assumes "is_internal_logger il" and "writes_to store_fn (lg_event_logger il)" and "uses_logger (interface_of cfg il) (lg_internal_metrics lg)"
    and "writes_to store_fn (lg_event_logger lg)" and "quiet store_fn off w" and "representable call"
  shows "\<exists>st w'. perform cfg lg call w = Some (st, w') \<and> quiet store_fn off w' \<and> silent (ls_store w) (ls_store w')"
  using perform_log_call [OF assms(6), of cfg lg w] log_call_off [OF assms(1-5)] by metis

lemma perform_all_off:
  assumes "is_internal_logger il" and "writes_to store_fn (lg_event_logger il)" and "quiet store_fn off w"
    and "\<forall>(lg, call) \<in> set calls. uses_logger (interface_of cfg il) (lg_internal_metrics lg) \<and> writes_to store_fn (lg_event_logger lg) \<and> representable call"
  shows "\<exists>sts w'. perform_all cfg calls w = Some (sts, w') \<and> length sts = length calls \<and> quiet store_fn off w' \<and> silent (ls_store w) (ls_store w')"
proof (rule perform_all_returns [where R = "\<lambda>w w'. silent (ls_store w) (ls_store w')"])
  show "\<exists>st w'. perform cfg lg call w = Some (st, w') \<and> quiet store_fn off w' \<and> silent (ls_store w) (ls_store w')"
    if "(lg, call) \<in> set calls" "quiet store_fn off w" for lg call w
    using perform_off [OF assms(1,2) _ _ that(2)] assms(4) that(1) by blast
qed (use assms(3) in \<open>auto intro: silent_trans\<close>)

end

interpretation memory_off: silenced_store "Memory_StoreObservation size_of ser" is_disabled
  by unfold_locales (simp add: Memory_StoreObservation_def)

interpretation file_off: silenced_store "File_StoreObservation size_of ser ser_rec" is_disabled
  by unfold_locales (simp add: File_StoreObservation_def)

text \<open>C5. The policy \<open>DO_NOT_COLLECT\<close>: switching to it empties the memory store and all daily aggregates and stops the uploads. Whatever the
  clients log afterwards, each call returns, and the store and the daily aggregates stay as they are.\<close>

theorem DO_NOT_COLLECT_drops_events:
  assumes "agg_inv (aggregate_store (cs_manager cs))" and "logger_state_ok (cs_world cs)"
    and "is_internal_logger il" and "writes_to (Memory_StoreObservation size_of ser) (lg_event_logger il)"
    and "\<forall>u. cs_undated cs = Some u \<longrightarrow> writes_to (Memory_StoreObservation size_of ser) (uem_logger u)"
    and "\<forall>(lg, call) \<in> set calls. uses_logger (interface_of cfg il) (lg_internal_metrics lg) \<and>
      writes_to (Memory_StoreObservation size_of ser) (lg_event_logger lg) \<and> representable call"
  defines "cs' \<equiv> SetDataCollectionPolicy Memory_policy_ops DO_NOT_COLLECT cs"
  shows "\<exists>sts w'. perform_all cfg calls (cs_world cs') = Some (sts, w') \<and> length sts = length calls \<and>
    memory_contents (store (observations (ls_store w'))) = {#} \<and>
    (\<forall>a \<in> snd ` set (by_report_key (local_aggregate_store (ls_store w'))). no_data a) \<and>
    sm_is_disabled (observations (aggregate_store (cs_manager cs'))) \<and> back_up_now (cs_manager cs')"
proof -
  let ?s = "aggregate_store (cs_manager cs')"
  have s: "is_disabled (store (observations ?s))" "agg_disabled ?s" "memory_contents (store (observations ?s)) = {#}"
    "local_aggregate_store ?s = empty_local_aggregate_store (aggregate_store (cs_manager cs))"
    "sm_is_disabled (observations ?s)" "back_up_now (cs_manager cs')"
    by (simp_all add: cs'_def SetDataCollectionPolicy_def Memory_policy_ops_def update_shipping_def update_observation_store_def update_manager_def
        mgr_Disable_def mgr_DeleteData_def TriggerBackups_def AggregateStore_Disable_def AggregateStore_DeleteData_def ShippingManager_Disable_def
        Disable_def Memory_DeleteData_def memory_contents_def NewEnvelopeMaker_def EnvelopeMaker_ctor_def items_def finalized_items_def Let_def)
  have "cs_undated cs' = cs_undated cs" "cs_tick cs' = cs_tick cs"
    by (simp_all add: cs'_def SetDataCollectionPolicy_def update_shipping_def update_observation_store_def update_manager_def Let_def)
  then have "quiet (Memory_StoreObservation size_of ser) is_disabled (cs_world cs')"
    using assms(2,5) s(1,2) by (simp add: quiet_def cs_world_def logger_state_ok_def split: option.splits)
  from memory_off.perform_all_off [OF assms(3,4) this assms(6)]
  obtain sts w' where w': "perform_all cfg calls (cs_world cs') = Some (sts, w')" "length sts = length calls" "silent (ls_store (cs_world cs')) (ls_store w')"
    by blast
  have "\<forall>a \<in> snd ` set (by_report_key (local_aggregate_store ?s)). no_data a" using assms(1) s(4) by (simp add: agg_inv_def)
  with w' s(3,5,6) show ?thesis by (simp add: silent_def cs_world_def)
qed

text \<open>The queue of undated events is not affected by the policy: events that were logged before the switch are still there, and what is logged while the
  clock is inaccurate is added to it. It all is delivered by a flush after the collection has been switched on again.\<close>

theorem undated_events_outlive_policy:
  "cs_undated (SetDataCollectionPolicy ops policy cs) = cs_undated cs"
  by (cases policy) (simp_all add: SetDataCollectionPolicy_def update_shipping_def update_observation_store_def update_manager_def Let_def)

text \<open>Without a registry that contains the internal metrics, telling the service that the clock is accurate fails a \<open>CHECK\<close>.\<close>

theorem clock_without_internal_logger:
  "cs_undated cs \<noteq> None \<Longrightarrow> \<not> has_internal_logger cs \<Longrightarrow> SystemClockIsAccurate cfg system_now b cs = None"
  by (simp add: SystemClockIsAccurate_def has_internal_logger_def Flush_without_internal_logger)

text \<open>Without a registry the service cannot be constructed: the storage of the aggregates of Cobalt 1.1 fails a \<open>CHECK\<close>.\<close>

theorem service_needs_registry:
  "CobaltService_ctor lib dir d cfg kCustomerId kProjectId None m el validated_clock system_clock steady_clock = None"
  by (simp add: CobaltService_ctor_def LocalAggregateStorage_ctor_def)

text \<open>The loggers of a new service encrypt every observation before it is stored.\<close>

lemma CobaltService_new_encrypts:
  assumes "CobaltService_new lib lcfg kCustomerId kProjectId ps ser_key hash ser_value r system_clock steady_clock store_fn ops to_analyzer manager sd cfg = Some cs"
  shows "el_writer (cs_event_logger cs) = manager_writer store_fn ops (Some to_analyzer)"
    and "el_release_stage (cs_event_logger cs) = Some (sd_release_stage sd)"
  using assms
  by (auto simp: CobaltService_new_def CobaltService_ctor_def NewLogger_ids_def NewLogger_internal_def cs_update_def update_shipping_def Let_def
      split: option.splits if_splits)

definition example_service :: "(Observation2 MemoryObservationStore, unit, unit) CobaltService" where
  "example_service = \<lparr>cs_factory = None,
     cs_manager = \<lparr>aggregate_store = (example_manager_store example_counts)\<lparr>local_aggregate_store := \<lparr>store_version = 1, by_report_key = []\<rparr>\<rparr>,
       mgr_disk = restart [], mgr_backfill_days = 2, aggregate_backup_interval = 1, generate_obs_interval = 1, gc_interval = 1, next_generate_obs = 0,
       next_gc = 0, mgr_shut_down = True, immediate_run_trigger = False, back_up_now = False, worker_joinable = False, num_runs = 0\<rparr>,
     cs_event_logger = example_logger, cs_undated = Some example_undated, cs_validated_clock = (\<lambda>n. None), cs_system_clock = (\<lambda>n. 0),
     cs_internal_logger = Some example_internal_logger, cs_tick = 0, cs_steady = (\<lambda>n. 2000000010 + int n),
     cs_local_storage = example_storage, cs_local_worker = False\<rparr>"

theorem DO_NOT_COLLECT_drops_events_witness:
  "\<exists>sts w'. perform_all example_config [(example_internal_logger, CallLogEvent 1 3), (example_internal_logger, CallLogElapsedTime 2 [] [] 9)]
      (cs_world (SetDataCollectionPolicy Memory_policy_ops DO_NOT_COLLECT example_service)) = Some (sts, w') \<and> length sts = 2 \<and>
    memory_contents (store (observations (ls_store w'))) = {#}"
proof -
  have inv: "agg_inv (aggregate_store (cs_manager example_service))"
    by (simp add: example_service_def agg_inv_def store_ok_def example_manager_store_def)
  have ok: "logger_state_ok (cs_world example_service)"
    using example_undated_inv by (simp add: example_service_def cs_world_def logger_state_ok_def)
  have wr: "writes_to (Memory_StoreObservation (\<lambda>_. 7) (\<lambda>_. [])) example_logger"
    by (rule manager_writer_writes_to) (simp add: example_logger_def)
  have il: "is_internal_logger example_internal_logger" "lg_event_logger example_internal_logger = example_logger"
    "uses_logger (interface_of example_config example_internal_logger) (lg_internal_metrics example_internal_logger)"
    by (simp_all add: is_internal_logger_def example_internal_logger_def uses_logger_def)
  have un: "\<forall>u. cs_undated example_service = Some u \<longrightarrow> writes_to (Memory_StoreObservation (\<lambda>_. 7) (\<lambda>_. [])) (uem_logger u)"
    using wr example_undated_inv(6) by (simp add: example_service_def)
  have rep: "representable (CallLogEvent 1 3)" "representable (CallLogElapsedTime 2 [] [] 9)" by (simp_all add: representable_def)
  from DO_NOT_COLLECT_drops_events [OF inv ok il(1) _ un, of
      "[(example_internal_logger, CallLogEvent 1 3), (example_internal_logger, CallLogElapsedTime 2 [] [] 9)]" example_config] wr il rep
  show ?thesis by auto
qed

end
