(* ===== verification/Encrypted_Delivery.thy ===== *)
theory Encrypted_Delivery
  imports Cobalt_Config Observation_Sinks
begin

text \<open>
  The way of an observation from the writer of a configured service to the analyzer: the observation is encrypted for the analyzer and stored, taken
  from the store in an envelope, which is encrypted for the shuffler and uploaded. The property follows observations over all of these
  steps, with the objects that the service constructs from its configuration.
\<close>

section \<open>Writing\<close>

text \<open>A sequence of calls of \<open>WriteObservation\<close>; the first result has the observations whose call answered \<open>kOK\<close>.\<close>

fun write_observations ::
    "'s ObservationWriter \<Rightarrow> (Observation2 \<times> ObservationMetadata) list \<Rightarrow> 's \<Rightarrow> (Observation2 \<times> ObservationMetadata) list \<times> 's" where
  "write_observations w [] s = ([], s)"
| "write_observations w ((ob, md) # xs) s =
     (case WriteObservation w ob md s of (st, s) \<Rightarrow>
      case write_observations w xs s of (acc, s) \<Rightarrow> (if st = kOK then (ob, md) # acc else acc, s))"

lemma NotifyObservationsAdded_backend [simp]:
  "backend (NotifyObservationsAdded ops m) = backend m" "sm_is_disabled (NotifyObservationsAdded ops m) = sm_is_disabled m"
  by (simp_all add: NotifyObservationsAdded_def RequestSendSoonLockHeld_def Let_def)

lemma WriteObservation_backend:
  assumes "WriteObservation (manager_writer store_fn ops encrypter) ob md m = (st, m')"
  shows "backend m' = backend m" and "sm_is_disabled m' = sm_is_disabled m"
  using assms by (auto simp: WriteObservation_def manager_writer_def Let_def split: option.splits if_splits prod.splits)

definition memory_writable :: "(Observation2 StoredObservation \<Rightarrow> nat) \<Rightarrow> (ObservationMetadata \<Rightarrow> bytes) \<Rightarrow>
    (Observation2 MemoryObservationStore, 'b, 'cb) ShippingManager \<Rightarrow> bool" where
  "memory_writable size_of ser m \<longleftrightarrow> (\<forall>x. 0 < size_of x) \<and> memory_inv size_of ser (store m) \<and> \<not> is_disabled (store m)"

lemma write_observations_memory:
  fixes m :: "(Observation2 MemoryObservationStore, 'b, 'cb) ShippingManager"
  assumes "memory_writable size_of ser m"
    and "write_observations (manager_writer (Memory_StoreObservation size_of ser) ops encrypter) xs m = (acc, m')"
  shows "memory_writable size_of ser m' \<and> backend m' = backend m \<and> sm_is_disabled m' = sm_is_disabled m \<and>
    memory_contents (store m') = memory_contents (store m) + mset (map (\<lambda>(ob, md). (ser md, stored_form encrypter ob)) acc)"
  using assms
proof (induction xs arbitrary: m acc)
  case (Cons x xs)
  obtain ob md where x: "x = (ob, md)" by fastforce
  obtain st m1 where w: "WriteObservation (manager_writer (Memory_StoreObservation size_of ser) ops encrypter) ob md m = (st, m1)"
    by fastforce
  obtain acc1 where r: "write_observations (manager_writer (Memory_StoreObservation size_of ser) ops encrypter) xs m1 = (acc1, m')"
    "acc = (if st = kOK then (ob, md) # acc1 else acc1)"
    using Cons.prems(2) by (auto simp: x w split: prod.splits)
  have "memory_writable size_of ser m1 \<and>
      memory_contents (store m1) = memory_contents (store m) + (if st = kOK then {#(ser md, stored_form encrypter ob)#} else {#})"
    using memory_sink.write_result [OF _ w] Cons.prems(1) by (simp add: memory_writable_def)
  with Cons.IH [OF _ r(1)] WriteObservation_backend [OF w] r(2) show ?case by auto
qed simp

section \<open>Reading\<close>

text \<open>What the analyzer reads in an encrypted observation.\<close>

definition analyzer_opens ::
    "(bytes \<Rightarrow> bytes \<Rightarrow> string \<Rightarrow> bytes option) \<Rightarrow> (u32 \<Rightarrow> bytes option) \<Rightarrow> (bytes \<Rightarrow> Observation2 option) \<Rightarrow> EncryptedMessage \<Rightarrow> Observation2 option" where
  "analyzer_opens Decrypt keys parse_obs e = Option.bind (open_message Decrypt keys kAnalyzerContextInfo e) parse_obs"

lemma stored_observation_is_readable:
  assumes "tink_decrypts tink Decrypt" and "tink_encrypts tink" and "knows_key tink keys kAnalyzerContextInfo ma"
    and "\<And>ob. parse_obs (ser_obs ob) = Some ob"
  shows "analyzer_opens Decrypt keys parse_obs (encrypt_on_read E (stored_form (Some (encrypter_of tink ser_obs ma)) ob)) = Some ob"
proof -
  obtain e where e: "encrypter_of tink ser_obs ma ob = Some e" using encrypter_total [OF assms(2), of ser_obs ma ob] by blast
  with open_encrypted [OF assms(1,3) e] assms(4) show ?thesis
    by (simp add: stored_form_def encrypt_on_read_def analyzer_opens_def)
qed

definition Protobuf_codec :: "Observation2 Protobuf \<Rightarrow> (bytes \<Rightarrow> Observation2 option) \<Rightarrow> (bytes \<Rightarrow> Envelope option) \<Rightarrow> bool" where
  "Protobuf_codec pb parse_obs parse_env \<longleftrightarrow>
     (\<forall>ob. parse_obs (ser_observation pb ob) = Some ob) \<and> (\<forall>env. parse_env (ser_whole_envelope pb env) = Some env)"

text \<open>The makers and the objects of a service with a memory store that sends to Clearcut.\<close>

definition clearcut_service ::
    "('h, 'e) Tink \<Rightarrow> (string \<Rightarrow> CobaltEncryptionKey option) \<Rightarrow> Observation2 Protobuf \<Rightarrow> CobaltConfig \<Rightarrow> 'e EncryptedMessageMaker \<Rightarrow>
     (Observation2 MemoryObservationStore, Observation2 Clearcut, 'cb) ShippingManager \<Rightarrow> bool" where
  "clearcut_service tink parse_key pb cfg ma m \<longleftrightarrow>
     (\<exists>s ms now ts. NewObservationStore cfg (cfg_file_system cfg) [] = Some (Inl s) \<and>
        GetEncryptToAnalyzer tink parse_key (target_pipeline cfg) = Some ma \<and>
        GetEncryptToShuffler tink parse_key (target_pipeline cfg) = Some ms \<and>
        NewShippingManager tink pb cfg (cfg_file_system cfg) s ma ms now ts = Some (Inr m))"

lemma new_memory_store:
  assumes "NewObservationStore cfg fs supply = Some (Inl s)"
  shows "memory_inv size_of ser s" and "memory_contents s = {#}" and "\<not> is_disabled s"
proof -
  obtain a b c where s: "MemoryObservationStore_ctor a b c = Some s"
    using assms by (auto simp: NewObservationStore_def split: if_splits)
  from MemoryObservationStore_ctor_inv [OF s] show "memory_inv size_of ser s" "memory_contents s = {#}" by blast+
  from s show "\<not> is_disabled s"
    by (auto simp: MemoryObservationStore_ctor_def ObservationStore_ctor_def ObservationStore.extend_def
        MemoryObservationStore.fields_def split: if_splits)
qed


text \<open>An example: keys and messages are encoded by their numbers, and the encryption leaves them as they are.\<close>

instance IntegerEventObservation_ext :: (countable) countable
  by (rule countable_classI [of "\<lambda>r. to_nat (int_event_code r, int_component_name_hash r, int_obs_value r, IntegerEventObservation.more r)"]) simp

instance HistogramBucket_ext :: (countable) countable
  by (rule countable_classI [of "\<lambda>r. to_nat (bucket_index r, bucket_count r, HistogramBucket.more r)"]) simp

instance HistogramObservation_ext :: (countable) countable
  by (rule countable_classI [of "\<lambda>r. to_nat (hist_event_code r, hist_component_name_hash r, hist_buckets r, HistogramObservation.more r)"]) simp

instance CustomDimensionValue :: countable
  by countable_datatype

instance OnDeviceAggregationWindow :: countable
  by countable_datatype

instance ObservationType :: countable
  by countable_datatype

instance Observation2_ext :: (countable) countable
  by (rule countable_classI [of "\<lambda>r. to_nat (observation_type r, random_id r, Observation2.more r)"]) simp

definition example_tink :: "(bytes, bytes) Tink" where
  "example_tink = \<lparr>HybridConfig_Register = OK, ReadNoSecret = Inr, GetPrimitive = Inr, HybridEncrypt = \<lambda>e m ctx. Inr m\<rparr>"

lemma example_tink_laws: "tink_decrypts example_tink (\<lambda>k c ctx. Some c)" "tink_encrypts example_tink"
  by (simp_all add: tink_decrypts_def tink_encrypts_def example_tink_def)

definition example_keys :: "string \<Rightarrow> CobaltEncryptionKey option" where
  "example_keys b =
     (if b = ''shuffler'' then Some \<lparr>serialized_key = [1], cobalt_key_index = 1, purpose = SHUFFLER\<rparr>
      else if b = ''analyzer'' then Some \<lparr>serialized_key = [2], cobalt_key_index = 2, purpose = ANALYZER\<rparr> else None)"

definition example_protobuf :: "Observation2 Protobuf" where
  "example_protobuf = \<lparr>ser_observation = unary_ser, ser_whole_envelope = unary_ser, ser_log_request = \<lambda>_. Some [], size_of_batch = \<lambda>_. 0\<rparr>"

definition example_parse :: "bytes \<Rightarrow> 'a :: countable option" where
  "example_parse b = map_option fst (unary_parse b)"

lemma example_parse_ser: "example_parse (unary_ser x) = Some x"
  using unary_parse_ser [of x "[]"] by (simp add: example_parse_def)

lemma example_codec: "Protobuf_codec example_protobuf example_parse example_parse"
  by (simp add: Protobuf_codec_def example_protobuf_def example_parse_ser)

definition clearcut_config :: CobaltConfig where
  "clearcut_config =
     \<lparr>cfg_product_name = [], cfg_board_name_suggestion = [], cfg_version = [], cfg_release_stage = 99,
      cfg_file_system = \<lparr>files = [], directories = [], faults = [], history = []\<rparr>, use_memory_observation_store = True, cfg_max_bytes_per_event = 10,
      cfg_max_bytes_per_envelope = 20, cfg_max_bytes_total = 30, observation_store_directory = [],
      local_aggregate_proto_store_path = [], obs_history_proto_store_path = [], local_aggregate_store_dir = [],
      cfg_target_interval = 60, cfg_min_interval = 10, cfg_initial_interval = 60,
      target_pipeline = TargetPipeline_ctor ENV_PROD ''shuffler'' ''analyzer'' [Response 200 None] kDefaultClearcutMaxRetries,
      local_shipping_manager_path = [], cfg_api_key = [], cfg_client_secret = \<lparr>secret_bytes = replicate 16 7\<rparr>, global_registry = None,
      local_aggregation_backfill_days = 2, cfg_validated_clock = \<lambda>_. None\<rparr>"

definition example_maker :: "bytes EncryptedMessageMaker" where
  "example_maker = HybridTinkEncryptedMessageMaker [2] kAnalyzerContextInfo 2"

lemma example_clearcut_service:
  "\<exists>m :: (Observation2 MemoryObservationStore, Observation2 Clearcut, nat) ShippingManager.
     clearcut_service example_tink example_keys example_protobuf clearcut_config example_maker m"
proof -
  obtain s :: "Observation2 MemoryObservationStore" where "NewObservationStore clearcut_config (cfg_file_system clearcut_config) [] = Some (Inl s)"
    by (simp add: NewObservationStore_def clearcut_config_def MemoryObservationStore_ctor_def ObservationStore_ctor_def)
  moreover have "GetEncryptToAnalyzer example_tink example_keys (target_pipeline clearcut_config) = Some example_maker"
    "\<exists>ms. GetEncryptToShuffler example_tink example_keys (target_pipeline clearcut_config) = Some ms"
    by (simp_all add: GetEncryptToAnalyzer_def GetEncryptToShuffler_def clearcut_config_def TargetPipeline_ctor_def ConsumeValueOrDie_Some
        MakeForObservations_Inr MakeForEnvelopes_Inr example_keys_def example_tink_def example_maker_def)
  moreover have "\<exists>m :: (Observation2 MemoryObservationStore, Observation2 Clearcut, nat) ShippingManager.
      NewShippingManager example_tink example_protobuf clearcut_config (cfg_file_system clearcut_config) s example_maker ms 0 [] = Some (Inr m)" for ms
    by (simp add: NewShippingManager_def clearcut_config_def TargetPipeline_ctor_def UploadScheduler_ctor_def kMaxSeconds_def)
  ultimately show ?thesis unfolding clearcut_service_def by blast
qed


end
