(* ===== verification/Count_Min.thy ===== *)
theory Count_Min
  imports Crypto_Random
begin

text \<open>
  The count-min sketch of the experimental algorithms (\<^verbatim>\<open>src/src/algorithms/experimental/hash.cc\<close> and \<^verbatim>\<open>count_min.cc\<close>).
  A \<open>const char*\<close> with its length and a \<open>std::string\<close> are the list of their bytes, so that the overloads are one definition. \<open>SHA256\<close> is a parameter.
  \<open>None\<close> is an access outside the vector of cells, which is undefined in C++, or a failed \<open>CHECK\<close>. The lemmas show that
  a cell is the sum of the increments that are hashed to it; the property is that an estimate is never too small, never more than
  the sum of all increments, and exact when one of the hash functions separates the datum from the others.
\<close>

section \<open>Hash functions\<close>

text \<open>The object representation of a \<open>uint64_t\<close> on the supported (little-endian) machines.\<close>

definition uint64_bytes :: "u64 \<Rightarrow> u8 list" where
  "uint64_bytes w = map (\<lambda>i. ucast (drop_bit (8 * i) w)) [0..<8]"

definition Hash64WithSeed :: "(u8 list \<Rightarrow> u8 list) \<Rightarrow> u8 list \<Rightarrow> u64 \<Rightarrow> u64" where
  "Hash64WithSeed SHA256 data seed = of_nat (little_endian (take 8 (SHA256 (uint64_bytes seed @ data))))"

definition TruncateDigest :: "u64 \<Rightarrow> u64 \<Rightarrow> u64" where
  "TruncateDigest digest mx = digest mod mx"

definition TruncatedDigest :: "(u8 list \<Rightarrow> u8 list) \<Rightarrow> u8 list \<Rightarrow> u64 \<Rightarrow> u64 \<Rightarrow> u64" where
  "TruncatedDigest SHA256 data seed mx = TruncateDigest (Hash64WithSeed SHA256 data seed) mx"

section \<open>The sketch\<close>

record CountMin =
  num_cells :: u64
  num_hashes :: u64
  cells :: "u32 list"

definition CountMin_ctor :: "u64 \<Rightarrow> u64 \<Rightarrow> CountMin" where
  "CountMin_ctor nc nh = \<lparr>num_cells = nc, num_hashes = nh, cells = replicate (unat (nc * nh)) 0\<rparr>"

definition CountMin_ctor_cells :: "u64 \<Rightarrow> u64 \<Rightarrow> u32 list \<Rightarrow> CountMin option" where
  "CountMin_ctor_cells nc nh cs =
     (if length cs = unat (nc * nh) then Some \<lparr>num_cells = nc, num_hashes = nh, cells = cs\<rparr> else None)"

text \<open>The digest is truncated to the number of hash functions, not to the number of cells.\<close>

definition GetSketchCell :: "(u8 list \<Rightarrow> u8 list) \<Rightarrow> CountMin \<Rightarrow> u8 list \<Rightarrow> u64 \<Rightarrow> u64" where
  "GetSketchCell SHA256 cm data index =
     index * num_cells cm + TruncatedDigest SHA256 data index (num_hashes cm)"

text \<open>The loops over the hash functions. An \<open>int\<close> that is added to a \<open>uint32_t\<close> is converted, so that \<open>num\<close> is its bit pattern.\<close>

fun increment_rows :: "(u64 \<Rightarrow> u64) \<Rightarrow> u32 \<Rightarrow> nat list \<Rightarrow> u32 list \<Rightarrow> u32 list option" where
  "increment_rows cell num [] cs = Some cs"
| "increment_rows cell num (i # is) cs =
     (let k = unat (cell (of_nat i))
      in if k < length cs then increment_rows cell num is (cs[k := cs ! k + num]) else None)"

definition Increment :: "(u8 list \<Rightarrow> u8 list) \<Rightarrow> u8 list \<Rightarrow> u32 \<Rightarrow> CountMin \<Rightarrow> CountMin option" where
  "Increment SHA256 data num cm =
     map_option (\<lambda>cs. cm\<lparr>cells := cs\<rparr>)
       (increment_rows (GetSketchCell SHA256 cm data) num [0..<unat (num_hashes cm)] (cells cm))"

definition Increment_once :: "(u8 list \<Rightarrow> u8 list) \<Rightarrow> u8 list \<Rightarrow> CountMin \<Rightarrow> CountMin option" where
  "Increment_once SHA256 data = Increment SHA256 data 1"

fun min_rows :: "(u64 \<Rightarrow> u64) \<Rightarrow> u32 list \<Rightarrow> nat list \<Rightarrow> u32 \<Rightarrow> u32 option" where
  "min_rows cell cs [] min_count = Some min_count"
| "min_rows cell cs (i # is) min_count =
     (let k = unat (cell (of_nat i))
      in if k < length cs then min_rows cell cs is (if cs ! k < min_count \<or> i = 0 then cs ! k else min_count)
         else None)"

definition GetCount :: "(u8 list \<Rightarrow> u8 list) \<Rightarrow> CountMin \<Rightarrow> u8 list \<Rightarrow> u32 option" where
  "GetCount SHA256 cm data =
     min_rows (GetSketchCell SHA256 cm data) (cells cm) [0..<unat (num_hashes cm)] 0"

text \<open>A sequence of calls of \<open>Increment\<close>.\<close>

fun IncrementAll :: "(u8 list \<Rightarrow> u8 list) \<Rightarrow> (u8 list \<times> u32) list \<Rightarrow> CountMin \<Rightarrow> CountMin option" where
  "IncrementAll SHA256 [] cm = Some cm"
| "IncrementAll SHA256 ((data, num) # incs) cm =
     (case Increment SHA256 data num cm of None \<Rightarrow> None | Some cm \<Rightarrow> IncrementAll SHA256 incs cm)"

section \<open>Cells\<close>

lemma increment_rows_result:
  assumes "inj_on (\<lambda>i. unat (cell (of_nat i))) (set is)" and "distinct is"
    and "\<forall>i\<in>set is. unat (cell (of_nat i)) < length cs"
  shows "\<exists>cs'. increment_rows cell num is cs = Some cs' \<and> length cs' = length cs \<and>
    (\<forall>k<length cs. cs' ! k = cs ! k + (if k \<in> (\<lambda>i. unat (cell (of_nat i))) ` set is then num else 0))"
  using assms
proof (induction "is" arbitrary: cs)
  case (Cons i "is")
  let ?k = "unat (cell (of_nat i))"
  obtain cs' where cs': "increment_rows cell num is (cs[?k := cs ! ?k + num]) = Some cs'" "length cs' = length cs"
    "\<forall>k<length cs. cs' ! k = cs[?k := cs ! ?k + num] ! k + (if k \<in> (\<lambda>i. unat (cell (of_nat i))) ` set is then num else 0)"
    using Cons.IH [of "cs[?k := cs ! ?k + num]"] Cons.prems by (auto simp: inj_on_insert)
  have "?k \<notin> (\<lambda>i. unat (cell (of_nat i))) ` set is"
    using Cons.prems by auto
  with cs' Cons.prems show ?case
    by (auto simp: nth_list_update)
qed simp

lemma min_rows_le:
  assumes "\<forall>i\<in>set is. unat (cell (of_nat i)) < length cs" and "0 \<notin> set is"
  shows "\<exists>c. min_rows cell cs is m = Some c \<and> c \<le> m \<and> (\<forall>i\<in>set is. c \<le> cs ! unat (cell (of_nat i))) \<and>
    (c = m \<or> (\<exists>i\<in>set is. c = cs ! unat (cell (of_nat i))))"
  using assms
proof (induction "is" arbitrary: m)
  case (Cons i "is")
  let ?m = "if cs ! unat (cell (of_nat i)) < m \<or> i = 0 then cs ! unat (cell (of_nat i)) else m"
  obtain c where "min_rows cell cs is ?m = Some c" "c \<le> ?m" "\<forall>i\<in>set is. c \<le> cs ! unat (cell (of_nat i))"
    "c = ?m \<or> (\<exists>i\<in>set is. c = cs ! unat (cell (of_nat i)))"
    using Cons.IH [of ?m] Cons.prems by auto
  then show ?case using Cons.prems by (auto split: if_splits)
qed simp

text \<open>The result of \<open>GetCount\<close> is the smallest of the cells of the datum.\<close>

lemma min_rows_is_minimum:
  assumes "\<forall>i<n. unat (cell (of_nat i)) < length cs" and "0 < n"
  shows "\<exists>c. min_rows cell cs [0..<n] 0 = Some c \<and> (\<forall>i<n. c \<le> cs ! unat (cell (of_nat i))) \<and>
    (\<exists>i<n. c = cs ! unat (cell (of_nat i)))"
proof -
  have split: "[0..<n] = 0 # [1..<n]" using assms(2) by (simp add: upt_conv_Cons)
  obtain c where c: "min_rows cell cs [1..<n] (cs ! unat (cell (of_nat 0))) = Some c"
    "c \<le> cs ! unat (cell (of_nat 0))" "\<forall>i\<in>set [1..<n]. c \<le> cs ! unat (cell (of_nat i))"
    "c = cs ! unat (cell (of_nat 0)) \<or> (\<exists>i\<in>set [1..<n]. c = cs ! unat (cell (of_nat i)))"
    using min_rows_le [of "[1..<n]" cell cs "cs ! unat (cell (of_nat 0))"] assms(1) by auto
  have "\<forall>i<n. c \<le> cs ! unat (cell (of_nat i))"
  proof (intro allI impI)
    fix i assume "i < n"
    then show "c \<le> cs ! unat (cell (of_nat i))"
      using c(2,3) by (cases "i = 0") simp_all
  qed
  moreover have "\<exists>i<n. c = cs ! unat (cell (of_nat i))"
    using c(4) assms(2) by force
  moreover have "unat (cell 0) < length cs" using assms by force
  then have "min_rows cell cs [0..<n] 0 = Some c"
    using c(1) by (simp add: split Let_def)
  ultimately show ?thesis by blast
qed

section \<open>The sum of the increments\<close>

text \<open>The dimensions for which no cell of a row lies outside the row.\<close>

definition well_dimensioned :: "u64 \<Rightarrow> u64 \<Rightarrow> bool" where
  "well_dimensioned nc nh \<longleftrightarrow> 0 < nh \<and> nh \<le> nc \<and> unat nc * unat nh < 2 ^ 64"

definition row_hash :: "(u8 list \<Rightarrow> u8 list) \<Rightarrow> u64 \<Rightarrow> nat \<Rightarrow> u8 list \<Rightarrow> nat" where
  "row_hash SHA256 nh i data = unat (TruncatedDigest SHA256 data (of_nat i) nh)"

lemma row_hash_less:
  assumes "well_dimensioned nc nh"
  shows "row_hash SHA256 nh i data < unat nc"
proof -
  have "row_hash SHA256 nh i data < unat nh"
    using assms by (simp add: row_hash_def TruncatedDigest_def TruncateDigest_def well_dimensioned_def unat_mod word_less_nat_alt)
  with assms show ?thesis by (simp add: well_dimensioned_def word_le_nat_alt)
qed

lemma row_cell_less:
  assumes "i < n" and "h < (c :: nat)"
  shows "i * c + h < c * n"
proof -
  have "i * c + h < Suc i * c" using assms(2) by simp
  also have "\<dots> \<le> n * c" using assms(1) by (intro mult_le_mono1) simp
  finally show ?thesis by (simp add: mult.commute)
qed

lemma GetSketchCell_eq:
  assumes dims: "well_dimensioned (num_cells cm) (num_hashes cm)" and i: "i < unat (num_hashes cm)"
  shows "unat (GetSketchCell SHA256 cm data (of_nat i)) =
    i * unat (num_cells cm) + row_hash SHA256 (num_hashes cm) i data"
proof -
  let ?h = "row_hash SHA256 (num_hashes cm) i data"
  have "i * unat (num_cells cm) + ?h < unat (num_cells cm) * unat (num_hashes cm)"
    by (rule row_cell_less [OF i row_hash_less [OF dims]])
  then have small: "i * unat (num_cells cm) + ?h < 2 ^ 64"
    using dims by (simp add: well_dimensioned_def)
  have ii: "unat (of_nat i :: u64) = i"
    using i unsigned_less [of "num_hashes cm", where 'a = nat] by (simp add: unsigned_of_nat take_bit_nat_eq_self)
  show ?thesis
    using small by (simp add: GetSketchCell_def row_hash_def unat_word_ariths ii mod_add_left_eq)
qed

lemma row_cell_inject:
  assumes "h < (c :: nat)" and "h' < c"
  shows "i * c + h = j * c + h' \<longleftrightarrow> i = j \<and> h = h'"
proof
  assume eq: "i * c + h = j * c + h'"
  have "(i * c + h) div c = i" "(j * c + h') div c = j" using assms by simp_all
  with eq have "i = j" by simp
  with eq show "i = j \<and> h = h'" by simp
qed simp

text \<open>The cell of row \<open>i\<close> and column \<open>j\<close> holds the sum of the increments whose datum has the hash \<open>j\<close> there.\<close>

definition column_sum :: "(u8 list \<Rightarrow> u8 list) \<Rightarrow> u64 \<Rightarrow> nat \<Rightarrow> nat \<Rightarrow> (u8 list \<times> u32) list \<Rightarrow> u32" where
  "column_sum SHA256 nh i j incs = (\<Sum>(data, num)\<leftarrow>incs. if row_hash SHA256 nh i data = j then num else 0)"

definition sketch_of :: "(u8 list \<Rightarrow> u8 list) \<Rightarrow> (u8 list \<times> u32) list \<Rightarrow> CountMin \<Rightarrow> CountMin \<Rightarrow> bool" where
  "sketch_of SHA256 incs cm cm' \<longleftrightarrow>
     num_cells cm' = num_cells cm \<and> num_hashes cm' = num_hashes cm \<and> length (cells cm') = length (cells cm) \<and>
     (\<forall>i<unat (num_hashes cm). \<forall>j<unat (num_cells cm).
        cells cm' ! (i * unat (num_cells cm) + j) =
        cells cm ! (i * unat (num_cells cm) + j) + column_sum SHA256 (num_hashes cm) i j incs)"

lemma Increment_sketch:
  assumes dims: "well_dimensioned (num_cells cm) (num_hashes cm)"
    and len: "length (cells cm) = unat (num_cells cm) * unat (num_hashes cm)"
  shows "\<exists>cm'. Increment SHA256 data num cm = Some cm' \<and> sketch_of SHA256 [(data, num)] cm cm'"
proof -
  let ?nc = "unat (num_cells cm)" and ?nh = "unat (num_hashes cm)"
  let ?h = "\<lambda>i. row_hash SHA256 (num_hashes cm) i data"
  let ?cell = "\<lambda>i. unat (GetSketchCell SHA256 cm data (of_nat i))"
  have cell: "?cell i = i * ?nc + ?h i" if "i < ?nh" for i
    by (rule GetSketchCell_eq [OF dims that])
  have h: "?h i < ?nc" for i by (rule row_hash_less [OF dims])
  have inj: "inj_on ?cell (set [0..<?nh])"
    by (rule inj_onI) (simp add: cell row_cell_inject [OF h h])
  have bound: "\<forall>i\<in>set [0..<?nh]. ?cell i < length (cells cm)"
    using row_cell_less [OF _ h] by (simp add: cell len)
  obtain cs where cs: "increment_rows (GetSketchCell SHA256 cm data) num [0..<?nh] (cells cm) = Some cs"
    "length cs = length (cells cm)"
    "\<forall>k<length (cells cm). cs ! k = cells cm ! k + (if k \<in> ?cell ` set [0..<?nh] then num else 0)"
    using increment_rows_result [OF inj distinct_upt bound] by blast
  have mem: "i * ?nc + j \<in> ?cell ` set [0..<?nh] \<longleftrightarrow> ?h i = j" if "i < ?nh" "j < ?nc" for i j
    using that h by (auto simp: cell image_iff row_cell_inject)
  have "sketch_of SHA256 [(data, num)] cm (cm\<lparr>cells := cs\<rparr>)"
    using cs(2,3) row_cell_less len mem by (simp add: sketch_of_def column_sum_def)
  with cs(1) show ?thesis by (simp add: Increment_def)
qed

lemma column_sum_Cons:
  "column_sum SHA256 nh i j (inc # incs) = column_sum SHA256 nh i j [inc] + column_sum SHA256 nh i j incs"
  by (simp add: column_sum_def)

lemma sketch_of_trans:
  assumes "sketch_of SHA256 [inc] cm cm'" and "sketch_of SHA256 incs cm' cm''"
  shows "sketch_of SHA256 (inc # incs) cm cm''"
  using assms by (simp add: sketch_of_def column_sum_Cons [of SHA256 _ _ _ inc incs] add.assoc)

lemma IncrementAll_sketch:
  assumes "well_dimensioned (num_cells cm) (num_hashes cm)"
    and "length (cells cm) = unat (num_cells cm) * unat (num_hashes cm)"
  shows "\<exists>cm'. IncrementAll SHA256 incs cm = Some cm' \<and> sketch_of SHA256 incs cm cm'"
  using assms
proof (induction incs arbitrary: cm)
  case Nil
  then show ?case by (simp add: sketch_of_def column_sum_def)
next
  case (Cons inc incs)
  obtain data num where inc: "inc = (data, num)" by fastforce
  obtain cm' where cm': "Increment SHA256 data num cm = Some cm'" "sketch_of SHA256 [(data, num)] cm cm'"
    using Increment_sketch [OF Cons.prems] by blast
  then obtain cm'' where "IncrementAll SHA256 incs cm' = Some cm''" "sketch_of SHA256 incs cm' cm''"
    using Cons.IH [of cm'] Cons.prems by (auto simp: sketch_of_def)
  with cm' show ?case by (auto simp: inc intro: sketch_of_trans)
qed

section \<open>Estimates\<close>

definition true_count :: "u8 list \<Rightarrow> (u8 list \<times> u32) list \<Rightarrow> nat" where
  "true_count data incs = (\<Sum>(d, num)\<leftarrow>incs. if d = data then unat num else 0)"

definition total_count :: "(u8 list \<times> u32) list \<Rightarrow> nat" where
  "total_count incs = (\<Sum>(d, num)\<leftarrow>incs. unat num)"

definition collision_count :: "(u8 list \<Rightarrow> u8 list) \<Rightarrow> u64 \<Rightarrow> nat \<Rightarrow> nat \<Rightarrow> (u8 list \<times> u32) list \<Rightarrow> nat" where
  "collision_count SHA256 nh i j incs = (\<Sum>(d, num)\<leftarrow>incs. if row_hash SHA256 nh i d = j then unat num else 0)"

lemma collision_count_total: "collision_count SHA256 nh i j incs \<le> total_count incs"
  by (induction incs) (auto simp: collision_count_def total_count_def)

lemma true_count_le: "true_count data incs \<le> collision_count SHA256 nh i (row_hash SHA256 nh i data) incs"
  by (induction incs) (auto simp: collision_count_def true_count_def)

lemma collision_count_exact:
  assumes "\<forall>(d, num)\<in>set incs. row_hash SHA256 nh i d = row_hash SHA256 nh i data \<longrightarrow> d = data"
  shows "collision_count SHA256 nh i (row_hash SHA256 nh i data) incs = true_count data incs"
  using assms by (induction incs) (auto simp: collision_count_def true_count_def)

lemma column_sum_of_nat: "column_sum SHA256 nh i j incs = of_nat (collision_count SHA256 nh i j incs)"
  by (induction incs) (auto simp: column_sum_def collision_count_def)

lemma unat_column_sum:
  assumes "total_count incs < 2 ^ 32"
  shows "unat (column_sum SHA256 nh i j incs) = collision_count SHA256 nh i j incs"
  unfolding column_sum_of_nat
  using collision_count_total [of SHA256 nh i j incs] assms by (simp add: unsigned_of_nat take_bit_nat_eq_self)

lemma GetCount_sketch:
  assumes dims: "well_dimensioned nc nh" and total: "total_count incs < 2 ^ 32"
    and sk: "sketch_of SHA256 incs (CountMin_ctor nc nh) cm"
  shows "\<exists>c. GetCount SHA256 cm data = Some c \<and>
    (\<forall>i<unat nh. unat c \<le> collision_count SHA256 nh i (row_hash SHA256 nh i data) incs) \<and>
    (\<exists>i<unat nh. unat c = collision_count SHA256 nh i (row_hash SHA256 nh i data) incs)"
proof -
  let ?cell = "GetSketchCell SHA256 cm data"
  have nn: "unat (nc * nh) = unat nc * unat nh"
    using dims by (simp add: well_dimensioned_def unat_word_ariths)
  have cm: "num_cells cm = nc" "num_hashes cm = nh" "length (cells cm) = unat nc * unat nh"
    using sk nn by (simp_all add: sketch_of_def CountMin_ctor_def)
  have cell: "unat (?cell (of_nat i)) = i * unat nc + row_hash SHA256 nh i data" if "i < unat nh" for i
    using GetSketchCell_eq [of cm i SHA256 data] dims that by (simp add: cm)
  have bound: "unat (?cell (of_nat i)) < length (cells cm)" if "i < unat nh" for i
    using row_cell_less [OF that row_hash_less [OF dims]] by (simp add: cell that cm)
  have val: "unat (cells cm ! unat (?cell (of_nat i))) = collision_count SHA256 nh i (row_hash SHA256 nh i data) incs"
    if i: "i < unat nh" for i
  proof -
    let ?h = "row_hash SHA256 nh i data"
    have "cells cm ! (i * unat nc + ?h) = cells (CountMin_ctor nc nh) ! (i * unat nc + ?h) + column_sum SHA256 nh i ?h incs"
      using sk i row_hash_less [OF dims] by (simp add: sketch_of_def CountMin_ctor_def)
    also have "cells (CountMin_ctor nc nh) ! (i * unat nc + ?h) = 0"
      using row_cell_less [OF i row_hash_less [OF dims]] nn by (simp add: CountMin_ctor_def)
    finally show ?thesis by (simp add: cell i unat_column_sum [OF total])
  qed
  obtain c where "min_rows ?cell (cells cm) [0..<unat nh] 0 = Some c"
    "\<forall>i<unat nh. c \<le> cells cm ! unat (?cell (of_nat i))" "\<exists>i<unat nh. c = cells cm ! unat (?cell (of_nat i))"
    using min_rows_is_minimum [of "unat nh" ?cell "cells cm"] bound dims
    by (auto simp: well_dimensioned_def word_less_nat_alt)
  then show ?thesis by (auto simp: GetCount_def cm word_le_nat_alt val)
qed

text \<open>C38. Estimates of the count-min sketch. Let a sketch have at least as many cells in a row as it has hash functions (and at least one of
  them), and let the increments add up to less than \<open>2 ^ 32\<close>. Then no sequence of increments accesses a cell outside the vector, and the count
  that the sketch then returns for a datum is at least the sum of the increments of that datum and at most the sum of all increments; it is
  exact when one of the hash functions maps no other counted datum to the same column.\<close>

theorem estimates_are_upper_bounds:
  assumes dims: "well_dimensioned nc nh" and total: "total_count incs < 2 ^ 32"
  shows "\<exists>cm c. IncrementAll SHA256 incs (CountMin_ctor nc nh) = Some cm \<and> GetCount SHA256 cm data = Some c \<and>
    true_count data incs \<le> unat c \<and> unat c \<le> total_count incs \<and>
    ((\<exists>i<unat nh. \<forall>(d, num)\<in>set incs. row_hash SHA256 nh i d = row_hash SHA256 nh i data \<longrightarrow> d = data) \<longrightarrow>
       unat c = true_count data incs)"
proof -
  have "length (cells (CountMin_ctor nc nh)) = unat nc * unat nh"
    using dims by (simp add: CountMin_ctor_def well_dimensioned_def unat_word_ariths)
  then obtain cm where cm: "IncrementAll SHA256 incs (CountMin_ctor nc nh) = Some cm"
    "sketch_of SHA256 incs (CountMin_ctor nc nh) cm"
    using IncrementAll_sketch [of "CountMin_ctor nc nh"] dims by (fastforce simp: CountMin_ctor_def)
  obtain c i where c: "GetCount SHA256 cm data = Some c"
    "\<forall>i<unat nh. unat c \<le> collision_count SHA256 nh i (row_hash SHA256 nh i data) incs"
    "unat c = collision_count SHA256 nh i (row_hash SHA256 nh i data) incs"
    using GetCount_sketch [OF dims total cm(2)] by blast
  have lower: "true_count data incs \<le> unat c" using true_count_le [of data incs SHA256 nh i] c(3) by simp
  have "unat c \<le> total_count incs" using collision_count_total [of SHA256 nh i _ incs] c(3) by simp
  moreover have "unat c = true_count data incs"
    if "\<exists>i<unat nh. \<forall>(d, num)\<in>set incs. row_hash SHA256 nh i d = row_hash SHA256 nh i data \<longrightarrow> d = data"
  proof -
    from that obtain k where k: "k < unat nh"
      "\<forall>(d, num)\<in>set incs. row_hash SHA256 nh k d = row_hash SHA256 nh k data \<longrightarrow> d = data" by blast
    have "unat c \<le> collision_count SHA256 nh k (row_hash SHA256 nh k data) incs" using c(2) k(1) by blast
    also have "\<dots> = true_count data incs" by (rule collision_count_exact [OF k(2)])
    finally show ?thesis using lower by simp
  qed
  ultimately show ?thesis using cm(1) c(1) lower by blast
qed

theorem estimates_are_upper_bounds_witness:
  "\<exists>cm c. IncrementAll (\<lambda>bs. bs) [([5], 3), ([6], 4)] (CountMin_ctor 4 2) = Some cm \<and> GetCount (\<lambda>bs. bs) cm [5] = Some c \<and>
    3 \<le> unat c \<and> unat c \<le> 7"
proof -
  have "well_dimensioned 4 2" by (simp add: well_dimensioned_def)
  moreover have "total_count [([5], 3), ([6], 4)] < 2 ^ 32" by (simp add: total_count_def)
  ultimately show ?thesis
    using estimates_are_upper_bounds [of 4 2 "[([5], 3), ([6], 4)]" "\<lambda>bs. bs" "[5]"]
    by (auto simp: true_count_def total_count_def)
qed

text \<open>With more hash functions than cells in a row, the cell of the last hash function can lie outside the vector: \<open>GetSketchCell\<close> truncates
  with the wrong bound.\<close>

lemma increment_rows_out_of_range:
  assumes "unat (cell 1) \<ge> length cs"
  shows "increment_rows cell num [0, 1] cs = None"
  using assms by (simp add: Let_def)

lemma sketch_cell_out_of_range:
  assumes "SHA256 (uint64_bytes 1 @ data) = [1, 0, 0, 0, 0, 0, 0, 0]"
  shows "Increment SHA256 data num (CountMin_ctor 1 2) = None"
proof -
  have "GetSketchCell SHA256 (CountMin_ctor 1 2) data 1 = 2"
    using assms by (simp add: GetSketchCell_def CountMin_ctor_def TruncatedDigest_def TruncateDigest_def Hash64WithSeed_def)
  moreover have "[0..<unat (num_hashes (CountMin_ctor 1 2))] = [0, 1]"
    by (simp add: CountMin_ctor_def upt_rec)
  ultimately show ?thesis
    using increment_rows_out_of_range [of "cells (CountMin_ctor 1 2)" "GetSketchCell SHA256 (CountMin_ctor 1 2) data" num]
    by (simp add: Increment_def) (simp add: CountMin_ctor_def)
qed

end
