(* ===== verification/Randomized_Response.thy ===== *)
theory Randomized_Response
  imports Cobalt_Prelude "HOL-Library.Signed_Division" Complex_Main
begin

text \<open>
  The encoders of the experimental algorithms for single values (\<^verbatim>\<open>src/src/algorithms/experimental/\<close>: \<^verbatim>\<open>distributions.cc\<close>,
  \<^verbatim>\<open>randomized_response.cc\<close> and \<^verbatim>\<open>integer_encoder.cc\<close>). The algorithms of the random distributions of the standard library are
  not specified: their samples are functions of the state of the bit generator (\<open>samplers\<close>), of which \<open>sampler_laws\<close> says what the standard says
  of their ranges. An \<open>int64_t\<close> is an integer, and a \<open>double\<close> the rational number that the formula denotes, without rounding.
  \<open>None\<close> stands for what is undefined in C++ (an overflow of signed integers, an access outside a vector, a distribution
  whose parameters it does not allow) and for results that are not finite numbers. The properties are that the binary search finds the largest
  boundary below a value, that every value in the range of an encoder gets an index, and that without noise the sum of
  encoded values is exact.
\<close>

section \<open>Distributions\<close>

record 'g samplers =
  bernoulli :: "rat \<Rightarrow> 'g \<Rightarrow> bool \<times> 'g"
  binomial :: "u64 \<Rightarrow> rat \<Rightarrow> 'g \<Rightarrow> u64 \<times> 'g"
  uniform_int :: "u32 \<Rightarrow> u32 \<Rightarrow> 'g \<Rightarrow> u32 \<times> 'g"
  poisson :: "int \<Rightarrow> 'g \<Rightarrow> int \<times> 'g"

definition sampler_laws :: "'g samplers \<Rightarrow> bool" where
  "sampler_laws S \<longleftrightarrow>
     (\<forall>g. \<not> fst (bernoulli S 0 g)) \<and> (\<forall>g. fst (bernoulli S 1 g)) \<and>
     (\<forall>n p g. fst (binomial S n p g) \<le> n) \<and> (\<forall>n g. fst (binomial S n 0 g) = 0) \<and>
     (\<forall>lo hi g. lo \<le> hi \<longrightarrow> lo \<le> fst (uniform_int S lo hi g) \<and> fst (uniform_int S lo hi g) \<le> hi)"

definition probability :: "rat \<Rightarrow> bool" where
  "probability p \<longleftrightarrow> 0 \<le> p \<and> p \<le> 1"

datatype BernoulliDistribution = Bernoulli rat
datatype BinomialDistribution = Binomial u64 rat
datatype DiscreteUniformDistribution = DiscreteUniform u32 u32
datatype PoissonDistribution = Poisson int

definition BernoulliDistribution_ctor :: "rat \<Rightarrow> BernoulliDistribution option" where
  "BernoulliDistribution_ctor p = (if probability p then Some (Bernoulli p) else None)"

definition BinomialDistribution_ctor :: "u64 \<Rightarrow> rat \<Rightarrow> BinomialDistribution option" where
  "BinomialDistribution_ctor num_trials p = (if probability p then Some (Binomial num_trials p) else None)"

definition DiscreteUniformDistribution_ctor :: "u32 \<Rightarrow> u32 \<Rightarrow> DiscreteUniformDistribution option" where
  "DiscreteUniformDistribution_ctor lo hi = (if lo \<le> hi then Some (DiscreteUniform lo hi) else None)"

definition PoissonDistribution_ctor :: "int \<Rightarrow> PoissonDistribution option" where
  "PoissonDistribution_ctor mean = (if 0 < mean then Some (Poisson mean) else None)"

fun Bernoulli_Sample :: "'g samplers \<Rightarrow> BernoulliDistribution \<Rightarrow> 'g \<Rightarrow> bool \<times> 'g" where
  "Bernoulli_Sample S (Bernoulli p) g = bernoulli S p g"

fun Binomial_Sample :: "'g samplers \<Rightarrow> BinomialDistribution \<Rightarrow> 'g \<Rightarrow> u64 \<times> 'g" where
  "Binomial_Sample S (Binomial n p) g = binomial S n p g"

fun Uniform_Sample :: "'g samplers \<Rightarrow> DiscreteUniformDistribution \<Rightarrow> 'g \<Rightarrow> u32 \<times> 'g" where
  "Uniform_Sample S (DiscreteUniform lo hi) g = uniform_int S lo hi g"

fun Poisson_Sample :: "'g samplers \<Rightarrow> PoissonDistribution \<Rightarrow> 'g \<Rightarrow> int \<times> 'g" where
  "Poisson_Sample S (Poisson mean) g = poisson S mean g"

section \<open>ResponseRandomizer\<close>

record ResponseRandomizer =
  rr_max_index :: u32
  bernoulli_dist :: BernoulliDistribution
  uniform_dist :: DiscreteUniformDistribution

definition ResponseRandomizer_ctor :: "u32 \<Rightarrow> rat \<Rightarrow> ResponseRandomizer option" where
  "ResponseRandomizer_ctor max_index p =
     (case BernoulliDistribution_ctor p of
        None \<Rightarrow> None
      | Some b \<Rightarrow>
          case DiscreteUniformDistribution_ctor 0 max_index of
            None \<Rightarrow> None
          | Some u \<Rightarrow> Some \<lparr>rr_max_index = max_index, bernoulli_dist = b, uniform_dist = u\<rparr>)"

definition Randomizer_Encode :: "'g samplers \<Rightarrow> ResponseRandomizer \<Rightarrow> u32 \<Rightarrow> 'g \<Rightarrow> u32 \<times> 'g" where
  "Randomizer_Encode S rr index g =
     (let response = min (rr_max_index rr) index;
          (random_response, g) = Uniform_Sample S (uniform_dist rr) g;
          (replace_response, g) = Bernoulli_Sample S (bernoulli_dist rr) g
      in (if replace_response then random_response else response, g))"

section \<open>FrequencyEstimator\<close>

record FrequencyEstimator =
  fe_max_index :: u32
  fe_p :: rat

definition FrequencyEstimator_ctor :: "u32 \<Rightarrow> rat \<Rightarrow> FrequencyEstimator" where
  "FrequencyEstimator_ctor max_index p = \<lparr>fe_max_index = max_index, fe_p = p\<rparr>"

text \<open>With \<open>max_index_ = 2 ^ 32 - 1\<close> the size of the vectors wraps to 0.\<close>

definition GetDebiasedFrequencies :: "FrequencyEstimator \<Rightarrow> u64 list \<Rightarrow> u64 \<Rightarrow> rat list option" where
  "GetDebiasedFrequencies fe raw_frequencies input_size =
     (let shift = (of_nat (unat input_size) * fe_p fe) / of_nat (unat (fe_max_index fe + 1));
          scale = 1 - fe_p fe
      in if scale = 0 then None
         else Some (map (\<lambda>i. (of_nat (unat (raw_frequencies ! i)) - shift) / scale) [0..<unat (fe_max_index fe) + 1]))"

definition count_index :: "u32 \<Rightarrow> u32 \<Rightarrow> u64 list \<Rightarrow> u64 list" where
  "count_index max_index index raw =
     (if index \<le> max_index then raw[unat index := raw ! unat index + 1] else raw)"

definition GetFrequenciesFromIndices :: "FrequencyEstimator \<Rightarrow> u32 list \<Rightarrow> rat list option" where
  "GetFrequenciesFromIndices fe indices =
     (if fe_max_index fe + 1 = 0 then None
      else GetDebiasedFrequencies fe
             (fold (count_index (fe_max_index fe)) indices (replicate (unat (fe_max_index fe + 1)) 0))
             (of_nat (length indices)))"

text \<open>One histogram: \<open>raw_frequencies[i] += histogram[i]\<close> and \<open>input_size += histogram[i]\<close> for every index.\<close>

definition count_histogram :: "nat \<Rightarrow> u64 list \<Rightarrow> u64 list \<times> u64 \<Rightarrow> (u64 list \<times> u64) option" where
  "count_histogram n histogram acc =
     (if length histogram < n then None
      else Some (fold (\<lambda>i (raw, input_size). (raw[i := raw ! i + histogram ! i], input_size + histogram ! i)) [0..<n] acc))"

fun count_histograms :: "nat \<Rightarrow> u64 list list \<Rightarrow> u64 list \<times> u64 \<Rightarrow> (u64 list \<times> u64) option" where
  "count_histograms n [] acc = Some acc"
| "count_histograms n (h # hs) acc =
     (case count_histogram n h acc of None \<Rightarrow> None | Some acc \<Rightarrow> count_histograms n hs acc)"

definition GetFrequenciesFromHistograms :: "FrequencyEstimator \<Rightarrow> u64 list list \<Rightarrow> rat list option" where
  "GetFrequenciesFromHistograms fe histograms =
     (if fe_max_index fe + 1 = 0 then None
      else case count_histograms (unat (fe_max_index fe) + 1) histograms (replicate (unat (fe_max_index fe + 1)) 0, 0) of
             None \<Rightarrow> None
           | Some (raw_frequencies, input_size) \<Rightarrow> GetDebiasedFrequencies fe raw_frequencies input_size)"

section \<open>IntegerEncoder\<close>

definition int64_range :: "int \<Rightarrow> bool" where
  "int64_range x \<longleftrightarrow> - (2 ^ 63) \<le> x \<and> x < 2 ^ 63"

text \<open>Every \<open>min_int + i * step_size\<close> lies between \<open>min_int\<close> and \<open>max_int\<close>, so that only the difference can overflow.\<close>

definition PopulateBoundaries :: "int \<Rightarrow> int \<Rightarrow> u32 \<Rightarrow> int list option" where
  "PopulateBoundaries min_int max_int partitions =
     (if partitions + 1 = 0 \<or> partitions = 0 \<or> \<not> int64_range (max_int - min_int) then None
      else let step_size = (max_int - min_int) sdiv uint partitions
           in Some (map (\<lambda>i. min_int + int i * step_size) [0..<unat partitions + 1]))"

definition GetBoundarySum :: "int list \<Rightarrow> int option" where
  "GetBoundarySum boundaries =
     fold (\<lambda>b sum. case sum of None \<Rightarrow> None | Some s \<Rightarrow> if int64_range (s + b) then Some (s + b) else None) boundaries (Some 0)"

record IntegerEncoder =
  boundaries :: "int list"
  randomizer :: ResponseRandomizer

definition IntegerEncoder_ctor :: "int \<Rightarrow> int \<Rightarrow> u32 \<Rightarrow> rat \<Rightarrow> IntegerEncoder option" where
  "IntegerEncoder_ctor min_int max_int partitions p =
     (case PopulateBoundaries min_int max_int partitions of
        None \<Rightarrow> None
      | Some bs \<Rightarrow>
          case ResponseRandomizer_ctor partitions p of
            None \<Rightarrow> None
          | Some rr \<Rightarrow> Some \<lparr>boundaries = bs, randomizer = rr\<rparr>)"

text \<open>The loop of the binary search. The indices are below the size of the vector, which is at most \<open>2 ^ 32 - 1\<close>, so that no
  operation on them wraps.\<close>

function search_left :: "int list \<Rightarrow> int \<Rightarrow> nat \<Rightarrow> nat \<Rightarrow> nat" where
  "search_left bs val left right =
     (if left + 1 < right
      then let mid = left + (right - left) div 2
           in if val < bs ! mid then search_left bs val left mid else search_left bs val mid right
      else left)"
  by pat_completeness auto
termination
  by (relation "measure (\<lambda>(bs, val, left, right). right - left)") (auto simp: Let_def)

declare search_left.simps [simp del]

definition GetLeftIndex :: "int list \<Rightarrow> int \<Rightarrow> nat" where
  "GetLeftIndex bs val =
     (let left = 0; right = length bs - 1
      in if val \<le> bs ! left then left
         else if val \<ge> bs ! right then right
         else search_left bs val left right)"

definition RandomRound :: "'g samplers \<Rightarrow> int list \<Rightarrow> int \<Rightarrow> nat \<Rightarrow> 'g \<Rightarrow> (nat \<times> 'g) option" where
  "RandomRound S bs val left_index g =
     (if left_index = length bs - 1 then Some (left_index, g)
      else let lower_bound = bs ! left_index;
               width = bs ! (left_index + 1) - lower_bound;
               pos = of_int (val - lower_bound) / of_int width
           in if width = 0 then None
              else case BernoulliDistribution_ctor pos of
                     None \<Rightarrow> None
                   | Some d \<Rightarrow> (case Bernoulli_Sample S d g of (b, g) \<Rightarrow> Some (left_index + (if b then 1 else 0), g)))"

definition Integer_Encode :: "'g samplers \<Rightarrow> IntegerEncoder \<Rightarrow> int \<Rightarrow> 'g \<Rightarrow> (u32 \<times> 'g) option" where
  "Integer_Encode S e val g =
     (case RandomRound S (boundaries e) val (GetLeftIndex (boundaries e) val) g of
        None \<Rightarrow> None
      | Some (index, g) \<Rightarrow> Some (Randomizer_Encode S (randomizer e) (of_nat index) g))"

section \<open>IntegerSumEstimator\<close>

record IntegerSumEstimator =
  est_boundaries :: "int list"
  boundary_sum :: int
  frequency_estimator :: FrequencyEstimator

definition IntegerSumEstimator_ctor :: "int \<Rightarrow> int \<Rightarrow> u32 \<Rightarrow> rat \<Rightarrow> IntegerSumEstimator option" where
  "IntegerSumEstimator_ctor min_int max_int partitions p =
     (case PopulateBoundaries min_int max_int partitions of
        None \<Rightarrow> None
      | Some bs \<Rightarrow>
          case GetBoundarySum bs of
            None \<Rightarrow> None
          | Some s \<Rightarrow> Some \<lparr>est_boundaries = bs, boundary_sum = s, frequency_estimator = FrequencyEstimator_ctor partitions p\<rparr>)"

definition Integer_ComputeSum :: "IntegerSumEstimator \<Rightarrow> u32 list \<Rightarrow> rat option" where
  "Integer_ComputeSum est encoded_vals =
     map_option (\<lambda>frequencies. fold (\<lambda>index sum. sum + frequencies ! index * of_int (est_boundaries est ! index)) [0..<length frequencies] 0)
       (GetFrequenciesFromIndices (frequency_estimator est) encoded_vals)"

text \<open>The calls of an encoder for a sequence of inputs, one after the other.\<close>

fun encode_all :: "('a \<Rightarrow> 'g \<Rightarrow> ('b \<times> 'g) option) \<Rightarrow> 'a list \<Rightarrow> 'g \<Rightarrow> ('b list \<times> 'g) option" where
  "encode_all encode [] g = Some ([], g)"
| "encode_all encode (v # vs) g =
     (case encode v g of
        None \<Rightarrow> None
      | Some (i, g) \<Rightarrow> (case encode_all encode vs g of None \<Rightarrow> None | Some (is, g) \<Rightarrow> Some (i # is, g)))"

section \<open>Randomized response\<close>

lemma Randomizer_Encode_range:
  assumes "sampler_laws S" and "ResponseRandomizer_ctor max_index p = Some rr"
  shows "fst (Randomizer_Encode S rr index g) \<le> max_index"
proof -
  have "\<forall>lo hi g. lo \<le> hi \<longrightarrow> fst (uniform_int S lo hi g) \<le> hi" using assms(1) by (simp add: sampler_laws_def)
  then have "fst (uniform_int S 0 max_index g) \<le> max_index" by simp
  with assms(2) show ?thesis
    by (auto simp: ResponseRandomizer_ctor_def BernoulliDistribution_ctor_def DiscreteUniformDistribution_ctor_def
        Randomizer_Encode_def split: if_splits prod.splits)
qed

lemma Randomizer_Encode_noiseless:
  assumes "sampler_laws S" and "ResponseRandomizer_ctor max_index 0 = Some rr"
  shows "fst (Randomizer_Encode S rr index g) = min max_index index"
proof -
  have "\<not> fst (bernoulli S 0 g)" for g using assms(1) by (simp add: sampler_laws_def)
  then have "bernoulli S 0 g \<noteq> (True, g')" for g g' by (metis fst_conv)
  with assms(2) show ?thesis
    by (auto simp: ResponseRandomizer_ctor_def BernoulliDistribution_ctor_def DiscreteUniformDistribution_ctor_def
        Randomizer_Encode_def split: if_splits prod.splits)
qed

lemma ResponseRandomizer_ctor_Some:
  "probability p \<Longrightarrow> \<exists>rr. ResponseRandomizer_ctor max_index p = Some rr"
  by (simp add: ResponseRandomizer_ctor_def BernoulliDistribution_ctor_def DiscreteUniformDistribution_ctor_def)

section \<open>Binary search\<close>

lemma search_left_spec:
  assumes "left < right" and "bs ! left \<le> val" and "val < bs ! right"
  shows "left \<le> search_left bs val left right \<and> search_left bs val left right < right \<and>
    bs ! search_left bs val left right \<le> val \<and> val < bs ! (search_left bs val left right + 1)"
  using assms
proof (induction bs val left right rule: search_left.induct)
  case (1 bs val left right)
  show ?case
  proof (cases "left + 1 < right")
    case True
    then have mid: "left < left + (right - left) div 2" "left + (right - left) div 2 < right" by auto
    show ?thesis
    proof (cases "val < bs ! (left + (right - left) div 2)")
      case less: True
      from "1.IH"(1) [OF True refl less] mid "1.prems" less True show ?thesis
        by (simp add: search_left.simps [of bs val left right] Let_def)
    next
      case False
      from "1.IH"(2) [OF True refl False] mid "1.prems" False True show ?thesis
        by (simp add: search_left.simps [of bs val left right] Let_def)
    qed
  next
    case False
    with "1.prems" have "right = left + 1" by simp
    with "1.prems" False show ?thesis by (subst (1 2 3 4) search_left.simps) simp
  qed
qed

text \<open>The specification in the comment of \<open>GetLeftIndex\<close>: the last boundary that is not greater than the value, or the first one.\<close>

definition left_index_spec :: "int list \<Rightarrow> int \<Rightarrow> nat" where
  "left_index_spec bs val = length (takeWhile (\<lambda>b. b \<le> val) bs) - 1"

lemma left_index_specI:
  assumes "sorted_wrt (<) bs" and "i < length bs" and "bs ! i \<le> val" and "i + 1 < length bs \<longrightarrow> val < bs ! (i + 1)"
  shows "left_index_spec bs val = i"
proof -
  have le: "b \<le> val" if "b \<in> set (take (i + 1) bs)" for b
  proof -
    from that obtain k where "k < i + 1" "b = bs ! k" "k < length bs" by (auto simp: in_set_conv_nth)
    then have "b \<le> bs ! i" using assms(1,2) by (cases "k = i") (auto simp: sorted_wrt_iff_nth_less less_imp_le)
    with assms(3) show ?thesis by simp
  qed
  have "takeWhile (\<lambda>b. b \<le> val) bs = take (i + 1) bs @ takeWhile (\<lambda>b. b \<le> val) (drop (i + 1) bs)"
    using le takeWhile_append2 [of "take (i + 1) bs" "\<lambda>b. b \<le> val" "drop (i + 1) bs"] by simp
  also have "takeWhile (\<lambda>b. b \<le> val) (drop (i + 1) bs) = []"
    using assms(2,4) by (cases "i + 1 < length bs") (auto simp: takeWhile_eq_Nil_iff hd_drop_conv_nth)
  finally show ?thesis using assms(2) by (simp add: left_index_spec_def)
qed

lemma GetLeftIndex_spec:
  assumes sorted: "sorted_wrt (<) bs" and ne: "bs \<noteq> []"
  shows "GetLeftIndex bs val = left_index_spec bs val"
proof (cases "bs ! 0 \<le> val")
  case False
  then have "takeWhile (\<lambda>b. b \<le> val) bs = []" using ne by (cases bs) auto
  with False show ?thesis by (simp add: GetLeftIndex_def left_index_spec_def)
next
  case True
  let ?r = "length bs - 1"
  have r: "?r < length bs" using ne by simp
  consider "val = bs ! 0" | "bs ! 0 < val" "bs ! ?r \<le> val" | "bs ! 0 < val" "val < bs ! ?r" using True by linarith
  then show ?thesis
  proof cases
    case 1
    have "1 < length bs \<longrightarrow> val < bs ! 1" using sorted 1 by (simp add: sorted_wrt_iff_nth_less)
    then have "left_index_spec bs val = 0" using sorted ne 1 by (intro left_index_specI) auto
    with 1 show ?thesis by (simp add: GetLeftIndex_def)
  next
    case 2
    then have "left_index_spec bs val = ?r" using sorted r by (intro left_index_specI) auto
    with 2 show ?thesis by (simp add: GetLeftIndex_def)
  next
    case 3
    then have "0 < ?r" by (cases "?r = 0") auto
    then have s: "search_left bs val 0 ?r < ?r" "bs ! search_left bs val 0 ?r \<le> val" "val < bs ! (search_left bs val 0 ?r + 1)"
      using search_left_spec [of 0 ?r bs val] 3 by auto
    then have "left_index_spec bs val = search_left bs val 0 ?r" using sorted r by (intro left_index_specI) auto
    with 3 show ?thesis by (simp add: GetLeftIndex_def)
  qed
qed

section \<open>The integer encoder\<close>

lemma strictly_increasing_boundaries:
  assumes "PopulateBoundaries min_int max_int k = Some bs" and "uint k \<le> max_int - min_int"
  shows "sorted_wrt (<) bs" and "length bs = unat k + 1" and "bs ! 0 = min_int" and "0 < unat k" and "unat k + 1 < 2 ^ 32"
proof -
  let ?step = "(max_int - min_int) sdiv uint k"
  from assms(1) have k: "k \<noteq> 0" "k + 1 \<noteq> 0" and bs: "bs = map (\<lambda>i. min_int + int i * ?step) [0..<unat k + 1]"
    by (auto simp: PopulateBoundaries_def Let_def split: if_splits)
  have pos: "0 < uint k" using k(1) by (metis uint_0_iff uint_ge_0 order_le_less)
  have "?step = (max_int - min_int) div uint k"
    using assms(2) pos by (simp add: signed_divide_int_def sgn_if)
  then have "1 \<le> ?step" using assms(2) pos by (simp add: pos_imp_zdiv_pos_iff int_one_le_iff_zero_less)
  then show "sorted_wrt (<) bs" by (auto simp: bs sorted_wrt_map sorted_wrt_iff_nth_less simp del: upt_Suc)
  show "length bs = unat k + 1" "bs ! 0 = min_int" by (simp_all add: bs del: upt_Suc)
  show "0 < unat k" using k(1) by (simp add: unat_gt_0)
  have "unat k < 2 ^ 32" using unsigned_less [of k, where 'a = nat] by simp
  moreover have "unat k + 1 \<noteq> 2 ^ 32"
  proof
    assume "unat k + 1 = 2 ^ 32"
    then have "of_nat (unat k + 1) = (of_nat (2 ^ 32) :: u32)" by simp
    then show False using k(2) by simp
  qed
  ultimately show "unat k + 1 < 2 ^ 32" by simp
qed

lemma IntegerEncoder_ctor_Some:
  "IntegerEncoder_ctor min_int max_int k p = Some e \<Longrightarrow>
     PopulateBoundaries min_int max_int k = Some (boundaries e) \<and> ResponseRandomizer_ctor k p = Some (randomizer e)"
  by (auto simp: IntegerEncoder_ctor_def split: option.splits)

text \<open>In the range of the encoder the position of a value between its two boundaries is a probability.\<close>

lemma left_index_spec_bounds:
  assumes "bs \<noteq> []" and "bs ! 0 \<le> val"
  shows "left_index_spec bs val < length bs" and "bs ! left_index_spec bs val \<le> val"
    and "left_index_spec bs val + 1 < length bs \<Longrightarrow> val < bs ! (left_index_spec bs val + 1)"
proof -
  let ?t = "takeWhile (\<lambda>b. b \<le> val) bs"
  have t: "0 < length ?t" using assms by (cases bs) auto
  then have l: "left_index_spec bs val < length ?t" by (simp add: left_index_spec_def)
  with length_takeWhile_le [of "\<lambda>b. b \<le> val" bs] show "left_index_spec bs val < length bs" by simp
  have "?t ! left_index_spec bs val \<in> set ?t" using l by (rule nth_mem)
  then show "bs ! left_index_spec bs val \<le> val"
    using l by (auto simp: takeWhile_nth dest: set_takeWhileD)
  assume "left_index_spec bs val + 1 < length bs"
  moreover have "left_index_spec bs val + 1 = length ?t" using t by (simp add: left_index_spec_def)
  ultimately show "val < bs ! (left_index_spec bs val + 1)"
    using nth_length_takeWhile [of "\<lambda>b. b \<le> val" bs] by simp
qed

lemma RandomRound_in_range:
  assumes "bs \<noteq> []" and "bs ! 0 \<le> val"
  shows "\<exists>i g'. RandomRound S bs val (left_index_spec bs val) g = Some (i, g') \<and> i < length bs \<and>
    (i = left_index_spec bs val \<or> i = left_index_spec bs val + 1)"
proof (cases "left_index_spec bs val = length bs - 1")
  case True
  then show ?thesis using left_index_spec_bounds(1) [OF assms] by (simp add: RandomRound_def)
next
  case False
  let ?l = "left_index_spec bs val"
  have l: "?l + 1 < length bs" using False left_index_spec_bounds(1) [OF assms] by simp
  have val: "bs ! ?l \<le> val" "val < bs ! (?l + 1)" using left_index_spec_bounds [OF assms] l by auto
  let ?pos = "of_int (val - bs ! ?l) / of_int (bs ! (?l + 1) - bs ! ?l) :: rat"
  have "0 < bs ! (?l + 1) - bs ! ?l" and le: "val - bs ! ?l \<le> bs ! (?l + 1) - bs ! ?l" using val by auto
  then have width: "(0 :: rat) < of_int (bs ! (?l + 1) - bs ! ?l)" by (simp only: of_int_0_less_iff)
  have "of_int (val - bs ! ?l) \<le> (of_int (bs ! (?l + 1) - bs ! ?l) :: rat)" using le by (simp only: of_int_le_iff)
  moreover have "(0 :: rat) \<le> of_int (val - bs ! ?l)" using val(1) by simp
  ultimately have "probability ?pos" using width by (simp only: probability_def) (simp del: of_int_diff)
  moreover obtain b g' where "bernoulli S ?pos g = (b, g')" by fastforce
  ultimately have "RandomRound S bs val ?l g = Some (?l + (if b then 1 else 0), g')"
    using False val by (simp add: RandomRound_def Let_def BernoulliDistribution_ctor_def)
  then show ?thesis using l by (cases b) auto
qed

text \<open>Below the range the position is negative, which is not a probability.\<close>

lemma RandomRound_underflow:
  assumes "sorted_wrt (<) bs" and "1 < length bs" and "val < bs ! 0"
  shows "RandomRound S bs val 0 g = None"
proof -
  have width: "0 < bs ! 1 - bs ! 0" using assms(1,2) by (simp add: sorted_wrt_iff_nth_less)
  have "(of_int (val - bs ! 0) / of_int (bs ! 1 - bs ! 0) :: rat) < 0"
    using width assms(3) by (simp only: divide_less_0_iff of_int_less_0_iff of_int_0_less_iff) simp
  then show ?thesis
    using assms(2) width by (simp add: RandomRound_def Let_def BernoulliDistribution_ctor_def probability_def del: of_int_diff)
qed

text \<open>The binary search of the integer encoder. When the range of an encoder is at least as long as the number of its partitions,
  \<open>GetLeftIndex\<close> finds the last boundary that is not greater than the value, and the first boundary when there is none.\<close>

theorem GetLeftIndex_reference:
  assumes "IntegerEncoder_ctor min_int max_int partitions p = Some e" and "uint partitions \<le> max_int - min_int"
  shows "GetLeftIndex (boundaries e) val = left_index_spec (boundaries e) val"
proof -
  have bs: "PopulateBoundaries min_int max_int partitions = Some (boundaries e)"
    using IntegerEncoder_ctor_Some [OF assms(1)] by simp
  note strictly_increasing_boundaries [OF bs assms(2)]
  then show ?thesis by (intro GetLeftIndex_spec) auto
qed

definition example_integer_encoder :: IntegerEncoder where
  "example_integer_encoder = \<lparr>boundaries = [-10, -5, 0, 5, 10],
     randomizer = \<lparr>rr_max_index = 4, bernoulli_dist = Bernoulli 0, uniform_dist = DiscreteUniform 0 4\<rparr>\<rparr>"

lemma example_integer_encoder_ctor: "IntegerEncoder_ctor (-10) 10 4 0 = Some example_integer_encoder"
  by (simp add: IntegerEncoder_ctor_def PopulateBoundaries_def int64_range_def ResponseRandomizer_ctor_def
      BernoulliDistribution_ctor_def DiscreteUniformDistribution_ctor_def probability_def example_integer_encoder_def
      signed_divide_int_def Let_def upt_rec)

theorem GetLeftIndex_reference_witness:
  "GetLeftIndex (boundaries example_integer_encoder) 7 = 3 \<and> left_index_spec (boundaries example_integer_encoder) 7 = 3"
  using GetLeftIndex_reference [OF example_integer_encoder_ctor, of 7] by (simp add: left_index_spec_def example_integer_encoder_def)

text \<open>What the integer encoder returns. A value that is not below the range gets an index of the partitions, and without noise
  it is the index of one of the two boundaries next to it. For a value below the range the
  code asks for a Bernoulli distribution with a negative parameter, which is undefined.\<close>

theorem Integer_Encode_spec:
  assumes laws: "sampler_laws S" and e: "IntegerEncoder_ctor min_int max_int partitions p = Some e"
    and wide: "uint partitions \<le> max_int - min_int"
  shows "if val < min_int then Integer_Encode S e val g = None
    else \<exists>index g'. Integer_Encode S e val g = Some (index, g') \<and> index \<le> partitions \<and>
      (p = 0 \<longrightarrow> unat index \<in> {left_index_spec (boundaries e) val, left_index_spec (boundaries e) val + 1})"
proof -
  note ctor = IntegerEncoder_ctor_Some [OF e]
  note bs = strictly_increasing_boundaries [OF conjunct1 [OF ctor] wide]
  have left: "GetLeftIndex (boundaries e) val = left_index_spec (boundaries e) val"
    using bs by (intro GetLeftIndex_spec) auto
  show ?thesis
  proof (cases "val < min_int")
    case True
    have "GetLeftIndex (boundaries e) val = 0" using True bs(3) by (simp add: GetLeftIndex_def)
    with True bs show ?thesis by (simp add: Integer_Encode_def RandomRound_underflow)
  next
    case False
    obtain i g1 where i: "RandomRound S (boundaries e) val (left_index_spec (boundaries e) val) g = Some (i, g1)"
      "i < length (boundaries e)" "i \<in> {left_index_spec (boundaries e) val, left_index_spec (boundaries e) val + 1}"
      using RandomRound_in_range [of "boundaries e" val S g] False bs by fastforce
    obtain index g' where index: "Randomizer_Encode S (randomizer e) (of_nat i) g1 = (index, g')" by fastforce
    have "index \<le> partitions" using Randomizer_Encode_range [OF laws conjunct2 [OF ctor], of "of_nat i" g1] index by simp
    moreover have "unat index = i" if "p = 0"
    proof -
      have "unat (of_nat i :: u32) = i" using i(2) bs(2,5) by (simp add: unsigned_of_nat take_bit_nat_eq_self)
      moreover have "index = min partitions (of_nat i)"
        using Randomizer_Encode_noiseless [OF laws, of partitions "randomizer e" "of_nat i" g1] ctor that index by simp
      ultimately show ?thesis using i(2) bs(2) by (simp add: min_def word_le_nat_alt)
    qed
    ultimately show ?thesis using False i index left by (auto simp: Integer_Encode_def)
  qed
qed

text \<open>A generator whose distributions return constants: the smallest value of a range, and success only for the probability 1.\<close>

definition constant_samplers :: "unit samplers" where
  "constant_samplers = \<lparr>bernoulli = (\<lambda>p g. (p = 1, g)), binomial = (\<lambda>n p g. (0, g)), uniform_int = (\<lambda>lo hi g. (lo, g)),
     poisson = (\<lambda>mean g. (0, g))\<rparr>"

lemma constant_samplers_laws: "sampler_laws constant_samplers"
  by (simp add: sampler_laws_def constant_samplers_def)

theorem Integer_Encode_spec_witness:
  "\<exists>index g'. Integer_Encode constant_samplers example_integer_encoder 7 () = Some (index, g') \<and> index \<le> 4 \<and> unat index \<in> {3, 4}"
proof -
  have "left_index_spec (boundaries example_integer_encoder) 7 = 3"
    by (simp add: left_index_spec_def example_integer_encoder_def)
  then show ?thesis
    using Integer_Encode_spec [OF constant_samplers_laws example_integer_encoder_ctor, of 7 "()"] by simp
qed

section \<open>Sums of encoded integers\<close>

lemma fold_count_index:
  "length (fold (count_index m) is raw) = length raw"
  by (induction "is" arbitrary: raw) (simp_all add: count_index_def)

lemma fold_count_index_nth:
  assumes "\<forall>i\<in>set is. i \<le> m" and "length raw = unat m + 1" and "k \<le> unat m"
  shows "fold (count_index m) is raw ! k = raw ! k + of_nat (length (filter (\<lambda>i. unat i = k) is))"
  using assms by (induction "is" arbitrary: raw) (auto simp: count_index_def nth_list_update word_le_nat_alt)

text \<open>A sum over all indices, weighted with the number of their occurrences, is a sum over the occurrences.\<close>

lemma sum_over_occurrences:
  assumes "\<forall>i\<in>set is. (f :: 'a \<Rightarrow> nat) i < n"
  shows "(\<Sum>k<n. of_nat (length (filter (\<lambda>i. f i = k) is)) * (w k :: rat)) = (\<Sum>i\<leftarrow>is. w (f i))"
  using assms
proof (induction "is")
  case (Cons i "is")
  have "(\<Sum>k<n. of_nat (length (filter (\<lambda>j. f j = k) (i # is))) * w k) =
      (\<Sum>k<n. (if k = f i then w k else 0) + of_nat (length (filter (\<lambda>j. f j = k) is)) * w k)"
    by (rule sum.cong) (auto simp: algebra_simps)
  also have "\<dots> = w (f i) + (\<Sum>k<n. of_nat (length (filter (\<lambda>j. f j = k) is)) * w k)"
    using Cons.prems by (simp add: sum.distrib)
  finally show ?case using Cons by simp
qed simp

lemma fold_sum_upt: "fold (\<lambda>k s. s + f k) [0..<n] (0 :: rat) = (\<Sum>k<n. f k)"
  by (induction n) simp_all

lemma noiseless_frequencies:
  assumes m: "fe_max_index fe + 1 \<noteq> 0" and p: "fe_p fe = 0" and idx: "\<forall>i\<in>set is. i \<le> fe_max_index fe"
    and len: "length is < 2 ^ 64"
  shows "GetFrequenciesFromIndices fe is =
    Some (map (\<lambda>k. of_nat (length (filter (\<lambda>i. unat i = k) is))) [0..<unat (fe_max_index fe) + 1])"
proof -
  have size: "unat (fe_max_index fe + 1) = unat (fe_max_index fe) + 1"
    using m by (simp add: unatSuc add.commute)
  have "(unsigned (of_nat (length (filter (\<lambda>i. unat i = k) is)) :: u64) :: rat) = of_nat (length (filter (\<lambda>i. unat i = k) is))" for k
    using le_less_trans [OF length_filter_le len, of "\<lambda>i. unat i = k"] by (simp add: unsigned_of_nat take_bit_nat_eq_self)
  then show ?thesis
    using m p fold_count_index_nth [OF idx, of "replicate (unat (fe_max_index fe) + 1) 0"]
    by (simp add: GetFrequenciesFromIndices_def GetDebiasedFrequencies_def size Let_def del: upt_Suc replicate_Suc replicate.simps)
qed

lemma noiseless_sum:
  assumes est: "est_boundaries est = bs" "frequency_estimator est = FrequencyEstimator_ctor k 0" and k: "k + 1 \<noteq> 0"
    and idx: "\<forall>i\<in>set is. i \<le> k" and len: "length is < 2 ^ 64"
  shows "Integer_ComputeSum est is = Some (\<Sum>i\<leftarrow>is. of_int (bs ! unat i))"
proof -
  let ?n = "unat k + 1"
  have "\<forall>i\<in>set is. unat i < ?n" using idx by (auto simp: word_le_nat_alt less_Suc_eq_le)
  note occ = sum_over_occurrences [OF this, of "\<lambda>j. of_int (bs ! j)"]
  have "Integer_ComputeSum est is =
      Some (fold (\<lambda>j s. s + map (\<lambda>j. of_nat (length (filter (\<lambda>i. unat i = j) is))) [0..<?n] ! j * of_int (bs ! j)) [0..<?n] 0)"
    using noiseless_frequencies [of "FrequencyEstimator_ctor k 0" "is"] k idx len
    by (simp add: Integer_ComputeSum_def est FrequencyEstimator_ctor_def del: upt_Suc)
  also have "\<dots> = Some (\<Sum>j<?n. of_nat (length (filter (\<lambda>i. unat i = j) is)) * of_int (bs ! j))"
    unfolding fold_sum_upt by (simp del: upt_Suc cong: sum.cong_simp)
  finally show ?thesis by (simp only: occ)
qed

lemma Integer_Encode_boundary:
  assumes laws: "sampler_laws S" and e: "IntegerEncoder_ctor min_int max_int partitions 0 = Some e"
    and wide: "uint partitions \<le> max_int - min_int" and val: "val \<in> set (boundaries e)"
  shows "\<exists>index g'. Integer_Encode S e val g = Some (index, g') \<and> index \<le> partitions \<and> boundaries e ! unat index = val"
proof -
  note ctor = IntegerEncoder_ctor_Some [OF e]
  note bs = strictly_increasing_boundaries [OF conjunct1 [OF ctor] wide]
  obtain i where i: "i < length (boundaries e)" "val = boundaries e ! i" using val by (auto simp: in_set_conv_nth)
  have "i + 1 < length (boundaries e) \<longrightarrow> val < boundaries e ! (i + 1)"
    using bs(1) i(2) by (simp add: sorted_wrt_iff_nth_less)
  then have "left_index_spec (boundaries e) val = i" using bs(1) i by (intro left_index_specI) auto
  then have left: "GetLeftIndex (boundaries e) val = i" using i(1) GetLeftIndex_spec [OF bs(1), of val] by fastforce
  have "\<exists>g1. RandomRound S (boundaries e) val i g = Some (i, g1)"
  proof (cases "i = length (boundaries e) - 1")
    case False
    then have "boundaries e ! i < boundaries e ! (i + 1)" using bs(1) i(1) by (simp add: sorted_wrt_iff_nth_less)
    moreover obtain b g1 where "bernoulli S 0 g = (b, g1)" by fastforce
    moreover from this have "\<not> b" using laws by (metis sampler_laws_def fst_conv)
    ultimately show ?thesis
      using False i(2) by (simp add: RandomRound_def Let_def BernoulliDistribution_ctor_def probability_def)
  qed (simp add: RandomRound_def)
  then obtain g1 where g1: "RandomRound S (boundaries e) val i g = Some (i, g1)" ..
  obtain index g' where index: "Randomizer_Encode S (randomizer e) (of_nat i) g1 = (index, g')" by fastforce
  have ui: "unat (of_nat i :: u32) = i" using i(1) bs(2,5) by (simp add: unsigned_of_nat take_bit_nat_eq_self)
  then have "of_nat i \<le> partitions" using i(1) bs(2) by (simp add: word_le_nat_alt)
  then have "index = of_nat i"
    using Randomizer_Encode_noiseless [OF laws conjunct2 [OF ctor], of "of_nat i" g1] index by simp
  with \<open>of_nat i \<le> partitions\<close> ui index g1 left i(2) show ?thesis by (simp add: Integer_Encode_def)
qed

lemma encode_all_boundaries:
  assumes laws: "sampler_laws S" and e: "IntegerEncoder_ctor min_int max_int partitions 0 = Some e"
    and wide: "uint partitions \<le> max_int - min_int" and "set vals \<subseteq> set (boundaries e)"
  shows "\<exists>is g'. encode_all (Integer_Encode S e) vals g = Some (is, g') \<and> length is = length vals \<and> (\<forall>i\<in>set is. i \<le> partitions) \<and>
    map (\<lambda>i. boundaries e ! unat i) is = vals"
  using assms(4)
proof (induction vals arbitrary: g)
  case (Cons v vals)
  obtain index g1 where "Integer_Encode S e v g = Some (index, g1)" "index \<le> partitions" "boundaries e ! unat index = v"
    using Integer_Encode_boundary [OF laws e wide, of v g] Cons.prems by auto
  moreover obtain "is" g' where "encode_all (Integer_Encode S e) vals g1 = Some (is, g')" "length is = length vals"
    "\<forall>i\<in>set is. i \<le> partitions" "map (\<lambda>i. boundaries e ! unat i) is = vals"
    using Cons.IH [of g1] Cons.prems by auto
  ultimately show ?case by simp
qed simp

lemma of_int_sum_list: "(of_int (sum_list xs) :: rat) = (\<Sum>x\<leftarrow>xs. of_int x)"
  by (induction xs) simp_all

text \<open>Sums of encoded integers. When values that are boundaries are encoded without noise, the estimate of the sum of the encoded values
  is the sum of the values.\<close>

theorem integer_sum_round_trip:
  assumes laws: "sampler_laws S" and e: "IntegerEncoder_ctor min_int max_int partitions 0 = Some e"
    and est: "IntegerSumEstimator_ctor min_int max_int partitions 0 = Some est"
    and wide: "uint partitions \<le> max_int - min_int" and vals: "set vals \<subseteq> set (boundaries e)" "length vals < 2 ^ 64"
  shows "\<exists>encoded g'. encode_all (Integer_Encode S e) vals g = Some (encoded, g') \<and>
    Integer_ComputeSum est encoded = Some (of_int (sum_list vals))"
proof -
  note bs = strictly_increasing_boundaries [OF conjunct1 [OF IntegerEncoder_ctor_Some [OF e]] wide]
  obtain enc g' where enc: "encode_all (Integer_Encode S e) vals g = Some (enc, g')" "length enc = length vals" "\<forall>i\<in>set enc. i \<le> partitions"
    "map (\<lambda>i. boundaries e ! unat i) enc = vals"
    using encode_all_boundaries [OF laws e wide vals(1)] by blast
  have est': "est_boundaries est = boundaries e" "frequency_estimator est = FrequencyEstimator_ctor partitions 0"
    using est IntegerEncoder_ctor_Some [OF e] by (auto simp: IntegerSumEstimator_ctor_def split: option.splits)
  have "partitions + 1 \<noteq> 0" using IntegerEncoder_ctor_Some [OF e] by (auto simp: PopulateBoundaries_def)
  then have "Integer_ComputeSum est enc = Some (\<Sum>i\<leftarrow>enc. of_int (boundaries e ! unat i))"
    using noiseless_sum [OF est', of enc] enc vals(2) by simp
  also have "(\<Sum>i\<leftarrow>enc. of_int (boundaries e ! unat i)) = (of_int (sum_list vals) :: rat)"
    unfolding enc(4) [symmetric] by (simp add: of_int_sum_list o_def)
  finally show ?thesis using enc(1) by blast
qed

theorem integer_sum_round_trip_witness:
  "\<exists>est encoded g'. IntegerSumEstimator_ctor (-10) 10 4 0 = Some est \<and>
     encode_all (Integer_Encode constant_samplers example_integer_encoder) [5, -10, 5] () = Some (encoded, g') \<and>
     Integer_ComputeSum est encoded = Some 0"
proof -
  have bs: "PopulateBoundaries (-10) 10 4 = Some [-10, -5, 0, 5, 10]"
    using IntegerEncoder_ctor_Some [OF example_integer_encoder_ctor] by (simp add: example_integer_encoder_def)
  obtain est where est: "IntegerSumEstimator_ctor (-10) 10 4 0 = Some est"
    by (simp add: IntegerSumEstimator_ctor_def bs GetBoundarySum_def int64_range_def)
  have "set [5, -10, 5] \<subseteq> set (boundaries example_integer_encoder)" by (simp add: example_integer_encoder_def)
  then show ?thesis
    using integer_sum_round_trip [OF constant_samplers_laws example_integer_encoder_ctor est, of "[5, -10, 5]" "()"] est
    by (auto simp del: encode_all.simps)
qed

end
