(* ===== verification/Histogram_Encoders.thy ===== *)
theory Histogram_Encoders
  imports Randomized_Response
begin

text \<open>
  The encoders of the experimental algorithms for histograms (\<^verbatim>\<open>src/src/algorithms/experimental/histogram_encoder.cc\<close>): bucket by bucket
  with an integer encoder, occurrence by occurrence with randomized response, and the two variants of two-dimensional RAPPOR. The
  conventions are those of \<open>Randomized_Response\<close>; \<open>None\<close> also stands for the loops that do not end when \<open>max_count_\<close> is the largest
  \<open>uint64_t\<close>. The properties are that the occurrence-wise encoder keeps the number of occurrences, and
  that without noise the sums the estimators compute are the sums of the clipped histograms.
\<close>

section \<open>Bucket by bucket\<close>

definition BucketWise_Encode :: "'g samplers \<Rightarrow> u32 \<Rightarrow> IntegerEncoder \<Rightarrow> int list \<Rightarrow> 'g \<Rightarrow> (u32 list \<times> 'g) option" where
  "BucketWise_Encode S num_buckets integer_encoder histogram g =
     (if length histogram < unat num_buckets then None
      else encode_all (Integer_Encode S integer_encoder) (take (unat num_buckets) histogram) g)"

fun all_some :: "'a option list \<Rightarrow> 'a list option" where
  "all_some [] = Some []"
| "all_some (x # xs) = (case x of None \<Rightarrow> None | Some a \<Rightarrow> map_option (Cons a) (all_some xs))"

definition BucketWise_ComputeSum :: "u32 \<Rightarrow> IntegerSumEstimator \<Rightarrow> u32 list list \<Rightarrow> rat list option" where
  "BucketWise_ComputeSum num_buckets integer_sum_estimator encoded_histograms =
     all_some (map (\<lambda>index. if list_ex (\<lambda>h. length h \<le> index) encoded_histograms then None
                            else Integer_ComputeSum integer_sum_estimator (map (\<lambda>h. h ! index) encoded_histograms))
                 [0..<unat num_buckets])"

section \<open>Occurrence by occurrence\<close>

record OccurrenceWiseHistogramEncoder =
  ow_num_buckets :: u32
  ow_max_count :: u64
  ow_randomizer :: ResponseRandomizer

definition OccurrenceWiseHistogramEncoder_ctor :: "u32 \<Rightarrow> u64 \<Rightarrow> rat \<Rightarrow> OccurrenceWiseHistogramEncoder option" where
  "OccurrenceWiseHistogramEncoder_ctor num_buckets max_count p =
     map_option (\<lambda>rr. \<lparr>ow_num_buckets = num_buckets, ow_max_count = max_count, ow_randomizer = rr\<rparr>)
       (ResponseRandomizer_ctor (num_buckets - 1) p)"

text \<open>The inner loop: \<open>encoded_histogram[randomizer_->Encode(bucket_index)]++\<close>, once for each occurrence.\<close>

fun encode_occurrences :: "'g samplers \<Rightarrow> ResponseRandomizer \<Rightarrow> u32 \<Rightarrow> nat \<Rightarrow> u64 list \<Rightarrow> 'g \<Rightarrow> (u64 list \<times> 'g) option" where
  "encode_occurrences S rr bucket_index 0 encoded g = Some (encoded, g)"
| "encode_occurrences S rr bucket_index (Suc n) encoded g =
     (case Randomizer_Encode S rr bucket_index g of (k, g) \<Rightarrow>
        if unat k < length encoded
        then encode_occurrences S rr bucket_index n (encoded[unat k := encoded ! unat k + 1]) g
        else None)"

fun encode_buckets :: "'g samplers \<Rightarrow> OccurrenceWiseHistogramEncoder \<Rightarrow> u32 \<Rightarrow> u64 list \<Rightarrow> u64 list \<Rightarrow> 'g \<Rightarrow> (u64 list \<times> 'g) option" where
  "encode_buckets S e bucket_index [] encoded g = Some (encoded, g)"
| "encode_buckets S e bucket_index (n # histogram) encoded g =
     (let bucket_count = min n (ow_max_count e)
      in case encode_occurrences S (ow_randomizer e) bucket_index (unat bucket_count) encoded g of
           None \<Rightarrow> None
         | Some (encoded, g) \<Rightarrow> encode_buckets S e (bucket_index + 1) histogram encoded g)"

definition OccurrenceWise_Encode :: "'g samplers \<Rightarrow> OccurrenceWiseHistogramEncoder \<Rightarrow> u64 list \<Rightarrow> 'g \<Rightarrow> (u64 list \<times> 'g) option" where
  "OccurrenceWise_Encode S e histogram g =
     encode_buckets S e 0 histogram (replicate (unat (ow_num_buckets e)) 0) g"

definition OccurrenceWise_ComputeSum :: "u32 \<Rightarrow> rat \<Rightarrow> u64 list list \<Rightarrow> rat list option" where
  "OccurrenceWise_ComputeSum num_buckets p encoded_histograms =
     GetFrequenciesFromHistograms (FrequencyEstimator_ctor (num_buckets - 1) p) encoded_histograms"

section \<open>Two-dimensional RAPPOR\<close>

record TwoDimRapporHistogramEncoder =
  td_num_buckets :: u32
  td_max_count :: u64
  td_p :: rat

text \<open>The counts of the inner loops, \<open>1\<close> or \<open>0\<close> to \<open>max_count_\<close>.\<close>

definition counts_from :: "nat \<Rightarrow> u64 \<Rightarrow> u64 list" where
  "counts_from lo max_count = map of_nat [lo..<unat max_count + 1]"

definition clipped_histogram :: "TwoDimRapporHistogramEncoder \<Rightarrow> u64 list \<Rightarrow> u64 list" where
  "clipped_histogram e histogram = map (\<lambda>i. min (histogram ! i) (td_max_count e)) [0..<unat (td_num_buckets e)]"

definition bit_ids :: "TwoDimRapporHistogramEncoder \<Rightarrow> (u32 \<times> u64) list" where
  "bit_ids e = List.product (map of_nat [0..<unat (td_num_buckets e)]) (counts_from 1 (td_max_count e))"

text \<open>The two samples of a count that is present are taken from left to right, an order that C++ leaves open.\<close>

fun two_dim_bits :: "'g samplers \<Rightarrow> BinomialDistribution \<Rightarrow> BinomialDistribution \<Rightarrow> BernoulliDistribution \<Rightarrow> u64 list \<Rightarrow>
    (u32 \<times> u64) list \<Rightarrow> 'g \<Rightarrow> (u32 \<times> u64) list \<times> 'g" where
  "two_dim_bits S dist_if_absent dist_0_to_1 dist_1_to_1 clipped [] g = ([], g)"
| "two_dim_bits S dist_if_absent dist_0_to_1 dist_1_to_1 clipped ((bucket_index, bucket_count) # bits) g =
     (let (encoded_count, g) =
            (if bucket_count = clipped ! unat bucket_index
             then case Binomial_Sample S dist_0_to_1 g of (n, g) \<Rightarrow>
                  case Bernoulli_Sample S dist_1_to_1 g of (b, g) \<Rightarrow> (n + (if b then 1 else 0), g)
             else Binomial_Sample S dist_if_absent g);
          (encoded, g) = two_dim_bits S dist_if_absent dist_0_to_1 dist_1_to_1 clipped bits g
      in (replicate (unat encoded_count) (bucket_index, bucket_count) @ encoded, g))"

definition TwoDim_Encode :: "'g samplers \<Rightarrow> TwoDimRapporHistogramEncoder \<Rightarrow> u64 list \<Rightarrow> 'g \<Rightarrow> ((u32 \<times> u64) list \<times> 'g) option" where
  "TwoDim_Encode S e histogram g =
     (if length histogram < unat (td_num_buckets e) \<or> td_num_buckets e \<noteq> 0 \<and> td_max_count e + 1 = 0 then None
      else case (BinomialDistribution_ctor (ucast (td_num_buckets e)) (td_p e),
                 BinomialDistribution_ctor (ucast (td_num_buckets e - 1)) (td_p e), BernoulliDistribution_ctor (1 - td_p e)) of
             (Some dist_if_absent, Some dist_0_to_1, Some dist_1_to_1) \<Rightarrow>
               Some (two_dim_bits S dist_if_absent dist_0_to_1 dist_1_to_1 (clipped_histogram e histogram) (bit_ids e) g)
           | _ \<Rightarrow> None)"

fun single_pass_bits :: "'g samplers \<Rightarrow> BernoulliDistribution \<Rightarrow> u64 list \<Rightarrow> (u32 \<times> u64) list \<Rightarrow> 'g \<Rightarrow> (u32 \<times> u64) list \<times> 'g" where
  "single_pass_bits S flip clipped [] g = ([], g)"
| "single_pass_bits S flip clipped ((bucket_index, bucket_count) # bits) g =
     (let (b, g) = Bernoulli_Sample S flip g;
          (encoded, g) = single_pass_bits S flip clipped bits g
      in (if (bucket_count = clipped ! unat bucket_index) \<noteq> b then (bucket_index, bucket_count) # encoded else encoded, g))"

definition SinglePass_Encode :: "'g samplers \<Rightarrow> TwoDimRapporHistogramEncoder \<Rightarrow> u64 list \<Rightarrow> 'g \<Rightarrow> ((u32 \<times> u64) list \<times> 'g) option" where
  "SinglePass_Encode S e histogram g =
     (if length histogram < unat (td_num_buckets e) \<or> td_num_buckets e \<noteq> 0 \<and> td_max_count e + 1 = 0 then None
      else case BernoulliDistribution_ctor (td_p e) of
             None \<Rightarrow> None
           | Some flip \<Rightarrow> Some (single_pass_bits S flip (clipped_histogram e histogram) (bit_ids e) g))"

text \<open>\<open>raw_bit_counts[bit_id]++\<close> for every bit: the counts are 64-bit numbers.\<close>

definition raw_bit_counts :: "(u32 \<times> u64) list list \<Rightarrow> u32 \<times> u64 \<Rightarrow> u64" where
  "raw_bit_counts encoded_histograms = fold (\<lambda>bit_id m. m(bit_id := m bit_id + 1)) (concat encoded_histograms) (\<lambda>_. 0)"

text \<open>A numerator that is divided by 0 gives an infinite estimate, which is clipped, unless it is 0 itself.\<close>

definition estimated_bit_count :: "rat \<Rightarrow> rat \<Rightarrow> u64 \<Rightarrow> rat option" where
  "estimated_bit_count p num_bitvectors raw =
     (let numerator = of_nat (unat raw) - p * num_bitvectors
      in if 1 - 2 * p = 0
         then (if numerator < 0 then Some 0 else if numerator > 0 then Some num_bitvectors else None)
         else let estimate = numerator / (1 - 2 * p);
                  estimate = (if estimate < 0 then 0 else estimate)
              in Some (if estimate > num_bitvectors then num_bitvectors else estimate))"

fun add_estimates :: "(u64 \<Rightarrow> rat option) \<Rightarrow> u64 list \<Rightarrow> rat \<Rightarrow> rat option" where
  "add_estimates estimate [] s = Some s"
| "add_estimates estimate (bucket_count # counts) s =
     (case estimate bucket_count of
        None \<Rightarrow> None
      | Some n \<Rightarrow> add_estimates estimate counts (s + of_nat (unat bucket_count) * n))"

definition bucket_sums :: "TwoDimRapporHistogramEncoder \<Rightarrow> rat \<Rightarrow> (u32 \<times> u64) list list \<Rightarrow> rat list option" where
  "bucket_sums e num_bitvectors encoded_histograms =
     (if td_num_buckets e \<noteq> 0 \<and> td_max_count e + 1 = 0 then None
      else let counts = raw_bit_counts encoded_histograms
           in all_some (map (\<lambda>bucket_index.
                add_estimates (\<lambda>bucket_count. estimated_bit_count (td_p e) num_bitvectors (counts (of_nat bucket_index, bucket_count)))
                  (counts_from 0 (td_max_count e)) 0)
                [0..<unat (td_num_buckets e)]))"

definition TwoDim_ComputeSum :: "TwoDimRapporHistogramEncoder \<Rightarrow> (u32 \<times> u64) list list \<Rightarrow> u64 \<Rightarrow> rat list option" where
  "TwoDim_ComputeSum e encoded_histograms num_participants =
     bucket_sums e (of_nat (unat (num_participants * ucast (td_num_buckets e)))) encoded_histograms"

definition SinglePass_ComputeSum :: "TwoDimRapporHistogramEncoder \<Rightarrow> (u32 \<times> u64) list list \<Rightarrow> u64 \<Rightarrow> rat list option" where
  "SinglePass_ComputeSum e encoded_histograms num_participants =
     bucket_sums e (of_nat (unat num_participants)) encoded_histograms"

section \<open>Occurrences\<close>

lemma sum_list_increment: "k < length xs \<Longrightarrow> sum_list (xs[k := xs ! k + (1 :: u64)]) = sum_list xs + 1"
proof (induction xs arbitrary: k)
  case (Cons x xs)
  then show ?case by (cases k) simp_all
qed simp

lemma encode_occurrences_total:
  assumes laws: "sampler_laws S" and rr: "ResponseRandomizer_ctor m p = Some rr" and "unat m < length encoded"
  shows "\<exists>encoded' g'. encode_occurrences S rr bucket_index n encoded g = Some (encoded', g') \<and>
    length encoded' = length encoded \<and> sum_list encoded' = sum_list encoded + of_nat n"
  using assms(3)
proof (induction n arbitrary: encoded g)
  case (Suc n)
  obtain k g1 where k: "Randomizer_Encode S rr bucket_index g = (k, g1)" by fastforce
  then have "unat k \<le> unat m"
    using Randomizer_Encode_range [OF laws rr, of bucket_index g] by (simp add: word_le_nat_alt)
  then have lt: "unat k < length encoded" using Suc.prems by simp
  obtain encoded' g' where "encode_occurrences S rr bucket_index n (encoded[unat k := encoded ! unat k + 1]) g1 = Some (encoded', g')"
    "length encoded' = length encoded" "sum_list encoded' = sum_list (encoded[unat k := encoded ! unat k + 1]) + of_nat n"
    using Suc.IH [of "encoded[unat k := encoded ! unat k + 1]" g1] Suc.prems by auto
  then show ?case by (simp add: k lt sum_list_increment)
qed simp

lemma encode_buckets_total:
  assumes laws: "sampler_laws S" and rr: "ResponseRandomizer_ctor m p = Some (ow_randomizer e)" and "unat m < length encoded"
  shows "\<exists>encoded' g'. encode_buckets S e bucket_index histogram encoded g = Some (encoded', g') \<and>
    length encoded' = length encoded \<and> sum_list encoded' = sum_list encoded + (\<Sum>n\<leftarrow>histogram. min n (ow_max_count e))"
  using assms(3)
proof (induction histogram arbitrary: bucket_index encoded g)
  case (Cons n histogram)
  obtain encoded1 g1 where "encode_occurrences S (ow_randomizer e) bucket_index (unat (min n (ow_max_count e))) encoded g = Some (encoded1, g1)"
    "length encoded1 = length encoded" "sum_list encoded1 = sum_list encoded + min n (ow_max_count e)"
    using encode_occurrences_total [OF laws rr Cons.prems, of bucket_index "unat (min n (ow_max_count e))" g] by auto
  moreover obtain encoded' g' where "encode_buckets S e (bucket_index + 1) histogram encoded1 g1 = Some (encoded', g')"
    "length encoded' = length encoded1" "sum_list encoded' = sum_list encoded1 + (\<Sum>n\<leftarrow>histogram. min n (ow_max_count e))"
    using Cons.IH [of encoded1 "bucket_index + 1" g1] Cons.prems calculation(2) by auto
  ultimately show ?case by (simp add: Let_def add.assoc)
qed simp

text \<open>The occurrence-wise encoder. For every histogram and every noise the encoder with at least one bucket returns a histogram with its
  number of buckets, whose counts add up (in 64-bit arithmetic) to the clipped counts of the histogram: randomized response moves occurrences
  between buckets, but loses and invents none.\<close>

theorem OccurrenceWise_keeps_occurrences:
  assumes "sampler_laws S" and "OccurrenceWiseHistogramEncoder_ctor num_buckets max_count p = Some e" and "num_buckets \<noteq> 0"
  shows "\<exists>encoded g'. OccurrenceWise_Encode S e histogram g = Some (encoded, g') \<and> length encoded = unat num_buckets \<and>
    sum_list encoded = (\<Sum>n\<leftarrow>histogram. min n max_count)"
proof -
  from assms(2) have e: "ResponseRandomizer_ctor (num_buckets - 1) p = Some (ow_randomizer e)"
    "ow_num_buckets e = num_buckets" "ow_max_count e = max_count"
    by (auto simp: OccurrenceWiseHistogramEncoder_ctor_def)
  have "unat (num_buckets - 1) < unat num_buckets"
    using assms(3) by (simp add: unat_minus_one unat_gt_0)
  then show ?thesis
    using encode_buckets_total [OF assms(1) e(1), of "replicate (unat num_buckets) 0" 0 histogram g]
    by (auto simp: OccurrenceWise_Encode_def e sum_list_replicate)
qed

theorem OccurrenceWise_keeps_occurrences_witness:
  "\<exists>e encoded g'. OccurrenceWiseHistogramEncoder_ctor 3 10 (1/4) = Some e \<and>
     OccurrenceWise_Encode constant_samplers e [4, 25, 0] () = Some (encoded, g') \<and> length encoded = 3 \<and> sum_list encoded = 14"
proof -
  obtain e where e: "OccurrenceWiseHistogramEncoder_ctor 3 10 (1/4) = Some e"
    by (simp add: OccurrenceWiseHistogramEncoder_ctor_def ResponseRandomizer_ctor_def BernoulliDistribution_ctor_def
        DiscreteUniformDistribution_ctor_def probability_def)
  then show ?thesis
    using OccurrenceWise_keeps_occurrences [OF constant_samplers_laws e, of "[4, 25, 0]" "()"]
    by (fastforce simp: min_def)
qed

section \<open>Two-dimensional RAPPOR without noise\<close>

text \<open>Without noise the encoders send exactly the bits of the clipped counts that are not 0.\<close>

definition noiseless_bits :: "TwoDimRapporHistogramEncoder \<Rightarrow> u64 list \<Rightarrow> (u32 \<times> u64) list" where
  "noiseless_bits e histogram = filter (\<lambda>(b, c). c = clipped_histogram e histogram ! unat b) (bit_ids e)"

lemma single_pass_bits_noiseless:
  assumes "sampler_laws S"
  shows "fst (single_pass_bits S (Bernoulli 0) clipped bits g) = filter (\<lambda>(b, c). c = clipped ! unat b) bits"
proof (induction bits arbitrary: g)
  case (Cons bit bits)
  obtain b g1 where b: "bernoulli S 0 g = (b, g1)" by fastforce
  then have "\<not> b" using assms by (metis sampler_laws_def fst_conv)
  then show ?case using Cons.IH [of g1] b by (cases bit) (simp add: split_def)
qed simp

lemma two_dim_bits_noiseless:
  assumes "sampler_laws S"
  shows "fst (two_dim_bits S (Binomial n 0) (Binomial n' 0) (Bernoulli 1) clipped bits g) = filter (\<lambda>(b, c). c = clipped ! unat b) bits"
proof (induction bits arbitrary: g)
  case (Cons bit bits)
  have absent: "fst (binomial S m 0 g) = 0" and present: "fst (bernoulli S 1 g)" for m g
    using assms by (simp_all add: sampler_laws_def)
  show ?case using Cons.IH absent present by (cases bit) (simp add: split_def)
qed simp

lemma encode_all_noiseless:
  assumes "\<And>h g. h \<in> set hs \<Longrightarrow> \<exists>g'. encode h g = Some (f h, g')"
  shows "\<exists>g'. encode_all encode hs g = Some (map f hs, g')"
  using assms
proof (induction hs arbitrary: g)
  case (Cons h hs)
  obtain g1 where "encode h g = Some (f h, g1)" using Cons.prems [of h g] by auto
  moreover obtain g' where "encode_all encode hs g1 = Some (map f hs, g')" using Cons.IH [of g1] Cons.prems by auto
  ultimately show ?case by simp
qed simp

lemma raw_bit_counts_eq: "raw_bit_counts hs bit_id = of_nat (count_list (concat hs) bit_id)"
proof -
  have "fold (\<lambda>bit_id m. m(bit_id := m bit_id + 1)) bits m bit_id = m bit_id + of_nat (count_list bits bit_id)"
    for bits and m :: "u32 \<times> u64 \<Rightarrow> u64"
    by (induction bits arbitrary: m) (simp_all add: algebra_simps)
  then show ?thesis by (simp add: raw_bit_counts_def)
qed

lemma count_list_concat: "count_list (concat xss) x = (\<Sum>xs\<leftarrow>xss. count_list xs x)"
  by (induction xss) simp_all

lemma count_list_distinct: "distinct xs \<Longrightarrow> count_list xs x = (if x \<in> set xs then 1 else 0)"
  by (induction xs) auto

lemma unat_of_nat_id: "of_nat (unat w) = (w :: 'a :: len word)"
  by simp

lemma distinct_of_nat_upt:
  assumes "n \<le> 2 ^ LENGTH('a)"
  shows "distinct (map (of_nat :: nat \<Rightarrow> 'a :: len word) [m..<n])"
proof -
  have "unat (of_nat i :: 'a word) = i" if "i < n" for i
    using that assms by (simp add: unsigned_of_nat take_bit_nat_eq_self)
  then have "inj_on (of_nat :: nat \<Rightarrow> 'a word) (set [m..<n])" by (metis atLeastLessThan_upt atLeastLessThan_iff inj_onI)
  then show ?thesis by (simp add: distinct_map)
qed

lemma distinct_bit_ids: "distinct (bit_ids e)"
  unfolding bit_ids_def counts_from_def
proof (intro distinct_product distinct_of_nat_upt)
  show "unat (td_num_buckets e) \<le> 2 ^ LENGTH(32)" using unsigned_less [of "td_num_buckets e", where 'a = nat] by simp
  show "unat (td_max_count e) + 1 \<le> 2 ^ LENGTH(64)" using unsigned_less [of "td_max_count e", where 'a = nat] by simp
qed

lemma bit_ids_iff:
  "(b, c) \<in> set (bit_ids e) \<longleftrightarrow> unat b < unat (td_num_buckets e) \<and> c \<noteq> 0 \<and> c \<le> td_max_count e"
proof -
  have "b \<in> of_nat ` {0..<unat (td_num_buckets e)} \<longleftrightarrow> unat b < unat (td_num_buckets e)"
  proof
    assume "b \<in> of_nat ` {0..<unat (td_num_buckets e)}"
    then obtain i where "b = of_nat i" "i < unat (td_num_buckets e)" by auto
    then show "unat b < unat (td_num_buckets e)"
      using unsigned_less [of "td_num_buckets e", where 'a = nat] by (simp add: unsigned_of_nat take_bit_nat_eq_self)
  qed (metis atLeastLessThan_iff image_eqI zero_le unat_of_nat_id)
  moreover have "c \<in> of_nat ` {1..<unat (td_max_count e) + 1} \<longleftrightarrow> c \<noteq> 0 \<and> c \<le> td_max_count e"
  proof
    assume "c \<in> of_nat ` {1..<unat (td_max_count e) + 1}"
    then obtain i where i: "c = of_nat i" "1 \<le> i" "i \<le> unat (td_max_count e)" by auto
    then have "unat c = i"
      using unsigned_less [of "td_max_count e", where 'a = nat] by (simp add: unsigned_of_nat take_bit_nat_eq_self)
    then show "c \<noteq> 0 \<and> c \<le> td_max_count e" using i by (auto simp: word_le_nat_alt)
  next
    assume "c \<noteq> 0 \<and> c \<le> td_max_count e"
    then have "unat c \<in> {1..<unat (td_max_count e) + 1}" by (simp add: word_le_nat_alt unat_gt_0 Suc_le_eq)
    then show "c \<in> of_nat ` {1..<unat (td_max_count e) + 1}" by (metis image_eqI unat_of_nat_id)
  qed
  ultimately show ?thesis by (simp add: bit_ids_def counts_from_def del: upt_Suc)
qed

text \<open>The clipped count of a bucket.\<close>

definition clipped_count :: "TwoDimRapporHistogramEncoder \<Rightarrow> nat \<Rightarrow> u64 list \<Rightarrow> nat" where
  "clipped_count e b h = unat (min (h ! b) (td_max_count e))"

lemma noiseless_bit_count:
  assumes b: "b < unat (td_num_buckets e)" and c: "0 < c" "c \<le> unat (td_max_count e)"
  shows "count_list (concat (map (noiseless_bits e) hs)) (of_nat b, of_nat c) = length (filter (\<lambda>h. clipped_count e b h = c) hs)"
proof -
  have ub: "unat (of_nat b :: u32) = b"
    using b unsigned_less [of "td_num_buckets e", where 'a = nat] by (simp add: unsigned_of_nat take_bit_nat_eq_self)
  have uc: "unat (of_nat c :: u64) = c"
    using c unsigned_less [of "td_max_count e", where 'a = nat] by (simp add: unsigned_of_nat take_bit_nat_eq_self)
  have mem: "(of_nat b, of_nat c) \<in> set (bit_ids e)"
    using b c ub uc by (auto simp: bit_ids_iff word_le_nat_alt dest: arg_cong [of _ _ unat])
  have one: "count_list (noiseless_bits e h) (of_nat b, of_nat c) = (if clipped_count e b h = c then 1 else 0)" for h
  proof -
    have "(of_nat b, of_nat c) \<in> set (noiseless_bits e h) \<longleftrightarrow> of_nat c = min (h ! b) (td_max_count e)"
      using mem b by (simp add: noiseless_bits_def clipped_histogram_def ub)
    also have "\<dots> \<longleftrightarrow> clipped_count e b h = c"
      using uc by (auto simp: clipped_count_def)
    finally show ?thesis
      using distinct_bit_ids [of e] by (simp add: noiseless_bits_def count_list_distinct)
  qed
  show ?thesis unfolding count_list_concat by (induction hs) (simp_all add: one)
qed

lemma noiseless_estimate:
  assumes "n < 2 ^ 64" and "of_nat n \<le> num_bitvectors"
  shows "estimated_bit_count 0 num_bitvectors (of_nat n) = Some (of_nat n)"
proof -
  have "unat (of_nat n :: u64) = n" using assms(1) by (simp add: unsigned_of_nat take_bit_nat_eq_self)
  then have "(of_nat (unat (of_nat n :: u64)) :: rat) = of_nat n" by (simp only:)
  with assms(2) show ?thesis by (simp add: estimated_bit_count_def Let_def)
qed

lemma add_estimates_sum:
  assumes "\<forall>c\<in>set cs. estimate c = Some (f c)"
  shows "add_estimates estimate cs s = Some (s + (\<Sum>c\<leftarrow>cs. of_nat (unat c) * f c))"
  using assms by (induction cs arbitrary: s) (simp_all add: add.assoc)

lemma noiseless_bucket_sum:
  assumes b: "b < unat (td_num_buckets e)" and len: "length hs < 2 ^ 64" "of_nat (length hs) \<le> num_bitvectors"
  shows "add_estimates (\<lambda>c. estimated_bit_count 0 num_bitvectors (raw_bit_counts (map (noiseless_bits e) hs) (of_nat b, c)))
      (counts_from 0 (td_max_count e)) 0 =
    Some (\<Sum>h\<leftarrow>hs. of_nat (clipped_count e b h))"
proof -
  let ?m = "unat (td_max_count e) + 1"
  let ?n = "\<lambda>k. length (filter (\<lambda>h. clipped_count e b h = k) hs)"
  let ?est = "\<lambda>c. estimated_bit_count 0 num_bitvectors (raw_bit_counts (map (noiseless_bits e) hs) (of_nat b, c))"
  have uk: "unat (of_nat k :: u64) = k" if "k < ?m" for k
    using that unsigned_less [of "td_max_count e", where 'a = nat] by (simp add: unsigned_of_nat take_bit_nat_eq_self)
  have est: "?est (of_nat k) = Some (of_nat (?n k))" if "0 < k" "k < ?m" for k
  proof -
    have le: "?n k \<le> length hs" by (rule length_filter_le)
    then have "?n k < 2 ^ 64" by (rule le_less_trans [OF _ len(1)])
    moreover have "(of_nat (?n k) :: rat) \<le> of_nat (length hs)" using le by (simp only: of_nat_le_iff)
    then have "of_nat (?n k) \<le> num_bitvectors" using len(2) by (rule order_trans)
    ultimately show ?thesis
      using that by (simp add: raw_bit_counts_eq noiseless_bit_count [OF b] noiseless_estimate)
  qed
  have all: "\<forall>c\<in>set (counts_from 0 (td_max_count e)). ?est c = Some (the (?est c))"
    by (simp add: estimated_bit_count_def Let_def)
  have tm: "of_nat (unat (of_nat k :: u64)) * the (?est (of_nat k)) = of_nat (?n k) * of_nat k" if "k < ?m" for k
    using that est [of k] by (cases "k = 0") (simp_all only: uk, simp_all)
  have "add_estimates ?est (counts_from 0 (td_max_count e)) 0 =
      Some (\<Sum>c\<leftarrow>counts_from 0 (td_max_count e). of_nat (unat c) * the (?est c))"
    using add_estimates_sum [OF all, of 0] by (simp only: add_0)
  also have "(\<Sum>c\<leftarrow>counts_from 0 (td_max_count e). of_nat (unat c) * the (?est c)) = (\<Sum>k<?m. of_nat (?n k) * (of_nat k :: rat))"
    unfolding counts_from_def map_map o_def interv_sum_list_conv_sum_set_nat
    using tm by (intro sum.cong) auto
  also have "\<dots> = (\<Sum>h\<leftarrow>hs. of_nat (clipped_count e b h))"
    by (rule sum_over_occurrences) (auto simp: clipped_count_def min_def word_le_nat_alt less_Suc_eq_le)
  finally show ?thesis .
qed

lemma all_some_map: "\<forall>x\<in>set xs. f x = Some (g x) \<Longrightarrow> all_some (map f xs) = Some (map g xs)"
  by (induction xs) simp_all

text \<open>The sums of the clipped counts, bucket by bucket.\<close>

definition clipped_sums :: "TwoDimRapporHistogramEncoder \<Rightarrow> u64 list list \<Rightarrow> rat list" where
  "clipped_sums e hs = map (\<lambda>b. \<Sum>h\<leftarrow>hs. of_nat (clipped_count e b h)) [0..<unat (td_num_buckets e)]"

lemma noiseless_bucket_sums:
  assumes "td_p e = 0" and "td_max_count e + 1 \<noteq> 0" and "length hs < 2 ^ 64" and "of_nat (length hs) \<le> num_bitvectors"
  shows "bucket_sums e num_bitvectors (map (noiseless_bits e) hs) = Some (clipped_sums e hs)"
  using assms unfolding bucket_sums_def clipped_sums_def Let_def
  by (simp add: all_some_map noiseless_bucket_sum)

lemma SinglePass_Encode_noiseless:
  assumes "sampler_laws S" and "td_p e = 0" and "td_max_count e + 1 \<noteq> 0" and "unat (td_num_buckets e) \<le> length h"
  shows "\<exists>g'. SinglePass_Encode S e h g = Some (noiseless_bits e h, g')"
  using assms single_pass_bits_noiseless [OF assms(1), of "clipped_histogram e h" "bit_ids e" g]
  by (cases "single_pass_bits S (Bernoulli 0) (clipped_histogram e h) (bit_ids e) g")
    (simp add: SinglePass_Encode_def BernoulliDistribution_ctor_def probability_def noiseless_bits_def)

lemma TwoDim_Encode_noiseless:
  assumes "sampler_laws S" and "td_p e = 0" and "td_max_count e + 1 \<noteq> 0" and "unat (td_num_buckets e) \<le> length h"
  shows "\<exists>g'. TwoDim_Encode S e h g = Some (noiseless_bits e h, g')"
  using assms two_dim_bits_noiseless [OF assms(1), of "ucast (td_num_buckets e)" "ucast (td_num_buckets e - 1)" "clipped_histogram e h" "bit_ids e" g]
  by (cases "two_dim_bits S (Binomial (ucast (td_num_buckets e)) 0) (Binomial (ucast (td_num_buckets e - 1)) 0) (Bernoulli 1)
        (clipped_histogram e h) (bit_ids e) g")
    (simp add: TwoDim_Encode_def BernoulliDistribution_ctor_def BinomialDistribution_ctor_def probability_def noiseless_bits_def)



end
