(* ===== verification/Status_Or.thy ===== *)
theory Status_Or
  imports File_System
begin

text \<open>
  \<open>Status\<close>, \<open>StatusOr\<close> and the streams that build error messages (\<^verbatim>\<open>src/src/lib/util/status.h\<close>, \<^verbatim>\<open>src/src/lib/statusor/\<close>).
  A \<open>StatusOr\<close> keeps a status and, in a union, a value or nothing; the overloads for moved arguments have the effect of those for references on the
  new object and are the same definitions; an object is not assigned a part of itself. Logging is not modelled, and the \<open>DCHECK\<close> on the
  status that a stream continues acts in debug builds only. Elsewhere in the development a result or an error is a sum. The property justifies
  this: for every sequence of operations, a \<open>StatusOr\<close> behaves as a sum whose errors are not \<open>OK\<close>, and its union holds a value exactly when the
  status is \<open>OK\<close>.
\<close>

section \<open>Status\<close>

record UtilStatus =
  error_code :: StatusCode
  error_message :: string
  error_details :: string

definition Status_default :: UtilStatus where
  "Status_default = \<lparr>error_code = OK, error_message = [], error_details = []\<rparr>"

definition Status_ctor :: "StatusCode \<Rightarrow> string \<Rightarrow> UtilStatus" where
  "Status_ctor code message = \<lparr>error_code = code, error_message = message, error_details = []\<rparr>"

definition Status_ctor_details :: "StatusCode \<Rightarrow> string \<Rightarrow> string \<Rightarrow> UtilStatus" where
  "Status_ctor_details code message details = \<lparr>error_code = code, error_message = message, error_details = details\<rparr>"

definition Status_ok :: "UtilStatus \<Rightarrow> bool" where
  "Status_ok s \<longleftrightarrow> error_code s = OK"

section \<open>StatusOr\<close>

text \<open>\<open>so_data\<close> is \<open>None\<close> while the union holds its dummy.\<close>

record 'a StatusOr =
  so_status :: UtilStatus
  so_data :: "'a option"

definition so_ok :: "'a StatusOr \<Rightarrow> bool" where
  "so_ok s = Status_ok (so_status s)"

definition HandleInvalidStatusCtorArg :: UtilStatus where
  "HandleInvalidStatusCtorArg = Status_ctor INTERNAL ''An OK status is not a valid constructor argument to StatusOr<T>''"

definition EnsureNotOk :: "'a StatusOr \<Rightarrow> 'a StatusOr" where
  "EnsureNotOk s = (if so_ok s then s\<lparr>so_status := HandleInvalidStatusCtorArg\<rparr> else s)"

definition StatusOr_value :: "'a \<Rightarrow> 'a StatusOr" where
  "StatusOr_value v = \<lparr>so_status = Status_default, so_data = Some v\<rparr>"

definition StatusOr_status :: "UtilStatus \<Rightarrow> 'a StatusOr" where
  "StatusOr_status st = EnsureNotOk \<lparr>so_status = st, so_data = None\<rparr>"

definition StatusOr_default :: "'a StatusOr" where
  "StatusOr_default = StatusOr_status (Status_ctor UNKNOWN [])"

text \<open>Reading the value of a union that holds the dummy is undefined: \<open>None\<close>. \<open>convert\<close> is the conversion from \<open>U\<close> to \<open>T\<close>.\<close>

definition StatusOr_copy :: "('u \<Rightarrow> 'a) \<Rightarrow> 'u StatusOr \<Rightarrow> 'a StatusOr option" where
  "StatusOr_copy convert other =
     (if so_ok other
      then (case so_data other of None \<Rightarrow> None | Some u \<Rightarrow> Some \<lparr>so_status = Status_default, so_data = Some (convert u)\<rparr>)
      else Some \<lparr>so_status = so_status other, so_data = None\<rparr>)"

definition Clear :: "'a StatusOr \<Rightarrow> 'a StatusOr" where
  "Clear s = (if so_ok s then s\<lparr>so_data := None\<rparr> else s)"

definition Assign_value :: "'a \<Rightarrow> 'a StatusOr \<Rightarrow> 'a StatusOr" where
  "Assign_value v s =
     (if so_ok s then (s\<lparr>so_data := None\<rparr>)\<lparr>so_data := Some v\<rparr>
      else (s\<lparr>so_data := Some v\<rparr>)\<lparr>so_status := Status_default\<rparr>)"

definition Assign_status :: "UtilStatus \<Rightarrow> 'a StatusOr \<Rightarrow> 'a StatusOr" where
  "Assign_status st s = EnsureNotOk ((Clear s)\<lparr>so_status := st\<rparr>)"

text \<open>\<open>None\<close> is \<open>Crash\<close>, or the value of a dummy.\<close>

definition ValueOrDie :: "'a StatusOr \<Rightarrow> 'a option" where
  "ValueOrDie s = (if so_ok s then so_data s else None)"

definition ValueOr :: "'a StatusOr \<Rightarrow> 'a \<Rightarrow> 'a option" where
  "ValueOr s other = (if so_ok s then ValueOrDie s else Some other)"

definition Assign_StatusOr :: "('u \<Rightarrow> 'a) \<Rightarrow> 'u StatusOr \<Rightarrow> 'a StatusOr \<Rightarrow> 'a StatusOr option" where
  "Assign_StatusOr convert other s =
     (if so_ok other then map_option (\<lambda>u. Assign_value (convert u) s) (ValueOrDie other)
      else Some (Assign_status (so_status other) s))"

text \<open>\<open>CB_ASSIGN_OR_RETURN\<close>: a statement of a function that returns a \<open>StatusOr\<close>; \<open>rest\<close> is what follows it.\<close>

definition assign_or_return :: "'a StatusOr \<Rightarrow> ('a \<Rightarrow> 'b StatusOr option) \<Rightarrow> 'b StatusOr option" where
  "assign_or_return s rest = (if \<not> so_ok s then Some (StatusOr_status (so_status s)) else Option.bind (ValueOrDie s) rest)"

section \<open>Error streams\<close>

datatype PriorMessageHandling = kAppendToPriorMessage | kPrependToPriorMessage

record MakeErrorStream =
  es_file :: string
  es_line :: int
  es_code :: StatusCode
  prior_message_handling :: PriorMessageHandling
  prior_message :: string
  es_is_done :: bool
  es_stream :: string

definition MakeErrorStream_ctor :: "string \<Rightarrow> int \<Rightarrow> StatusCode \<Rightarrow> MakeErrorStream" where
  "MakeErrorStream_ctor file line code =
     \<lparr>es_file = file, es_line = line, es_code = code, prior_message_handling = kAppendToPriorMessage, prior_message = [],
      es_is_done = False, es_stream = []\<rparr>"

definition MakeErrorStream_from :: "UtilStatus \<Rightarrow> PriorMessageHandling \<Rightarrow> string \<Rightarrow> int \<Rightarrow> MakeErrorStream" where
  "MakeErrorStream_from st handling file line =
     \<lparr>es_file = file, es_line = line, es_code = (if \<not> Status_ok st then error_code st else UNKNOWN),
      prior_message_handling = handling, prior_message = error_message st, es_is_done = False, es_stream = []\<rparr>"

definition stream_output :: "string \<Rightarrow> MakeErrorStream \<Rightarrow> MakeErrorStream" where
  "stream_output text es = es\<lparr>es_stream := es_stream es @ text\<rparr>"

definition add_ret_check_failure :: "string \<Rightarrow> MakeErrorStream \<Rightarrow> MakeErrorStream" where
  "add_ret_check_failure condition es =
     stream_output (''RET_CHECK failure ('' @ es_file es @ '':'' @ decimal_int (es_line es) @ '') '' @ condition @ '' '') es"

definition MakeError :: "StatusCode \<Rightarrow> string \<Rightarrow> UtilStatus" where
  "MakeError code message = Status_ctor (if code = OK then UNKNOWN else code) message"

definition GetStatus :: "MakeErrorStream \<Rightarrow> UtilStatus \<times> MakeErrorStream" where
  "GetStatus es =
     (let es = es\<lparr>es_is_done := True\<rparr>;
          str = (if prior_message_handling es = kAppendToPriorMessage then prior_message es @ es_stream es else es_stream es @ prior_message es)
      in (if str = [] then MakeError (es_code es) (str @ ''Error without message at '' @ es_file es @ '':'' @ decimal_int (es_line es))
          else MakeError (es_code es) str, es))"

section \<open>Refinement\<close>

text \<open>\<open>data_ is active iff status_.ok()==true\<close>.\<close>

definition so_inv :: "'a StatusOr \<Rightarrow> bool" where
  "so_inv s \<longleftrightarrow> (so_data s \<noteq> None \<longleftrightarrow> so_ok s)"

definition to_sum :: "'a StatusOr \<Rightarrow> UtilStatus + 'a" where
  "to_sum s = (if so_ok s then Inr (the (so_data s)) else Inl (so_status s))"

text \<open>An error status that is \<open>OK\<close> is replaced.\<close>

definition proper_error :: "UtilStatus \<Rightarrow> UtilStatus" where
  "proper_error st = (if Status_ok st then HandleInvalidStatusCtorArg else st)"

lemmas so_defs = so_inv_def to_sum_def so_ok_def proper_error_def EnsureNotOk_def HandleInvalidStatusCtorArg_def
  Status_ok_def Status_ctor_def Status_default_def

lemma StatusOr_value_sum: "so_inv (StatusOr_value v)" "to_sum (StatusOr_value v) = Inr v"
  by (simp_all add: StatusOr_value_def so_defs)

lemma StatusOr_status_sum: "so_inv (StatusOr_status st)" "to_sum (StatusOr_status st) = Inl (proper_error st)"
  by (simp_all add: StatusOr_status_def so_defs)

lemma proper_error_id: "\<not> Status_ok st \<Longrightarrow> proper_error st = st" "\<not> Status_ok (proper_error st)"
  by (simp_all add: so_defs)

lemma to_sum_error: "to_sum s = Inl st \<Longrightarrow> \<not> Status_ok st"
  by (auto simp: to_sum_def so_ok_def split: if_splits)

lemma ValueOrDie_sum: "so_inv s \<Longrightarrow> ValueOrDie s = (case to_sum s of Inl _ \<Rightarrow> None | Inr v \<Rightarrow> Some v)"
  by (auto simp: ValueOrDie_def so_inv_def to_sum_def)

lemma ValueOr_sum: "so_inv s \<Longrightarrow> ValueOr s other = Some (case to_sum s of Inl _ \<Rightarrow> other | Inr v \<Rightarrow> v)"
  by (auto simp: ValueOr_def ValueOrDie_def so_inv_def to_sum_def)

lemma StatusOr_copy_sum:
  assumes "so_inv other"
  shows "\<exists>s. StatusOr_copy convert other = Some s \<and> so_inv s \<and> to_sum s = map_sum id convert (to_sum other)"
  using assms by (cases "so_ok other") (auto simp: StatusOr_copy_def so_defs)

lemma Assign_value_sum: "so_inv (Assign_value v s)" "to_sum (Assign_value v s) = Inr v"
  by (simp_all add: Assign_value_def so_defs)

lemma Assign_status_sum:
  "so_inv s \<Longrightarrow> so_inv (Assign_status st s)" "to_sum (Assign_status st s) = Inl (proper_error st)"
  by (auto simp: Assign_status_def Clear_def so_defs)

lemma Assign_StatusOr_sum:
  assumes "so_inv other" and "so_inv s"
  shows "\<exists>s'. Assign_StatusOr convert other s = Some s' \<and> so_inv s' \<and> to_sum s' = map_sum id convert (to_sum other)"
proof (cases "to_sum other")
  case (Inl st)
  then have "\<not> so_ok other" "so_status other = st" by (auto simp: to_sum_def split: if_splits)
  with Inl assms(2) to_sum_error [OF Inl] show ?thesis by (simp add: Assign_StatusOr_def Assign_status_sum proper_error_id)
next
  case (Inr v)
  then have "so_ok other" by (auto simp: to_sum_def split: if_splits)
  with Inr ValueOrDie_sum [OF assms(1)] show ?thesis by (simp add: Assign_StatusOr_def Assign_value_sum)
qed

text \<open>Returning the error of a call is what a case distinction on the sum does.\<close>

lemma assign_or_return_sum:
  assumes "so_inv s" and "\<And>v. to_sum s = Inr v \<Longrightarrow> \<exists>t. rest v = Some t \<and> so_inv t"
  shows "\<exists>t. assign_or_return s rest = Some t \<and> so_inv t \<and>
    to_sum t = (case to_sum s of Inl st \<Rightarrow> Inl st | Inr v \<Rightarrow> to_sum (the (rest v)))"
proof (cases "to_sum s")
  case (Inl st)
  then have "\<not> so_ok s" "so_status s = st" by (auto simp: to_sum_def split: if_splits)
  with Inl to_sum_error [OF Inl] show ?thesis by (simp add: assign_or_return_def StatusOr_status_sum proper_error_id)
next
  case (Inr v)
  then have "so_ok s" by (auto simp: to_sum_def split: if_splits)
  with Inr assms(2) [OF Inr] ValueOrDie_sum [OF assms(1)] show ?thesis by (auto simp: assign_or_return_def)
qed

text \<open>Sequences of assignments.\<close>

datatype 'a assignment = AssignValue 'a | AssignStatus UtilStatus | AssignOther "'a StatusOr"

fun run_assignments :: "'a assignment list \<Rightarrow> 'a StatusOr \<Rightarrow> 'a StatusOr option" where
  "run_assignments [] s = Some s"
| "run_assignments (AssignValue v # as) s = run_assignments as (Assign_value v s)"
| "run_assignments (AssignStatus st # as) s = run_assignments as (Assign_status st s)"
| "run_assignments (AssignOther t # as) s = Option.bind (Assign_StatusOr id t s) (run_assignments as)"

fun assigned_sum :: "'a assignment \<Rightarrow> UtilStatus + 'a" where
  "assigned_sum (AssignValue v) = Inr v"
| "assigned_sum (AssignStatus st) = Inl (proper_error st)"
| "assigned_sum (AssignOther t) = to_sum t"

fun good_assignment :: "'a assignment \<Rightarrow> bool" where
  "good_assignment (AssignOther t) = so_inv t"
| "good_assignment _ = True"

text \<open>C40. A \<open>StatusOr\<close> is a sum. Every sequence of assignments of values, of statuses and of other such objects to a \<open>StatusOr\<close> is defined and keeps the
  invariant that the union holds a value exactly when the status is \<open>OK\<close>. The object then stands for the sum that was assigned
  last; an \<open>OK\<close> status that is assigned as an error has become an internal error, so that no error is \<open>OK\<close>. Reading the value succeeds exactly for a
  value, and returns it.\<close>

theorem StatusOr_refines_sum:
  assumes "so_inv s" and "list_all good_assignment as"
  shows "\<exists>s'. run_assignments as s = Some s' \<and> so_inv s' \<and>
    to_sum s' = (if as = [] then to_sum s else assigned_sum (last as)) \<and>
    ValueOrDie s' = (case to_sum s' of Inl _ \<Rightarrow> None | Inr v \<Rightarrow> Some v) \<and>
    (case to_sum s' of Inl st \<Rightarrow> \<not> Status_ok st | Inr _ \<Rightarrow> True)"
proof -
  have "\<exists>s'. run_assignments as s = Some s' \<and> so_inv s' \<and> to_sum s' = (if as = [] then to_sum s else assigned_sum (last as))"
    using assms
  proof (induction as s rule: run_assignments.induct)
    case (4 t as s)
    obtain s1 where "Assign_StatusOr id t s = Some s1" "so_inv s1" "to_sum s1 = to_sum t"
      using Assign_StatusOr_sum [of t s id] "4.prems" by (auto simp: sum.map_id)
    with "4.IH" "4.prems" show ?case by auto
  qed (auto simp: Assign_value_sum Assign_status_sum)
  then obtain s' where s': "run_assignments as s = Some s'" "so_inv s'" "to_sum s' = (if as = [] then to_sum s else assigned_sum (last as))"
    by blast
  moreover have "case to_sum s' of Inl st \<Rightarrow> \<not> Status_ok st | Inr _ \<Rightarrow> True"
    by (cases "to_sum s'") (simp_all add: to_sum_error)
  ultimately show ?thesis using ValueOrDie_sum [OF s'(2)] by blast
qed

theorem StatusOr_refines_sum_witness:
  "\<exists>s'. run_assignments [AssignStatus (Status_ctor OK []), AssignValue (7 :: nat)] (StatusOr_value 1) = Some s' \<and> ValueOrDie s' = Some 7"
  using StatusOr_refines_sum [of "StatusOr_value 1" "[AssignStatus (Status_ctor OK []), AssignValue (7 :: nat)]"]
  by (simp add: StatusOr_value_sum) 

text \<open>An error stream always produces an error with a message.\<close>

lemma GetStatus_is_error: "\<not> Status_ok (fst (GetStatus es))" "error_message (fst (GetStatus es)) \<noteq> []"
  by (simp_all add: GetStatus_def MakeError_def so_defs Let_def)

end
