(* ===== verification/File_Util.thy ===== *)
theory File_Util
  imports Status_Or
begin

text \<open>
  Reading small text and hex files (\<^verbatim>\<open>src/src/lib/util/file_util.cc\<close>, \<^verbatim>\<open>src/src/lib/util/pem_util.cc\<close>). The input stream on the path is an argument: for each
  call on it the record has what the call leaves, so that every pattern of failing calls is covered. The functions of Abseil are the fields of a record.
\<close>

section \<open>Text files\<close>

text \<open>\<open>good_open\<close>, \<open>good_end\<close> and \<open>good_beg\<close> are \<open>good()\<close> after opening and after the two calls of \<open>seekg\<close>, \<open>tell\<close> and \<open>good_tell\<close> what \<open>tellg\<close> returns and
  \<open>good()\<close> after it, \<open>content\<close> the characters up to the end of the stream and \<open>good_read\<close> is \<open>good()\<close> after they were read.\<close>

record ifstream =
  good_open :: bool
  good_end :: bool
  tell :: int
  good_tell :: bool
  good_beg :: bool
  content :: string
  good_read :: bool

definition kMaxFileSize :: int where
  "kMaxFileSize = 100000"

definition ReadTextFile :: "(string \<Rightarrow> ifstream) \<Rightarrow> string \<Rightarrow> string StatusOr" where
  "ReadTextFile streams file_path =
     (if file_path = [] then StatusOr_status (Status_ctor INVALID_ARGUMENT ''ReadTextFile: file_path is empty.'')
      else let stream = streams file_path in
        if \<not> good_open stream then StatusOr_status (Status_ctor NOT_FOUND (''Unable to open file at '' @ file_path))
        else if \<not> good_end stream then StatusOr_status (Status_ctor INTERNAL (''Error reading file at '' @ file_path))
        else let file_size = tell stream in
          if file_size = 0 then StatusOr_value []
          else if \<not> good_tell stream \<or> file_size < 0 \<or> file_size > kMaxFileSize
          then StatusOr_status (Status_ctor FAILED_PRECONDITION (''Invalid file length for '' @ file_path))
          else if \<not> good_beg stream then StatusOr_status (Status_ctor NOT_FOUND (''Error reading file at '' @ file_path))
          else if \<not> good_read stream then StatusOr_status (Status_ctor NOT_FOUND (''Error reading file at '' @ file_path))
          else StatusOr_value (content stream))"

text \<open>The source calls \<open>ValueOrDie\<close> only on results that are \<open>OK\<close>; \<open>None\<close> would be its crash.\<close>

definition ReadNonEmptyTextFile :: "(string \<Rightarrow> ifstream) \<Rightarrow> string \<Rightarrow> string StatusOr option" where
  "ReadNonEmptyTextFile streams file_path =
     (let read_file_result = ReadTextFile streams file_path in
      if \<not> so_ok read_file_result then Some read_file_result
      else case ValueOrDie read_file_result of
          None \<Rightarrow> None
        | Some v \<Rightarrow>
            if v = [] then Some (StatusOr_status (Status_ctor FAILED_PRECONDITION (''File was empty: '' @ file_path)))
            else Some read_file_result)"

section \<open>Hex files\<close>

record Absl =
  StripAsciiWhitespace :: "string \<Rightarrow> string"
  ascii_isxdigit :: "char \<Rightarrow> bool"
  HexStringToBytes :: "string \<Rightarrow> string"

definition ReadHexFile :: "Absl \<Rightarrow> (string \<Rightarrow> ifstream) \<Rightarrow> string \<Rightarrow> string StatusOr option" where
  "ReadHexFile absl streams file_path =
     (case ReadNonEmptyTextFile streams file_path of
        None \<Rightarrow> None
      | Some read_file_result \<Rightarrow>
          if \<not> so_ok read_file_result then Some read_file_result
          else case ValueOrDie read_file_result of
              None \<Rightarrow> None
            | Some v \<Rightarrow>
                let hex = StripAsciiWhitespace absl v in
                if length hex mod 2 = 1
                then Some (StatusOr_status (Status_ctor FAILED_PRECONDITION (''Hex file has invalid size: '' @ file_path)))
                else if find (\<lambda>c. \<not> ascii_isxdigit absl c) hex \<noteq> None
                then Some (StatusOr_status (Status_ctor FAILED_PRECONDITION (''Hex file has non-hex characters: '' @ file_path)))
                else Some (StatusOr_value (HexStringToBytes absl hex)))"

definition ReadHexFileOrDefault :: "Absl \<Rightarrow> (string \<Rightarrow> ifstream) \<Rightarrow> string \<Rightarrow> string \<Rightarrow> string option" where
  "ReadHexFileOrDefault absl streams file_path default_string =
     (case ReadHexFile absl streams file_path of
        None \<Rightarrow> None
      | Some read_hex_file_result \<Rightarrow>
          if \<not> so_ok read_hex_file_result then Some default_string else ValueOrDie read_hex_file_result)"

text \<open>\<open>PemUtil::ReadTextFile\<close>: \<open>file_contents\<close> is the string the pointer refers to, \<open>None\<close> for a null pointer; the result is the answer and the string
  afterwards.\<close>

definition PemUtil_ReadTextFile :: "(string \<Rightarrow> ifstream) \<Rightarrow> string \<Rightarrow> string option \<Rightarrow> (bool \<times> string option) option" where
  "PemUtil_ReadTextFile streams file_path file_contents =
     (case file_contents of
        None \<Rightarrow> Some (False, None)
      | Some old \<Rightarrow>
          (case ReadNonEmptyTextFile streams file_path of
             None \<Rightarrow> None
           | Some result \<Rightarrow>
               if \<not> so_ok result then Some (False, Some old)
               else case ValueOrDie result of None \<Rightarrow> None | Some v \<Rightarrow> Some (True, Some v)))"

section \<open>Behaviour\<close>

text \<open>The streams on which \<open>ReadTextFile\<close> delivers the characters of the file.\<close>

definition readable :: "ifstream \<Rightarrow> bool" where
  "readable f \<longleftrightarrow> good_open f \<and> good_end f \<and> good_tell f \<and> 0 < tell f \<and> tell f \<le> kMaxFileSize \<and> good_beg f \<and> good_read f"

lemma ReadTextFile_inv: "so_inv (ReadTextFile streams p)"
  by (simp add: ReadTextFile_def Let_def StatusOr_value_sum StatusOr_status_sum)

lemma ReadTextFile_value:
  "to_sum (ReadTextFile streams p) = Inr v \<longleftrightarrow>
     p \<noteq> [] \<and> good_open (streams p) \<and> good_end (streams p) \<and>
     (tell (streams p) = 0 \<and> v = [] \<or> readable (streams p) \<and> v = content (streams p))"
  by (auto simp: ReadTextFile_def readable_def Let_def StatusOr_value_sum StatusOr_status_sum)

text \<open>No call of \<open>ValueOrDie\<close> crashes, and the functions answer with a value exactly on the files they accept.\<close>

lemma so_ok_sum: "so_ok s \<longleftrightarrow> (\<exists>v. to_sum s = Inr v)"
  by (auto simp: to_sum_def)

lemma ReadNonEmptyTextFile_spec:
  "\<exists>s. ReadNonEmptyTextFile streams p = Some s \<and> so_inv s \<and>
     (\<forall>v. to_sum s = Inr v \<longleftrightarrow> p \<noteq> [] \<and> readable (streams p) \<and> v = content (streams p) \<and> v \<noteq> [])"
proof (cases "to_sum (ReadTextFile streams p)")
  case (Inl st)
  then have "\<forall>v. \<not> (p \<noteq> [] \<and> readable (streams p) \<and> v = content (streams p))"
    using ReadTextFile_value [of streams p] by (auto simp: readable_def)
  with Inl show ?thesis by (auto simp: ReadNonEmptyTextFile_def Let_def so_ok_sum ReadTextFile_inv)
next
  case (Inr v)
  with ReadTextFile_value [of streams p v] show ?thesis
    by (auto simp: ReadNonEmptyTextFile_def Let_def so_ok_sum ReadTextFile_inv ValueOrDie_sum StatusOr_status_sum readable_def)
qed

text \<open>The text of a file that \<open>ReadHexFile\<close> decodes.\<close>

definition hex_text :: "Absl \<Rightarrow> string \<Rightarrow> bool" where
  "hex_text absl v \<longleftrightarrow> v \<noteq> [] \<and> even (length (StripAsciiWhitespace absl v)) \<and> list_all (ascii_isxdigit absl) (StripAsciiWhitespace absl v)"

lemma ReadHexFile_spec:
  "\<exists>s. ReadHexFile absl streams p = Some s \<and> so_inv s \<and>
     (\<forall>b. to_sum s = Inr b \<longleftrightarrow> p \<noteq> [] \<and> readable (streams p) \<and> hex_text absl (content (streams p)) \<and>
        b = HexStringToBytes absl (StripAsciiWhitespace absl (content (streams p))))"
proof -
  obtain s where s: "ReadNonEmptyTextFile streams p = Some s" "so_inv s"
    "\<And>v. to_sum s = Inr v \<longleftrightarrow> p \<noteq> [] \<and> readable (streams p) \<and> v = content (streams p) \<and> v \<noteq> []"
    using ReadNonEmptyTextFile_spec [of streams p] by auto
  show ?thesis
  proof (cases "to_sum s")
    case (Inl st)
    with s show ?thesis by (auto simp: ReadHexFile_def so_ok_sum hex_text_def)
  next
    case (Inr v)
    with s(3) [of v] s(1,2) show ?thesis
      by (auto simp: ReadHexFile_def so_ok_sum ValueOrDie_sum Let_def StatusOr_value_sum StatusOr_status_sum hex_text_def
          find_None_iff list_all_iff odd_iff_mod_2_eq_one even_iff_mod_2_eq_zero)
  qed
qed

lemma ReadHexFileOrDefault_returns: "ReadHexFileOrDefault absl streams p d \<noteq> None"
proof -
  obtain s where "ReadHexFile absl streams p = Some s" "so_inv s" using ReadHexFile_spec [of absl streams p] by blast
  then show ?thesis by (auto simp: ReadHexFileOrDefault_def so_ok_sum ValueOrDie_sum)
qed

text \<open>A failing \<open>PemUtil::ReadTextFile\<close> leaves the string of the caller as it was.\<close>

lemma PemUtil_ReadTextFile_spec:
  "PemUtil_ReadTextFile streams p (Some old) =
     Some (if p \<noteq> [] \<and> readable (streams p) \<and> content (streams p) \<noteq> [] then (True, Some (content (streams p))) else (False, Some old))"
proof -
  obtain s where s: "ReadNonEmptyTextFile streams p = Some s" "so_inv s"
    "\<And>v. to_sum s = Inr v \<longleftrightarrow> p \<noteq> [] \<and> readable (streams p) \<and> v = content (streams p) \<and> v \<noteq> []"
    using ReadNonEmptyTextFile_spec [of streams p] by auto
  show ?thesis
  proof (cases "to_sum s")
    case (Inl st)
    with s(3) [of "content (streams p)"] s(1) show ?thesis by (auto simp: PemUtil_ReadTextFile_def so_ok_sum)
  next
    case (Inr v)
    with s(3) [of v] s(1,2) show ?thesis by (auto simp: PemUtil_ReadTextFile_def so_ok_sum ValueOrDie_sum)
  qed
qed

end
