(* ===== verification/Http_Client.thy ===== *)
theory Http_Client
  imports Status_Or Clearcut_Uploader
begin

text \<open>
  The HTTP client on top of libcurl (\<^verbatim>\<open>src/src/lib/clearcut/curl_handle.cc\<close>, \<^verbatim>\<open>curl_http_client.cc\<close>, \<^verbatim>\<open>http_client.h\<close>). libcurl is a parameter: the
  record \<open>Curl\<close> has the functions the source calls, on the state \<open>'c\<close> of an easy handle. A \<open>StatusOr\<close> is a sum whose errors are
  not \<open>OK\<close>. The lemmas say what libcurl has been asked when a response is returned, and that the errors are those which the uploader
  expects of its client.
\<close>

section \<open>Requests and responses\<close>

text \<open>The headers are an ordered map.\<close>

record HTTPResponse =
  response :: string
  resp_status :: UtilStatus
  http_code :: int
  resp_headers :: "(string \<times> string) list"

definition HTTPResponse_ctor :: "string \<Rightarrow> UtilStatus \<Rightarrow> int \<Rightarrow> HTTPResponse" where
  "HTTPResponse_ctor r st code = \<lparr>response = r, resp_status = st, http_code = code, resp_headers = []\<rparr>"

record HTTPRequest =
  req_url :: string
  req_body :: string
  req_headers :: "(string \<times> string) list"

definition HTTPRequest_ctor :: "string \<Rightarrow> string \<Rightarrow> HTTPRequest" where
  "HTTPRequest_ctor u b = \<lparr>req_url = u, req_body = b, req_headers = []\<rparr>"

section \<open>The handle\<close>

datatype CURLcode = CURLE_OK | CURLE_OPERATION_TIMEDOUT | CURLE_OTHER nat

datatype CURLoption =
    CURLOPT_ERRORBUFFER | CURLOPT_WRITEDATA | CURLOPT_WRITEFUNCTION | CURLOPT_HTTPHEADER "string list" | CURLOPT_TIMEOUT_MS int
  | CURLOPT_URL string | CURLOPT_POSTFIELDSIZE nat | CURLOPT_POSTFIELDS string

text \<open>\<open>curl_easy_perform\<close> also yields the pieces of the body with which it called the write function, and \<open>errbuf\<close> is the error buffer up to its first zero.\<close>

record 'c Curl =
  curl_easy_init :: "'c option"
  curl_easy_setopt :: "'c \<Rightarrow> CURLoption \<Rightarrow> CURLcode \<times> 'c"
  curl_easy_perform :: "'c \<Rightarrow> CURLcode \<times> string list \<times> 'c"
  curl_easy_getinfo :: "'c \<Rightarrow> int"
  curl_easy_strerror :: "CURLcode \<Rightarrow> string"
  errbuf :: "'c \<Rightarrow> string"

record 'c CurlHandle =
  handle :: 'c
  response_body :: string

definition CurlHandle_ctor :: "'c \<Rightarrow> 'c CurlHandle" where
  "CurlHandle_ctor h = \<lparr>handle = h, response_body = []\<rparr>"

definition CURLCodeToStatus :: "'c Curl \<Rightarrow> CURLcode \<Rightarrow> 'c CurlHandle \<Rightarrow> UtilStatus" where
  "CURLCodeToStatus lib code h =
     (let details = (if length (errbuf lib (handle h)) \<noteq> 0 then errbuf lib (handle h) else [])
      in Status_ctor_details INTERNAL (curl_easy_strerror lib code) details)"

definition Setopt :: "'c Curl \<Rightarrow> CURLoption \<Rightarrow> 'c CurlHandle \<Rightarrow> UtilStatus \<times> 'c CurlHandle" where
  "Setopt lib option h =
     (let (res, c) = curl_easy_setopt lib (handle h) option; h = h\<lparr>handle := c\<rparr>
      in if res \<noteq> CURLE_OK then (CURLCodeToStatus lib res h, h) else (Status_default, h))"

text \<open>A sequence of \<open>RETURN_IF_ERROR(Setopt(...))\<close>.\<close>

fun set_options :: "'c Curl \<Rightarrow> CURLoption list \<Rightarrow> 'c CurlHandle \<Rightarrow> UtilStatus + 'c CurlHandle" where
  "set_options lib [] h = Inr h"
| "set_options lib (option # rest) h =
     (let (status, h) = Setopt lib option h in if \<not> Status_ok status then Inl status else set_options lib rest h)"

definition Init :: "'c Curl \<Rightarrow> UtilStatus + 'c CurlHandle" where
  "Init lib =
     (case curl_easy_init lib of
        None \<Rightarrow> Inl (Status_ctor INTERNAL ''curl_easy_init() returned nullptr'')
      | Some c \<Rightarrow> set_options lib [CURLOPT_ERRORBUFFER, CURLOPT_WRITEDATA, CURLOPT_WRITEFUNCTION] (CurlHandle_ctor c))"

definition WriteResponseData :: "string \<Rightarrow> 'c CurlHandle \<Rightarrow> nat \<times> 'c CurlHandle" where
  "WriteResponseData data h = (length data, h\<lparr>response_body := response_body h @ data\<rparr>)"

definition header_str :: "string \<times> string \<Rightarrow> string" where
  "header_str header = (if snd header = [] then fst header @ '';'' else fst header @ '': '' @ snd header)"

definition SetHeaders :: "'c Curl \<Rightarrow> (string \<times> string) list \<Rightarrow> 'c CurlHandle \<Rightarrow> UtilStatus \<times> 'c CurlHandle" where
  "SetHeaders lib headers h =
     (if headers \<noteq> [] then Setopt lib (CURLOPT_HTTPHEADER (map header_str headers)) h else (Status_default, h))"

definition SetTimeout :: "'c Curl \<Rightarrow> int \<Rightarrow> 'c CurlHandle \<Rightarrow> UtilStatus \<times> 'c CurlHandle" where
  "SetTimeout lib timeout_ms h = (if timeout_ms > 0 then Setopt lib (CURLOPT_TIMEOUT_MS timeout_ms) h else (Status_default, h))"

text \<open>\<open>curl_easy_perform(handle_)\<close>, which calls the write function for every piece of the body.\<close>

definition easy_perform :: "'c Curl \<Rightarrow> 'c CurlHandle \<Rightarrow> CURLcode \<times> 'c CurlHandle" where
  "easy_perform lib h =
     (let (res, pieces, c) = curl_easy_perform lib (handle h)
      in (res, fold (\<lambda>piece h. snd (WriteResponseData piece h)) pieces (h\<lparr>handle := c\<rparr>)))"

definition CurlHandle_Post :: "'c Curl \<Rightarrow> string \<Rightarrow> string \<Rightarrow> 'c CurlHandle \<Rightarrow> UtilStatus + HTTPResponse" where
  "CurlHandle_Post lib url body h =
     (case set_options lib [CURLOPT_URL url, CURLOPT_POSTFIELDSIZE (length body), CURLOPT_POSTFIELDS body] h of
        Inl status \<Rightarrow> Inl status
      | Inr h \<Rightarrow>
          let (res, h) = easy_perform lib h
          in case res of
               CURLE_OK \<Rightarrow> Inr (HTTPResponse_ctor (response_body h) Status_default (curl_easy_getinfo lib (handle h)))
             | CURLE_OPERATION_TIMEDOUT \<Rightarrow> Inl (Status_ctor DEADLINE_EXCEEDED ''Post request timed out.'')
             | _ \<Rightarrow> Inl (CURLCodeToStatus lib res h))"

section \<open>The client\<close>

text \<open>\<open>duration_cast\<close> from nanoseconds to milliseconds truncates towards zero.\<close>

definition duration_cast_ms :: "int \<Rightarrow> int" where
  "duration_cast_ms d = (if d \<ge> 0 then d div 1000000 else - (- d div 1000000))"

definition CurlHTTPClient_PostSync :: "'c Curl \<Rightarrow> HTTPRequest \<Rightarrow> int \<Rightarrow> int \<Rightarrow> UtilStatus + HTTPResponse" where
  "CurlHTTPClient_PostSync lib request deadline now =
     (case Init lib of
        Inl status \<Rightarrow> Inl status
      | Inr h \<Rightarrow>
          let timeout_ms = duration_cast_ms (deadline - now);
              (_, h) = SetTimeout lib timeout_ms h;
              (_, h) = SetHeaders lib (req_headers request) h
          in CurlHandle_Post lib (req_url request) (req_body request) h)"

text \<open>The constructor: the first client initialises the library. The result is the flag afterwards and whether \<open>curl_global_init\<close> is called.\<close>

definition CurlHTTPClient_ctor :: "bool \<Rightarrow> bool \<times> bool" where
  "CurlHTTPClient_ctor global_init_called = (if \<not> global_init_called then (True, True) else (global_init_called, False))"

text \<open>What the uploader reads in the answer of its client; \<open>parse\<close> is the parser of the response.\<close>

definition outcome_of :: "(string \<Rightarrow> int option) \<Rightarrow> UtilStatus + HTTPResponse \<Rightarrow> PostOutcome" where
  "outcome_of parse r = (case r of Inl st \<Rightarrow> PostError (error_code st) | Inr resp \<Rightarrow> Response (http_code resp) (parse (response resp)))"

section \<open>Behaviour\<close>

declare set_options.simps [simp del]

lemma Setopt_status: "Setopt lib opt h = (st, h') \<Longrightarrow> Status_ok st \<or> error_code st = INTERNAL"
  by (auto simp: Setopt_def CURLCodeToStatus_def Status_ctor_details_def Status_default_def Status_ok_def Let_def split: prod.splits if_splits)

lemma set_options_error: "set_options lib opts h = Inl st \<Longrightarrow> error_code st = INTERNAL"
proof (induction opts arbitrary: h)
  case (Cons opt opts)
  obtain st1 h1 where "Setopt lib opt h = (st1, h1)" by force
  with Cons Setopt_status [of lib opt h st1 h1] show ?case by (auto simp: set_options.simps split: if_splits)
qed (simp add: set_options.simps)

text \<open>The errors of the client: the uploader tries again after each of them, and none is \<open>OK\<close>, as the delivery properties require of
  the outcomes of posts.\<close>

lemma PostSync_errors:
  assumes "CurlHTTPClient_PostSync lib request deadline now = Inl st"
  shows "error_code st \<in> {INTERNAL, DEADLINE_EXCEEDED}"
proof -
  have post: "error_code st \<in> {INTERNAL, DEADLINE_EXCEEDED}" if "CurlHandle_Post lib url body h = Inl st" for url body h
    using that set_options_error [of lib _ h st]
    by (auto simp: CurlHandle_Post_def CURLCodeToStatus_def Status_ctor_def Status_ctor_details_def Let_def
        split: sum.splits prod.splits CURLcode.splits)
  with assms show ?thesis
    by (auto simp: CurlHTTPClient_PostSync_def Init_def Status_ctor_def Let_def dest: set_options_error
        split: sum.splits option.splits prod.splits)
qed

lemma PostSync_real_outcome: "real_outcome (outcome_of parse (CurlHTTPClient_PostSync lib request deadline now))"
  and PostSync_not_permanent: "CurlHTTPClient_PostSync lib request deadline now = Inl st \<Longrightarrow> \<not> permanent_error (error_code st)"
  using PostSync_errors [of lib request deadline now]
  by (auto simp: real_outcome_def outcome_of_def permanent_error_def split: sum.splits)

text \<open>\<open>opts\<close> are the options libcurl has accepted: an option whose call succeeds is set, one whose call fails changes nothing.\<close>

definition curl_options :: "'c Curl \<Rightarrow> ('c \<Rightarrow> CURLoption list) \<Rightarrow> bool" where
  "curl_options lib opts \<longleftrightarrow>
     (\<forall>c opt. opts (snd (curl_easy_setopt lib c opt)) = (if fst (curl_easy_setopt lib c opt) = CURLE_OK then opt # opts c else opts c)) \<and>
     (\<forall>c. curl_easy_init lib = Some c \<longrightarrow> opts c = [])"

lemma Setopt_options:
  assumes "curl_options lib opts" and "Setopt lib opt h = (st, h')"
  shows "opts (handle h') = (if Status_ok st then opt # opts (handle h) else opts (handle h))" and "response_body h' = response_body h"
  using assms(1) [unfolded curl_options_def, THEN conjunct1, rule_format, of "handle h" opt] assms(2)
  by (auto simp: Setopt_def CURLCodeToStatus_def Status_ctor_details_def Status_default_def Status_ok_def Let_def split: prod.splits if_splits)

lemma set_options_options:
  assumes "curl_options lib opts" and "set_options lib os h = Inr h'"
  shows "opts (handle h') = rev os @ opts (handle h) \<and> response_body h' = response_body h"
  using assms(2)
proof (induction os arbitrary: h)
  case (Cons opt os)
  obtain st h1 where 1: "Setopt lib opt h = (st, h1)" by force
  with Cons.prems have "Status_ok st" "set_options lib os h1 = Inr h'" by (auto simp: set_options.simps split: if_splits)
  with Cons.IH [of h1] Setopt_options [OF assms(1) 1] show ?case by simp
qed (simp add: set_options.simps)

lemma fold_WriteResponseData:
  "response_body (fold (\<lambda>piece h. snd (WriteResponseData piece h)) pieces h) = response_body h @ concat pieces"
  "handle (fold (\<lambda>piece h. snd (WriteResponseData piece h)) pieces h) = handle h"
  by (induction pieces arbitrary: h) (simp_all add: WriteResponseData_def)

text \<open>What the handle has been told before the options of the post: the timeout only when it is positive.\<close>

definition prepared :: "HTTPRequest \<Rightarrow> int \<Rightarrow> CURLoption list \<Rightarrow> bool" where
  "prepared request timeout_ms os \<longleftrightarrow>
     set os \<subseteq> {CURLOPT_ERRORBUFFER, CURLOPT_WRITEDATA, CURLOPT_WRITEFUNCTION, CURLOPT_HTTPHEADER (map header_str (req_headers request))} \<union>
       (if timeout_ms > 0 then {CURLOPT_TIMEOUT_MS timeout_ms} else {}) \<and>
     {CURLOPT_ERRORBUFFER, CURLOPT_WRITEDATA, CURLOPT_WRITEFUNCTION} \<subseteq> set os"

lemma SetTimeout_options:
  assumes "curl_options lib opts" and "SetTimeout lib t h = (st, h')"
  shows "response_body h' = response_body h" and "set (opts (handle h)) \<subseteq> set (opts (handle h'))"
    and "set (opts (handle h')) \<subseteq> set (opts (handle h)) \<union> (if t > 0 then {CURLOPT_TIMEOUT_MS t} else {})"
  using assms Setopt_options [OF assms(1), of "CURLOPT_TIMEOUT_MS t" h st h'] by (auto simp: SetTimeout_def split: if_splits)

lemma SetHeaders_options:
  assumes "curl_options lib opts" and "SetHeaders lib hs h = (st, h')"
  shows "response_body h' = response_body h" and "set (opts (handle h)) \<subseteq> set (opts (handle h'))"
    and "set (opts (handle h')) \<subseteq> set (opts (handle h)) \<union> {CURLOPT_HTTPHEADER (map header_str hs)}"
  using assms Setopt_options [OF assms(1), of "CURLOPT_HTTPHEADER (map header_str hs)" h st h'] by (auto simp: SetHeaders_def split: if_splits)

text \<open>A response is returned only after libcurl has successfully posted the whole body to the URL, and it has the code of the server and the whole body that was received.\<close>

lemma PostSync_response:
  assumes lib: "curl_options lib opts" and r: "CurlHTTPClient_PostSync lib request deadline now = Inr r"
  shows "\<exists>c pieces c' os. curl_easy_perform lib c = (CURLE_OK, pieces, c') \<and>
    opts c = [CURLOPT_POSTFIELDS (req_body request), CURLOPT_POSTFIELDSIZE (length (req_body request)), CURLOPT_URL (req_url request)] @ os \<and>
    prepared request (duration_cast_ms (deadline - now)) os \<and>
    response r = concat pieces \<and> http_code r = curl_easy_getinfo lib c'"
proof -
  obtain h0 where h0: "Init lib = Inr h0" using r by (auto simp: CurlHTTPClient_PostSync_def split: sum.splits)
  obtain st1 h1 where h1: "SetTimeout lib (duration_cast_ms (deadline - now)) h0 = (st1, h1)" by force
  obtain st2 h2 where h2: "SetHeaders lib (req_headers request) h1 = (st2, h2)" by force
  have post: "CurlHandle_Post lib (req_url request) (req_body request) h2 = Inr r"
    using r by (simp add: CurlHTTPClient_PostSync_def h0 h1 h2)
  obtain c0 where c0: "curl_easy_init lib = Some c0"
    "set_options lib [CURLOPT_ERRORBUFFER, CURLOPT_WRITEDATA, CURLOPT_WRITEFUNCTION] (CurlHandle_ctor c0) = Inr h0"
    using h0 by (auto simp: Init_def split: option.splits)
  have "opts c0 = []" using lib c0(1) by (simp add: curl_options_def)
  with set_options_options [OF lib c0(2)]
  have "opts (handle h0) = [CURLOPT_WRITEFUNCTION, CURLOPT_WRITEDATA, CURLOPT_ERRORBUFFER]" "response_body h0 = []"
    by (simp_all add: CurlHandle_ctor_def)
  with SetTimeout_options [OF lib h1] SetHeaders_options [OF lib h2]
  have prep: "prepared request (duration_cast_ms (deadline - now)) (opts (handle h2))" "response_body h2 = []"
    by (auto simp: prepared_def split: if_splits)
  obtain h3 where h3: "set_options lib [CURLOPT_URL (req_url request), CURLOPT_POSTFIELDSIZE (length (req_body request)), CURLOPT_POSTFIELDS (req_body request)] h2 = Inr h3"
    and perf: "(let (res, h) = easy_perform lib h3 in case res of
        CURLE_OK \<Rightarrow> Inr (HTTPResponse_ctor (response_body h) Status_default (curl_easy_getinfo lib (handle h)))
      | CURLE_OPERATION_TIMEDOUT \<Rightarrow> Inl (Status_ctor DEADLINE_EXCEEDED ''Post request timed out.'')
      | _ \<Rightarrow> Inl (CURLCodeToStatus lib res h)) = Inr r"
    using post by (auto simp: CurlHandle_Post_def split: sum.splits)
  obtain pieces c' where p: "curl_easy_perform lib (handle h3) = (CURLE_OK, pieces, c')"
    using perf by (auto simp: easy_perform_def split: prod.splits CURLcode.splits)
  with perf set_options_options [OF lib h3] prep have "response r = concat pieces" "http_code r = curl_easy_getinfo lib c'"
    by (auto simp: easy_perform_def HTTPResponse_ctor_def fold_WriteResponseData)
  with p prep(1) set_options_options [OF lib h3] show ?thesis by auto
qed

text \<open>When the deadline has passed, no timeout is set and the post may take any time.\<close>

lemma PostSync_no_timeout:
  assumes "curl_options lib opts" and "CurlHTTPClient_PostSync lib request deadline now = Inr r" and "deadline \<le> now"
  shows "\<exists>c pieces c'. curl_easy_perform lib c = (CURLE_OK, pieces, c') \<and> (\<forall>t. CURLOPT_TIMEOUT_MS t \<notin> set (opts c))"
proof -
  have "\<not> duration_cast_ms (deadline - now) > 0" using assms(3) by (auto simp: duration_cast_ms_def)
  with PostSync_response [OF assms(1,2)] show ?thesis by (fastforce simp: prepared_def)
qed

end
