(* ===== verification/Locks_And_Clocks.thy ===== *)
theory Locks_And_Clocks
  imports Cobalt_Prelude
begin

text \<open>
  Protected fields, clocks and sleepers (\<^verbatim>\<open>src/src/lib/util/protected_fields.h\<close>, \<^verbatim>\<open>clock.h\<close>, \<^verbatim>\<open>sleeper.h\<close>). The threads that share protected
  fields are a step relation, and in all reachable states a thread that can write has the only access to
  the fields. The components above have their critical sections as single steps, and a clock as the sequence of its
  readings. The lemmas here give the reasons.
\<close>

section \<open>Protected fields\<close>

text \<open>A \<open>BaseLockedFieldsPtr\<close>. \<open>lf_fields\<close> says whether \<open>fields_\<close> points to the fields and \<open>lf_hidden\<close> whether \<open>hidden_fields_\<close> does; the other of the two is
  never initialised. \<open>lf_const\<close> distinguishes \<open>ConstLockedFieldsPtr\<close> from \<open>LockedFieldsPtr\<close>, and \<open>lf_owns\<close> is that of the lock.\<close>

record LockedFieldsPtr =
  lf_const :: bool
  lf_owns :: bool
  lf_fields :: bool
  lf_hidden :: bool

text \<open>\<open>pf_shared\<close> distinguishes \<open>RWProtectedFields\<close> from \<open>ProtectedFields\<close>. The mutex has at most one exclusive owner or a number of shared ones.\<close>

record 'f ProtectedFields =
  pf_shared :: bool
  pf_exclusive :: bool
  pf_readers :: nat
  pf_fields :: 'f
  pf_ptrs :: "nat \<rightharpoonup> LockedFieldsPtr"

text \<open>The lock of a pointer is shared for a \<open>ConstLockedFieldsPtr\<close> of \<open>RWProtectedFields\<close> only.\<close>

definition shared_lock :: "'f ProtectedFields \<Rightarrow> bool \<Rightarrow> bool" where
  "shared_lock s const \<longleftrightarrow> pf_shared s \<and> const"

definition can_acquire :: "'f ProtectedFields \<Rightarrow> bool \<Rightarrow> bool" where
  "can_acquire s const \<longleftrightarrow> \<not> pf_exclusive s \<and> (shared_lock s const \<or> pf_readers s = 0)"

definition acquire :: "'f ProtectedFields \<Rightarrow> bool \<Rightarrow> 'f ProtectedFields" where
  "acquire s const = (if shared_lock s const then s\<lparr>pf_readers := pf_readers s + 1\<rparr> else s\<lparr>pf_exclusive := True\<rparr>)"

definition release :: "'f ProtectedFields \<Rightarrow> bool \<Rightarrow> 'f ProtectedFields" where
  "release s const = (if shared_lock s const then s\<lparr>pf_readers := pf_readers s - 1\<rparr> else s\<lparr>pf_exclusive := False\<rparr>)"

definition BaseProtectedFields_ctor :: "bool \<Rightarrow> 'f \<Rightarrow> 'f ProtectedFields" where
  "BaseProtectedFields_ctor shared f = \<lparr>pf_shared = shared, pf_exclusive = False, pf_readers = 0, pf_fields = f, pf_ptrs = Map.empty\<rparr>"

definition LockedFieldsPtr_ctor :: "bool \<Rightarrow> LockedFieldsPtr" where
  "LockedFieldsPtr_ctor const = \<lparr>lf_const = const, lf_owns = True, lf_fields = True, lf_hidden = False\<rparr>"

text \<open>\<open>lock()\<close> and \<open>const_lock()\<close> of the fields, after the mutex could be acquired.\<close>

definition pf_lock :: "bool \<Rightarrow> nat \<Rightarrow> 'f ProtectedFields \<Rightarrow> 'f ProtectedFields" where
  "pf_lock const p s = (acquire s const)\<lparr>pf_ptrs := (pf_ptrs s)(p \<mapsto> LockedFieldsPtr_ctor const)\<rparr>"

definition swap_fields :: "LockedFieldsPtr \<Rightarrow> LockedFieldsPtr" where
  "swap_fields l = l\<lparr>lf_fields := lf_hidden l, lf_hidden := lf_fields l\<rparr>"

text \<open>\<open>lock()\<close> and \<open>unlock()\<close> of a pointer, and its destructor.\<close>

definition ptr_lock :: "nat \<Rightarrow> LockedFieldsPtr \<Rightarrow> 'f ProtectedFields \<Rightarrow> 'f ProtectedFields" where
  "ptr_lock p l s = (acquire s (lf_const l))\<lparr>pf_ptrs := (pf_ptrs s)(p \<mapsto> swap_fields (l\<lparr>lf_owns := True\<rparr>))\<rparr>"

definition ptr_unlock :: "nat \<Rightarrow> LockedFieldsPtr \<Rightarrow> 'f ProtectedFields \<Rightarrow> 'f ProtectedFields" where
  "ptr_unlock p l s = (release s (lf_const l))\<lparr>pf_ptrs := (pf_ptrs s)(p \<mapsto> (swap_fields l)\<lparr>lf_owns := False\<rparr>)\<rparr>"

definition ptr_destroy :: "nat \<Rightarrow> LockedFieldsPtr \<Rightarrow> 'f ProtectedFields \<Rightarrow> 'f ProtectedFields" where
  "ptr_destroy p l s = (if lf_owns l then release s (lf_const l) else s)\<lparr>pf_ptrs := (pf_ptrs s)(p := None)\<rparr>"

text \<open>The steps of the threads. The first component of a label is the pointer that takes the step. A thread that cannot acquire the mutex waits, that is, it takes no step. Dereferencing a pointer
  reads \<open>fields_\<close> whatever the lock is; an uninitialised pointer must not be dereferenced. A pointer from which another was moved is not used any more, and is the new one here.\<close>

datatype 'f pf_action = Lock bool | PtrLock | PtrUnlock | PtrDestroy | WriteFields 'f | ReadFields 'f

inductive pf_step :: "'f ProtectedFields \<Rightarrow> nat \<times> 'f pf_action \<Rightarrow> 'f ProtectedFields \<Rightarrow> bool" where
  step_lock: "pf_ptrs s p = None \<Longrightarrow> can_acquire s const \<Longrightarrow> pf_step s (p, Lock const) (pf_lock const p s)"
| step_ptr_lock: "pf_ptrs s p = Some l \<Longrightarrow> \<not> lf_owns l \<Longrightarrow> can_acquire s (lf_const l) \<Longrightarrow> pf_step s (p, PtrLock) (ptr_lock p l s)"
| step_ptr_unlock: "pf_ptrs s p = Some l \<Longrightarrow> lf_owns l \<Longrightarrow> pf_step s (p, PtrUnlock) (ptr_unlock p l s)"
| step_destroy: "pf_ptrs s p = Some l \<Longrightarrow> pf_step s (p, PtrDestroy) (ptr_destroy p l s)"
| step_write: "pf_ptrs s p = Some l \<Longrightarrow> lf_fields l \<Longrightarrow> \<not> lf_const l \<Longrightarrow> pf_step s (p, WriteFields f) (s\<lparr>pf_fields := f\<rparr>)"
| step_read: "pf_ptrs s p = Some l \<Longrightarrow> lf_fields l \<Longrightarrow> pf_step s (p, ReadFields (pf_fields s)) s"

inductive pf_steps :: "'f ProtectedFields \<Rightarrow> (nat \<times> 'f pf_action) list \<Rightarrow> 'f ProtectedFields \<Rightarrow> bool" where
  pf_refl: "pf_steps s [] s"
| pf_next: "pf_steps s as s1 \<Longrightarrow> pf_step s1 a s2 \<Longrightarrow> pf_steps s (as @ [a]) s2"

inductive_cases pf_writeE: "pf_step s (p, WriteFields f) s'"

text \<open>The pointers that own a lock of a kind.\<close>

definition owners :: "bool \<Rightarrow> 'f ProtectedFields \<Rightarrow> nat set" where
  "owners shared s = {p. \<exists>l. pf_ptrs s p = Some l \<and> lf_owns l \<and> shared_lock s (lf_const l) = shared}"

text \<open>A pointer gives access exactly while it owns the mutex, and the mutex counts the owners.\<close>

definition pf_inv :: "'f ProtectedFields \<Rightarrow> bool" where
  "pf_inv s \<longleftrightarrow> (\<forall>p l. pf_ptrs s p = Some l \<longrightarrow> lf_fields l = lf_owns l \<and> lf_hidden l = (\<not> lf_owns l)) \<and>
     finite (owners False s) \<and> finite (owners True s) \<and>
     card (owners False s) = (if pf_exclusive s then 1 else 0) \<and> card (owners True s) = pf_readers s \<and>
     (pf_exclusive s \<longrightarrow> pf_readers s = 0)"

lemma owners_upd:
  assumes "pf_ptrs s' = (pf_ptrs s)(p := v)" and "pf_shared s' = pf_shared s"
  shows "owners k s' = (if \<exists>l. v = Some l \<and> lf_owns l \<and> shared_lock s (lf_const l) = k then insert p (owners k s) else owners k s - {p})"
  using assms by (auto simp: owners_def shared_lock_def split: if_splits)

lemma mutex_sel [simp]:
  "pf_shared (acquire s c) = pf_shared s" "pf_shared (release s c) = pf_shared s"
  "pf_ptrs (acquire s c) = pf_ptrs s" "pf_ptrs (release s c) = pf_ptrs s"
  by (simp_all add: acquire_def release_def)

text \<open>A pointer that starts to own the mutex, and one that ceases to.\<close>

lemma pf_inv_acquire:
  assumes inv: "pf_inv s" and can: "can_acquire s const" and p: "\<forall>l. pf_ptrs s p = Some l \<longrightarrow> \<not> lf_owns l"
    and l: "lf_const l = const" "lf_owns l" "lf_fields l" "\<not> lf_hidden l"
  shows "pf_inv ((acquire s const)\<lparr>pf_ptrs := (pf_ptrs s)(p \<mapsto> l)\<rparr>)"
proof -
  let ?s = "(acquire s const)\<lparr>pf_ptrs := (pf_ptrs s)(p \<mapsto> l)\<rparr>"
  have not: "p \<notin> owners k s" for k using p by (auto simp: owners_def)
  have o: "owners k ?s = (if shared_lock s const = k then insert p (owners k s) else owners k s)" for k
    using owners_upd [of ?s s p "Some l" k] l not [of k] by (auto simp: acquire_def)
  have c: "pf_exclusive s = False" "shared_lock s const \<or> pf_readers s = 0" using can by (auto simp: can_acquire_def)
  show ?thesis using inv c not unfolding pf_inv_def o by (auto simp: acquire_def l)
qed

lemma pf_inv_release:
  assumes inv: "pf_inv s" and p: "pf_ptrs s p = Some l" "lf_owns l"
    and v: "\<forall>l'. v = Some l' \<longrightarrow> \<not> lf_owns l' \<and> \<not> lf_fields l' \<and> lf_hidden l'"
  shows "pf_inv ((release s (lf_const l))\<lparr>pf_ptrs := (pf_ptrs s)(p := v)\<rparr>)"
proof -
  let ?s = "(release s (lf_const l))\<lparr>pf_ptrs := (pf_ptrs s)(p := v)\<rparr>"
  have o: "owners k ?s = owners k s - {p}" for k
    using owners_upd [of ?s s p v k] v by (auto simp: release_def)
  have mem: "p \<in> owners k s \<longleftrightarrow> shared_lock s (lf_const l) = k" for k using p by (auto simp: owners_def)
  have fin: "finite (owners k s)" for k using inv by (cases k) (simp_all add: pf_inv_def)
  then have "card (owners (shared_lock s (lf_const l)) s) > 0"
    using mem [of "shared_lock s (lf_const l)"] by (auto simp: card_gt_0_iff)
  then show ?thesis using inv v mem unfolding pf_inv_def o by (cases "shared_lock s (lf_const l)") (auto simp: release_def)
qed

lemma pf_inv_step: "pf_step s a s' \<Longrightarrow> pf_inv s \<Longrightarrow> pf_inv s'"
proof (induction rule: pf_step.induct)
  case (step_lock s p const)
  then show ?case unfolding pf_lock_def by (intro pf_inv_acquire) (auto simp: LockedFieldsPtr_ctor_def)
next
  case (step_ptr_lock s p l)
  then have "lf_hidden l" "\<not> lf_fields l" by (auto simp: pf_inv_def)
  with step_ptr_lock show ?case unfolding ptr_lock_def by (intro pf_inv_acquire) (auto simp: swap_fields_def)
next
  case (step_ptr_unlock s p l)
  then have "\<not> lf_hidden l" "lf_fields l" by (auto simp: pf_inv_def)
  with step_ptr_unlock show ?case unfolding ptr_unlock_def by (intro pf_inv_release) (auto simp: swap_fields_def)
next
  case (step_destroy s p l)
  show ?case
  proof (cases "lf_owns l")
    case True
    with step_destroy show ?thesis unfolding ptr_destroy_def by (auto intro!: pf_inv_release)
  next
    case False
    have "owners k (s\<lparr>pf_ptrs := (pf_ptrs s)(p := None)\<rparr>) = owners k s" for k
      using owners_upd [of "s\<lparr>pf_ptrs := (pf_ptrs s)(p := None)\<rparr>" s p None k] step_destroy False by (auto simp: owners_def)
    with False step_destroy show ?thesis by (auto simp: ptr_destroy_def pf_inv_def)
  qed
next
  case (step_write s p l f)
  have "owners k (s\<lparr>pf_fields := f\<rparr>) = owners k s" for k by (simp add: owners_def shared_lock_def)
  with step_write show ?case by (auto simp: pf_inv_def)
qed

lemma pf_inv_reachable: "pf_steps (BaseProtectedFields_ctor shared f) as s \<Longrightarrow> pf_inv s"
proof (induction "BaseProtectedFields_ctor shared f" as s rule: pf_steps.induct)
  case pf_refl
  then show ?case by (simp add: pf_inv_def BaseProtectedFields_ctor_def owners_def)
qed (rule pf_inv_step)

text \<open>Mutual exclusion: whoever can reach the fields through a pointer with write access is the only one who can reach them.\<close>

lemma exclusive_access:
  assumes "pf_steps (BaseProtectedFields_ctor shared f) as s"
    and p: "pf_ptrs s p = Some l" "lf_fields l" and q: "pf_ptrs s q = Some l'" "lf_fields l'" and "p \<noteq> q"
  shows "pf_shared s \<and> lf_const l \<and> lf_const l'"
proof (rule ccontr)
  assume neg: "\<not> ?thesis"
  have inv: "pf_inv s" using pf_inv_reachable [OF assms(1)] .
  have own: "p \<in> owners (shared_lock s (lf_const l)) s" "q \<in> owners (shared_lock s (lf_const l')) s"
    using inv p q by (auto simp: owners_def pf_inv_def)
  have not_both: "\<not> (shared_lock s (lf_const l) \<and> shared_lock s (lf_const l'))" using neg by (auto simp: shared_lock_def)
  show False
  proof (cases "pf_exclusive s")
    case True
    then obtain x where "owners False s = {x}" "owners True s = {}" using inv by (auto simp: pf_inv_def card_1_singleton_iff)
    with own \<open>p \<noteq> q\<close> show False by (cases "shared_lock s (lf_const l)"; cases "shared_lock s (lf_const l')") auto
  next
    case False
    then have "owners False s = {}" using inv by (auto simp: pf_inv_def)
    with own not_both show False by (cases "shared_lock s (lf_const l)"; cases "shared_lock s (lf_const l')") auto
  qed
qed

lemma fields_stable:
  assumes "pf_steps (BaseProtectedFields_ctor shared f) as s" and "pf_ptrs s p = Some l" "lf_fields l"
    and "pf_step s (q, a) s'" and "q \<noteq> p"
  shows "pf_fields s' = pf_fields s \<and> pf_ptrs s' p = Some l"
  using assms(4)
proof cases
  case (step_write l' g)
  with exclusive_access [OF assms(1,2,3) step_write(3,4)] assms(5) show ?thesis by auto
qed (use assms in \<open>auto simp: pf_lock_def ptr_lock_def ptr_unlock_def ptr_destroy_def acquire_def release_def\<close>)

text \<open>C33. Protected fields are protected. In every state that threads can reach by locking, unlocking, destroying and dereferencing pointers to the fields in any order, a
  thread whose pointer gives access to the fields shares this access only with readers of \<open>RWProtectedFields\<close>, and then reads only. No step of
  another thread changes the fields, or takes the access away, while it has it: a critical section is one atomic step, as the other
  components assume.\<close>

theorem critical_sections_are_atomic:
  assumes "pf_steps (BaseProtectedFields_ctor shared f) as s" and "pf_ptrs s p = Some l" and "lf_fields l"
  shows "(\<forall>q l'. q \<noteq> p \<and> pf_ptrs s q = Some l' \<and> lf_fields l' \<longrightarrow> pf_shared s \<and> lf_const l \<and> lf_const l') \<and>
    (\<forall>q a s'. q \<noteq> p \<and> pf_step s (q, a) s' \<longrightarrow> pf_fields s' = pf_fields s \<and> pf_ptrs s' p = Some l)"
  using exclusive_access [OF assms] fields_stable [OF assms] by metis

text \<open>Two readers of the same fields.\<close>

lemma two_readers:
  "pf_steps (BaseProtectedFields_ctor True (5 :: int)) [(0, Lock True), (1, Lock True)] (pf_lock True 1 (pf_lock True 0 (BaseProtectedFields_ctor True 5)))"
proof -
  let ?s = "BaseProtectedFields_ctor True (5 :: int)"
  have 1: "pf_step ?s (0, Lock True) (pf_lock True 0 ?s)"
    by (rule step_lock) (simp_all add: BaseProtectedFields_ctor_def can_acquire_def)
  have 2: "pf_step (pf_lock True 0 ?s) (1, Lock True) (pf_lock True 1 (pf_lock True 0 ?s))"
    by (rule step_lock) (simp_all add: BaseProtectedFields_ctor_def can_acquire_def shared_lock_def pf_lock_def acquire_def)
  from pf_next [OF pf_next [OF pf_refl 1] 2] show ?thesis by simp
qed

theorem critical_sections_are_atomic_witness:
  "\<exists>s'. pf_step (pf_lock True 1 (pf_lock True 0 (BaseProtectedFields_ctor True (5 :: int)))) (1, PtrUnlock) s' \<and>
     pf_fields s' = 5 \<and> pf_ptrs s' 0 = Some (LockedFieldsPtr_ctor True)"
proof -
  let ?s = "pf_lock True 1 (pf_lock True 0 (BaseProtectedFields_ctor True (5 :: int)))"
  have p: "pf_ptrs ?s 0 = Some (LockedFieldsPtr_ctor True)" "pf_ptrs ?s 1 = Some (LockedFieldsPtr_ctor True)" "pf_fields ?s = 5"
    by (simp_all add: pf_lock_def acquire_def shared_lock_def BaseProtectedFields_ctor_def)
  have l: "lf_fields (LockedFieldsPtr_ctor True)" "lf_owns (LockedFieldsPtr_ctor True)" by (simp_all add: LockedFieldsPtr_ctor_def)
  have step: "pf_step ?s (1, PtrUnlock) (ptr_unlock 1 (LockedFieldsPtr_ctor True) ?s)" by (rule step_ptr_unlock) (fact p l)+
  with critical_sections_are_atomic [OF two_readers p(1) l(1), THEN conjunct2, rule_format, OF conjI [OF _ step]] p(3) show ?thesis by auto
qed

section \<open>Clocks\<close>

text \<open>\<open>IncrementingSystemClock\<close> and \<open>IncrementingSteadyClock\<close> have the same members; \<open>ic_called\<close> has the times for which the callback was invoked, when one is set.\<close>

record IncrementingClock =
  ic_time :: int
  ic_increment :: int
  ic_callback :: bool
  ic_called :: "int list"

definition IncrementingClock_ctor :: "int \<Rightarrow> IncrementingClock" where
  "IncrementingClock_ctor increment = \<lparr>ic_time = 0, ic_increment = increment, ic_callback = False, ic_called = []\<rparr>"

definition increment_by :: "int \<Rightarrow> IncrementingClock \<Rightarrow> IncrementingClock" where
  "increment_by d c = (let t = ic_time c + d in c\<lparr>ic_time := t, ic_called := (if ic_callback c then t # ic_called c else ic_called c)\<rparr>)"

definition clock_now :: "IncrementingClock \<Rightarrow> int \<times> IncrementingClock" where
  "clock_now c =
     (let t = ic_time c + ic_increment c;
          c = c\<lparr>ic_time := t, ic_called := (if ic_callback c then t # ic_called c else ic_called c)\<rparr>
      in (t, c))"

definition peek_now :: "IncrementingClock \<Rightarrow> int" where "peek_now c = ic_time c"

definition peek_later :: "IncrementingClock \<Rightarrow> int" where "peek_later c = ic_time c + ic_increment c"

definition set_increment :: "int \<Rightarrow> IncrementingClock \<Rightarrow> IncrementingClock" where "set_increment d c = c\<lparr>ic_increment := d\<rparr>"

definition set_time :: "int \<Rightarrow> IncrementingClock \<Rightarrow> IncrementingClock" where "set_time t c = c\<lparr>ic_time := t\<rparr>"

text \<open>\<open>AlwaysAccurateClock\<close>, around a system clock that is given by its \<open>now\<close>.\<close>

definition AlwaysAccurateClock_now :: "('c \<Rightarrow> int \<times> 'c) \<Rightarrow> 'c \<Rightarrow> int option \<times> 'c" where
  "AlwaysAccurateClock_now now c = (case now c of (t, c) \<Rightarrow> (Some t, c))"

text \<open>\<open>FakeValidatedClock\<close>; \<open>None\<close> is \<open>front()\<close> of an empty sequence.\<close>

record 'c FakeValidatedClock =
  incrementing_clock :: 'c
  accurate_sequence :: "bool list"

definition FakeValidatedClock_ctor :: "'c \<Rightarrow> 'c FakeValidatedClock" where
  "FakeValidatedClock_ctor c = \<lparr>incrementing_clock = c, accurate_sequence = [False]\<rparr>"

definition SetAccurate :: "bool list \<Rightarrow> 'c FakeValidatedClock \<Rightarrow> 'c FakeValidatedClock" where
  "SetAccurate bs v = v\<lparr>accurate_sequence := bs\<rparr>"

definition FakeValidatedClock_now :: "('c \<Rightarrow> int \<times> 'c) \<Rightarrow> 'c FakeValidatedClock \<Rightarrow> (int option \<times> 'c FakeValidatedClock) option" where
  "FakeValidatedClock_now now v =
     (case accurate_sequence v of
        [] \<Rightarrow> None
      | accurate # rest \<Rightarrow>
          let v = (if length (accurate_sequence v) > 1 then v\<lparr>accurate_sequence := rest\<rparr> else v)
          in if accurate then (case now (incrementing_clock v) of (t, c) \<Rightarrow> Some (Some t, v\<lparr>incrementing_clock := c\<rparr>))
             else Some (None, v))"

text \<open>\<open>FakeSleeper\<close>, whose callback only observes it; times are in milliseconds.\<close>

record FakeSleeper =
  last_sleep_duration :: int
  incrementing_steady_clock :: "IncrementingClock option"

definition FakeSleeper_sleep_for :: "int \<Rightarrow> FakeSleeper \<Rightarrow> FakeSleeper" where
  "FakeSleeper_sleep_for d s = s\<lparr>last_sleep_duration := d, incrementing_steady_clock := map_option (increment_by d) (incrementing_steady_clock s)\<rparr>"

definition FakeSleeper_Reset :: "FakeSleeper \<Rightarrow> FakeSleeper" where
  "FakeSleeper_Reset s = s\<lparr>last_sleep_duration := 0\<rparr>"

text \<open>A clock is the sequence of its readings: the \<open>n\<close>-th reading is determined by \<open>n\<close>, and a validated clock answers the \<open>n\<close>-th call by the \<open>n\<close>-th element of
  its sequence, the last one from then on.\<close>

fun readings :: "nat \<Rightarrow> IncrementingClock \<Rightarrow> int list \<times> IncrementingClock" where
  "readings 0 c = ([], c)"
| "readings (Suc n) c = (case clock_now c of (t, c) \<Rightarrow> (case readings n c of (ts, c) \<Rightarrow> (t # ts, c)))"

lemma clock_now_sel: "clock_now c = (t, c') \<Longrightarrow> t = ic_time c + ic_increment c \<and> ic_time c' = t \<and> ic_increment c' = ic_increment c \<and> t = peek_later c \<and> peek_now c' = t"
  by (auto simp: clock_now_def Let_def peek_later_def peek_now_def)

lemma readings_sequence: "fst (readings n c) = map (\<lambda>i. ic_time c + int (Suc i) * ic_increment c) [0..<n]"
proof (induction n arbitrary: c)
  case (Suc n)
  obtain t c' where t: "clock_now c = (t, c')" by force
  have "fst (readings (Suc n) c) = t # map (\<lambda>i. ic_time c' + int (Suc i) * ic_increment c') [0..<n]"
    using Suc.IH [of c'] by (cases "readings n c'") (simp add: t)
  also have "\<dots> = map (\<lambda>i. ic_time c + int (Suc i) * ic_increment c) [0..<Suc n]"
    using clock_now_sel [OF t] by (simp add: upt_conv_Cons map_Suc_upt [symmetric] algebra_simps del: upt_Suc)
  finally show ?case .
qed simp

fun validated_readings :: "('c \<Rightarrow> int \<times> 'c) \<Rightarrow> nat \<Rightarrow> 'c FakeValidatedClock \<Rightarrow> int option list option" where
  "validated_readings now 0 v = Some []"
| "validated_readings now (Suc n) v =
     (case FakeValidatedClock_now now v of None \<Rightarrow> None | Some (t, v) \<Rightarrow> map_option ((#) t) (validated_readings now n v))"

lemma validated_readings_accuracy:
  assumes "accurate_sequence v \<noteq> []"
  shows "\<exists>ts. validated_readings now n v = Some ts \<and> length ts = n \<and>
    (\<forall>i<n. ts ! i \<noteq> None \<longleftrightarrow> (if i < length (accurate_sequence v) then accurate_sequence v ! i else last (accurate_sequence v)))"
  using assms
proof (induction n arbitrary: v)
  case (Suc n)
  obtain a rest where seq: "accurate_sequence v = a # rest" using Suc.prems by (cases "accurate_sequence v") auto
  define seq' where "seq' = (if rest = [] then [a] else rest)"
  obtain t v' where v': "FakeValidatedClock_now now v = Some (t, v')" "t \<noteq> None \<longleftrightarrow> a" "accurate_sequence v' = seq'"
    by (cases "now (incrementing_clock v)"; cases a; cases rest) (auto simp: FakeValidatedClock_now_def seq seq'_def)
  have ne: "accurate_sequence v' \<noteq> []" by (simp add: v'(3) seq'_def)
  from Suc.IH [OF ne] obtain ts where ts: "validated_readings now n v' = Some ts" "length ts = n"
    "\<forall>i<n. ts ! i \<noteq> None \<longleftrightarrow> (if i < length seq' then seq' ! i else last seq')" unfolding v'(3) by blast
  have "(t # ts) ! i \<noteq> None \<longleftrightarrow> (if i < length (a # rest) then (a # rest) ! i else last (a # rest))" if "i < Suc n" for i
  proof (cases i)
    case (Suc j)
    with that ts(3) [rule_format, of j] show ?thesis by (auto simp: seq'_def split: if_splits)
  qed (use v'(2) in simp)
  with ts v'(1) show ?case by (auto simp: seq)
qed simp

text \<open>A fake sleep advances the fake clock by its duration.\<close>

lemma FakeSleeper_advances:
  "incrementing_steady_clock s = Some c \<Longrightarrow>
     \<exists>c'. incrementing_steady_clock (FakeSleeper_sleep_for d s) = Some c' \<and> peek_now c' = peek_now c + d \<and> last_sleep_duration (FakeSleeper_sleep_for d s) = d"
  by (simp add: FakeSleeper_sleep_for_def increment_by_def peek_now_def Let_def)

end
