(* ===== verification/Spec2Isabelle.thy ===== *)
theory Spec2Isabelle
  imports Cobalt_Service Encrypted_Delivery Count_Min Histogram_Encoders File_Util Http_Client Locks_And_Clocks
begin

text \<open>
  \<^bold>\<open>Cobalt: the client library for privacy-preserving telemetry.\<close>

  This development models the on-device part of Cobalt (\<^verbatim>\<open>src/src/\<close>) and proves the properties that make it
  correct: that events become the right observations and aggregates, that observations are neither lost nor duplicated on
  their way to the server, that what is on the disk survives crashes, and that the calls of clients always return.

  \<^bold>\<open>The program and how its parts interact.\<close>
  A client gets a \<open>Logger\<close> from the \<open>CobaltService\<close> and calls one of its methods with a metric id. The logger looks the metric
  up in its \<open>ProjectContext\<close>, validates the event and gives it a date, or leaves it in the \<open>UndatedEventManager\<close> until the
  clock is accurate. An \<open>EventLogger\<close> then runs over the reports of the metric: some update the \<open>AggregateStore\<close>,
  others are turned into an observation at once by the \<open>Encoder\<close>, with RAPPOR noise where the report asks for it. The
  worker of the \<open>EventAggregatorManager\<close> backs the aggregates up, generates observations from them once a
  day, and collects garbage. All observations go through an \<open>ObservationWriter\<close> into an \<open>ObservationStore\<close>, in memory or in files, from
  which the worker of the \<open>ShippingManager\<close> takes envelopes and uploads them with the \<open>ClearcutUploader\<close>.

  \<^bold>\<open>Theories.\<close> Each holds the definitions of one component, in the order of the code, and its lemmas.
  \<^item> \<open>Cobalt_Prelude\<close>: machine integers, association lists in the order of their keys, decimal numerals, shared lemmas.
  \<^item> \<open>Packed_Event_Codes\<close>, \<open>Buckets_Config\<close> (\<^verbatim>\<open>registry/\<close>): round trips of packed event codes, the partition of the integers into
    buckets. \<open>Datetime_Util\<close> (\<^verbatim>\<open>lib/util/datetime_util.cc\<close>): the calendar formulas against a count of days.
  \<^item> \<open>File_System\<close> (\<^verbatim>\<open>lib/util/posix_file_system.cc\<close>, \<^verbatim>\<open>status_codes.h\<close>): a disk whose calls fail by a given list of faults and that remembers every state a
    crash can expose. \<open>Status_Or\<close> (\<^verbatim>\<open>lib/statusor/\<close>, \<^verbatim>\<open>lib/util/status.h\<close>): a \<open>StatusOr\<close> behaves as a sum, which is how the other theories write it.
    \<open>File_Util\<close> (\<^verbatim>\<open>lib/util/file_util.cc\<close>, \<^verbatim>\<open>pem_util.cc\<close>): which text and hex files are read.
    \<open>Locks_And_Clocks\<close> (\<^verbatim>\<open>lib/util/protected_fields.h\<close>, \<^verbatim>\<open>clock.h\<close>, \<^verbatim>\<open>sleeper.h\<close>): critical sections are atomic for all interleavings of threads, and a clock is the
    sequence of its readings.
  \<^item> \<open>Consistent_Proto_Store\<close> (\<^verbatim>\<open>lib/util/consistent_proto_store.cc\<close>): a crash of \<open>Write\<close> at any point leaves the old or the new message.
  \<^item> \<open>Observation_Store\<close>, \<open>Envelope_Maker\<close>, \<open>Memory_Observation_Store\<close>, \<open>File_Observation_Store\<close> (\<^verbatim>\<open>observation_store/\<close>): the stores. Their
    operations conserve the multiset of observations under their metadata, and respect the limits.
  \<^item> \<open>Shipping_Manager\<close> (\<^verbatim>\<open>uploader/\<close>): the upload schedule, \<open>SendAllEnvelopes\<close>, and the worker as a step relation that interleaves with
    the calls of other threads. The locale \<open>shipping\<close> has the contract of a store and of a backend; \<open>Shipping_Backends\<close> interprets it on
    both stores and on \<open>Clearcut_Uploader\<close> (\<^verbatim>\<open>lib/clearcut/uploader.cc\<close>) and shows that sending loses nothing. \<open>Http_Client\<close> (\<^verbatim>\<open>lib/clearcut/curl_handle.cc\<close>,
    \<^verbatim>\<open>curl_http_client.cc\<close>): the outcomes of the posts are of the kind the uploader relies on.
  \<^item> \<open>Encrypted_Messages\<close> (\<^verbatim>\<open>lib/util/encrypted_message_util.cc\<close>): which keys are accepted, and that the recipient with the private key reads what was encrypted.
    \<open>Cobalt_Config\<close> (\<^verbatim>\<open>public/cobalt_config.h\<close>, \<^verbatim>\<open>system_data/configuration_data.cc\<close>, the first part of \<^verbatim>\<open>public/cobalt_service.cc\<close>): the store, the encryption and the shipping manager that a
    configuration asks for. \<open>Encrypted_Delivery\<close> composes them: what a writer has accepted can be read by the analyzer, behind the shuffler, or is still in the store.
  \<^item> \<open>Project_Registry\<close> (\<^verbatim>\<open>registry/project_configs.cc\<close>, \<^verbatim>\<open>logger/project_context.cc\<close>, \<^verbatim>\<open>logger/project_context_factory.cc\<close>): from a registry to the metrics of a project.
  \<^item> \<open>Crypto_Random\<close> (\<^verbatim>\<open>lib/crypto_util/random.cc\<close>, \<^verbatim>\<open>system_data/client_secret.cc\<close>), \<open>Rappor\<close> (\<^verbatim>\<open>algorithms/rappor/\<close>): random bits from a stream of random bytes,
    the validation of RAPPOR configurations, encoding, counting and the estimates of the analyzer, which are exact without noise. \<open>Observation_Encoder\<close> (\<^verbatim>\<open>logger/encoder.cc\<close>, \<^verbatim>\<open>logger/observation_writer.cc\<close>).
  \<^item> \<open>Observation_Sinks\<close>: the locale \<open>observation_sink\<close>, what the writers of observations rely on, interpreted on the memory store
    behind the shipping manager.
  \<^item> \<open>Aggregate_Store\<close>, \<open>Aggregate_Generation\<close> (\<^verbatim>\<open>local_aggregation/aggregate_store.cc\<close>): registration, updates, garbage collection, backups, generation.
    \<open>Aggregate_Correctness\<close>: daily values are the aggregates of the logged values; the generation agrees with reference
    definitions that recompute every window, and emits each day exactly once whatever writes fail.
  \<^item> \<open>Event_Aggregator\<close>, \<open>Event_Loggers\<close>, \<open>Event_Delivery\<close> (\<^verbatim>\<open>local_aggregation/event_aggregator.cc\<close>, \<^verbatim>\<open>logger/event_loggers.cc\<close>): from events to observations.
  \<^item> \<open>Aggregator_Manager\<close> (\<^verbatim>\<open>local_aggregation/event_aggregator_mgr.cc\<close>): the worker, its schedule, backups and shutdown.
  \<^item> \<open>Internal_Metrics\<close>, \<open>Undated_Events\<close>, \<open>Logger\<close> (\<^verbatim>\<open>logger/\<close>): the methods of the clients. The locale \<open>internal_logger\<close> states what the metrics
    about Cobalt rely on; it is interpreted on the logger itself. All calls return, and a flush delivers the waiting events.
  \<^item> \<open>Cobalt_Service\<close> (\<^verbatim>\<open>public/cobalt_service.cc\<close>): the service. The locale \<open>silenced_store\<close> shows that nothing is collected when
    the policy forbids it; it is interpreted on both stores.

  \<^item> \<open>Local_Aggregation_11\<close> (\<^verbatim>\<open>local_aggregation_1.1/\<close>): the second generation of the aggregation, of which the code has the storage, the dispatch of events
    and the worker, but no aggregation procedure. What is stored for a metric survives a restart; the worker is a step relation.
  \<^item> \<open>System_Data\<close> (\<^verbatim>\<open>system_data/system_data.cc\<close>): the profile of the device that the encoder copies into observations.
  \<^item> \<open>Count_Min\<close>, \<open>Randomized_Response\<close>, \<open>Histogram_Encoders\<close> (\<^verbatim>\<open>algorithms/experimental/\<close>): the count-min sketch, whose estimates are upper
    bounds, and the private encoders of integers and histograms, whose sums are exact without noise.

  \<^bold>\<open>How code corresponds to definitions.\<close> Classes are records with the members as fields, enumerations and \<open>oneof\<close> fields are
  datatypes, and methods are functions from the state to the results and the new state. Integers have their width (\<open>u32\<close>, \<open>u64\<close>, \<open>i64\<close> are
  words, compared as unsigned or signed as in the code); sizes that cannot wrap on a device are natural numbers. A failed
  \<open>CHECK\<close>, a null pointer that is dereferenced and a call that never returns are the value \<open>None\<close>. A protobuf map is an association list; where the
  code iterates over one, the order is that of the list, and the properties do not depend on it. A virtual method called
  through an interface is a field of a record of functions.
  Time is a number of nanoseconds; each reading of a clock is an argument, or an element of a sequence of readings.

  \<^bold>\<open>Loops.\<close> Loops over containers are structural. \<open>window_loop\<close>, \<open>upload_loop\<close>, the binary search and the calendar loops have termination measures. \<open>send_loop\<close> is a partial function, and the
  delivery theorems show that it returns. The worker threads do not end by themselves: they are step relations with
  invariants over all reachable states, and the liveness theorems show that they return after a shutdown.

  \<^bold>\<open>Parameters.\<close> Code that is not in the repository is a parameter: the serialisation and parsing of protobuf messages, the hybrid encryption of Tink (the record \<open>Tink\<close>),
  libcurl (the record \<open>Curl\<close>), the string functions of Abseil, the random bytes of the system, SHA-256, base64, the algorithms of the random distributions of the standard library, the time zone (\<open>utc_offset\<close>), and the metric ids of the
  generated file \<^verbatim>\<open>internal_metrics_config.cb.h\<close>. Where a property needs a law, such as that parsing inverts serialisation, the law is
  a hypothesis, and the witness shows an instance that satisfies it.

  \<^bold>\<open>Not modelled.\<close> The Go, Rust and Python tools and the registry parser, the analysis-side estimators on top of the vendored minimiser (\<^verbatim>\<open>lib/lossmin\<close>) and the
  archived copies of the experimental algorithms, logging and tracing, test code and fakes, and the test application. Memory allocation and the thread scheduler are not modelled beyond the interleavings of the step relations.
\<close>

end
